(* ===== verification/Freenet_Prelude.thy ===== *)
theory Freenet_Prelude
  imports Main "HOL-Library.AList" "HOL-Library.Word" "HOL-Library.Multiset"
begin

text \<open>
  Shared material of the development: the types that stand for Rust's integers, clocks and
  hash maps, the saturating and wrapping operations the sources use, generic lemmas on
  association lists, and the locale of invariant-preserving machines that every component
  with state instantiates.

  Integers. A Rust \<open>u64\<close>, \<open>usize\<close> or \<open>u32\<close> is a \<open>nat\<close> here; where the source relies
  on the width (\<open>saturating_add\<close>, \<open>wrapping\<close> sums in a release build, casts) the bound is
  written out with \<open>u64_max\<close>, \<open>sat_add\<close>, \<open>wrap_add\<close> and their kin.  Identifiers on which
  no arithmetic is done are words or type variables.

  Clocks. \<open>Instant\<close> is an \<open>int\<close> number of nanoseconds (a monotonic clock may be read
  less than a minute after its origin, and \<open>Instant - Duration\<close> goes below it), a
  \<open>Duration\<close> a \<open>nat\<close> number of nanoseconds.  Every read of a time source is an argument of
  the operation that makes it.

  Hash maps. A \<open>HashMap\<close> or \<open>DashMap\<close> is an association list with distinct keys whose
  order is the (arbitrary) iteration order of the map; statements hold for every such list.
\<close>

named_theorems hm_simps \<open>rewriting of lookups in hash maps\<close>
named_theorems hm_intros \<open>well-formedness of hash maps\<close>

type_synonym instant = int
type_synonym duration = nat
type_synonym nanos = nat
type_synonym byte = "8 word"

definition secs :: "nat \<Rightarrow> duration" where
  "secs n = n * 1000000000"

definition millis :: "nat \<Rightarrow> duration" where
  "millis n = n * 1000000"

definition u32_max :: nat where
  "u32_max = 4294967295"

definition u64_max :: nat where
  "u64_max = 18446744073709551615"

definition sat_add :: "nat \<Rightarrow> nat \<Rightarrow> nat" where
  "sat_add a b = min (a + b) u64_max"

definition wrap_add :: "nat \<Rightarrow> nat \<Rightarrow> nat" where
  "wrap_add a b = (a + b) mod (u64_max + 1)"

definition as_u32 :: "nat \<Rightarrow> nat" where
  "as_u32 n = n mod (u32_max + 1)"

definition div_ceil :: "nat \<Rightarrow> nat \<Rightarrow> nat" where
  "div_ceil a b = a div b + (if a mod b = 0 then 0 else 1)"

text \<open>A call that may panic, return an error, or return a value.\<close>

datatype ('e, 'a) outcome = Panic | Err 'e | Ok 'a

text \<open>\<open>Instant::saturating_duration_since\<close>: zero when the other instant is later.\<close>

definition saturating_since :: "instant \<Rightarrow> instant \<Rightarrow> duration" where
  "saturating_since now t = nat (now - t)"

type_synonym ('k, 'v) hmap = "('k \<times> 'v) list"

abbreviation hm_get :: "('k, 'v) hmap \<Rightarrow> 'k \<Rightarrow> 'v option" where
  "hm_get \<equiv> map_of"

abbreviation hm_put :: "'k \<Rightarrow> 'v \<Rightarrow> ('k, 'v) hmap \<Rightarrow> ('k, 'v) hmap" where
  "hm_put \<equiv> AList.update"

abbreviation hm_del :: "'k \<Rightarrow> ('k, 'v) hmap \<Rightarrow> ('k, 'v) hmap" where
  "hm_del \<equiv> AList.delete"

abbreviation hm_keys :: "('k, 'v) hmap \<Rightarrow> 'k list" where
  "hm_keys m \<equiv> map fst m"

abbreviation hm_wf :: "('k, 'v) hmap \<Rightarrow> bool" where
  "hm_wf m \<equiv> distinct (map fst m)"

definition hm_has :: "'k \<Rightarrow> ('k, 'v) hmap \<Rightarrow> bool" where
  "hm_has k m = (map_of m k \<noteq> None)"

definition hm_retain :: "('k \<Rightarrow> 'v \<Rightarrow> bool) \<Rightarrow> ('k, 'v) hmap \<Rightarrow> ('k, 'v) hmap" where
  "hm_retain P m = filter (\<lambda>(k, v). P k v) m"

section \<open>Saturating arithmetic\<close>

lemma sat_add_exact [simp]: "a + b \<le> u64_max \<Longrightarrow> sat_add a b = a + b"
  by (simp add: sat_add_def)

lemma sat_add_le [simp]: "sat_add a b \<le> u64_max"
  by (simp add: sat_add_def)

lemma wrap_add_exact [simp]: "a + b \<le> u64_max \<Longrightarrow> wrap_add a b = a + b"
  by (simp add: wrap_add_def)

lemma as_u32_exact [simp]: "n \<le> u32_max \<Longrightarrow> as_u32 n = n"
  by (simp add: as_u32_def)

lemma as_u32_le: "as_u32 n \<le> n"
  by (simp add: as_u32_def)

lemma div_ceil_le_iff: "0 < b \<Longrightarrow> div_ceil a b \<le> k \<longleftrightarrow> a \<le> k * b"
proof -
  assume b: "0 < b"
  have split: "a = a div b * b + a mod b" by simp
  have "a mod b < b" using b by simp
  show ?thesis
  proof (cases "a mod b = 0")
    case True
    then have "a = a div b * b" using split by simp
    then have "a \<le> k * b \<longleftrightarrow> a div b * b \<le> k * b" by simp
    then show ?thesis using b True by (simp add: div_ceil_def)
  next
    case False
    have "Suc (a div b) \<le> k \<longleftrightarrow> a div b < k" by auto
    also have "\<dots> \<longleftrightarrow> a < k * b" using b by (simp add: less_mult_imp_div_less div_less_iff_less_mult)
    also have "\<dots> \<longleftrightarrow> a \<le> k * b" using False by (auto simp: le_less)
    finally show ?thesis using False by (simp add: div_ceil_def)
  qed
qed

lemma div_ceil_pos: "0 < b \<Longrightarrow> 0 < a \<Longrightarrow> 0 < div_ceil a b"
  using div_ceil_le_iff [of b a 0] by simp

section \<open>Hash maps\<close>

declare map_of_eq_Some_iff [simp del] and Some_eq_map_of_iff [simp del]

lemma hm_get_put [hm_simps]: "hm_get (hm_put k v m) x = (if x = k then Some v else hm_get m x)"
  by (simp add: update_conv')

lemma hm_get_del [hm_simps]: "hm_get (hm_del k m) x = (if x = k then None else hm_get m x)"
  by (simp add: delete_conv')

lemma hm_wf_put [hm_intros, simp]: "hm_wf m \<Longrightarrow> hm_wf (hm_put k v m)"
  by (rule distinct_update)

lemma hm_wf_del [hm_intros, simp]: "hm_wf m \<Longrightarrow> hm_wf (hm_del k m)"
  by (rule distinct_delete)

lemma hm_wf_retain [hm_intros, simp]: "hm_wf m \<Longrightarrow> hm_wf (hm_retain P m)"
  by (simp add: hm_retain_def distinct_map_filter)

lemma hm_get_retain [hm_simps]:
  "hm_wf m \<Longrightarrow> hm_get (hm_retain P m) k =
     (case hm_get m k of None \<Rightarrow> None | Some v \<Rightarrow> if P k v then Some v else None)"
  by (induction m) (auto simp: hm_retain_def map_of_eq_None_iff image_iff split: option.splits)

lemma hm_has_iff: "hm_has k m \<longleftrightarrow> k \<in> set (hm_keys m)"
  by (auto simp: hm_has_def map_of_eq_None_iff)

lemma hm_keys_put: "set (hm_keys (hm_put k v m)) = insert k (set (hm_keys m))"
  by (simp add: dom_update)

lemma hm_keys_del: "set (hm_keys (hm_del k m)) = set (hm_keys m) - {k}"
  by (simp add: delete_keys)

lemma hm_length_put:
  "length (hm_put k v m) = (if hm_has k m then length m else Suc (length m))"
  by (induction m) (auto simp: hm_has_def)

lemma hm_length_del:
  "hm_wf m \<Longrightarrow> length (hm_del k m) = (if hm_has k m then length m - 1 else length m)"
proof (induction m)
  case (Cons a m)
  then show ?case
    by (cases a; cases m) (auto simp: hm_has_def map_of_eq_None_iff image_iff)
qed (simp add: hm_has_def)

lemma hm_get_snoc:
  "k \<notin> fst ` set m \<Longrightarrow> hm_get (m @ [(k, v)]) = (hm_get m)(k \<mapsto> v)"
  by (auto simp: fun_eq_iff map_add_def map_of_eq_None_iff [symmetric] split: option.splits)

lemma hm_get_in_set: "hm_wf m \<Longrightarrow> hm_get m k = Some v \<longleftrightarrow> (k, v) \<in> set m"
  by (rule map_of_eq_Some_iff)

definition hm_sum :: "('v \<Rightarrow> nat) \<Rightarrow> ('k, 'v) hmap \<Rightarrow> nat" where
  "hm_sum f m = sum_list (map (\<lambda>(k, v). f v) m)"

lemma hm_sum_put:
  "hm_wf m \<Longrightarrow> hm_sum f (hm_put k v m) + (case hm_get m k of None \<Rightarrow> 0 | Some w \<Rightarrow> f w) = hm_sum f m + f v"
  by (induction m) (auto simp: hm_sum_def split: option.splits)

lemma hm_sum_del:
  "hm_wf m \<Longrightarrow> hm_sum f (hm_del k m) + (case hm_get m k of None \<Rightarrow> 0 | Some w \<Rightarrow> f w) = hm_sum f m"
proof (induction m)
  case (Cons a m)
  then show ?case
    by (cases a) (auto simp: hm_sum_def map_of_eq_None_iff split: option.splits)
qed (simp add: hm_sum_def)

lemma hm_sum_member: "hm_wf m \<Longrightarrow> hm_get m k = Some v \<Longrightarrow> f v \<le> hm_sum f m"
  by (drule hm_sum_del [of _ f k]) simp

lemma hm_sum_zero: "hm_sum f m = 0 \<longleftrightarrow> (\<forall>(k, v) \<in> set m. f v = 0)"
  by (auto simp: hm_sum_def)

text \<open>A property of all the values of a map.\<close>

definition hm_all :: "('v \<Rightarrow> bool) \<Rightarrow> ('k, 'v) hmap \<Rightarrow> bool" where
  "hm_all P m \<longleftrightarrow> (\<forall>(k, v) \<in> set m. P v)"

lemma hm_all_Nil [simp]: "hm_all P []"
  by (simp add: hm_all_def)

lemma hm_all_get: "hm_all P m \<Longrightarrow> hm_get m k = Some v \<Longrightarrow> P v"
  by (auto simp: hm_all_def dest: map_of_SomeD)

lemma hm_all_put [intro]: "hm_all P m \<Longrightarrow> P v \<Longrightarrow> hm_all P (hm_put k v m)"
  unfolding hm_all_def by (induction m) auto

lemma hm_all_del [intro]: "hm_all P m \<Longrightarrow> hm_all P (hm_del k m)"
  by (auto simp: hm_all_def AList.delete_eq)

lemma hm_all_retain [intro]: "hm_all P m \<Longrightarrow> hm_all P (hm_retain Q m)"
  by (auto simp: hm_all_def hm_retain_def)

lemma hm_all_mono: "hm_all P m \<Longrightarrow> (\<And>v. P v \<Longrightarrow> Q v) \<Longrightarrow> hm_all Q m"
  by (auto simp: hm_all_def)

lemma hm_length_retain: "length (hm_retain P m) \<le> length m"
  by (simp add: hm_retain_def)

lemma foldl_keeps: "I s \<Longrightarrow> (\<And>s x. I s \<Longrightarrow> I (f s x)) \<Longrightarrow> I (foldl f s xs)"
  by (induction xs arbitrary: s) simp_all

lemma set_map_filter: "set (List.map_filter f xs) = {y. \<exists>x \<in> set xs. f x = Some y}"
  by (induction xs) (auto simp: map_filter_simps split: option.splits)

lemma find_key:
  "inj f \<Longrightarrow> find (\<lambda>x. f x = f y) xs = Some z \<longleftrightarrow> z = y \<and> y \<in> set xs"
  by (induction xs) (auto simp: inj_eq)

section \<open>Ordered maps\<close>

text \<open>A \<open>BTreeMap\<close> is the association list of its entries in increasing order of the keys.\<close>

fun bt_put :: "'k::linorder \<Rightarrow> 'v \<Rightarrow> ('k \<times> 'v) list \<Rightarrow> ('k \<times> 'v) list" where
  "bt_put k v [] = [(k, v)]"
| "bt_put k v ((k', v') # m) =
     (if k < k' then (k, v) # (k', v') # m
      else if k = k' then (k, v) # m
      else (k', v') # bt_put k v m)"

abbreviation bt_wf :: "('k::linorder \<times> 'v) list \<Rightarrow> bool" where
  "bt_wf m \<equiv> sorted_wrt (<) (map fst m)"

lemma bt_put_keys: "fst ` set (bt_put k v m) = insert k (fst ` set m)"
  by (induction k v m rule: bt_put.induct) (simp_all add: insert_commute)

lemma bt_wf_put [simp]: "bt_wf m \<Longrightarrow> bt_wf (bt_put k v m)"
proof (induction m)
  case (Cons a m)
  have "\<forall>x \<in> fst ` set (bt_put k v m). fst a < x" if "fst a < k"
    using Cons.prems that by (auto simp: bt_put_keys)
  then show ?case using Cons by (cases a) auto
qed simp

lemma bt_put_less: "\<forall>n \<in> fst ` set m. k < n \<Longrightarrow> bt_put k v m = (k, v) # m"
  by (cases m) auto

lemma bt_get_put [hm_simps]: "map_of (bt_put k v m) x = (if x = k then Some v else map_of m x)"
  by (induction m) auto

lemma bt_wf_hm_wf: "bt_wf m \<Longrightarrow> hm_wf m"
  by (induction m) auto

lemma bt_wf_retain [simp]: "bt_wf m \<Longrightarrow> bt_wf (hm_retain P m)"
  unfolding hm_retain_def by (induction m) auto

lemma bt_wf_del [simp]: "bt_wf m \<Longrightarrow> bt_wf (hm_del k m)"
  using bt_wf_retain [of m "\<lambda>x _. k \<noteq> x"] by (simp add: hm_retain_def AList.delete_eq case_prod_unfold)

lemma bt_get_retain [hm_simps]:
  "bt_wf m \<Longrightarrow> hm_get (hm_retain P m) k = (case hm_get m k of None \<Rightarrow> None | Some v \<Rightarrow> if P k v then Some v else None)"
  by (rule hm_get_retain) (rule bt_wf_hm_wf)

lemma bt_sum_put:
  "bt_wf m \<Longrightarrow> hm_sum f (bt_put k v m) + (case hm_get m k of None \<Rightarrow> 0 | Some w \<Rightarrow> f w) = hm_sum f m + f v"
proof (induction m)
  case (Cons a m)
  have "map_of m k = None" if "k < fst a" using Cons.prems that by (force simp: map_of_eq_None_iff)
  then show ?case using Cons by (cases a) (auto simp: hm_sum_def)
qed (simp add: hm_sum_def)

lemma bt_put_same: "bt_wf m \<Longrightarrow> hm_get m k = Some v \<Longrightarrow> bt_put k v m = m"
proof (induction m)
  case (Cons a m)
  have "map_of m k = None" if "k < fst a" using Cons.prems(1) that by (force simp: map_of_eq_None_iff)
  then show ?case using Cons by (cases a) (auto split: if_splits)
qed simp

lemma bt_has_put [hm_simps]: "hm_has x (bt_put k v m) \<longleftrightarrow> x = k \<or> hm_has x m"
  by (simp add: hm_has_def bt_get_put)

lemma hm_has_del [hm_simps]: "hm_has x (hm_del k m) \<longleftrightarrow> x \<noteq> k \<and> hm_has x m"
  by (simp add: hm_has_def hm_get_del)

section \<open>Little-endian bytes\<close>

text \<open>\<open>to_le_bytes\<close> of the low \<open>n\<close> bytes of an integer.\<close>

fun le_bytes :: "nat \<Rightarrow> nat \<Rightarrow> byte list" where
  "le_bytes 0 v = []"
| "le_bytes (Suc n) v = word_of_nat v # le_bytes n (v div 256)"

fun of_le_bytes :: "byte list \<Rightarrow> nat" where
  "of_le_bytes [] = 0"
| "of_le_bytes (b # bs) = unat b + 256 * of_le_bytes bs"

lemma le_bytes_length [simp]: "length (le_bytes n v) = n"
  by (induction n arbitrary: v) auto

lemma byte_of_nat_eq: "(word_of_nat u :: byte) = word_of_nat v \<longleftrightarrow> u mod 256 = v mod 256"
proof -
  have "(word_of_nat u :: byte) = word_of_nat v \<longleftrightarrow>
      take_bit LENGTH(8) u = take_bit LENGTH(8) v"
    by (rule word_of_nat_eq_iff)
  then show ?thesis by (simp add: take_bit_eq_mod)
qed

lemma le_bytes_inj: "le_bytes n u = le_bytes n v \<Longrightarrow> u < 256 ^ n \<Longrightarrow> v < 256 ^ n \<Longrightarrow> u = v"
proof (induction n arbitrary: u v)
  case (Suc n)
  have "u div 256 = v div 256"
    using Suc.prems by (intro Suc.IH) (auto simp: div_less_iff_less_mult mult.commute)
  moreover have "u mod 256 = v mod 256"
    using Suc.prems by (simp add: byte_of_nat_eq)
  ultimately show ?case
    by (metis div_mult_mod_eq)
qed simp

lemma unat_byte_of_nat: "unat (word_of_nat v :: byte) = v mod 256"
  by (simp add: unat_of_nat)

lemma of_le_bytes_le_bytes: "of_le_bytes (le_bytes n v) = v mod 256 ^ n"
proof (induction n arbitrary: v)
  case (Suc n)
  then show ?case by (simp add: unat_byte_of_nat mod_mult2_eq)
qed simp

section \<open>Machines that keep an invariant\<close>

text \<open>
  The interface of a component whose operations are the events of a step function: one step
  keeps the invariant.  What every client may conclude: any sequence of events keeps it.
\<close>

locale invariant_machine =
  fixes step :: "'s \<Rightarrow> 'e \<Rightarrow> 's"
    and inv :: "'s \<Rightarrow> bool"
  assumes step_inv: "inv s \<Longrightarrow> inv (step s e)"
begin

lemma run_inv: "inv s \<Longrightarrow> inv (foldl step s es)"
  by (induction es arbitrary: s) (simp_all add: step_inv)

lemma prefix_inv: "inv s \<Longrightarrow> \<forall>n. inv (foldl step s (take n es))"
  by (simp add: run_inv)

end

locale started_machine = invariant_machine +
  fixes init :: 's
  assumes init_inv: "inv init"
begin

lemma reachable_inv: "inv (foldl step init es)"
  by (rule run_inv) (rule init_inv)

end

text \<open>
  The cost of a run, and a machine that pays for its steps from a potential, to which an event may add
  its income.
\<close>

fun run_cost :: "('s \<Rightarrow> 'e \<Rightarrow> 's) \<Rightarrow> ('s \<Rightarrow> 'e \<Rightarrow> nat) \<Rightarrow> 's \<Rightarrow> 'e list \<Rightarrow> nat" where
  "run_cost step cost s [] = 0"
| "run_cost step cost s (e # es) = cost s e + run_cost step cost (step s e) es"

locale potential_machine = invariant_machine +
  fixes cost :: "'a \<Rightarrow> 'b \<Rightarrow> nat" and pot :: "'a \<Rightarrow> nat" and income :: "'b \<Rightarrow> nat"
  assumes pay: "inv s \<Longrightarrow> cost s e + pot (step s e) \<le> pot s + income e"
begin

lemma cost_bounded: "inv s \<Longrightarrow> run_cost step cost s es + pot (foldl step s es) \<le> pot s + sum_list (map income es)"
proof (induction es arbitrary: s)
  case (Cons e es)
  then have "run_cost step cost (step s e) es + pot (foldl step (step s e) es) \<le> pot (step s e) + sum_list (map income es)"
    using step_inv by blast
  then show ?case using pay [OF Cons.prems, of e] by simp
qed simp

end

end
