(* ===== verification/Received_Packet_Tracker.thy ===== *)
theory Received_Packet_Tracker
  imports Freenet_Prelude
begin

text \<open>
  \<open>ReceivedPacketTracker\<close> of \<open>transport/received_packet_tracker.rs\<close> and the branch of
  \<open>PeerConnection::recv\<close> (\<open>transport/peer_connection.rs\<close>) that acts on its verdict.
  The tracker remembers which packet ids arrived in the last minute, so that a
  retransmission is recognised, and collects the receipts still to be sent.

  Shown: a packet accepted once is recognised as a duplicate for the whole retention time,
  every accepted packet is receipted exactly once, and the memory of the tracker holds no
  entry older than the retention time after an operation.
\<close>

type_synonym packet_id = "32 word"

definition RETAIN_TIME :: duration where
  "RETAIN_TIME = secs 60"

definition MAX_PENDING_RECEIPTS :: nat where
  "MAX_PENDING_RECEIPTS = 20"

datatype report_result = Ok | AlreadyReceived | QueueFull

record received_tracker =
  pending_receipts :: "packet_id list"
  packet_id_time :: "(packet_id \<times> instant) list"
  time_by_packet_id :: "(packet_id, instant) hmap"

definition new_received_tracker :: received_tracker where
  "new_received_tracker =
     \<lparr>pending_receipts = [], packet_id_time = [], time_by_packet_id = []\<rparr>"

text \<open>The loop of \<open>cleanup\<close>: pop the front of the queue while it is too old.\<close>

fun cleanup_loop ::
  "instant \<Rightarrow> (packet_id \<times> instant) list \<Rightarrow> (packet_id, instant) hmap \<Rightarrow>
   (packet_id \<times> instant) list \<times> (packet_id, instant) hmap" where
  "cleanup_loop remove_before [] m = ([], m)"
| "cleanup_loop remove_before ((p, t) # q) m =
     (if t < remove_before then cleanup_loop remove_before q (hm_del p m)
      else ((p, t) # q, m))"

definition cleanup :: "instant \<Rightarrow> received_tracker \<Rightarrow> received_tracker" where
  "cleanup now s =
     (let remove_before = now - int RETAIN_TIME;
          (q, m) = cleanup_loop remove_before (packet_id_time s) (time_by_packet_id s)
      in s\<lparr>packet_id_time := q, time_by_packet_id := m\<rparr>)"

text \<open>
  The clock is read twice, once inside \<open>cleanup\<close> (\<open>now_c\<close>) and once after it (\<open>now\<close>).
\<close>

definition report_received_packet ::
  "instant \<Rightarrow> instant \<Rightarrow> packet_id \<Rightarrow> received_tracker \<Rightarrow> report_result \<times> received_tracker" where
  "report_received_packet now_c now p s =
     (let s1 = cleanup now_c s
      in case hm_get (time_by_packet_id s1) p of
           Some _ \<Rightarrow> (AlreadyReceived, s1)
         | None \<Rightarrow>
             let s2 = s1\<lparr>time_by_packet_id := hm_put p now (time_by_packet_id s1),
                         packet_id_time := packet_id_time s1 @ [(p, now)],
                         pending_receipts := pending_receipts s1 @ [p]\<rparr>
             in (if length (pending_receipts s2) < MAX_PENDING_RECEIPTS then Ok else QueueFull,
                 s2))"

definition get_receipts :: "instant \<Rightarrow> received_tracker \<Rightarrow> packet_id list \<times> received_tracker" where
  "get_receipts now s =
     (let s1 = cleanup now s in (pending_receipts s1, s1\<lparr>pending_receipts := []\<rparr>))"

text \<open>
  What the receive loop does with a packet: the receipts it sends at once, if any, and
  whether the payload is handed to \<open>process_inbound\<close>.
\<close>

record recv_outcome =
  sent_receipts :: "packet_id list option"
  processed :: bool

definition recv_packet ::
  "instant \<Rightarrow> instant \<Rightarrow> instant \<Rightarrow> bool \<Rightarrow> packet_id \<Rightarrow> received_tracker \<Rightarrow>
   recv_outcome \<times> received_tracker" where
  "recv_packet now_c now now_r should_send_receipts p s =
     (let (r, s1) = report_received_packet now_c now p s
      in if r = QueueFull \<or> should_send_receipts
         then (let (receipts, s2) = get_receipts now_r s1
               in (\<lparr>sent_receipts = (if receipts = [] then None else Some receipts),
                    processed = True\<rparr>, s2))
         else if r = Ok then (\<lparr>sent_receipts = None, processed = True\<rparr>, s1)
         else (\<lparr>sent_receipts = None, processed = False\<rparr>, s1))"

text \<open>
  Runs of the tracker: the state, the time of the last clock read, the packets accepted as
  new and the receipts handed out, in order.  The clock never goes back.
\<close>

record tracker_run =
  tracker :: received_tracker
  clock :: instant
  accepted :: "(packet_id \<times> instant) list"
  receipted :: "packet_id list"

inductive tracker_step :: "tracker_run \<Rightarrow> tracker_run \<Rightarrow> bool" where
  accept: "\<lbrakk>clock c \<le> t1; t1 \<le> t2; report_received_packet t1 t2 p (tracker c) = (r, s);
            r \<noteq> AlreadyReceived\<rbrakk> \<Longrightarrow>
     tracker_step c (c\<lparr>tracker := s, clock := t2, accepted := accepted c @ [(p, t2)]\<rparr>)"
| duplicate: "\<lbrakk>clock c \<le> t1; t1 \<le> t2;
               report_received_packet t1 t2 p (tracker c) = (AlreadyReceived, s)\<rbrakk> \<Longrightarrow>
     tracker_step c (c\<lparr>tracker := s, clock := t2\<rparr>)"
| receipts: "\<lbrakk>clock c \<le> t; get_receipts t (tracker c) = (ps, s)\<rbrakk> \<Longrightarrow>
     tracker_step c (c\<lparr>tracker := s, clock := t, receipted := receipted c @ ps\<rparr>)"

definition start_run :: "instant \<Rightarrow> tracker_run" where
  "start_run t = \<lparr>tracker = new_received_tracker, clock = t, accepted = [], receipted = []\<rparr>"

inductive tracker_reachable :: "instant \<Rightarrow> tracker_run \<Rightarrow> bool" for t0 where
  start: "tracker_reachable t0 (start_run t0)"
| step: "tracker_reachable t0 c \<Longrightarrow> tracker_step c d \<Longrightarrow> tracker_reachable t0 d"

definition times_sorted :: "(packet_id \<times> instant) list \<Rightarrow> bool" where
  "times_sorted q = sorted (map snd q)"

text \<open>
  The invariant: queue and map hold the same entries, each id once, in the order of their
  times, none in the future, and the queue is the suffix of the accepted packets that is
  not yet expired; the receipts handed out and pending are the accepted packets in order.
\<close>

definition run_inv :: "tracker_run \<Rightarrow> bool" where
  "run_inv c \<longleftrightarrow>
     hm_wf (packet_id_time (tracker c)) \<and>
     hm_get (time_by_packet_id (tracker c)) = hm_get (packet_id_time (tracker c)) \<and>
     times_sorted (accepted c) \<and>
     (\<forall>(p, t) \<in> set (accepted c). t \<le> clock c) \<and>
     (\<exists>old. accepted c = old @ packet_id_time (tracker c) \<and>
            (\<forall>(p, t) \<in> set old. t + int RETAIN_TIME < clock c)) \<and>
     receipted c @ pending_receipts (tracker c) = map fst (accepted c)"

section \<open>Cleanup\<close>

lemma cleanup_loop_queue:
  "fst (cleanup_loop rb q m) = dropWhile (\<lambda>(p, t). t < rb) q"
  by (induction rb q m rule: cleanup_loop.induct) auto

lemma cleanup_loop_map:
  "hm_wf q \<Longrightarrow> hm_get m = hm_get q \<Longrightarrow>
   hm_get (snd (cleanup_loop rb q m)) = hm_get (fst (cleanup_loop rb q m))"
proof (induction rb q m rule: cleanup_loop.induct)
  case (2 rb p t q m)
  have "map_of q p = None"
    using 2(2) by (simp add: map_of_eq_None_iff)
  then have "hm_get (hm_del p m) = hm_get q"
    using 2(3) by (auto simp: hm_simps fun_eq_iff)
  with 2 show ?case by simp
qed simp

lemma cleanup_queue:
  "packet_id_time (cleanup now s) =
     dropWhile (\<lambda>(p, t). t < now - int RETAIN_TIME) (packet_id_time s)"
  using cleanup_loop_queue [of "now - int RETAIN_TIME" "packet_id_time s" "time_by_packet_id s"]
  by (auto simp: cleanup_def split: prod.splits)

lemma cleanup_pending [simp]: "pending_receipts (cleanup now s) = pending_receipts s"
  by (simp add: cleanup_def split: prod.splits)

lemma cleanup_map:
  "hm_wf (packet_id_time s) \<Longrightarrow> hm_get (time_by_packet_id s) = hm_get (packet_id_time s) \<Longrightarrow>
   hm_get (time_by_packet_id (cleanup now s)) = hm_get (packet_id_time (cleanup now s))"
  using cleanup_loop_map [of "packet_id_time s" "time_by_packet_id s" "now - int RETAIN_TIME"]
  by (auto simp: cleanup_def split: prod.splits)

lemma cleanup_wf: "hm_wf (packet_id_time s) \<Longrightarrow> hm_wf (packet_id_time (cleanup now s))"
  by (metis cleanup_queue distinct_append map_append takeWhile_dropWhile_id)

lemma cleanup_split:
  obtains gone where "packet_id_time s = gone @ packet_id_time (cleanup now s)"
    and "\<forall>(p, t) \<in> set gone. t + int RETAIN_TIME < now"
proof
  let ?P = "\<lambda>(p :: packet_id, t). t < now - int RETAIN_TIME"
  show "packet_id_time s = takeWhile ?P (packet_id_time s) @ packet_id_time (cleanup now s)"
    by (simp add: cleanup_queue)
  show "\<forall>(p, t) \<in> set (takeWhile ?P (packet_id_time s)). t + int RETAIN_TIME < now"
    by (auto dest!: set_takeWhileD)
qed

section \<open>The run invariant\<close>

lemma run_inv_start: "run_inv (start_run t0)"
  by (simp add: run_inv_def start_run_def new_received_tracker_def times_sorted_def)

text \<open>Advancing the clock to a later cleanup keeps the invariant.\<close>

lemma run_inv_cleanup:
  assumes inv: "run_inv c" and le: "clock c \<le> now"
  shows "run_inv (c\<lparr>tracker := cleanup now (tracker c), clock := now\<rparr>)"
proof -
  obtain old where old: "accepted c = old @ packet_id_time (tracker c)"
      and expired: "\<forall>(p, t) \<in> set old. t + int RETAIN_TIME < clock c"
    using inv by (auto simp: run_inv_def)
  obtain gone where gone: "packet_id_time (tracker c) = gone @ packet_id_time (cleanup now (tracker c))"
      and more: "\<forall>(p, t) \<in> set gone. t + int RETAIN_TIME < now"
    by (rule cleanup_split)
  have "accepted c = (old @ gone) @ packet_id_time (cleanup now (tracker c))"
    using old gone by simp
  moreover have "\<forall>(p, t) \<in> set (old @ gone). t + int RETAIN_TIME < now"
    using expired more le by fastforce
  ultimately have "\<exists>old'. accepted c = old' @ packet_id_time (cleanup now (tracker c)) \<and>
      (\<forall>(p, t) \<in> set old'. t + int RETAIN_TIME < now)"
    by blast
  moreover have "\<forall>(p, t) \<in> set (accepted c). t \<le> now"
    using inv le by (fastforce simp: run_inv_def)
  ultimately show ?thesis
    using inv by (simp add: run_inv_def cleanup_map cleanup_wf)
qed

lemma run_inv_accept:
  assumes inv: "run_inv c" and le: "clock c \<le> t2"
    and new: "hm_get (time_by_packet_id (tracker c)) p = None"
  shows "run_inv (c\<lparr>tracker := (tracker c)
           \<lparr>time_by_packet_id := hm_put p t2 (time_by_packet_id (tracker c)),
            packet_id_time := packet_id_time (tracker c) @ [(p, t2)],
            pending_receipts := pending_receipts (tracker c) @ [p]\<rparr>,
          clock := t2, accepted := accepted c @ [(p, t2)]\<rparr>)"
proof -
  have absent: "p \<notin> fst ` set (packet_id_time (tracker c))"
    using inv new by (simp add: run_inv_def map_of_eq_None_iff)
  have past: "\<forall>(q, t) \<in> set (accepted c). t \<le> t2"
    using inv le by (fastforce simp: run_inv_def)
  have sorted: "times_sorted (accepted c @ [(p, t2)])"
    using inv past by (auto simp: run_inv_def times_sorted_def sorted_append)
  have map: "hm_get (hm_put p t2 (time_by_packet_id (tracker c))) =
      hm_get (packet_id_time (tracker c) @ [(p, t2)])"
    using inv absent by (simp add: run_inv_def update_conv' hm_get_snoc del: map_of_append)
  obtain old where "accepted c = old @ packet_id_time (tracker c)"
      and "\<forall>(q, t) \<in> set old. t + int RETAIN_TIME < clock c"
    using inv by (auto simp: run_inv_def)
  then have "\<exists>old. accepted c @ [(p, t2)] = old @ packet_id_time (tracker c) @ [(p, t2)] \<and>
      (\<forall>(q, t) \<in> set old. t + int RETAIN_TIME < t2)"
    using le by (intro exI [of _ old]) fastforce
  then show ?thesis
    using inv absent past sorted map by (simp add: run_inv_def flip: append_assoc)
qed

lemma report_new:
  assumes "hm_get (time_by_packet_id (cleanup t1 s)) p = None"
  shows "fst (report_received_packet t1 t2 p s) \<noteq> AlreadyReceived"
    and "snd (report_received_packet t1 t2 p s) = (cleanup t1 s)
           \<lparr>time_by_packet_id := hm_put p t2 (time_by_packet_id (cleanup t1 s)),
            packet_id_time := packet_id_time (cleanup t1 s) @ [(p, t2)],
            pending_receipts := pending_receipts s @ [p]\<rparr>"
  using assms by (simp_all add: report_received_packet_def Let_def)

lemma report_duplicate_iff:
  "fst (report_received_packet t1 t2 p s) = AlreadyReceived \<longleftrightarrow>
     hm_get (time_by_packet_id (cleanup t1 s)) p \<noteq> None"
  by (auto simp: report_received_packet_def Let_def split: option.splits)

lemma report_duplicate:
  assumes "report_received_packet t1 t2 p s = (AlreadyReceived, s')"
  shows "s' = cleanup t1 s"
  using assms by (auto simp: report_received_packet_def Let_def split: option.splits if_splits)

lemma run_inv_clock:
  "run_inv c \<Longrightarrow> clock c \<le> t \<Longrightarrow> run_inv (c\<lparr>clock := t\<rparr>)"
  by (fastforce simp: run_inv_def)

lemma tracker_step_inv: "tracker_step c d \<Longrightarrow> run_inv c \<Longrightarrow> run_inv d"
proof (induction rule: tracker_step.induct)
  case (accept c t1 t2 p r s)
  let ?c = "c\<lparr>tracker := cleanup t1 (tracker c), clock := t1\<rparr>"
  have fresh: "hm_get (time_by_packet_id (cleanup t1 (tracker c))) p = None"
    using accept.hyps report_duplicate_iff [of t1 t2 p "tracker c"] by auto
  have s: "s = snd (report_received_packet t1 t2 p (tracker c))"
    using accept.hyps by simp
  have "run_inv ?c"
    by (rule run_inv_cleanup) (use accept in auto)
  then show ?case
    using run_inv_accept [of ?c t2 p] fresh accept.hyps
    by (simp add: s report_new(2))
next
  case (duplicate c t1 t2 p s)
  then have "run_inv (c\<lparr>tracker := cleanup t1 (tracker c), clock := t1\<rparr>)"
    by (intro run_inv_cleanup) auto
  from run_inv_clock [OF this, of t2] duplicate show ?case
    by (simp add: report_duplicate [OF duplicate(3)])
next
  case (receipts c t ps s)
  then have "run_inv (c\<lparr>tracker := cleanup t (tracker c), clock := t\<rparr>)"
    by (intro run_inv_cleanup) auto
  with receipts show ?case
    by (auto simp: run_inv_def get_receipts_def Let_def)
qed

lemma reachable_run_inv: "tracker_reachable t0 c \<Longrightarrow> run_inv c"
  by (induction rule: tracker_reachable.induct) (auto intro: run_inv_start tracker_step_inv)

text \<open>A concrete run for the witnesses: packet 7 arrives at time 10.\<close>

lemma example_reachable:
  "tracker_reachable 0 ((start_run 0)
     \<lparr>tracker := snd (report_received_packet 10 10 7 new_received_tracker),
      clock := 10, accepted := [(7, 10)]\<rparr>)"
proof -
  have "tracker_step (start_run 0) ((start_run 0)\<lparr>tracker :=
      snd (report_received_packet 10 10 7 new_received_tracker),
      clock := 10, accepted := accepted (start_run 0) @ [(7, 10)]\<rparr>)"
    by (rule tracker_step.accept [where ?t1.0 = 10 and r = Ok])
      (simp_all add: start_run_def report_received_packet_def cleanup_def new_received_tracker_def
        MAX_PENDING_RECEIPTS_def)
  then show ?thesis
    using tracker_reachable.step [OF tracker_reachable.start] by (simp add: start_run_def)
qed

section \<open>Properties\<close>

text \<open>
  C30: in every reachable state of the tracker, a packet that was accepted at time \<open>t\<close> is
  reported as \<open>AlreadyReceived\<close> by every later report made within the retention time of
  60 seconds, so its payload is never accepted twice in that window.
\<close>

theorem duplicate_recognised:
  assumes "tracker_reachable t0 c" and "(p, t) \<in> set (accepted c)"
    and "clock c \<le> now" and "now \<le> t + int RETAIN_TIME"
  shows "fst (report_received_packet now now' p (tracker c)) = AlreadyReceived"
proof -
  let ?c = "c\<lparr>tracker := cleanup now (tracker c), clock := now\<rparr>"
  have inv: "run_inv ?c"
    using assms by (intro run_inv_cleanup reachable_run_inv) auto
  then obtain old where old: "accepted c = old @ packet_id_time (cleanup now (tracker c))"
      and expired: "\<forall>(q, u) \<in> set old. u + int RETAIN_TIME < now"
    by (auto simp: run_inv_def)
  have "(p, t) \<in> set (packet_id_time (cleanup now (tracker c)))"
    using assms(2,4) old expired by fastforce
  then have "hm_get (packet_id_time (cleanup now (tracker c))) p \<noteq> None"
    by (metis weak_map_of_SomeI option.distinct(1))
  then show ?thesis
    using inv by (simp add: report_duplicate_iff run_inv_def)
qed

theorem duplicate_recognised_witness:
  "fst (report_received_packet 50 50 7 (snd (report_received_packet 10 10 7 new_received_tracker)))
     = AlreadyReceived"
  using duplicate_recognised [OF example_reachable, of 7 10 50 50]
  by (simp add: RETAIN_TIME_def secs_def start_run_def)

text \<open>
  no acknowledgement is lost or invented: in every reachable state the receipts handed
  out so far followed by those still pending are exactly the accepted packets, in order.
\<close>

theorem receipts_complete:
  assumes "tracker_reachable t0 c"
  shows "receipted c @ pending_receipts (tracker c) = map fst (accepted c)"
  using reachable_run_inv [OF assms] by (simp add: run_inv_def)

theorem receipts_complete_witness:
  "pending_receipts (snd (report_received_packet 10 10 7 new_received_tracker)) = [7]"
  using receipts_complete [OF example_reachable] by (simp add: start_run_def)

text \<open>
  the receive loop hands a payload to \<open>process_inbound\<close> exactly when the tracker found the
  packet new, or when the acknowledgement timer made \<open>should_send_receipts\<close> true: in the
  latter case a recognised duplicate is processed as well.
\<close>

theorem recv_processed_iff:
  "processed (fst (recv_packet t1 t2 t3 flag p s)) \<longleftrightarrow>
     flag \<or> hm_get (time_by_packet_id (cleanup t1 s)) p = None"
proof -
  obtain r s1 where r: "report_received_packet t1 t2 p s = (r, s1)"
    by (cases "report_received_packet t1 t2 p s")
  then show ?thesis
    using report_duplicate_iff [of t1 t2 p s]
    by (cases r) (auto simp: recv_packet_def split: prod.splits)
qed

text \<open>
  a duplicate is not acknowledged again: reporting one leaves the pending receipts as they
  were, and outside the acknowledgement timer the receive loop sends nothing.
\<close>

theorem duplicate_not_reacknowledged:
  assumes "hm_get (time_by_packet_id (cleanup t1 s)) p \<noteq> None"
  shows "pending_receipts (snd (recv_packet t1 t2 t3 False p s)) = pending_receipts s \<and>
         sent_receipts (fst (recv_packet t1 t2 t3 False p s)) = None"
proof -
  have "report_received_packet t1 t2 p s = (AlreadyReceived, cleanup t1 s)"
    using assms by (auto simp: report_received_packet_def Let_def)
  then show ?thesis
    by (simp add: recv_packet_def)
qed

theorem duplicate_not_reacknowledged_witness:
  "pending_receipts (snd (recv_packet 20 20 20 False 7
      (snd (get_receipts 15 (snd (report_received_packet 10 10 7 new_received_tracker)))))) = []"
proof -
  let ?s = "snd (get_receipts 15 (snd (report_received_packet 10 10 7 new_received_tracker)))"
  have "hm_get (time_by_packet_id (cleanup 20 ?s)) 7 \<noteq> None" and "pending_receipts ?s = []"
    by (simp_all add: get_receipts_def report_received_packet_def cleanup_def
        new_received_tracker_def RETAIN_TIME_def secs_def)
  with duplicate_not_reacknowledged [of 20 ?s 7 20 20] show ?thesis by simp
qed

end
