(* ===== verification/Fair_Queue.thy ===== *)
theory Fair_Queue
  imports Freenet_Prelude
begin

text \<open>
  \<open>FairEventQueue\<close> of \<open>contract/fair_queue.rs\<close>: the per-contract event queues of the
  contract executor's event loop and their round-robin service.  Contract keys and the
  payloads of the events come from \<open>freenet_stdlib\<close>; they are type variables, and
  \<open>ContractKey::id\<close> is the argument \<open>key_id\<close>.

  Shown: the queue invariant (the round-robin order lists exactly the non-empty queues,
  each once; the counter is the number of queued events; both limits hold) is kept by
  every sequence of operations; \<open>pop\<close> serves the queues as FIFO queues and finds an event
  whenever one is queued; and service is fair: a waiting contract is served after at most
  as many pops as there were queues in front of it, whatever is pushed meanwhile.
\<close>

definition MAX_QUEUED_PER_CONTRACT :: nat where
  "MAX_QUEUED_PER_CONTRACT = 100"

definition MAX_TOTAL_FAIR_QUEUE :: nat where
  "MAX_TOTAL_FAIR_QUEUE = 5000"

datatype ('key, 'id, 'x) handler_event =
    DelegateRequest 'x
  | DelegateResponse 'x
  | PutQuery 'key 'x
  | PutResponse 'x bool
  | GetQuery 'id bool
  | GetResponse "'key option" 'x
  | UpdateQuery 'key 'x
  | UpdateResponse 'x bool
  | UpdateNoChange 'key
  | RegisterSubscriberListener 'id 'x
  | RegisterSubscriberListenerResponse
  | QuerySubscriptions 'x
  | QuerySubscriptionsResponse
  | GetSummaryQuery 'key
  | GetSummaryResponse 'key 'x
  | GetDeltaQuery 'key 'x
  | GetDeltaResponse 'key 'x
  | NotifySubscriptionError 'id 'x
  | NotifySubscriptionErrorResponse
  | ClientDisconnect 'x

fun extract_contract_id :: "('key \<Rightarrow> 'id) \<Rightarrow> ('key, 'id, 'x) handler_event \<Rightarrow> 'id option" where
  "extract_contract_id key_id (PutQuery key _) = Some (key_id key)"
| "extract_contract_id key_id (UpdateQuery key _) = Some (key_id key)"
| "extract_contract_id key_id (GetSummaryQuery key) = Some (key_id key)"
| "extract_contract_id key_id (GetDeltaQuery key _) = Some (key_id key)"
| "extract_contract_id key_id (GetQuery instance_id _) = Some instance_id"
| "extract_contract_id key_id (RegisterSubscriberListener instance_id _) = Some instance_id"
| "extract_contract_id key_id (NotifySubscriptionError instance_id _) = Some instance_id"
| "extract_contract_id key_id _ = None"

datatype 'id queue_key = Contract 'id | Default

type_synonym ('key, 'id, 'x) queued_event = "nat \<times> ('key, 'id, 'x) handler_event"

record ('key, 'id, 'x) fair_queue =
  contract_queues :: "('id, ('key, 'id, 'x) queued_event list) hmap"
  default_queue :: "('key, 'id, 'x) queued_event list"
  round_robin_keys :: "'id queue_key list"
  total_queued :: nat

definition new_fair_queue :: "('key, 'id, 'x) fair_queue" where
  "new_fair_queue =
     \<lparr>contract_queues = [], default_queue = [], round_robin_keys = [], total_queued = 0\<rparr>"

text \<open>
  \<open>try_push\<close>: the left value is the rejected event.  The \<open>entry(..).or_default()\<close> of the
  source creates an empty queue before the limit is checked.
\<close>

definition try_push ::
  "('key \<Rightarrow> 'id) \<Rightarrow> nat \<Rightarrow> ('key, 'id, 'x) handler_event \<Rightarrow> ('key, 'id, 'x) fair_queue \<Rightarrow>
   (('key, 'id, 'x) queued_event + unit) \<times> ('key, 'id, 'x) fair_queue" where
  "try_push key_id i event s =
     (if MAX_TOTAL_FAIR_QUEUE \<le> total_queued s then (Inl (i, event), s)
      else case extract_contract_id key_id event of
        Some cid \<Rightarrow>
          (let queue = (case hm_get (contract_queues s) cid of None \<Rightarrow> [] | Some q \<Rightarrow> q);
               s1 = s\<lparr>contract_queues := hm_put cid queue (contract_queues s)\<rparr>
           in if MAX_QUEUED_PER_CONTRACT \<le> length queue then (Inl (i, event), s1)
              else (Inr (),
                s1\<lparr>round_robin_keys :=
                      (if queue = [] then round_robin_keys s1 @ [Contract cid]
                       else round_robin_keys s1),
                   contract_queues := hm_put cid (queue @ [(i, event)]) (contract_queues s1),
                   total_queued := total_queued s1 + 1\<rparr>))
      | None \<Rightarrow>
          (if MAX_QUEUED_PER_CONTRACT \<le> length (default_queue s) then (Inl (i, event), s)
           else (Inr (),
             s\<lparr>round_robin_keys :=
                  (if default_queue s = [] then round_robin_keys s @ [Default]
                   else round_robin_keys s),
               default_queue := default_queue s @ [(i, event)],
               total_queued := total_queued s + 1\<rparr>)))"

text \<open>
  The loop of \<open>pop\<close> over the round-robin keys: \<open>rr\<close> is the part of the order not yet
  taken off; a key whose queue is missing or empty is dropped and the loop goes on.
\<close>

fun pop_loop ::
  "'id queue_key list \<Rightarrow> ('key, 'id, 'x) fair_queue \<Rightarrow>
   ('key, 'id, 'x) queued_event option \<times> ('key, 'id, 'x) fair_queue" where
  "pop_loop [] s = (None, s\<lparr>round_robin_keys := []\<rparr>)"
| "pop_loop (Contract cid # rr) s =
     (case hm_get (contract_queues s) cid of
        Some (item # queue) \<Rightarrow>
          (Some item,
           s\<lparr>total_queued := total_queued s - 1,
             contract_queues :=
               (if queue = [] then hm_del cid (contract_queues s)
                else hm_put cid queue (contract_queues s)),
             round_robin_keys := (if queue = [] then rr else rr @ [Contract cid])\<rparr>)
      | Some [] \<Rightarrow> pop_loop rr (s\<lparr>contract_queues := hm_del cid (contract_queues s)\<rparr>)
      | None \<Rightarrow> pop_loop rr s)"
| "pop_loop (Default # rr) s =
     (case default_queue s of
        item # queue \<Rightarrow>
          (Some item,
           s\<lparr>total_queued := total_queued s - 1,
             default_queue := queue,
             round_robin_keys := (if queue = [] then rr else rr @ [Default])\<rparr>)
      | [] \<Rightarrow> pop_loop rr s)"

definition pop ::
  "('key, 'id, 'x) fair_queue \<Rightarrow>
   ('key, 'id, 'x) queued_event option \<times> ('key, 'id, 'x) fair_queue" where
  "pop s = pop_loop (round_robin_keys s) s"

text \<open>The executor's event loop as a sequence of operations on the queue.\<close>

datatype ('key, 'id, 'x) queue_op = Push nat "('key, 'id, 'x) handler_event" | Pop

fun queue_step ::
  "('key \<Rightarrow> 'id) \<Rightarrow> ('key, 'id, 'x) fair_queue \<Rightarrow> ('key, 'id, 'x) queue_op \<Rightarrow>
   ('key, 'id, 'x) fair_queue" where
  "queue_step key_id s (Push i e) = snd (try_push key_id i e s)"
| "queue_step key_id s Pop = snd (pop s)"

fun is_pop :: "('key, 'id, 'x) queue_op \<Rightarrow> bool" where
  "is_pop Pop = True"
| "is_pop (Push i e) = False"

text \<open>The abstract view: one FIFO queue per key.\<close>

fun view :: "('key, 'id, 'x) fair_queue \<Rightarrow> 'id queue_key \<Rightarrow> ('key, 'id, 'x) queued_event list" where
  "view s (Contract cid) = (case hm_get (contract_queues s) cid of None \<Rightarrow> [] | Some q \<Rightarrow> q)"
| "view s Default = default_queue s"

definition key_of :: "('key \<Rightarrow> 'id) \<Rightarrow> ('key, 'id, 'x) handler_event \<Rightarrow> 'id queue_key" where
  "key_of key_id e = (case extract_contract_id key_id e of None \<Rightarrow> Default | Some i \<Rightarrow> Contract i)"

definition queue_inv :: "('key, 'id, 'x) fair_queue \<Rightarrow> bool" where
  "queue_inv s \<longleftrightarrow>
     hm_wf (contract_queues s) \<and>
     (\<forall>cid q. hm_get (contract_queues s) cid = Some q \<longrightarrow> q \<noteq> []) \<and>
     (\<forall>k. length (view s k) \<le> MAX_QUEUED_PER_CONTRACT) \<and>
     distinct (round_robin_keys s) \<and>
     (\<forall>k. k \<in> set (round_robin_keys s) \<longleftrightarrow> view s k \<noteq> []) \<and>
     total_queued s = hm_sum length (contract_queues s) + length (default_queue s) \<and>
     total_queued s \<le> MAX_TOTAL_FAIR_QUEUE"

section \<open>The round-robin contract\<close>

text \<open>
  What a scheduler promises: service takes the key at the front of its order and may put it
  back at the end, every other operation only appends keys.  What its clients may rely on:
  a key at position \<open>n\<close> is at the front after \<open>n\<close> services, whatever else happens.
\<close>

locale round_robin = invariant_machine step inv
  for step :: "'s \<Rightarrow> 'e \<Rightarrow> 's" and inv :: "'s \<Rightarrow> bool" +
  fixes order :: "'s \<Rightarrow> 'k list"
    and serves :: "'e \<Rightarrow> bool"
  assumes appends: "inv s \<Longrightarrow> \<not> serves e \<Longrightarrow> \<exists>new. order (step s e) = order s @ new"
    and rotates: "inv s \<Longrightarrow> serves e \<Longrightarrow> \<exists>new. order (step s e) = tl (order s) @ new"
begin

lemma step_position:
  assumes "inv s" and "n < length (order s)" and "serves e \<longrightarrow> 0 < n"
  shows "n - (if serves e then 1 else 0) < length (order (step s e)) \<and>
         order (step s e) ! (n - (if serves e then 1 else 0)) = order s ! n"
proof (cases "serves e")
  case True
  then obtain new where "order (step s e) = tl (order s) @ new"
    using rotates assms(1) by blast
  then show ?thesis
    using assms True by (auto simp: nth_append nth_tl)
next
  case False
  then obtain new where "order (step s e) = order s @ new"
    using appends assms(1) by blast
  then show ?thesis
    using assms False by (simp add: nth_append)
qed

lemma served_in_turn:
  assumes "inv s" and "n < length (order s)" and "length (filter serves es) \<le> n"
  shows "n - length (filter serves es) < length (order (foldl step s es)) \<and>
         order (foldl step s es) ! (n - length (filter serves es)) = order s ! n"
  using assms
proof (induction es arbitrary: s n)
  case (Cons e es)
  let ?m = "n - (if serves e then 1 else 0)"
  have pos: "?m < length (order (step s e))" "order (step s e) ! ?m = order s ! n"
    using step_position [of s n e] Cons.prems by (auto split: if_splits)
  have "length (filter serves es) \<le> ?m"
    using Cons.prems(3) by (auto split: if_splits)
  from Cons.IH [OF step_inv [OF Cons.prems(1)] pos(1) this] pos(2) show ?case
    by (simp split: if_splits)
qed simp

end

section \<open>Pushing\<close>

lemma try_push_rejected:
  assumes "fst (try_push key_id i e s) = Inl r"
  shows "r = (i, e) \<and> snd (try_push key_id i e s) = s"
proof (cases "extract_contract_id key_id e")
  case None
  with assms show ?thesis by (auto simp: try_push_def split: if_splits)
next
  case (Some cid)
  have "hm_put cid q (contract_queues s) = contract_queues s" if "hm_get (contract_queues s) cid = Some q" for q
    using that by (rule update_triv)
  with assms Some show ?thesis
    by (auto simp: try_push_def Let_def MAX_QUEUED_PER_CONTRACT_def split: if_splits option.splits)
qed

lemma try_push_rejects_iff:
  "(\<exists>r. fst (try_push key_id i e s) = Inl r) \<longleftrightarrow>
     MAX_TOTAL_FAIR_QUEUE \<le> total_queued s \<or>
     MAX_QUEUED_PER_CONTRACT \<le> length (view s (key_of key_id e))"
  by (auto simp: try_push_def Let_def key_of_def split: option.splits)

lemma try_push_accepted:
  assumes "fst (try_push key_id i e s) = Inr ()"
  shows "view (snd (try_push key_id i e s)) =
           (view s)(key_of key_id e := view s (key_of key_id e) @ [(i, e)])"
    and "round_robin_keys (snd (try_push key_id i e s)) =
           round_robin_keys s @ (if view s (key_of key_id e) = [] then [key_of key_id e] else [])"
    and "total_queued (snd (try_push key_id i e s)) = total_queued s + 1"
    and "total_queued s < MAX_TOTAL_FAIR_QUEUE"
    and "length (view s (key_of key_id e)) < MAX_QUEUED_PER_CONTRACT"
proof -
  show "view (snd (try_push key_id i e s)) =
      (view s)(key_of key_id e := view s (key_of key_id e) @ [(i, e)])"
  proof
    fix k
    show "view (snd (try_push key_id i e s)) k =
        ((view s)(key_of key_id e := view s (key_of key_id e) @ [(i, e)])) k"
      using assms by (cases k; cases "extract_contract_id key_id e")
        (auto simp: try_push_def Let_def key_of_def hm_simps split: if_splits option.splits)
  qed
  show "round_robin_keys (snd (try_push key_id i e s)) =
      round_robin_keys s @ (if view s (key_of key_id e) = [] then [key_of key_id e] else [])"
    using assms by (cases "extract_contract_id key_id e")
      (auto simp: try_push_def Let_def key_of_def split: if_splits option.splits)
  show "total_queued (snd (try_push key_id i e s)) = total_queued s + 1"
    using assms by (auto simp: try_push_def Let_def split: if_splits option.splits)
  show "total_queued s < MAX_TOTAL_FAIR_QUEUE"
    and "length (view s (key_of key_id e)) < MAX_QUEUED_PER_CONTRACT"
    using try_push_rejects_iff [of key_id i e s] assms by auto
qed

lemma try_push_queues:
  assumes "fst (try_push key_id i e s) = Inr ()"
  shows "contract_queues (snd (try_push key_id i e s)) =
           (case key_of key_id e of Default \<Rightarrow> contract_queues s
            | Contract cid \<Rightarrow> hm_put cid (view s (Contract cid) @ [(i, e)]) (contract_queues s))"
    and "default_queue (snd (try_push key_id i e s)) =
           (case key_of key_id e of Default \<Rightarrow> default_queue s @ [(i, e)]
            | Contract cid \<Rightarrow> default_queue s)"
  using assms by (cases "extract_contract_id key_id e";
      auto simp: try_push_def Let_def key_of_def split: if_splits)+

lemma try_push_maps:
  assumes ok: "fst (try_push key_id i e s) = Inr ()" and wf: "hm_wf (contract_queues s)"
  shows "hm_wf (contract_queues (snd (try_push key_id i e s)))"
    and "hm_sum length (contract_queues (snd (try_push key_id i e s))) +
           length (default_queue (snd (try_push key_id i e s))) =
         hm_sum length (contract_queues s) + length (default_queue s) + 1"
    and "(\<And>cid q. hm_get (contract_queues s) cid = Some q \<Longrightarrow> q \<noteq> []) \<Longrightarrow>
         hm_get (contract_queues (snd (try_push key_id i e s))) cid = Some q \<Longrightarrow> q \<noteq> []"
proof -
  note qs = try_push_queues [OF ok]
  show "hm_wf (contract_queues (snd (try_push key_id i e s)))"
    using wf by (simp add: qs split: queue_key.splits)
  have "hm_sum length (hm_put cid (view s (Contract cid) @ [(i, e)]) (contract_queues s)) =
      hm_sum length (contract_queues s) + 1" for cid
    using hm_sum_put [OF wf, of length cid "view s (Contract cid) @ [(i, e)]"]
    by (simp split: option.splits)
  then show "hm_sum length (contract_queues (snd (try_push key_id i e s))) +
           length (default_queue (snd (try_push key_id i e s))) =
         hm_sum length (contract_queues s) + length (default_queue s) + 1"
    by (simp add: qs split: queue_key.splits)
  show "(\<And>cid q. hm_get (contract_queues s) cid = Some q \<Longrightarrow> q \<noteq> []) \<Longrightarrow>
         hm_get (contract_queues (snd (try_push key_id i e s))) cid = Some q \<Longrightarrow> q \<noteq> []"
    by (auto simp: qs hm_simps split: queue_key.splits if_splits)
qed

lemma try_push_inv: "queue_inv s \<Longrightarrow> queue_inv (snd (try_push key_id i e s))"
proof (cases "fst (try_push key_id i e s)")
  case (Inl r)
  assume "queue_inv s"
  with try_push_rejected [OF Inl] show ?thesis by simp
next
  case (Inr u)
  assume inv: "queue_inv s"
  have ok: "fst (try_push key_id i e s) = Inr ()" using Inr by simp
  let ?t = "snd (try_push key_id i e s)" and ?k = "key_of key_id e"
  have wf: "hm_wf (contract_queues s)" using inv by (simp add: queue_inv_def)
  note acc = try_push_accepted [OF ok] and maps = try_push_maps [OF ok wf]
  have "\<forall>cid q. hm_get (contract_queues ?t) cid = Some q \<longrightarrow> q \<noteq> []"
    using maps(3) inv unfolding queue_inv_def by blast
  moreover have "\<forall>k. length (view ?t k) \<le> MAX_QUEUED_PER_CONTRACT"
    using acc(1,5) inv by (simp add: queue_inv_def)
  moreover have "distinct (round_robin_keys ?t)"
    using acc(2) inv by (auto simp: queue_inv_def)
  moreover have "\<forall>k. k \<in> set (round_robin_keys ?t) \<longleftrightarrow> view ?t k \<noteq> []"
    using acc(1,2) inv by (auto simp: queue_inv_def)
  moreover have "total_queued ?t = hm_sum length (contract_queues ?t) + length (default_queue ?t)"
    using acc(3) maps(2) inv by (simp add: queue_inv_def)
  moreover have "total_queued ?t \<le> MAX_TOTAL_FAIR_QUEUE"
    using acc(3,4) by simp
  ultimately show ?thesis
    using maps(1) by (simp add: queue_inv_def)
qed

section \<open>Popping\<close>

lemma pop_empty: "round_robin_keys s = [] \<Longrightarrow> pop s = (None, s)"
  by (simp add: pop_def)

lemma pop_front:
  assumes "round_robin_keys s = k # rr" and "view s k = item # rest"
  shows "fst (pop s) = Some item"
    and "view (snd (pop s)) = (view s)(k := rest)"
    and "round_robin_keys (snd (pop s)) = rr @ (if rest = [] then [] else [k])"
    and "total_queued (snd (pop s)) = total_queued s - 1"
    and "contract_queues (snd (pop s)) =
           (case k of Default \<Rightarrow> contract_queues s
            | Contract cid \<Rightarrow> if rest = [] then hm_del cid (contract_queues s)
                             else hm_put cid rest (contract_queues s))"
    and "default_queue (snd (pop s)) = (case k of Default \<Rightarrow> rest | Contract cid \<Rightarrow> default_queue s)"
proof -
  consider cid where "k = Contract cid" "hm_get (contract_queues s) cid = Some (item # rest)"
    | "k = Default" "default_queue s = item # rest"
    using assms(2) by (cases k) (auto split: option.splits)
  note cs = this
  show "fst (pop s) = Some item"
    and "round_robin_keys (snd (pop s)) = rr @ (if rest = [] then [] else [k])"
    and "total_queued (snd (pop s)) = total_queued s - 1"
    and "contract_queues (snd (pop s)) =
           (case k of Default \<Rightarrow> contract_queues s
            | Contract cid \<Rightarrow> if rest = [] then hm_del cid (contract_queues s)
                             else hm_put cid rest (contract_queues s))"
    and "default_queue (snd (pop s)) = (case k of Default \<Rightarrow> rest | Contract cid \<Rightarrow> default_queue s)"
    by (rule cs; simp add: pop_def assms(1))+
  show "view (snd (pop s)) = (view s)(k := rest)"
  proof
    fix j
    show "view (snd (pop s)) j = ((view s)(k := rest)) j"
      by (rule cs; cases j) (auto simp: pop_def assms(1) hm_simps)
  qed
qed

lemma inv_front:
  assumes "queue_inv s" and "round_robin_keys s = k # rr"
  obtains item rest where "view s k = item # rest"
  using assms by (cases "view s k") (auto simp: queue_inv_def)

lemma pop_sum:
  assumes wf: "hm_wf (contract_queues s)" and "round_robin_keys s = k # rr" and "view s k = item # rest"
  shows "hm_sum length (contract_queues (snd (pop s))) + length (default_queue (snd (pop s))) + 1 =
         hm_sum length (contract_queues s) + length (default_queue s)"
proof (cases k)
  case (Contract cid)
  then have get: "hm_get (contract_queues s) cid = Some (item # rest)"
    using assms(3) by (simp split: option.splits)
  show ?thesis
    using hm_sum_put [OF wf, of length cid rest] hm_sum_del [OF wf, of length cid] get Contract
    by (cases "rest = []") (simp_all add: pop_front [OF assms(2,3)])
next
  case Default
  then show ?thesis using assms(3) by (simp add: pop_front [OF assms(2,3)])
qed

lemma pop_inv: "queue_inv s \<Longrightarrow> queue_inv (snd (pop s))"
proof (cases "round_robin_keys s")
  case Nil
  assume "queue_inv s"
  with Nil show ?thesis by (simp add: pop_empty)
next
  case (Cons k rr)
  assume inv: "queue_inv s"
  obtain item rest where v: "view s k = item # rest"
    using inv_front [OF inv Cons] by blast
  note pf = pop_front [OF Cons v]
  let ?t = "snd (pop s)"
  have wf: "hm_wf (contract_queues s)" using inv by (simp add: queue_inv_def)
  have "hm_wf (contract_queues ?t)"
    using wf by (simp add: pf split: queue_key.splits)
  moreover have "\<forall>cid q. hm_get (contract_queues ?t) cid = Some q \<longrightarrow> q \<noteq> []"
    using inv by (auto simp: pf hm_simps queue_inv_def split: queue_key.splits if_splits)
  moreover have "length (view ?t j) \<le> MAX_QUEUED_PER_CONTRACT" for j
  proof -
    have "length (view s j) \<le> MAX_QUEUED_PER_CONTRACT"
      using inv by (simp add: queue_inv_def)
    with v show ?thesis by (cases "j = k") (simp_all add: pf(2))
  qed
  moreover have "distinct (round_robin_keys ?t)"
    using inv Cons by (auto simp: pf(3) queue_inv_def)
  moreover have "j \<in> set (round_robin_keys ?t) \<longleftrightarrow> view ?t j \<noteq> []" for j
    using inv Cons by (auto simp: pf(2,3) queue_inv_def)
  moreover have "total_queued ?t = hm_sum length (contract_queues ?t) + length (default_queue ?t)"
    and "total_queued ?t \<le> MAX_TOTAL_FAIR_QUEUE"
    using inv pop_sum [OF wf Cons v] by (auto simp: pf(4) queue_inv_def)
  ultimately show ?thesis by (simp add: queue_inv_def)
qed

lemma queue_step_inv: "queue_inv s \<Longrightarrow> queue_inv (queue_step key_id s op)"
  by (cases op) (simp_all add: try_push_inv pop_inv)

lemma view_new [simp]: "view new_fair_queue k = []"
  by (cases k) (simp_all add: new_fair_queue_def)

lemma new_fair_queue_fields [simp]:
  "contract_queues new_fair_queue = []" "default_queue new_fair_queue = []"
  "round_robin_keys new_fair_queue = []" "total_queued new_fair_queue = 0"
  by (simp_all add: new_fair_queue_def)

lemma new_fair_queue_inv: "queue_inv new_fair_queue"
  by (simp add: queue_inv_def hm_sum_def)

lemma push_order:
  "\<exists>new. round_robin_keys (snd (try_push key_id i e s)) = round_robin_keys s @ new"
  by (cases "fst (try_push key_id i e s)") (auto simp: try_push_rejected try_push_accepted(2))

lemma pop_order:
  assumes "queue_inv s"
  shows "\<exists>new. round_robin_keys (snd (pop s)) = tl (round_robin_keys s) @ new"
proof (cases "round_robin_keys s")
  case (Cons k rr)
  from inv_front [OF assms Cons] obtain item rest where "view s k = item # rest" .
  with Cons show ?thesis by (simp add: pop_front)
qed (simp add: pop_empty)

interpretation fq: started_machine "queue_step key_id" queue_inv new_fair_queue for key_id
  by unfold_locales (simp_all add: queue_step_inv new_fair_queue_inv)

interpretation rr: round_robin "queue_step key_id" queue_inv round_robin_keys is_pop for key_id
proof unfold_locales
  show "\<exists>new. round_robin_keys (queue_step key_id s e) = round_robin_keys s @ new"
    if "\<not> is_pop e" for s :: "('a, 'b, 'c) fair_queue" and e
    using that push_order [of key_id _ _ s] by (cases e) simp_all
  show "\<exists>new. round_robin_keys (queue_step key_id s e) = tl (round_robin_keys s) @ new"
    if "queue_inv s" "is_pop e" for s :: "('a, 'b, 'c) fair_queue" and e
    using that pop_order [of s] by (cases e) simp_all
qed

section \<open>Properties\<close>

text \<open>
  C1: round-robin fairness.  Take any state that keeps the queue invariant and a contract (or
  the default queue) at position \<open>n\<close> of the round-robin order.  After any sequence of
  operations with exactly \<open>n\<close> pops in it, however many events of other contracts are pushed
  meanwhile, the next \<open>pop\<close> returns an event of that queue, namely its oldest one.
\<close>

theorem round_robin_fairness:
  assumes "queue_inv s" and "n < length (round_robin_keys s)"
    and "length (filter is_pop ops) = n"
  shows "\<exists>item. fst (pop (foldl (queue_step key_id) s ops)) = Some item \<and>
           item = hd (view (foldl (queue_step key_id) s ops) (round_robin_keys s ! n))"
proof -
  let ?t = "foldl (queue_step key_id) s ops"
  have "0 < length (round_robin_keys ?t) \<and> round_robin_keys ?t ! 0 = round_robin_keys s ! n"
    using rr.served_in_turn [of s n ops key_id] assms by simp
  then obtain ks where order: "round_robin_keys ?t = (round_robin_keys s ! n) # ks"
    by (cases "round_robin_keys ?t") auto
  have "queue_inv ?t"
    using assms(1) by (rule fq.run_inv)
  from inv_front [OF this order] obtain item rest
    where "view ?t (round_robin_keys s ! n) = item # rest" .
  with pop_front(1) [OF order this] show ?thesis by simp
qed

theorem round_robin_fairness_witness:
  "\<exists>item. fst (pop (foldl (queue_step id)
       (foldl (queue_step id) new_fair_queue
          [Push 0 (GetQuery (1::nat) False), Push 1 (GetQuery 1 False), Push 2 (GetQuery 2 True)])
       [Push 3 (GetQuery 1 False), Pop, Push 4 (ClientDisconnect ())])) = Some item \<and>
     item = hd (view (foldl (queue_step id)
       (foldl (queue_step id) new_fair_queue
          [Push 0 (GetQuery (1::nat) False), Push 1 (GetQuery 1 False), Push 2 (GetQuery 2 True)])
       [Push 3 (GetQuery 1 False), Pop, Push 4 (ClientDisconnect ())]) (Contract 2))"
proof -
  define s where "s = foldl (queue_step id) (new_fair_queue :: (nat, nat, unit) fair_queue)
      [Push 0 (GetQuery 1 False), Push 1 (GetQuery 1 False), Push 2 (GetQuery 2 True)]"
  have order: "round_robin_keys s = [Contract 1, Contract 2]"
    by (simp add: s_def try_push_def new_fair_queue_def MAX_TOTAL_FAIR_QUEUE_def
        MAX_QUEUED_PER_CONTRACT_def)
  have inv: "queue_inv s"
    unfolding s_def by (rule fq.reachable_inv)
  have key: "round_robin_keys s ! 1 = Contract 2" and len: "1 < length (round_robin_keys s)"
    by (simp_all add: order)
  show ?thesis
    by (rule round_robin_fairness [OF inv len, unfolded key, unfolded s_def]) simp
qed



text \<open>
  no event is stuck: in every state reachable by pushes and pops from the empty queue,
  \<open>pop\<close> returns \<open>None\<close> exactly when the counter of queued events is zero, the counter is the
  number of events held, and it never exceeds 5000.
\<close>

theorem reachable_queue_live:
  "(let s = foldl (queue_step key_id) new_fair_queue ops
    in (fst (pop s) = None \<longleftrightarrow> total_queued s = 0) \<and>
       total_queued s = hm_sum length (contract_queues s) + length (default_queue s) \<and>
       total_queued s \<le> MAX_TOTAL_FAIR_QUEUE)"
proof -
  let ?s = "foldl (queue_step key_id) new_fair_queue ops"
  have inv: "queue_inv ?s" by (rule fq.reachable_inv)
  have "fst (pop ?s) = None \<longleftrightarrow> total_queued ?s = 0"
  proof (cases "round_robin_keys ?s")
    case Nil
    then have none: "view ?s k = []" for k
      using inv by (auto simp: queue_inv_def)
    have "length v = 0" if "(k, v) \<in> set (contract_queues ?s)" for k v
    proof -
      have "hm_get (contract_queues ?s) k = Some v"
        using that inv by (simp add: queue_inv_def hm_get_in_set)
      with none [of "Contract k"] show ?thesis by simp
    qed
    then have "\<forall>(k, v) \<in> set (contract_queues ?s). length v = 0"
      by blast
    with none [of Default] inv Nil show ?thesis
      by (simp add: pop_empty queue_inv_def hm_sum_zero)
  next
    case (Cons k ks)
    from inv_front [OF inv Cons] obtain item rest where v: "view ?s k = item # rest" .
    have "0 < total_queued ?s"
      using pop_sum [OF _ Cons v] inv unfolding queue_inv_def by (metis add_gr_0 zero_less_one)
    with pop_front(1) [OF Cons v] show ?thesis by simp
  qed
  with inv show ?thesis by (simp add: queue_inv_def Let_def)
qed

end
