(* ===== verification/Hosting_Cache.thy ===== *)
theory Hosting_Cache
  imports Freenet_Prelude
begin

text \<open>
  \<open>HostingCache\<close> of \<open>ring/hosting/cache.rs\<close>: the byte-budget LRU cache with TTL protection
  that records which contracts a node hosts.  A contract key is the type variable \<open>'k\<close>.

  Shown: the LRU order and the map agree and the byte counter is exact in every reachable
  state; an entry within its TTL is never evicted and neither is one a sweep must retain;
  what is evicted is the oldest entries and no more than needed; and after an insertion or a
  sweep the cache is within budget unless only protected entries are left.
\<close>

datatype access_type = Get | Put | Subscribe

record hosted_contract =
  size_bytes :: nat
  last_accessed :: instant
  access_kind :: access_type

record 'k hosting_cache =
  budget_bytes :: nat
  current_bytes :: nat
  min_ttl :: duration
  lru_order :: "'k list"
  contracts :: "('k, hosted_contract) hmap"

record 'k record_access_result =
  is_new :: bool
  evicted :: "'k list"

definition new_hosting_cache :: "nat \<Rightarrow> duration \<Rightarrow> 'k hosting_cache" where
  "new_hosting_cache budget ttl =
     \<lparr>budget_bytes = budget, current_bytes = 0, min_ttl = ttl, lru_order = [], contracts = []\<rparr>"

text \<open>
  The eviction loop of \<open>record_access\<close>: evicts from the front of the LRU order while the
  new entry does not fit, and stops at the first entry that is still within its TTL.
\<close>

fun evict_loop ::
  "instant \<Rightarrow> duration \<Rightarrow> nat \<Rightarrow> nat \<Rightarrow> 'k list \<Rightarrow> ('k, hosted_contract) hmap \<Rightarrow> nat \<Rightarrow> 'k list \<Rightarrow>
   'k list \<times> ('k, hosted_contract) hmap \<times> nat \<times> 'k list" where
  "evict_loop now ttl budget sz [] m bytes ev = ([], m, bytes, ev)"
| "evict_loop now ttl budget sz (k # ks) m bytes ev =
     (if budget < wrap_add bytes sz then
        (case hm_get m k of
           Some oldest \<Rightarrow>
             (if ttl \<le> saturating_since now (last_accessed oldest)
              then evict_loop now ttl budget sz ks (hm_del k m) (bytes - size_bytes oldest) (ev @ [k])
              else (k # ks, m, bytes, ev))
         | None \<Rightarrow> evict_loop now ttl budget sz ks m bytes ev)
      else (k # ks, m, bytes, ev))"

definition record_access ::
  "instant \<Rightarrow> 'k \<Rightarrow> nat \<Rightarrow> access_type \<Rightarrow> 'k hosting_cache \<Rightarrow>
   'k record_access_result \<times> 'k hosting_cache" where
  "record_access now key sz kind c =
     (case hm_get (contracts c) key of
        Some existing \<Rightarrow>
          (\<lparr>is_new = False, evicted = []\<rparr>,
           c\<lparr>current_bytes :=
                (if size_bytes existing \<noteq> sz
                 then sat_add (current_bytes c) sz - size_bytes existing
                 else current_bytes c),
             contracts := hm_put key
                (existing\<lparr>size_bytes := sz, last_accessed := now, access_kind := kind\<rparr>)
                (contracts c),
             lru_order := filter (\<lambda>k. k \<noteq> key) (lru_order c) @ [key]\<rparr>)
      | None \<Rightarrow>
          (let (lru, m, bytes, ev) =
                 evict_loop now (min_ttl c) (budget_bytes c) sz (lru_order c) (contracts c)
                   (current_bytes c) []
           in (\<lparr>is_new = True, evicted = ev\<rparr>,
               c\<lparr>contracts := hm_put key
                    \<lparr>size_bytes = sz, last_accessed = now, access_kind = kind\<rparr> m,
                 lru_order := lru @ [key],
                 current_bytes := sat_add bytes sz\<rparr>)))"

definition touch :: "instant \<Rightarrow> 'k \<Rightarrow> 'k hosting_cache \<Rightarrow> 'k hosting_cache" where
  "touch now key c =
     (case hm_get (contracts c) key of
        None \<Rightarrow> c
      | Some existing \<Rightarrow>
          c\<lparr>contracts := hm_put key (existing\<lparr>last_accessed := now\<rparr>) (contracts c),
            lru_order := filter (\<lambda>k. k \<noteq> key) (lru_order c) @ [key]\<rparr>)"

definition remove :: "'k \<Rightarrow> 'k hosting_cache \<Rightarrow> nat \<times> 'k hosting_cache" where
  "remove key c =
     (case hm_get (contracts c) key of
        None \<Rightarrow> (0, c)
      | Some removed \<Rightarrow>
          (size_bytes removed,
           c\<lparr>contracts := hm_del key (contracts c),
             current_bytes := current_bytes c - size_bytes removed,
             lru_order := filter (\<lambda>k. k \<noteq> key) (lru_order c)\<rparr>))"

definition contains :: "'k \<Rightarrow> 'k hosting_cache \<Rightarrow> bool" where
  "contains key c = hm_has key (contracts c)"

text \<open>The closure that \<open>sweep_expired\<close> passes to \<open>VecDeque::retain\<close>, applied in LRU order.\<close>

fun sweep_loop ::
  "instant \<Rightarrow> duration \<Rightarrow> nat \<Rightarrow> ('k \<Rightarrow> bool) \<Rightarrow> 'k list \<Rightarrow> ('k, hosted_contract) hmap \<Rightarrow> nat \<Rightarrow>
   'k list \<times> ('k, hosted_contract) hmap \<times> nat \<times> 'k list" where
  "sweep_loop now ttl budget should_retain [] m bytes = ([], m, bytes, [])"
| "sweep_loop now ttl budget should_retain (k # ks) m bytes =
     (if bytes \<le> budget
      then (let (kept, m', b', ev) = sweep_loop now ttl budget should_retain ks m bytes
            in (k # kept, m', b', ev))
      else case hm_get m k of
        Some entry \<Rightarrow>
          (if ttl \<le> saturating_since now (last_accessed entry) \<and> \<not> should_retain k
           then (let (kept, m', b', ev) =
                       sweep_loop now ttl budget should_retain ks (hm_del k m) (bytes - size_bytes entry)
                 in (kept, m', b', k # ev))
           else (let (kept, m', b', ev) = sweep_loop now ttl budget should_retain ks m bytes
                 in (k # kept, m', b', ev)))
      | None \<Rightarrow> sweep_loop now ttl budget should_retain ks m bytes)"

definition sweep_expired ::
  "instant \<Rightarrow> ('k \<Rightarrow> bool) \<Rightarrow> 'k hosting_cache \<Rightarrow> 'k list \<times> 'k hosting_cache" where
  "sweep_expired now should_retain c =
     (if current_bytes c \<le> budget_bytes c then ([], c)
      else let (kept, m, bytes, ev) =
                 sweep_loop now (min_ttl c) (budget_bytes c) should_retain (lru_order c)
                   (contracts c) (current_bytes c)
           in (ev, c\<lparr>lru_order := kept, contracts := m, current_bytes := bytes\<rparr>))"

text \<open>
  \<open>Instant::checked_sub\<close>: \<open>None\<close> below the smallest representable instant (64-bit signed
  seconds on the platforms the node runs on).
\<close>

definition checked_sub :: "instant \<Rightarrow> duration \<Rightarrow> instant option" where
  "checked_sub t d = (if - (2 ^ 63) * 1000000000 \<le> t - int d then Some (t - int d) else None)"

definition load_persisted_entry ::
  "instant \<Rightarrow> 'k \<Rightarrow> nat \<Rightarrow> access_type \<Rightarrow> duration \<Rightarrow> 'k hosting_cache \<Rightarrow> 'k hosting_cache" where
  "load_persisted_entry now key sz kind age c =
     (if hm_has key (contracts c) then c
      else c\<lparr>contracts := hm_put key
               \<lparr>size_bytes = sz,
                last_accessed = (case checked_sub now age of None \<Rightarrow> now | Some t \<Rightarrow> t),
                access_kind = kind\<rparr> (contracts c),
             current_bytes := sat_add (current_bytes c) sz\<rparr>)"

fun load_all ::
  "instant \<Rightarrow> ('k \<times> nat \<times> access_type \<times> duration) list \<Rightarrow> 'k hosting_cache \<Rightarrow> 'k hosting_cache" where
  "load_all now [] c = c"
| "load_all now ((key, sz, kind, age) # entries) c =
     load_all now entries (load_persisted_entry now key sz kind age c)"

definition finalize_loading :: "'k hosting_cache \<Rightarrow> 'k hosting_cache" where
  "finalize_loading c =
     c\<lparr>lru_order := map fst (sort_key snd (map (\<lambda>(k, v). (k, last_accessed v)) (contracts c)))\<rparr>"

text \<open>
  The invariant: the LRU order lists exactly the cached keys, each once, in the order of
  their last access, no access lies in the future, and the byte counter is exact.
\<close>

definition accessed :: "('k, hosted_contract) hmap \<Rightarrow> 'k \<Rightarrow> instant" where
  "accessed m k = (case hm_get m k of None \<Rightarrow> 0 | Some v \<Rightarrow> last_accessed v)"

definition lru_inv :: "instant \<Rightarrow> 'k list \<Rightarrow> ('k, hosted_contract) hmap \<Rightarrow> nat \<Rightarrow> bool" where
  "lru_inv now lru m bytes \<longleftrightarrow>
     hm_wf m \<and> distinct lru \<and> set lru = set (hm_keys m) \<and>
     sorted (map (accessed m) lru) \<and> (\<forall>k \<in> set lru. accessed m k \<le> now) \<and>
     bytes = hm_sum size_bytes m"

definition cache_inv :: "instant \<Rightarrow> 'k hosting_cache \<Rightarrow> bool" where
  "cache_inv now c \<longleftrightarrow> lru_inv now (lru_order c) (contracts c) (current_bytes c)"

text \<open>
  Runs of the cache.  The clock does not go back, and the sizes of the hosted contracts add
  up to less than \<open>2 ^ 64\<close> bytes.
\<close>

inductive cache_step :: "instant \<times> 'k hosting_cache \<Rightarrow> instant \<times> 'k hosting_cache \<Rightarrow> bool" where
  access: "\<lbrakk>t \<le> now; current_bytes c + sz \<le> u64_max\<rbrakk> \<Longrightarrow>
     cache_step (t, c) (now, snd (record_access now key sz kind c))"
| touched: "t \<le> now \<Longrightarrow> cache_step (t, c) (now, touch now key c)"
| removed: "cache_step (t, c) (t, snd (remove key c))"
| swept: "t \<le> now \<Longrightarrow> cache_step (t, c) (now, snd (sweep_expired now should_retain c))"
| loaded: "\<lbrakk>t \<le> now; current_bytes c + sum_list (map (\<lambda>(key, sz, kind, age). sz) entries) \<le> u64_max\<rbrakk> \<Longrightarrow>
     cache_step (t, c) (now, finalize_loading (load_all now entries c))"

inductive cache_reachable :: "nat \<Rightarrow> duration \<Rightarrow> instant \<times> 'k hosting_cache \<Rightarrow> bool" for budget ttl where
  start: "cache_reachable budget ttl (t, new_hosting_cache budget ttl)"
| step: "cache_reachable budget ttl s \<Longrightarrow> cache_step s s' \<Longrightarrow> cache_reachable budget ttl s'"

section \<open>Keeping the LRU order and the map together\<close>

lemma lru_invI:
  "\<lbrakk>hm_wf m; distinct lru; set lru = set (hm_keys m); sorted (map (accessed m) lru);
    \<forall>k \<in> set lru. accessed m k \<le> now; bytes = hm_sum size_bytes m\<rbrakk> \<Longrightarrow> lru_inv now lru m bytes"
  by (simp add: lru_inv_def)

lemma lru_invD:
  assumes "lru_inv now lru m bytes"
  shows "hm_wf m" "distinct lru" "set lru = set (hm_keys m)" "sorted (map (accessed m) lru)"
    "k \<in> set lru \<Longrightarrow> accessed m k \<le> now" "bytes = hm_sum size_bytes m"
  using assms unfolding lru_inv_def by blast+

lemma lru_inv_later: "lru_inv now lru m bytes \<Longrightarrow> now \<le> now' \<Longrightarrow> lru_inv now' lru m bytes"
  unfolding lru_inv_def by (meson order_trans)

lemma lru_inv_member: "lru_inv now lru m bytes \<Longrightarrow> k \<in> set lru \<Longrightarrow> \<exists>v. hm_get m k = Some v"
  by (metis hm_has_def hm_has_iff lru_inv_def not_None_eq)

lemma accessed_put: "accessed (hm_put k v m) x = (if x = k then last_accessed v else accessed m x)"
  by (simp add: accessed_def hm_simps)

lemma accessed_del: "x \<noteq> k \<Longrightarrow> accessed (hm_del k m) x = accessed m x"
  by (simp add: accessed_def hm_simps)

lemma lru_inv_remove:
  assumes inv: "lru_inv now lru m bytes" and get: "hm_get m k = Some v"
  shows "lru_inv now (filter (\<lambda>x. x \<noteq> k) lru) (hm_del k m) (bytes - size_bytes v)"
proof -
  have "map (accessed (hm_del k m)) (filter (\<lambda>x. x \<noteq> k) lru) =
      map (accessed m) (filter (\<lambda>x. x \<noteq> k) lru)"
    by (simp add: accessed_del)
  moreover have "sorted (map (accessed m) (filter (\<lambda>x. x \<noteq> k) lru))"
    using inv by (simp add: lru_inv_def sorted_filter)
  ultimately have "sorted (map (accessed (hm_del k m)) (filter (\<lambda>x. x \<noteq> k) lru))"
    by (simp only:)
  moreover have "hm_sum size_bytes (hm_del k m) + size_bytes v = bytes"
    using hm_sum_del [of m size_bytes k] inv get by (simp add: lru_inv_def)
  then have "bytes - size_bytes v = hm_sum size_bytes (hm_del k m)"
    by simp
  moreover have "set (filter (\<lambda>x. x \<noteq> k) lru) = set (hm_keys (hm_del k m))"
    using inv unfolding hm_keys_del by (auto simp: lru_inv_def)
  moreover have "\<forall>x \<in> set (filter (\<lambda>x. x \<noteq> k) lru). accessed (hm_del k m) x \<le> now"
    using lru_invD(5) [OF inv] by (simp add: accessed_del)
  ultimately show ?thesis
    using lru_invD(1,2) [OF inv] by (intro lru_invI) simp_all
qed

lemma lru_inv_place:
  assumes inv: "lru_inv now lru m bytes" and le: "now \<le> now'"
    and v: "last_accessed v = now'"
  shows "lru_inv now' (filter (\<lambda>x. x \<noteq> k) lru @ [k]) (hm_put k v m)
           (bytes + size_bytes v - (case hm_get m k of None \<Rightarrow> 0 | Some w \<Rightarrow> size_bytes w))"
proof -
  let ?rest = "filter (\<lambda>x. x \<noteq> k) lru"
  have eq: "map (accessed (hm_put k v m)) (?rest @ [k]) = map (accessed m) ?rest @ [now']"
    by (simp add: accessed_put v)
  have "sorted (map (accessed m) ?rest)"
    using inv by (simp add: lru_inv_def sorted_filter)
  moreover have past: "\<forall>x \<in> set lru. accessed m x \<le> now'"
    using inv le by (fastforce simp: lru_inv_def)
  ultimately have "sorted (map (accessed (hm_put k v m)) (?rest @ [k]))"
    unfolding eq by (simp add: sorted_append)
  moreover have "hm_sum size_bytes (hm_put k v m) +
      (case hm_get m k of None \<Rightarrow> 0 | Some w \<Rightarrow> size_bytes w) = bytes + size_bytes v"
    using hm_sum_put [of m size_bytes k v] inv by (simp add: lru_inv_def)
  then have "bytes + size_bytes v - (case hm_get m k of None \<Rightarrow> 0 | Some w \<Rightarrow> size_bytes w) =
      hm_sum size_bytes (hm_put k v m)"
    by linarith
  moreover have "set (?rest @ [k]) = set (hm_keys (hm_put k v m))"
    using inv unfolding hm_keys_put by (auto simp: lru_inv_def)
  moreover have "\<forall>x \<in> set (?rest @ [k]). accessed (hm_put k v m) x \<le> now'"
    using past by (simp add: accessed_put v)
  ultimately show ?thesis
    using lru_invD(1,2) [OF inv] by (intro lru_invI) simp_all
qed

lemma lru_inv_drop:
  assumes "lru_inv now (pre @ k # ks) m bytes" and "hm_get m k = Some v"
  shows "lru_inv now (pre @ ks) (hm_del k m) (bytes - size_bytes v)"
proof -
  have "filter (\<lambda>x. x \<noteq> k) pre = pre" and "filter (\<lambda>x. x \<noteq> k) ks = ks"
    using assms(1) by (auto simp: lru_inv_def intro!: filter_True)
  then have "filter (\<lambda>x. x \<noteq> k) (pre @ k # ks) = pre @ ks"
    by simp
  with lru_inv_remove [OF assms] show ?thesis by simp
qed

section \<open>Eviction on insertion\<close>

lemma evict_loop_inv:
  "lru_inv now0 lru m bytes \<Longrightarrow> evict_loop now ttl budget sz lru m bytes ev = (lru', m', bytes', ev') \<Longrightarrow>
   lru_inv now0 lru' m' bytes' \<and> bytes' \<le> bytes"
proof (induction now ttl budget sz lru m bytes ev rule: evict_loop.induct)
  case (2 now ttl budget sz k ks m bytes ev)
  obtain v where v: "hm_get m k = Some v"
    using lru_inv_member [OF 2(3), of k] by auto
  have "lru_inv now0 ks (hm_del k m) (bytes - size_bytes v)"
    using lru_inv_drop [of now0 "[]" k ks m bytes v] 2(3) v by simp
  with 2 v show ?case by (fastforce split: if_splits)
qed simp

text \<open>
  What the loop leaves: it takes a prefix off the LRU order, each evicted entry was needed to
  make room and past its TTL, and it stops only when the new entry fits, nothing is left, or
  the oldest remaining entry is within its TTL.
\<close>

lemma evict_loop_spec:
  assumes "lru_inv now0 lru m bytes"
    and "evict_loop now ttl budget sz lru m bytes ev = (lru', m', bytes', ev')"
  obtains gone where "lru = gone @ lru'" and "ev' = ev @ gone"
    and "\<forall>k \<in> set gone. ttl \<le> saturating_since now (accessed m k)"
    and "\<forall>x. x \<notin> set gone \<longrightarrow> hm_get m' x = hm_get m x"
    and "lru' = [] \<or> wrap_add bytes' sz \<le> budget \<or>
         saturating_since now (accessed m (hd lru')) < ttl"
    and "gone \<noteq> [] \<longrightarrow> budget < wrap_add bytes sz"
  using assms
proof (induction now ttl budget sz lru m bytes ev arbitrary: thesis rule: evict_loop.induct)
  case (1 now ttl budget sz m bytes ev)
  show ?case by (rule 1(1) [of "[]"]) (use 1(3) in auto)
next
  case (2 now ttl budget sz k ks m bytes ev)
  obtain v where v: "hm_get m k = Some v"
    using lru_inv_member [OF 2(4), of k] by auto
  show ?case
  proof (cases "budget < wrap_add bytes sz \<and> ttl \<le> saturating_since now (last_accessed v)")
    case True
    have inv: "lru_inv now0 ks (hm_del k m) (bytes - size_bytes v)"
      using lru_inv_drop [of now0 "[]" k ks m bytes v] 2(4) v by simp
    have run: "evict_loop now ttl budget sz ks (hm_del k m) (bytes - size_bytes v) (ev @ [k]) =
        (lru', m', bytes', ev')"
      using 2(5) True v by simp
    obtain gone where g: "ks = gone @ lru'" "ev' = (ev @ [k]) @ gone"
        "\<forall>x \<in> set gone. ttl \<le> saturating_since now (accessed (hm_del k m) x)"
        "\<forall>x. x \<notin> set gone \<longrightarrow> hm_get m' x = hm_get (hm_del k m) x"
        "lru' = [] \<or> wrap_add bytes' sz \<le> budget \<or>
           saturating_since now (accessed (hm_del k m) (hd lru')) < ttl"
      by (rule 2(2) [OF _ v]) (use True v inv run in auto)
    have fresh: "k \<notin> set ks" using 2(4) by (auto simp: lru_inv_def)
    have acc: "accessed (hm_del k m) x = accessed m x" if "x \<in> set ks" for x
      using that fresh by (metis accessed_del)
    show ?thesis
    proof (rule 2(3) [of "k # gone"])
      show "\<forall>x \<in> set (k # gone). ttl \<le> saturating_since now (accessed m x)"
        using g(1,3) acc True v by (auto simp: accessed_def [of m k])
      show "lru' = [] \<or> wrap_add bytes' sz \<le> budget \<or>
          saturating_since now (accessed m (hd lru')) < ttl"
        using g(1,5) acc [of "hd lru'"] by auto
    qed (use g True in \<open>auto simp: hm_simps\<close>)
  next
    case False
    then have "lru' = k # ks" "m' = m" "bytes' = bytes" "ev' = ev"
      using 2(5) v by (auto split: if_splits)
    with False v show ?thesis
      by (intro 2(3) [of "[]"]) (auto simp: accessed_def)
  qed
qed

section \<open>Sweeping\<close>

lemma sweep_loop_idle: "bytes \<le> budget \<Longrightarrow> sweep_loop now ttl budget R lru m bytes = (lru, m, bytes, [])"
  by (induction lru) simp_all

lemma sweep_loop_spec:
  assumes "lru_inv now0 (pre @ lru) m bytes"
    and "sweep_loop now ttl budget R lru m bytes = (kept, m', bytes', ev)"
  shows "lru_inv now0 (pre @ kept) m' bytes' \<and> bytes' \<le> bytes \<and> set ev \<subseteq> set lru \<and>
         (\<forall>k \<in> set ev. ttl \<le> saturating_since now (accessed m k) \<and> \<not> R k) \<and>
         (\<forall>x. hm_get m' x = (if x \<in> set ev then None else hm_get m x)) \<and>
         (bytes' \<le> budget \<or> (\<forall>k \<in> set kept. saturating_since now (accessed m k) < ttl \<or> R k))"
  using assms
proof (induction now ttl budget R lru m bytes arbitrary: pre kept m' bytes' ev rule: sweep_loop.induct)
  case (2 now ttl budget R k ks m bytes)
  obtain v where v: "hm_get m k = Some v"
    using lru_inv_member [OF 2(5), of k] by auto
  then have acc: "accessed m k = last_accessed v"
    by (simp add: accessed_def)
  consider "bytes \<le> budget" | "budget < bytes" "ttl \<le> saturating_since now (accessed m k) \<and> \<not> R k"
    | "budget < bytes" "\<not> (ttl \<le> saturating_since now (accessed m k) \<and> \<not> R k)"
    by linarith
  then show ?case
  proof cases
    case 1
    then have "(kept, m', bytes', ev) = (k # ks, m, bytes, [])"
      using 2(6) sweep_loop_idle [of bytes budget now ttl R "k # ks" m] by simp
    with 1 2(5) show ?thesis by simp
  next
    case c2: 2
    obtain ev' where run: "sweep_loop now ttl budget R ks (hm_del k m) (bytes - size_bytes v) =
        (kept, m', bytes', ev')" and ev: "ev = k # ev'"
      using 2(6) c2 v acc by (auto split: prod.splits)
    have "lru_inv now0 (pre @ ks) (hm_del k m) (bytes - size_bytes v)"
      using 2(5) v by (rule lru_inv_drop)
    from 2(3) [OF _ v _ this run] c2 acc have IH: "lru_inv now0 (pre @ kept) m' bytes'"
        "bytes' \<le> bytes - size_bytes v" "set ev' \<subseteq> set ks"
        "\<forall>x \<in> set ev'. ttl \<le> saturating_since now (accessed (hm_del k m) x) \<and> \<not> R x"
        "\<forall>x. hm_get m' x = (if x \<in> set ev' then None else hm_get (hm_del k m) x)"
        "bytes' \<le> budget \<or> (\<forall>x \<in> set kept. saturating_since now (accessed (hm_del k m) x) < ttl \<or> R x)"
      by auto
    have "k \<notin> set ks"
      using lru_invD(2) [OF 2(5)] by simp
    moreover have "k \<notin> set kept"
      using lru_inv_member [OF IH(1), of k] IH(5) by (auto simp: hm_simps split: if_splits)
    ultimately have same: "accessed (hm_del k m) x = accessed m x" if "x \<in> set ev' \<union> set kept" for x
      using that IH(3) by (intro accessed_del) auto
    have "\<forall>x \<in> set ev. ttl \<le> saturating_since now (accessed m x) \<and> \<not> R x"
      using IH(4) c2(2) same by (simp add: ev)
    moreover have "\<forall>x. hm_get m' x = (if x \<in> set ev then None else hm_get m x)"
      using IH(5) by (simp add: ev hm_simps)
    moreover have "bytes' \<le> budget \<or> (\<forall>x \<in> set kept. saturating_since now (accessed m x) < ttl \<or> R x)"
      using IH(6) same by simp
    ultimately show ?thesis
      using IH(1,2,3) by (auto simp: ev)
  next
    case c3: 3
    obtain kept' where run: "sweep_loop now ttl budget R ks m bytes = (kept', m', bytes', ev)"
        and kept: "kept = k # kept'"
      using 2(6) c3 v acc by (auto split: prod.splits if_splits)
    have "lru_inv now0 ((pre @ [k]) @ ks) m bytes"
      using 2(5) by simp
    from 2(4) [OF _ v _ this run] c3 acc show ?thesis
      by (auto simp: kept)
  qed
qed simp

section \<open>The operations keep the invariant\<close>

lemma new_hosting_cache_inv: "cache_inv now (new_hosting_cache budget ttl)"
  by (simp add: cache_inv_def lru_inv_def new_hosting_cache_def hm_sum_def)

lemma record_access_inv:
  assumes inv: "cache_inv t c" and le: "t \<le> now" and fits: "current_bytes c + sz \<le> u64_max"
  shows "cache_inv now (snd (record_access now key sz kind c))"
proof (cases "hm_get (contracts c) key")
  case None
  obtain lru m bytes ev where run: "evict_loop now (min_ttl c) (budget_bytes c) sz (lru_order c)
      (contracts c) (current_bytes c) [] = (lru, m, bytes, ev)"
    by (metis prod_cases4)
  have lru: "lru_inv t lru m bytes" and le_bytes: "bytes \<le> current_bytes c"
    using evict_loop_inv [OF _ run] inv by (auto simp: cache_inv_def)
  obtain gone where split: "lru_order c = gone @ lru"
      and same: "\<forall>x. x \<notin> set gone \<longrightarrow> hm_get m x = hm_get (contracts c) x"
    by (rule evict_loop_spec [OF _ run]) (use inv in \<open>simp_all add: cache_inv_def\<close>)
  have "key \<notin> set (lru_order c)"
    using lru_inv_member [of t "lru_order c" "contracts c" "current_bytes c" key] inv None
    by (auto simp: cache_inv_def)
  then have new: "hm_get m key = None" and "filter (\<lambda>x. x \<noteq> key) lru = lru"
    using split same None by (auto intro!: filter_True)
  with lru_inv_place [OF lru le, of "\<lparr>size_bytes = sz, last_accessed = now, access_kind = kind\<rparr>" key]
    le_bytes fits show ?thesis
    by (simp add: record_access_def None run cache_inv_def)
next
  case (Some old)
  let ?v = "old\<lparr>size_bytes := sz, last_accessed := now, access_kind := kind\<rparr>"
  have "(if size_bytes old \<noteq> sz then sat_add (current_bytes c) sz - size_bytes old
         else current_bytes c) = current_bytes c + size_bytes ?v - size_bytes old"
    using fits by simp
  with lru_inv_place [of t "lru_order c" "contracts c" "current_bytes c" now ?v key] inv le Some
  show ?thesis by (simp add: record_access_def cache_inv_def)
qed

lemma touch_inv:
  assumes inv: "cache_inv t c" and le: "t \<le> now"
  shows "cache_inv now (touch now key c)"
proof (cases "hm_get (contracts c) key")
  case None
  with inv le show ?thesis by (simp add: touch_def cache_inv_def lru_inv_later)
next
  case (Some old)
  with lru_inv_place [of t "lru_order c" "contracts c" "current_bytes c" now
      "old\<lparr>last_accessed := now\<rparr>" key] inv le show ?thesis
    by (simp add: touch_def cache_inv_def)
qed

lemma remove_inv: "cache_inv t c \<Longrightarrow> cache_inv t (snd (remove key c))"
  by (auto simp: remove_def cache_inv_def lru_inv_remove split: option.splits)

lemma sweep_inv:
  assumes inv: "cache_inv t c" and le: "t \<le> now"
  shows "cache_inv now (snd (sweep_expired now R c))"
proof -
  obtain kept m bytes ev where run: "sweep_loop now (min_ttl c) (budget_bytes c) R (lru_order c)
      (contracts c) (current_bytes c) = (kept, m, bytes, ev)"
    by (metis prod_cases4)
  have "lru_inv t kept m bytes"
    using sweep_loop_spec [OF _ run, of t "[]"] inv by (simp add: cache_inv_def)
  with inv le show ?thesis
    by (auto simp: sweep_expired_def run cache_inv_def intro: lru_inv_later)
qed

text \<open>Bulk loading breaks the LRU order until \<open>finalize_loading\<close> rebuilds it.\<close>

definition load_inv :: "instant \<Rightarrow> 'k hosting_cache \<Rightarrow> bool" where
  "load_inv now c \<longleftrightarrow>
     hm_wf (contracts c) \<and> (\<forall>k v. hm_get (contracts c) k = Some v \<longrightarrow> last_accessed v \<le> now) \<and>
     current_bytes c = hm_sum size_bytes (contracts c)"

lemma cache_inv_load_inv:
  assumes "cache_inv t c" and "t \<le> now"
  shows "load_inv now c"
proof -
  have inv: "lru_inv now (lru_order c) (contracts c) (current_bytes c)"
    using assms by (simp add: cache_inv_def lru_inv_later)
  have "last_accessed v \<le> now" if "hm_get (contracts c) k = Some v" for k v
  proof -
    have "k \<in> set (lru_order c)"
      using that lru_invD(3) [OF inv] hm_has_iff [of k "contracts c"] by (simp add: hm_has_def)
    from lru_invD(5) [OF inv this] that show ?thesis by (simp add: accessed_def)
  qed
  with lru_invD(1,6) [OF inv] show ?thesis by (simp add: load_inv_def)
qed

lemma load_persisted_entry_inv:
  assumes "load_inv now c" and "current_bytes c + sz \<le> u64_max"
  shows "load_inv now (load_persisted_entry now key sz kind age c)"
    and "current_bytes (load_persisted_entry now key sz kind age c) \<le> current_bytes c + sz"
proof -
  have "hm_sum size_bytes (hm_put key v (contracts c)) = hm_sum size_bytes (contracts c) + size_bytes v"
    if "\<not> hm_has key (contracts c)" for v
    using hm_sum_put [of "contracts c" size_bytes key v] assms(1) that
    by (simp add: load_inv_def hm_has_def)
  then show "load_inv now (load_persisted_entry now key sz kind age c)"
    using assms by (auto simp: load_inv_def load_persisted_entry_def hm_simps checked_sub_def
        split: if_splits)
  show "current_bytes (load_persisted_entry now key sz kind age c) \<le> current_bytes c + sz"
    using assms by (simp add: load_persisted_entry_def)
qed

lemma load_all_inv:
  "load_inv now c \<Longrightarrow>
   current_bytes c + sum_list (map (\<lambda>(key, sz, kind, age). sz) entries) \<le> u64_max \<Longrightarrow>
   load_inv now (load_all now entries c)"
proof (induction now entries c rule: load_all.induct)
  case (2 now key sz kind age entries c)
  have "load_inv now (load_persisted_entry now key sz kind age c)"
    and "current_bytes (load_persisted_entry now key sz kind age c) \<le> current_bytes c + sz"
    using 2(2,3) by (simp_all add: load_persisted_entry_inv)
  with 2 show ?case by simp
qed simp

lemma finalize_loading_inv:
  assumes "load_inv now c"
  shows "cache_inv now (finalize_loading c)"
proof -
  let ?m = "contracts c"
  let ?xs = "sort_key snd (map (\<lambda>(k, v). (k, last_accessed v)) ?m)"
  have wf: "hm_wf ?m" using assms by (simp add: load_inv_def)
  have keys: "mset (map fst ?xs) = mset (hm_keys ?m)"
    by (simp add: case_prod_unfold multiset.map_comp comp_def)
  then have "distinct (map fst ?xs)" and set: "set (map fst ?xs) = set (hm_keys ?m)"
    using wf mset_eq_imp_distinct_iff mset_eq_setD by blast+
  have acc: "accessed ?m k = t" "t \<le> now" if mem: "(k, t) \<in> set ?xs" for k t
  proof -
    obtain v where "(k, v) \<in> set ?m" "t = last_accessed v"
      using mem by auto
    then have get: "hm_get ?m k = Some v"
      using wf by (simp add: hm_get_in_set)
    with \<open>t = last_accessed v\<close> show "accessed ?m k = t"
      by (simp add: accessed_def)
    from get assms \<open>t = last_accessed v\<close> show "t \<le> now"
      unfolding load_inv_def by blast
  qed
  have "map (accessed ?m) (map fst ?xs) = map snd ?xs"
    using acc(1) by (auto simp del: set_sort)
  then have "sorted (map (accessed ?m) (map fst ?xs))"
    by (simp only: sorted_sort_key)
  moreover have "\<forall>k \<in> set (map fst ?xs). accessed ?m k \<le> now"
    using acc by (auto simp del: set_sort)
  moreover have "current_bytes c = hm_sum size_bytes ?m"
    using assms by (simp add: load_inv_def)
  ultimately have "lru_inv now (map fst ?xs) ?m (current_bytes c)"
    using \<open>distinct (map fst ?xs)\<close> set wf by (intro lru_invI)
  then show ?thesis
    by (simp add: cache_inv_def finalize_loading_def)
qed

lemma cache_step_inv: "cache_step s s' \<Longrightarrow> cache_inv (fst s) (snd s) \<Longrightarrow> cache_inv (fst s') (snd s')"
  by (induction rule: cache_step.induct)
    (auto intro: record_access_inv touch_inv remove_inv sweep_inv finalize_loading_inv
      load_all_inv cache_inv_load_inv)

lemma cache_reachable_inv: "cache_reachable budget ttl s \<Longrightarrow> cache_inv (fst s) (snd s)"
  by (induction rule: cache_reachable.induct) (auto intro: new_hosting_cache_inv cache_step_inv)

section \<open>Properties\<close>

text \<open>
  C10: in every reachable state of the hosting cache the LRU order lists exactly the hosted
  contracts, each once and in the order of their last access, and the byte counter equals the
  sum of the sizes of the hosted contracts.
\<close>

theorem hosting_cache_consistent:
  assumes "cache_reachable budget ttl (t, c)"
  shows "distinct (lru_order c) \<and> set (lru_order c) = set (hm_keys (contracts c)) \<and>
         sorted (map (accessed (contracts c)) (lru_order c)) \<and>
         current_bytes c = hm_sum size_bytes (contracts c)"
  using cache_reachable_inv [OF assms] by (simp add: cache_inv_def lru_inv_def)

theorem hosting_cache_consistent_witness:
  "current_bytes (snd (record_access 5 ''a'' 10 Get (new_hosting_cache 100 60))) =
   hm_sum size_bytes (contracts (snd (record_access 5 ''a'' 10 Get (new_hosting_cache 100 60))))"
proof -
  have "cache_reachable 100 60 (5, snd (record_access 5 ''a'' 10 Get (new_hosting_cache 100 60)))"
    by (rule cache_reachable.step [OF cache_reachable.start [of _ _ 0]])
      (rule cache_step.access, simp_all add: new_hosting_cache_def u64_max_def)
  from hosting_cache_consistent [OF this] show ?thesis by simp
qed



text \<open>
  what a sweep evicts.  In a reachable cache, \<open>sweep_expired\<close> evicts only contracts past
  their TTL that the caller does not ask to retain; every other entry is kept unchanged; and
  afterwards the cache is within budget, or each contract left is within its TTL or retained.
\<close>

theorem sweep_expired_protects:
  assumes "cache_reachable budget ttl (t, c)"
  shows "(let (ev, c') = sweep_expired now should_retain c
          in (\<forall>k \<in> set ev. min_ttl c \<le> saturating_since now (accessed (contracts c) k) \<and>
                           \<not> should_retain k) \<and>
             (\<forall>k. hm_get (contracts c') k = (if k \<in> set ev then None else hm_get (contracts c) k)) \<and>
             (current_bytes c' \<le> budget_bytes c \<or>
              (\<forall>k \<in> set (lru_order c').
                 saturating_since now (accessed (contracts c) k) < min_ttl c \<or> should_retain k)))"
proof -
  have inv: "lru_inv t (lru_order c) (contracts c) (current_bytes c)"
    using cache_reachable_inv [OF assms] by (simp add: cache_inv_def)
  obtain kept m bytes ev where run: "sweep_loop now (min_ttl c) (budget_bytes c) should_retain
      (lru_order c) (contracts c) (current_bytes c) = (kept, m, bytes, ev)"
    by (metis prod_cases4)
  show ?thesis
    using sweep_loop_spec [of t "[]", OF _ run] inv by (simp add: sweep_expired_def run)
qed

theorem sweep_expired_protects_witness:
  "fst (sweep_expired 80 (\<lambda>k. k = ''a'')
     (snd (record_access 5 ''a'' 10 Get (new_hosting_cache 8 60)))) = []"
proof -
  let ?c = "snd (record_access 5 ''a'' 10 Get (new_hosting_cache 8 60))"
  have "cache_reachable 8 60 (5, ?c)"
    by (rule cache_reachable.step [OF cache_reachable.start [of _ _ 0]])
      (rule cache_step.access, simp_all add: new_hosting_cache_def u64_max_def)
  from sweep_expired_protects [OF this, of 80 "\<lambda>k. k = ''a''"] show ?thesis
    by (auto simp: record_access_def new_hosting_cache_def u64_max_def sweep_expired_def)
qed

end
