(* ===== verification/Init_Tracker.thy ===== *)
theory Init_Tracker
  imports Freenet_Prelude
begin

text \<open>
  \<open>ContractInitTracker\<close> of \<open>contract/executor/init_tracker.rs\<close>: while a contract is being
  stored for the first time, updates for it are queued and a second PUT is refused.  Contract
  keys and the queued update (with its related contracts) are type variables; the time is an
  argument, as in the source.

  Shown: the two limits hold in every reachable state; completing an initialization returns
  exactly the updates accepted since it started, oldest first; and the stale sweep removes
  precisely the initializations older than the given age.
\<close>

definition MAX_QUEUED_OPS_PER_CONTRACT :: nat where
  "MAX_QUEUED_OPS_PER_CONTRACT = 100"

definition MAX_CONCURRENT_INITIALIZATIONS :: nat where
  "MAX_CONCURRENT_INITIALIZATIONS = 50"

datatype init_tracker_error = TooManyConcurrentInits nat

datatype init_check_result = NotInitializing | Queued nat | InitQueueFull | PutDuringInit

record 'u queued_operation =
  update_op :: 'u
  queued_at_nanos :: nanos

record 'u init_completion_info =
  completed_ops :: "'u queued_operation list"
  init_duration :: duration

record 'k stale_init_info =
  stale_key :: 'k
  stale_age :: duration
  dropped_ops :: nat

record 'u init_state =
  queued_ops :: "'u queued_operation list"
  started_at_nanos :: nanos

type_synonym ('k, 'u) init_tracker = "('k, 'u init_state) hmap"

definition new_init_tracker :: "('k, 'u) init_tracker" where
  "new_init_tracker = []"

definition check_and_maybe_queue ::
  "'k \<Rightarrow> bool \<Rightarrow> 'u \<Rightarrow> nanos \<Rightarrow> ('k, 'u) init_tracker \<Rightarrow> init_check_result \<times> ('k, 'u) init_tracker" where
  "check_and_maybe_queue key has_code upd now states =
     (case hm_get states key of
        None \<Rightarrow> (NotInitializing, states)
      | Some st \<Rightarrow>
          if has_code then (PutDuringInit, states)
          else if MAX_QUEUED_OPS_PER_CONTRACT \<le> length (queued_ops st) then (InitQueueFull, states)
          else let ops = queued_ops st @ [\<lparr>update_op = upd, queued_at_nanos = now\<rparr>]
               in (Queued (length ops), hm_put key (st\<lparr>queued_ops := ops\<rparr>) states))"

definition is_initializing :: "'k \<Rightarrow> ('k, 'u) init_tracker \<Rightarrow> bool" where
  "is_initializing key states = hm_has key states"

definition start_initialization ::
  "'k \<Rightarrow> nanos \<Rightarrow> ('k, 'u) init_tracker \<Rightarrow> (init_tracker_error + unit) \<times> ('k, 'u) init_tracker" where
  "start_initialization key now states =
     (if MAX_CONCURRENT_INITIALIZATIONS \<le> length states
      then (Inl (TooManyConcurrentInits MAX_CONCURRENT_INITIALIZATIONS), states)
      else (Inr (), hm_put key \<lparr>queued_ops = [], started_at_nanos = now\<rparr> states))"

definition complete_initialization ::
  "'k \<Rightarrow> nanos \<Rightarrow> ('k, 'u) init_tracker \<Rightarrow> 'u init_completion_info option \<times> ('k, 'u) init_tracker" where
  "complete_initialization key now states =
     (map_option (\<lambda>st. \<lparr>completed_ops = queued_ops st,
                        init_duration = now - started_at_nanos st\<rparr>) (hm_get states key),
      hm_del key states)"

definition fail_initialization ::
  "'k \<Rightarrow> ('k, 'u) init_tracker \<Rightarrow> nat option \<times> ('k, 'u) init_tracker" where
  "fail_initialization key states =
     (map_option (\<lambda>st. length (queued_ops st)) (hm_get states key), hm_del key states)"

definition queued_count :: "'k \<Rightarrow> ('k, 'u) init_tracker \<Rightarrow> nat" where
  "queued_count key states = (case hm_get states key of None \<Rightarrow> 0 | Some st \<Rightarrow> length (queued_ops st))"

text \<open>The age is cast to \<open>u64\<close> nanoseconds before it is compared.\<close>

definition cleanup_stale_initializations ::
  "duration \<Rightarrow> nanos \<Rightarrow> ('k, 'u) init_tracker \<Rightarrow> 'k stale_init_info list \<times> ('k, 'u) init_tracker" where
  "cleanup_stale_initializations max_age now states =
     (let max_age_nanos = max_age mod (u64_max + 1);
          stale = List.map_filter (\<lambda>(key, st).
                    let age = now - started_at_nanos st
                    in if max_age_nanos < age
                       then Some \<lparr>stale_key = key, stale_age = age, dropped_ops = length (queued_ops st)\<rparr>
                       else None) states
      in (stale, foldl (\<lambda>m info. hm_del (stale_key info) m) states stale))"

definition queue_wait_duration :: "'u queued_operation \<Rightarrow> nanos \<Rightarrow> duration" where
  "queue_wait_duration op now = now - queued_at_nanos op"

datatype ('k, 'u) init_event =
    Check 'k bool 'u nanos
  | Start 'k nanos
  | Complete 'k nanos
  | Fail 'k
  | CleanupStale duration nanos

fun init_step :: "('k, 'u) init_tracker \<Rightarrow> ('k, 'u) init_event \<Rightarrow> ('k, 'u) init_tracker" where
  "init_step s (Check k code u now) = snd (check_and_maybe_queue k code u now s)"
| "init_step s (Start k now) = snd (start_initialization k now s)"
| "init_step s (Complete k now) = snd (complete_initialization k now s)"
| "init_step s (Fail k) = snd (fail_initialization k s)"
| "init_step s (CleanupStale age now) = snd (cleanup_stale_initializations age now s)"

definition init_inv :: "('k, 'u) init_tracker \<Rightarrow> bool" where
  "init_inv s \<longleftrightarrow> hm_wf s \<and> length s \<le> MAX_CONCURRENT_INITIALIZATIONS \<and>
     (\<forall>k st. hm_get s k = Some st \<longrightarrow> length (queued_ops st) \<le> MAX_QUEUED_OPS_PER_CONTRACT)"

text \<open>
  The updates of a run that are addressed to a contract, and the runs that neither finish nor
  restart its initialization nor find it stale.
\<close>

fun updates_for :: "'k \<Rightarrow> ('k, 'u) init_event list \<Rightarrow> 'u queued_operation list" where
  "updates_for k [] = []"
| "updates_for k (Check k' code u now # es) =
     (if k' = k \<and> \<not> code then \<lparr>update_op = u, queued_at_nanos = now\<rparr> # updates_for k es
      else updates_for k es)"
| "updates_for k (e # es) = updates_for k es"

fun leaves_alone :: "'k \<Rightarrow> nanos \<Rightarrow> ('k, 'u) init_event \<Rightarrow> bool" where
  "leaves_alone k t0 (Check k' code u now) = True"
| "leaves_alone k t0 (Start k' now) = (k' \<noteq> k)"
| "leaves_alone k t0 (Complete k' now) = (k' \<noteq> k)"
| "leaves_alone k t0 (Fail k') = (k' \<noteq> k)"
| "leaves_alone k t0 (CleanupStale age now) = (now - t0 \<le> age \<and> age \<le> u64_max)"

section \<open>Stale entries\<close>

lemma foldl_hm_del:
  "hm_get (foldl (\<lambda>m i. hm_del (f i) m) m xs) k = (if k \<in> f ` set xs then None else hm_get m k)"
  by (induction xs arbitrary: m) (auto simp: hm_simps)

lemma foldl_hm_del_wf: "hm_wf m \<Longrightarrow> hm_wf (foldl (\<lambda>m i. hm_del (f i) m) m xs)"
  by (induction xs arbitrary: m) auto

lemma foldl_hm_del_length: "length (foldl (\<lambda>m i. hm_del (f i) m) m xs) \<le> length m"
  by (induction xs arbitrary: m) (auto intro: order_trans length_delete_le)

lemma stale_keys:
  assumes "hm_wf s"
  shows "k \<in> stale_key ` set (fst (cleanup_stale_initializations age now s)) \<longleftrightarrow>
    (\<exists>st. hm_get s k = Some st \<and> age mod (u64_max + 1) < now - started_at_nanos st)"
proof -
  have "k \<in> stale_key ` set (fst (cleanup_stale_initializations age now s)) \<longleftrightarrow>
    (\<exists>st. (k, st) \<in> set s \<and> age mod (u64_max + 1) < now - started_at_nanos st)"
    by (force simp: cleanup_stale_initializations_def Let_def map_filter_def image_iff
        split: if_splits prod.splits)
  then show ?thesis
    using assms by (simp add: hm_get_in_set)
qed

lemma init_cleanup_get:
  assumes "hm_wf s"
  shows "hm_get (snd (cleanup_stale_initializations age now s)) k =
    (case hm_get s k of None \<Rightarrow> None
     | Some st \<Rightarrow> if age mod (u64_max + 1) < now - started_at_nanos st then None else Some st)"
  using stale_keys [OF assms, of k age now]
  by (auto simp: cleanup_stale_initializations_def Let_def foldl_hm_del split: option.splits)

lemma init_cleanup_wf: "hm_wf s \<Longrightarrow> hm_wf (snd (cleanup_stale_initializations age now s))"
  by (simp add: cleanup_stale_initializations_def Let_def foldl_hm_del_wf)

lemma init_cleanup_length: "length (snd (cleanup_stale_initializations age now s)) \<le> length s"
  by (simp add: cleanup_stale_initializations_def Let_def foldl_hm_del_length)

section \<open>The limits\<close>

lemma check_inv: "init_inv s \<Longrightarrow> init_inv (snd (check_and_maybe_queue k code u now s))"
  by (auto simp: check_and_maybe_queue_def init_inv_def hm_simps hm_length_put hm_has_def Let_def
      split: option.splits)

lemma start_inv: "init_inv s \<Longrightarrow> init_inv (snd (start_initialization k now s))"
  by (auto simp: start_initialization_def init_inv_def hm_simps hm_length_put split: if_splits)

lemma del_inv: "init_inv s \<Longrightarrow> init_inv (hm_del k s)"
  by (auto simp: init_inv_def hm_simps hm_length_del split: if_splits)

lemma cleanup_inv: "init_inv s \<Longrightarrow> init_inv (snd (cleanup_stale_initializations age now s))"
  using init_cleanup_length [of age now s]
  by (auto simp: init_inv_def init_cleanup_wf init_cleanup_get split: option.splits if_splits)

lemma init_step_inv: "init_inv s \<Longrightarrow> init_inv (init_step s e)"
  by (cases e) (simp_all add: check_inv start_inv cleanup_inv complete_initialization_def
      fail_initialization_def del_inv)

interpretation it: started_machine init_step init_inv new_init_tracker
  by unfold_locales (rule init_step_inv, assumption, simp add: new_init_tracker_def init_inv_def)

section \<open>Queued updates\<close>

lemma step_other:
  assumes "hm_wf s" and "hm_get s k = Some st" and "leaves_alone k (started_at_nanos st) e"
    and "\<forall>code u now. e \<noteq> Check k code u now"
  shows "hm_get (init_step s e) k = Some st"
  using assms
  by (cases e) (auto simp: check_and_maybe_queue_def start_initialization_def hm_simps Let_def
      complete_initialization_def fail_initialization_def init_cleanup_get split: option.splits)

lemma step_check:
  assumes "hm_get s k = Some st" and "length (queued_ops st) \<le> MAX_QUEUED_OPS_PER_CONTRACT"
  shows "hm_get (init_step s (Check k code u now)) k = Some (st\<lparr>queued_ops :=
     take MAX_QUEUED_OPS_PER_CONTRACT
       (queued_ops st @ (if code then [] else [\<lparr>update_op = u, queued_at_nanos = now\<rparr>]))\<rparr>)"
  using assms by (auto simp: check_and_maybe_queue_def hm_simps Let_def)

lemma take_take_append: "take n (take n xs @ ys) = take n (xs @ ys)"
  by (simp add: min_def)

lemma run_queues:
  assumes "init_inv s" and "hm_get s k = Some st" and "list_all (leaves_alone k (started_at_nanos st)) es"
  shows "hm_get (foldl init_step s es) k = Some (st\<lparr>queued_ops :=
     take MAX_QUEUED_OPS_PER_CONTRACT (queued_ops st @ updates_for k es)\<rparr>)"
  using assms
proof (induction es arbitrary: s st)
  case Nil
  then show ?case by (auto simp: init_inv_def)
next
  case (Cons e es)
  have inv: "init_inv (init_step s e)" by (rule init_step_inv) (rule Cons.prems)
  have bound: "length (queued_ops st) \<le> MAX_QUEUED_OPS_PER_CONTRACT"
    using Cons.prems by (simp add: init_inv_def)
  show ?case
  proof (cases "\<exists>code u now. e = Check k code u now")
    case True
    then obtain code u now where e: "e = Check k code u now" by blast
    let ?new = "if code then [] else [\<lparr>update_op = u, queued_at_nanos = now\<rparr>]"
    have upd: "updates_for k (e # es) = ?new @ updates_for k es"
      by (simp add: e)
    from Cons.IH [OF inv [unfolded e] step_check [OF Cons.prems(2) bound]] Cons.prems(3)
    show ?thesis
      unfolding upd by (simp add: e take_take_append del: take_append)
  next
    case False
    have "hm_get (init_step s e) k = Some st"
      using Cons.prems False by (intro step_other) (auto simp: init_inv_def)
    from Cons.IH [OF inv this] Cons.prems(3) False show ?thesis
      by (cases e) (auto split: if_splits)
  qed
qed

section \<open>Properties\<close>

text \<open>
  updates queued during an initialization are delivered exactly once and in order.  If an
  initialization of \<open>k\<close> starts at \<open>t0\<close> and nothing until its completion restarts, finishes or
  expires it, then completing it returns the updates that arrived for \<open>k\<close> in between (the
  first 100 of them; later ones were refused with \<open>QueueFull\<close>) in their order of arrival.
\<close>

theorem queued_updates_delivered:
  assumes "init_inv s" and "fst (start_initialization k t0 s) = Inr ()"
    and "list_all (leaves_alone k t0) es"
  shows "fst (complete_initialization k now (foldl init_step (snd (start_initialization k t0 s)) es)) =
           Some \<lparr>completed_ops = take MAX_QUEUED_OPS_PER_CONTRACT (updates_for k es),
                 init_duration = now - t0\<rparr>"
proof -
  let ?s = "snd (start_initialization k t0 s)"
  have "hm_get ?s k = Some \<lparr>queued_ops = [], started_at_nanos = t0\<rparr>"
    using assms(2) by (auto simp: start_initialization_def hm_simps split: if_splits)
  from run_queues [OF start_inv [OF assms(1)] this] assms(3) show ?thesis
    by (simp add: complete_initialization_def)
qed

theorem queued_updates_delivered_witness:
  "fst (complete_initialization ''k'' 9 (foldl init_step (snd (start_initialization ''k'' 5 []))
      [Check ''k'' False (1::nat) 6, Check ''other'' False 2 7, Check ''k'' True 3 8])) =
   Some \<lparr>completed_ops = [\<lparr>update_op = 1, queued_at_nanos = 6\<rparr>], init_duration = 4\<rparr>"
proof -
  have "init_inv ([] :: (string, nat) init_tracker)" by (simp add: init_inv_def)
  from queued_updates_delivered [OF this, of "''k''" 5 "[Check ''k'' False (1::nat) 6, Check ''other'' False 2 7, Check ''k'' True 3 8]" 9]
  show ?thesis
    by (simp add: start_initialization_def MAX_CONCURRENT_INITIALIZATIONS_def
        MAX_QUEUED_OPS_PER_CONTRACT_def)
qed

text \<open>
  the tracker is bounded: from the empty tracker, every sequence of operations leaves at
  most 50 contracts initializing and at most 100 updates queued for each.
\<close>

theorem init_tracker_bounded:
  "length (foldl init_step new_init_tracker es) \<le> MAX_CONCURRENT_INITIALIZATIONS \<and>
   queued_count k (foldl init_step new_init_tracker es) \<le> MAX_QUEUED_OPS_PER_CONTRACT"
  using it.reachable_inv [of es] by (auto simp: init_inv_def queued_count_def split: option.splits)

end
