(* ===== verification/Packet_Data.thy ===== *)
theory Packet_Data
  imports Freenet_Prelude
begin

text \<open>
  Packets on the wire: \<open>transport/packet_data.rs\<close> (the fixed buffers, the nonce generator and
  symmetric encryption) and the intro-packet encryption of \<open>transport/crypto.rs\<close>.

  AES-128-GCM, ChaCha20-Poly1305 and X25519 are third-party code: their functions are
  arguments, and what the code relies on (decrypting what was encrypted gives it back, the tag
  has its documented length, the two sides of a Diffie-Hellman exchange agree) is the
  hypothesis \<open>aead_ok\<close>, respectively \<open>chacha_ok\<close> and \<open>dh_ok\<close>, of the theorems that need it.
  A slice whose bounds are not in range panics, which is the outcome \<open>Panic\<close>.

  Shown: both encryptions round-trip for every payload that fits; a short packet with the
  symmetric marker makes the decryption panic; the nonces a thread generates are pairwise
  distinct.
\<close>

definition ETHERNET_MTU :: nat where
  "ETHERNET_MTU = 1500"

definition MAX_PACKET_SIZE :: nat where
  "MAX_PACKET_SIZE = 1200"

definition MAX_RECV_PACKET_SIZE :: nat where
  "MAX_RECV_PACKET_SIZE = ETHERNET_MTU"

definition X25519_PUBLIC_KEY_SIZE :: nat where
  "X25519_PUBLIC_KEY_SIZE = 32"

definition CHACHA_TAG_SIZE :: nat where
  "CHACHA_TAG_SIZE = 16"

definition PACKET_TYPE_INTRO :: byte where
  "PACKET_TYPE_INTRO = 1"

definition PACKET_TYPE_SYMMETRIC :: byte where
  "PACKET_TYPE_SYMMETRIC = 2"

definition PACKET_TYPE_SIZE :: nat where
  "PACKET_TYPE_SIZE = 1"

definition NONCE_SIZE :: nat where
  "NONCE_SIZE = 12"

definition TAG_SIZE :: nat where
  "TAG_SIZE = 16"

definition MAX_DATA_SIZE :: nat where
  "MAX_DATA_SIZE = MAX_PACKET_SIZE - PACKET_TYPE_SIZE - NONCE_SIZE - TAG_SIZE"

definition NONCE_BLOCK :: nat where
  "NONCE_BLOCK = 1000000"

text \<open>The slice \<open>xs[a..b]\<close>; out of range it panics, which is \<open>None\<close>.\<close>

definition slice :: "'a list \<Rightarrow> nat \<Rightarrow> nat \<Rightarrow> 'a list option" where
  "slice xs a b = (if a \<le> b \<and> b \<le> length xs then Some (take (b - a) (drop a xs)) else None)"

section \<open>Nonces\<close>

text \<open>
  The two thread-local cells.  The random prefix is drawn on first use; the draw is an
  argument.
\<close>

record nonce_state =
  NONCE_COUNTER :: nat
  NONCE_RANDOM_PREFIX :: "byte list option"

definition reset_nonce_counter :: "nat \<Rightarrow> nonce_state" where
  "reset_nonce_counter thread_index =
     \<lparr>NONCE_COUNTER = thread_index * NONCE_BLOCK mod (u64_max + 1), NONCE_RANDOM_PREFIX = None\<rparr>"

definition get_nonce_prefix :: "byte list \<Rightarrow> nonce_state \<Rightarrow> byte list \<times> nonce_state" where
  "get_nonce_prefix fresh s =
     (case NONCE_RANDOM_PREFIX s of
        Some prefix \<Rightarrow> (prefix, s)
      | None \<Rightarrow> (fresh, s\<lparr>NONCE_RANDOM_PREFIX := Some fresh\<rparr>))"

definition generate_nonce :: "byte list \<Rightarrow> nonce_state \<Rightarrow> byte list \<times> nonce_state" where
  "generate_nonce fresh s =
     (let counter = NONCE_COUNTER s;
          s = s\<lparr>NONCE_COUNTER := wrap_add counter 1\<rparr>;
          (prefix, s) = get_nonce_prefix fresh s
      in (prefix @ le_bytes 8 counter, s))"

text \<open>The nonces of \<open>n\<close> successive calls on one thread.\<close>

fun nonces :: "byte list \<Rightarrow> nat \<Rightarrow> nonce_state \<Rightarrow> byte list list" where
  "nonces fresh 0 s = []"
| "nonces fresh (Suc n) s = (let (nonce, s) = generate_nonce fresh s in nonce # nonces fresh n s)"

section \<open>Packets\<close>

text \<open>\<open>PacketData<_, N>\<close>: the array (of length \<open>N\<close>) and the number of its bytes in use.\<close>

record packet_data =
  pd_array :: "byte list"
  pd_size :: nat

definition pd_data :: "packet_data \<Rightarrow> byte list" where
  "pd_data p = take (pd_size p) (pd_array p)"

definition pad :: "nat \<Rightarrow> byte list \<Rightarrow> byte list" where
  "pad N xs = xs @ replicate (N - length xs) 0"

text \<open>\<open>from_buf\<close>, \<open>from_buf_plain\<close>: \<open>None\<close> when the buffer does not fit (the copy panics).\<close>

definition from_buf :: "nat \<Rightarrow> byte list \<Rightarrow> packet_data option" where
  "from_buf N buf = (if length buf \<le> N then Some \<lparr>pd_array = pad N buf, pd_size = length buf\<rparr> else None)"

definition packet_type :: "packet_data \<Rightarrow> byte option" where
  "packet_type p =
     (if pd_size p < PACKET_TYPE_SIZE then None
      else let t = pd_array p ! 0
           in if t = PACKET_TYPE_INTRO \<or> t = PACKET_TYPE_SYMMETRIC then Some t else None)"

definition is_intro_packet :: "packet_data \<Rightarrow> bool" where
  "is_intro_packet p = (packet_type p = Some PACKET_TYPE_INTRO)"

definition is_symmetric_packet :: "packet_data \<Rightarrow> bool" where
  "is_symmetric_packet p = (packet_type p = Some PACKET_TYPE_SYMMETRIC)"

text \<open>
  \<open>enc nonce plaintext\<close> is \<open>encrypt_in_place_detached\<close> (ciphertext and tag), \<open>dec nonce
  ciphertext tag\<close> is \<open>decrypt_in_place_detached\<close>, both under one key.
\<close>

type_synonym aead_enc = "byte list \<Rightarrow> byte list \<Rightarrow> byte list \<times> byte list"
type_synonym aead_dec = "byte list \<Rightarrow> byte list \<Rightarrow> byte list \<Rightarrow> byte list option"

definition encrypt_symmetric ::
  "nat \<Rightarrow> aead_enc \<Rightarrow> byte list \<Rightarrow> packet_data \<Rightarrow> packet_data option" where
  "encrypt_symmetric N enc nonce p =
     (let payload_length = pd_size p;
          sz = PACKET_TYPE_SIZE + NONCE_SIZE + payload_length + TAG_SIZE
      in if N < sz then None
         else let (ct, tag) = enc nonce (pd_data p)
              in Some \<lparr>pd_array = pad N (PACKET_TYPE_SYMMETRIC # nonce @ ct @ tag), pd_size = sz\<rparr>)"

datatype aes_error = AesError

definition internal_sym_decryption ::
  "nat \<Rightarrow> aead_dec \<Rightarrow> byte list \<Rightarrow> nat \<Rightarrow> (aes_error, packet_data) outcome" where
  "internal_sym_decryption N dec array sz =
     (case slice array 0 1 of
        None \<Rightarrow> Panic
      | Some hd1 \<Rightarrow>
          if hd1 ! 0 \<noteq> PACKET_TYPE_SYMMETRIC then Err AesError
          else if sz < TAG_SIZE then Panic
          else (case (slice array PACKET_TYPE_SIZE (PACKET_TYPE_SIZE + NONCE_SIZE),
                      slice array (sz - TAG_SIZE) sz,
                      slice array (PACKET_TYPE_SIZE + NONCE_SIZE) (sz - TAG_SIZE)) of
                  (Some nonce, Some tag, Some encrypted_data) \<Rightarrow>
                    if N < length encrypted_data then Panic
                    else (case dec nonce encrypted_data tag of
                            None \<Rightarrow> Err AesError
                          | Some buffer \<Rightarrow> Ok \<lparr>pd_array = pad N buffer, pd_size = length encrypted_data\<rparr>)
                | _ \<Rightarrow> Panic))"

definition try_decrypt_sym :: "nat \<Rightarrow> aead_dec \<Rightarrow> packet_data \<Rightarrow> (aes_error, packet_data) outcome" where
  "try_decrypt_sym N dec p = internal_sym_decryption N dec (pd_array p) (pd_size p)"

definition prepared_send :: "packet_data \<Rightarrow> byte list" where
  "prepared_send p = take (pd_size p) (pd_array p)"

definition packet_data_eq :: "packet_data \<Rightarrow> packet_data \<Rightarrow> bool" where
  "packet_data_eq p q \<longleftrightarrow> pd_size p = pd_size q \<and> take (pd_size p) (pd_array p) = take (pd_size q) (pd_array q)"

section \<open>Intro packets\<close>

text \<open>
  X25519 and ChaCha20-Poly1305 with the zero nonce: \<open>public_of\<close> derives the 32 bytes of a public
  key, \<open>dh secret public\<close> is the shared secret, \<open>seal\<close> and \<open>unseal\<close> take that secret as key.
\<close>

datatype decryption_error = InvalidLength | DecryptionFailed | InvalidPacketType

definition encrypt_intro ::
  "('s \<Rightarrow> byte list) \<Rightarrow> ('s \<Rightarrow> byte list \<Rightarrow> 'k) \<Rightarrow> ('k \<Rightarrow> byte list \<Rightarrow> byte list) \<Rightarrow>
   's \<Rightarrow> byte list \<Rightarrow> byte list \<Rightarrow> byte list" where
  "encrypt_intro public_of dh seal ephemeral_secret recipient plaintext =
     (let ephemeral_public = public_of ephemeral_secret;
          shared_secret = dh ephemeral_secret recipient;
          ciphertext = seal shared_secret plaintext
      in PACKET_TYPE_INTRO # ephemeral_public @ ciphertext)"

definition decrypt_intro ::
  "('s \<Rightarrow> byte list \<Rightarrow> 'k) \<Rightarrow> ('k \<Rightarrow> byte list \<Rightarrow> byte list option) \<Rightarrow> 's \<Rightarrow> byte list \<Rightarrow>
   decryption_error + byte list" where
  "decrypt_intro dh unseal secret packet =
     (if length packet < PACKET_TYPE_SIZE + X25519_PUBLIC_KEY_SIZE + CHACHA_TAG_SIZE then Inl InvalidLength
      else if packet ! 0 \<noteq> PACKET_TYPE_INTRO then Inl InvalidPacketType
      else let ephemeral_public = take X25519_PUBLIC_KEY_SIZE (drop PACKET_TYPE_SIZE packet);
               shared_secret = dh secret ephemeral_public;
               ciphertext = drop (PACKET_TYPE_SIZE + X25519_PUBLIC_KEY_SIZE) packet
           in case unseal shared_secret ciphertext of
                None \<Rightarrow> Inl DecryptionFailed
              | Some plaintext \<Rightarrow> Inr plaintext)"

definition intro_packet_size :: "nat \<Rightarrow> nat" where
  "intro_packet_size plaintext_len =
     PACKET_TYPE_SIZE + X25519_PUBLIC_KEY_SIZE + plaintext_len + CHACHA_TAG_SIZE"

definition encrypt_with_pubkey :: "nat \<Rightarrow> (byte list \<Rightarrow> byte list) \<Rightarrow> byte list \<Rightarrow> packet_data option" where
  "encrypt_with_pubkey N encrypt plaintext =
     (let encrypted_data = encrypt plaintext
      in if length encrypted_data \<le> N
         then Some \<lparr>pd_array = pad N encrypted_data, pd_size = length encrypted_data\<rparr> else None)"

definition try_decrypt_asym ::
  "nat \<Rightarrow> (byte list \<Rightarrow> decryption_error + byte list) \<Rightarrow> packet_data \<Rightarrow>
   (decryption_error, packet_data) outcome" where
  "try_decrypt_asym N decrypt p =
     (case decrypt (pd_data p) of
        Inl e \<Rightarrow> Err e
      | Inr decrypted \<Rightarrow>
          if length decrypted \<le> N
          then Ok \<lparr>pd_array = pad N decrypted, pd_size = length decrypted\<rparr> else Panic)"

section \<open>What the ciphers promise\<close>

definition aead_ok :: "aead_enc \<Rightarrow> aead_dec \<Rightarrow> bool" where
  "aead_ok enc dec \<longleftrightarrow>
     (\<forall>nonce p. length (fst (enc nonce p)) = length p \<and> length (snd (enc nonce p)) = TAG_SIZE \<and>
        dec nonce (fst (enc nonce p)) (snd (enc nonce p)) = Some p)"

definition chacha_ok ::
  "('k \<Rightarrow> byte list \<Rightarrow> byte list) \<Rightarrow> ('k \<Rightarrow> byte list \<Rightarrow> byte list option) \<Rightarrow> bool" where
  "chacha_ok seal unseal \<longleftrightarrow>
     (\<forall>k p. length (seal k p) = length p + CHACHA_TAG_SIZE \<and> unseal k (seal k p) = Some p)"

definition dh_ok :: "('s \<Rightarrow> byte list) \<Rightarrow> ('s \<Rightarrow> byte list \<Rightarrow> 'k) \<Rightarrow> bool" where
  "dh_ok public_of dh \<longleftrightarrow>
     (\<forall>a b. length (public_of a) = X25519_PUBLIC_KEY_SIZE \<and> dh a (public_of b) = dh b (public_of a))"

lemmas size_defs = MAX_PACKET_SIZE_def PACKET_TYPE_SIZE_def NONCE_SIZE_def TAG_SIZE_def
  MAX_DATA_SIZE_def X25519_PUBLIC_KEY_SIZE_def CHACHA_TAG_SIZE_def

section \<open>Buffers\<close>

lemma length_pad [simp]: "length xs \<le> N \<Longrightarrow> length (pad N xs) = N"
  by (simp add: pad_def)

lemma take_pad [simp]: "k \<le> length xs \<Longrightarrow> take k (pad N xs) = take k xs"
  by (simp add: pad_def)

lemma data_pad [simp]: "pd_data \<lparr>pd_array = pad N xs, pd_size = length xs\<rparr> = xs"
  by (simp add: pd_data_def)

lemma slice_pad:
  "a \<le> b \<Longrightarrow> b \<le> length xs \<Longrightarrow> length xs \<le> N \<Longrightarrow> slice (pad N xs) a b = slice xs a b"
  by (simp add: slice_def pad_def)

lemma slice_mid: "slice (xs @ ys @ zs) (length xs) (length xs + length ys) = Some ys"
  by (simp add: slice_def)

section \<open>Nonces of a thread\<close>

lemma generate_nonce_started:
  "NONCE_RANDOM_PREFIX s = Some pre \<Longrightarrow>
     generate_nonce fresh s = (pre @ le_bytes 8 (NONCE_COUNTER s), s\<lparr>NONCE_COUNTER := wrap_add (NONCE_COUNTER s) 1\<rparr>)"
  by (simp add: generate_nonce_def get_nonce_prefix_def Let_def)

lemma generate_nonce_first:
  "NONCE_RANDOM_PREFIX s = None \<Longrightarrow>
     generate_nonce fresh s = (fresh @ le_bytes 8 (NONCE_COUNTER s),
       s\<lparr>NONCE_RANDOM_PREFIX := Some fresh, NONCE_COUNTER := wrap_add (NONCE_COUNTER s) 1\<rparr>)"
  by (simp add: generate_nonce_def get_nonce_prefix_def Let_def)

lemma wrap_add_Suc: "wrap_add (wrap_add c (Suc 0)) n = wrap_add c (Suc n)"
  by (simp add: wrap_add_def mod_add_left_eq)

lemma nonces_started:
  "NONCE_RANDOM_PREFIX s = Some pre \<Longrightarrow>
     nonces fresh n s = map (\<lambda>i. pre @ le_bytes 8 (wrap_add (NONCE_COUNTER s) i)) [0..<n] \<or>
     u64_max < NONCE_COUNTER s"
proof (induction n arbitrary: s)
  case (Suc n)
  let ?s = "s\<lparr>NONCE_COUNTER := wrap_add (NONCE_COUNTER s) 1\<rparr>"
  have "wrap_add (NONCE_COUNTER s) 1 \<le> u64_max"
    by (simp add: wrap_add_def)
  then have IH: "nonces fresh n ?s = map (\<lambda>i. pre @ le_bytes 8 (wrap_add (NONCE_COUNTER s) (Suc i))) [0..<n]"
    using Suc.IH [of ?s] Suc.prems by (simp add: wrap_add_Suc)
  have "[0..<Suc n] = 0 # map Suc [0..<n]"
    by (simp add: map_Suc_upt upt_conv_Cons del: upt_Suc)
  then show ?case
    using IH by (auto simp: generate_nonce_started [OF Suc.prems] comp_def simp del: upt_Suc)
qed simp

lemma nonces_closed_form:
  assumes "NONCE_COUNTER s \<le> u64_max"
  shows "\<exists>pre. nonces fresh n s = map (\<lambda>i. pre @ le_bytes 8 (wrap_add (NONCE_COUNTER s) i)) [0..<n]"
proof (cases "NONCE_RANDOM_PREFIX s")
  case (Some pre)
  then show ?thesis using nonces_started [OF Some] assms by auto
next
  case None
  let ?s = "s\<lparr>NONCE_RANDOM_PREFIX := Some fresh\<rparr>"
  have "nonces fresh n s = nonces fresh n ?s"
    by (cases n) (simp_all add: generate_nonce_first [OF None] generate_nonce_started [where pre = fresh])
  then show ?thesis
    using nonces_started [of ?s fresh fresh n] assms by auto
qed

lemma mod_add_cancel_less:
  assumes "(c + x) mod m = (c + y) mod m" "x \<le> y" "y < (m :: nat)"
  shows "x = y"
proof -
  have "m dvd (c + y) - (c + x)"
    using assms by (subst mod_eq_dvd_iff_nat [symmetric]) auto
  then have "m dvd y - x" by simp
  then show "x = y" using assms by (auto dest: dvd_imp_le)
qed

lemma wrap_add_inj: "inj_on (wrap_add c) {..<u64_max + 1}"
proof (rule inj_onI)
  fix x y assume "x \<in> {..<u64_max + 1}" "y \<in> {..<u64_max + 1}" "wrap_add c x = wrap_add c y"
  then show "x = y"
    using mod_add_cancel_less [of c x "u64_max + 1" y] mod_add_cancel_less [of c y "u64_max + 1" x]
    by (cases "x \<le> y") (auto simp: wrap_add_def)
qed

lemma wrap_add_bound: "wrap_add c n < 256 ^ 8"
proof -
  have "wrap_add c n < u64_max + 1" by (simp add: wrap_add_def)
  then show ?thesis by (simp add: u64_max_def)
qed

lemma nonces_distinct_from:
  assumes "NONCE_COUNTER s \<le> u64_max" "n \<le> u64_max + 1"
  shows "distinct (nonces fresh n s)"
proof -
  from nonces_closed_form [OF assms(1), of fresh n] obtain pre where n: "nonces fresh n s =
      map (\<lambda>i. pre @ le_bytes 8 (wrap_add (NONCE_COUNTER s) i)) [0..<n]" ..
  have "inj_on (\<lambda>i. pre @ le_bytes 8 (wrap_add (NONCE_COUNTER s) i)) {0..<n}"
  proof (rule inj_onI)
    fix x y assume xy: "x \<in> {0..<n}" "y \<in> {0..<n}"
      "pre @ le_bytes 8 (wrap_add (NONCE_COUNTER s) x) = pre @ le_bytes 8 (wrap_add (NONCE_COUNTER s) y)"
    from xy(3) have "le_bytes 8 (wrap_add (NONCE_COUNTER s) x) = le_bytes 8 (wrap_add (NONCE_COUNTER s) y)"
      by (simp only: same_append_eq)
    then have eq: "wrap_add (NONCE_COUNTER s) x = wrap_add (NONCE_COUNTER s) y"
      by (rule le_bytes_inj [OF _ wrap_add_bound wrap_add_bound])
    show "x = y"
      by (rule inj_onD [OF wrap_add_inj eq]) (use xy(1,2) assms(2) in simp_all)
  qed
  then show ?thesis by (simp add: n distinct_map)
qed

section \<open>Round trips\<close>

lemma aead_okD:
  "aead_ok enc dec \<Longrightarrow> length (fst (enc nonce p)) = length p \<and> length (snd (enc nonce p)) = TAG_SIZE \<and>
     dec nonce (fst (enc nonce p)) (snd (enc nonce p)) = Some p"
  by (simp add: aead_ok_def)

lemma internal_sym_decryption_Ok:
  assumes "slice A 0 1 = Some [PACKET_TYPE_SYMMETRIC]" "slice A 1 13 = Some nonce"
    "slice A (13 + k) (29 + k) = Some tag" "slice A 13 (13 + k) = Some ct"
    "length ct = k" "k \<le> M" "dec nonce ct tag = Some pl"
  shows "internal_sym_decryption M dec A (29 + k) = Ok \<lparr>pd_array = pad M pl, pd_size = k\<rparr>"
  using assms by (simp add: internal_sym_decryption_def size_defs)

lemma decrypt_of_layout:
  assumes "aead_ok enc dec" "length nonce = NONCE_SIZE" "enc nonce pl = (ct, tag)"
    and len: "length pl + 29 \<le> M"
  shows "try_decrypt_sym M dec \<lparr>pd_array = pad M (PACKET_TYPE_SYMMETRIC # nonce @ ct @ tag),
           pd_size = 29 + length pl\<rparr> = Ok \<lparr>pd_array = pad M pl, pd_size = length pl\<rparr>"
proof -
  let ?b = "PACKET_TYPE_SYMMETRIC # nonce @ ct @ tag"
  have l: "length ct = length pl" "length tag = 16" "length nonce = 12"
    and d: "dec nonce ct tag = Some pl"
    using aead_okD [OF assms(1), of nonce pl] assms(2,3) by (auto simp: size_defs)
  have lb: "length ?b = 29 + length pl" "length ?b \<le> M" using l len by simp_all
  have "slice (pad M ?b) 0 1 = Some [PACKET_TYPE_SYMMETRIC]"
    by (subst slice_pad) (use lb in \<open>simp_all add: slice_def\<close>)
  moreover have "slice (pad M ?b) 1 13 = Some nonce"
    by (subst slice_pad) (use lb l slice_mid [of "[PACKET_TYPE_SYMMETRIC]" nonce "ct @ tag"] in simp_all)
  moreover have "slice (pad M ?b) (13 + length pl) (29 + length pl) = Some tag"
    by (subst slice_pad) (use lb l slice_mid [of "PACKET_TYPE_SYMMETRIC # nonce @ ct" tag "[]"] in simp_all)
  moreover have "slice (pad M ?b) 13 (13 + length pl) = Some ct"
    by (subst slice_pad) (use lb l slice_mid [of "PACKET_TYPE_SYMMETRIC # nonce" ct tag] in simp_all)
  ultimately have "internal_sym_decryption M dec (pad M ?b) (29 + length pl) =
      Ok \<lparr>pd_array = pad M pl, pd_size = length pl\<rparr>"
    by (rule internal_sym_decryption_Ok) (use l d len in simp_all)
  then show ?thesis by (simp only: try_decrypt_sym_def packet_data.simps)
qed

lemma symmetric_layout:
  assumes "aead_ok enc dec" "length nonce = NONCE_SIZE" "length pl \<le> MAX_DATA_SIZE"
    and p: "from_buf MAX_PACKET_SIZE pl = Some p"
  obtains q ct tag where "enc nonce pl = (ct, tag)" "encrypt_symmetric MAX_PACKET_SIZE enc nonce p = Some q"
    "prepared_send q = PACKET_TYPE_SYMMETRIC # nonce @ ct @ tag" "length (prepared_send q) = 29 + length pl"
proof -
  obtain ct tag where e: "enc nonce pl = (ct, tag)" by fastforce
  have l: "length ct = length pl" "length tag = 16"
    using aead_okD [OF assms(1), of nonce pl] e by (auto simp: size_defs)
  have pl: "length pl \<le> 1171" and n: "length nonce = 12" using assms by (simp_all add: size_defs)
  have p': "pd_data p = pl" "pd_size p = length pl"
    using p by (auto simp: from_buf_def split: if_splits)
  let ?b = "PACKET_TYPE_SYMMETRIC # nonce @ ct @ tag"
  let ?q = "\<lparr>pd_array = pad 1200 ?b, pd_size = length ?b\<rparr>"
  have "encrypt_symmetric MAX_PACKET_SIZE enc nonce p = Some ?q"
    using pl n l by (simp add: encrypt_symmetric_def p' e size_defs)
  moreover have "prepared_send ?q = ?b"
    by (simp add: prepared_send_def del: append.simps)
  ultimately show thesis using that [OF e] l n by auto
qed

text \<open>
  C13: What \<open>encrypt_symmetric\<close> puts on the wire for any payload of at most \<open>MAX_DATA_SIZE\<close> bytes
  fits a packet, and the receiver's \<open>try_decrypt_sym\<close> on the received datagram gives the payload
  back.
\<close>

theorem symmetric_round_trip:
  assumes "aead_ok enc dec" "length nonce = NONCE_SIZE" "length pl \<le> MAX_DATA_SIZE"
  shows "\<exists>p q r d. from_buf MAX_PACKET_SIZE pl = Some p \<and>
           encrypt_symmetric MAX_PACKET_SIZE enc nonce p = Some q \<and>
           length (prepared_send q) \<le> MAX_PACKET_SIZE \<and>
           from_buf MAX_RECV_PACKET_SIZE (prepared_send q) = Some r \<and>
           is_symmetric_packet r \<and> try_decrypt_sym MAX_RECV_PACKET_SIZE dec r = Ok d \<and> pd_data d = pl"
proof -
  have pl: "length pl \<le> 1171" using assms(3) by (simp add: size_defs)
  then obtain p where p: "from_buf MAX_PACKET_SIZE pl = Some p"
    by (simp add: from_buf_def size_defs)
  then obtain q ct tag where q: "enc nonce pl = (ct, tag)"
    "encrypt_symmetric MAX_PACKET_SIZE enc nonce p = Some q"
    "prepared_send q = PACKET_TYPE_SYMMETRIC # nonce @ ct @ tag" "length (prepared_send q) = 29 + length pl"
    by (rule symmetric_layout [OF assms])
  let ?r = "\<lparr>pd_array = pad MAX_RECV_PACKET_SIZE (PACKET_TYPE_SYMMETRIC # nonce @ ct @ tag), pd_size = 29 + length pl\<rparr>"
  have M: "length pl + 29 \<le> MAX_RECV_PACKET_SIZE" "length (prepared_send q) \<le> MAX_PACKET_SIZE"
    using pl q(4) by (simp_all add: size_defs MAX_RECV_PACKET_SIZE_def ETHERNET_MTU_def)
  have r: "from_buf MAX_RECV_PACKET_SIZE (prepared_send q) = Some ?r"
    using M q by (simp add: from_buf_def)
  have "is_symmetric_packet ?r"
    by (simp add: is_symmetric_packet_def packet_type_def pad_def size_defs)
  then show ?thesis
    using p q(2) M(2) r decrypt_of_layout [OF assms(1,2) q(1) M(1)] data_pad by blast
qed

theorem symmetric_round_trip_witness:
  "\<exists>p q r d. from_buf MAX_PACKET_SIZE [7, 8, 9] = Some p \<and>
     encrypt_symmetric MAX_PACKET_SIZE (\<lambda>n p. (rev p, replicate 16 0)) (replicate 12 5) p = Some q \<and>
     length (prepared_send q) \<le> MAX_PACKET_SIZE \<and>
     from_buf MAX_RECV_PACKET_SIZE (prepared_send q) = Some r \<and>
     is_symmetric_packet r \<and> try_decrypt_sym MAX_RECV_PACKET_SIZE (\<lambda>n c t. Some (rev c)) r = Ok d \<and>
     pd_data d = [7, 8, 9]"
  by (rule symmetric_round_trip) (simp_all add: aead_ok_def size_defs comp_def)

lemma decrypt_short:
  assumes "0 < length buf" "hd buf = PACKET_TYPE_SYMMETRIC" "length buf < 29" "length buf \<le> M" "29 \<le> M"
  shows "internal_sym_decryption M dec (pad M buf) (length buf) = Panic"
proof -
  have "slice (pad M buf) 0 1 = Some [PACKET_TYPE_SYMMETRIC]"
    using assms by (cases buf) (auto simp: slice_pad, simp add: slice_def)
  moreover have "slice (pad M buf) 13 (length buf - 16) = None"
    using assms by (simp add: slice_def)
  ultimately show ?thesis
    by (simp add: internal_sym_decryption_def size_defs split: option.splits)
qed

lemma decrypt_long:
  assumes "29 \<le> length buf" "length buf \<le> M"
  shows "internal_sym_decryption M dec (pad M buf) (length buf) \<noteq> Panic"
proof -
  have "pad M buf = buf @ replicate (M - length buf) 0" by (simp add: pad_def)
  moreover have "\<not> M < length buf - 29" "13 \<le> length buf - 16" "length buf - 16 \<le> M"
    using assms by linarith+
  ultimately show ?thesis using assms
    by (simp add: internal_sym_decryption_def size_defs slice_def split: option.splits)
qed

text \<open>
  A received datagram makes \<open>try_decrypt_sym\<close> panic exactly when its first byte is the
  symmetric marker and it is shorter than the 29 bytes of marker, nonce and tag: the only length
  check is a \<open>debug_assert\<close> on the whole array, and the slice bounds underflow.
\<close>

theorem sym_decrypt_panics_iff:
  assumes "from_buf MAX_RECV_PACKET_SIZE buf = Some r"
  shows "try_decrypt_sym MAX_RECV_PACKET_SIZE dec r = Panic \<longleftrightarrow>
           0 < length buf \<and> hd buf = PACKET_TYPE_SYMMETRIC \<and> length buf < 29"
proof -
  let ?M = MAX_RECV_PACKET_SIZE
  have r: "pd_array r = pad ?M buf" "pd_size r = length buf" and M: "length buf \<le> ?M" "?M = 1500"
    using assms by (auto simp: from_buf_def MAX_RECV_PACKET_SIZE_def ETHERNET_MTU_def split: if_splits)
  consider "29 \<le> length buf" | "length buf < 29" "0 < length buf" "hd buf = PACKET_TYPE_SYMMETRIC"
    | "length buf = 0" | "0 < length buf" "hd buf \<noteq> PACKET_TYPE_SYMMETRIC" by linarith
  then show ?thesis
  proof cases
    case 1
    then show ?thesis using decrypt_long [of buf ?M dec] M r by (simp add: try_decrypt_sym_def)
  next
    case 2
    then show ?thesis using decrypt_short [of buf ?M dec] M r by (simp add: try_decrypt_sym_def)
  next
    case 3
    then have "slice (pad ?M buf) 0 1 = Some [0]"
      using M by (simp add: slice_def pad_def)
    then show ?thesis using 3
      by (simp add: try_decrypt_sym_def r internal_sym_decryption_def PACKET_TYPE_SYMMETRIC_def)
  next
    case 4
    then have "slice (pad ?M buf) 0 1 = Some [hd buf]"
      using M by (cases buf) (simp_all add: slice_def pad_def)
    then show ?thesis using 4
      by (simp add: try_decrypt_sym_def r internal_sym_decryption_def)
  qed
qed

theorem sym_decrypt_panics_iff_witness:
  "from_buf MAX_RECV_PACKET_SIZE [2] \<noteq> None \<and>
   try_decrypt_sym MAX_RECV_PACKET_SIZE (\<lambda>n c t. Some c) (the (from_buf MAX_RECV_PACKET_SIZE [2])) = Panic"
proof -
  have "from_buf MAX_RECV_PACKET_SIZE [2] = Some (the (from_buf MAX_RECV_PACKET_SIZE [2]))"
    by (simp add: from_buf_def MAX_RECV_PACKET_SIZE_def ETHERNET_MTU_def)
  from sym_decrypt_panics_iff [OF this, of "\<lambda>n c t. Some c"] show ?thesis
    by (simp add: PACKET_TYPE_SYMMETRIC_def) (simp add: from_buf_def MAX_RECV_PACKET_SIZE_def ETHERNET_MTU_def)
qed

text \<open>
  The nonces one thread generates after its counter is set are pairwise distinct, for as
  many packets as the 64-bit counter can number, whatever random prefix is drawn.
\<close>

theorem nonces_distinct:
  assumes "n \<le> u64_max + 1"
  shows "distinct (nonces fresh n (reset_nonce_counter thread_index))"
  by (rule nonces_distinct_from [OF _ assms]) (simp add: reset_nonce_counter_def)

theorem nonces_distinct_witness:
  "distinct (nonces [1, 2, 3, 4] 1000 (reset_nonce_counter 3))"
  by (rule nonces_distinct) (simp add: u64_max_def)

text \<open>
  The counter values of different threads overlap after a block of a million packets: from then
  on only the random prefixes keep the nonces of the two threads apart.
\<close>

lemma nonce_blocks_overlap:
  "nonces fresh 1 (reset_nonce_counter 1) =
   [fresh @ le_bytes 8 (wrap_add (NONCE_COUNTER (reset_nonce_counter 0)) NONCE_BLOCK)]"
  by (simp add: reset_nonce_counter_def generate_nonce_first NONCE_BLOCK_def wrap_add_def u64_max_def)

text \<open>
  An intro packet encrypted for a peer's public key decrypts under that peer's secret key
  to the plaintext, and has the size \<open>intro_packet_size\<close> announces.
\<close>

theorem intro_round_trip:
  assumes "dh_ok public_of dh" "chacha_ok seal unseal"
  shows "decrypt_intro dh unseal sk (encrypt_intro public_of dh seal eph (public_of sk) pl) = Inr pl \<and>
         length (encrypt_intro public_of dh seal eph (public_of sk) pl) = intro_packet_size (length pl)"
proof -
  have l: "length (public_of eph) = 32" "dh eph (public_of sk) = dh sk (public_of eph)"
    using assms(1) by (simp_all add: dh_ok_def size_defs)
  have c: "length (seal (dh sk (public_of eph)) pl) = length pl + 16"
    "unseal (dh sk (public_of eph)) (seal (dh sk (public_of eph)) pl) = Some pl"
    using assms(2) by (simp_all add: chacha_ok_def size_defs)
  show ?thesis
    by (simp add: encrypt_intro_def decrypt_intro_def intro_packet_size_def Let_def size_defs l c)
qed

theorem intro_round_trip_witness:
  "decrypt_intro (\<lambda>s p. map2 (+) (replicate 32 s) p) (\<lambda>k c. Some (take (length c - 16) c)) 3
     (encrypt_intro (\<lambda>s. replicate 32 s) (\<lambda>s p. map2 (+) (replicate 32 s) p) (\<lambda>k p. p @ replicate 16 0)
        (4 :: byte) (replicate 32 3) [1, 2]) = Inr [1, 2]"
  using intro_round_trip [of "\<lambda>s. replicate 32 s" "\<lambda>s p. map2 (+) (replicate 32 s) p"
      "\<lambda>k p. p @ replicate 16 0" "\<lambda>k c. Some (take (length c - 16) c)" 3 4 "[1, 2]"]
  by (simp add: dh_ok_def chacha_ok_def size_defs zip_replicate add.commute)

end
