(* ===== verification/Stream_Buffer.thy ===== *)
theory Stream_Buffer
  imports Packet_Data
begin

text \<open>
  \<open>LockFreeStreamBuffer\<close> of \<open>transport/peer_connection/streaming_buffer.rs\<close>: the slots in
  which the fragments of an inbound stream are reassembled.  A slot is an \<open>AtomicPtr<Bytes>\<close>,
  here an optional byte list (\<open>None\<close> is the null pointer).  This theory runs every operation
  to its end; \<open>Buffer_Concurrency\<close> interleaves the atomic accesses of several threads.

  Fragment counts are cast to \<open>u32\<close> as in the source.  The one sum that could leave that
  width, \<open>current + 1\<close> in \<open>advance_frontier\<close>, does so only for a stream of 2 to the power 32
  fragments (about 4.8 TB).

  Shown: the invariant of the slots; a duplicate never changes the buffer; the frontier is the
  length of the contiguous prefix; \<open>assemble\<close> returns the contiguous bytes cut to the declared
  size; and the fragments of a stream, inserted in any order and any number of times, assemble
  to the stream exactly when all of them have arrived.
\<close>

definition FRAGMENT_PAYLOAD_SIZE :: nat where
  "FRAGMENT_PAYLOAD_SIZE = MAX_DATA_SIZE - 41"

datatype insert_error = InvalidNumber nat nat | AlreadyConsumed nat

record stream_buffer =
  fragments :: "byte list option list"
  total_size :: nat
  total_fragments :: nat
  min_complete_fragments :: nat
  contiguous_fragments :: nat
  consumed_frontier :: nat

definition base_fragment_count :: "nat \<Rightarrow> nat" where
  "base_fragment_count n = (if n = 0 then 0 else div_ceil n FRAGMENT_PAYLOAD_SIZE)"

definition calculate_fragment_count :: "nat \<Rightarrow> nat" where
  "calculate_fragment_count n =
     (let base = base_fragment_count n in if base = 0 then 0 else base + 1)"

definition new_stream_buffer :: "nat \<Rightarrow> stream_buffer" where
  "new_stream_buffer n =
     (let base_fragments = base_fragment_count n;
          num_fragments = calculate_fragment_count n
      in \<lparr>fragments = replicate num_fragments None, total_size = n,
          total_fragments = as_u32 num_fragments, min_complete_fragments = as_u32 base_fragments,
          contiguous_fragments = 0, consumed_frontier = 0\<rparr>)"

text \<open>Without other threads every compare-and-exchange of the loop succeeds.\<close>

function advance_frontier :: "stream_buffer \<Rightarrow> stream_buffer" where
  "advance_frontier b =
     (let next = contiguous_fragments b + 1
      in if total_fragments b < next then b
         else if fragments b ! (next - 1) = None then b
         else advance_frontier (b\<lparr>contiguous_fragments := next\<rparr>))"
  by pat_completeness auto
termination
  by (relation "measure (\<lambda>b. total_fragments b - contiguous_fragments b)") auto

declare advance_frontier.simps [simp del]

definition insert_fragment ::
  "nat \<Rightarrow> byte list \<Rightarrow> stream_buffer \<Rightarrow> (insert_error + bool) \<times> stream_buffer" where
  "insert_fragment fragment_number payload b =
     (if fragment_number = 0 \<or> total_fragments b < fragment_number
      then (Inl (InvalidNumber fragment_number (total_fragments b)), b)
      else if fragment_number \<le> consumed_frontier b
      then (Inl (AlreadyConsumed fragment_number), b)
      else let idx = fragment_number - 1
           in if fragments b ! idx = None
              then (Inr True, advance_frontier (b\<lparr>fragments := (fragments b)[idx := Some payload]\<rparr>))
              else (Inr False, b))"

definition is_complete :: "stream_buffer \<Rightarrow> bool" where
  "is_complete b \<longleftrightarrow> min_complete_fragments b \<le> contiguous_fragments b"

definition inserted_count :: "stream_buffer \<Rightarrow> nat" where
  "inserted_count b = length (filter (\<lambda>s. s \<noteq> None) (fragments b))"

definition get_fragment :: "nat \<Rightarrow> stream_buffer \<Rightarrow> byte list option" where
  "get_fragment fragment_number b =
     (if fragment_number = 0 \<or> total_fragments b < fragment_number then None
      else fragments b ! (fragment_number - 1))"

definition take_fragment :: "nat \<Rightarrow> stream_buffer \<Rightarrow> byte list option \<times> stream_buffer" where
  "take_fragment fragment_number b =
     (if fragment_number = 0 \<or> total_fragments b < fragment_number then (None, b)
      else let idx = fragment_number - 1
           in (fragments b ! idx, b\<lparr>fragments := (fragments b)[idx := None]\<rparr>))"

text \<open>
  \<open>mark_consumed\<close>: the loop over the slots between the consumed frontier and the given number,
  counting what it frees; \<open>None\<close> is the failed assertion.
\<close>

definition free_slot :: "nat \<Rightarrow> nat \<times> byte list option list \<Rightarrow> nat \<times> byte list option list" where
  "free_slot idx = (\<lambda>(freed, slots). (if slots ! idx = None then freed else freed + 1, slots[idx := None]))"

definition mark_consumed :: "nat \<Rightarrow> stream_buffer \<Rightarrow> (nat \<times> stream_buffer) option" where
  "mark_consumed up_to_index b =
     (if total_fragments b < up_to_index then None
      else let (freed_count, slots) = fold free_slot [consumed_frontier b..<up_to_index] (0, fragments b)
           in Some (freed_count, b\<lparr>fragments := slots, consumed_frontier := max (consumed_frontier b) up_to_index\<rparr>))"

fun assemble_loop :: "nat \<Rightarrow> byte list \<Rightarrow> byte list option list \<Rightarrow> byte list" where
  "assemble_loop target result [] = result"
| "assemble_loop target result (None # slots) = result"
| "assemble_loop target result (Some payload # slots) =
     (let result = result @ payload
      in if target \<le> length result then result else assemble_loop target result slots)"

definition assemble :: "stream_buffer \<Rightarrow> byte list option" where
  "assemble b =
     (if \<not> is_complete b then None
      else if 0 < consumed_frontier b then None
      else let result = take (total_size b) (assemble_loop (total_size b) [] (fragments b))
           in if length result = total_size b then Some result else None)"

definition iter_contiguous :: "stream_buffer \<Rightarrow> byte list list" where
  "iter_contiguous b = map the (takeWhile (\<lambda>s. s \<noteq> None) (fragments b))"

definition collect_contiguous :: "stream_buffer \<Rightarrow> byte list" where
  "collect_contiguous b = concat (iter_contiguous b)"

section \<open>Events, invariant and specification\<close>

datatype buffer_event = Insert nat "byte list" | Take nat | Consume nat

fun buffer_step :: "stream_buffer \<Rightarrow> buffer_event \<Rightarrow> stream_buffer" where
  "buffer_step b (Insert n d) = snd (insert_fragment n d b)"
| "buffer_step b (Take n) = snd (take_fragment n b)"
| "buffer_step b (Consume n) = (case mark_consumed n b of None \<Rightarrow> b | Some (_, b') \<Rightarrow> b')"

definition buffer_inv :: "stream_buffer \<Rightarrow> bool" where
  "buffer_inv b \<longleftrightarrow>
     total_fragments b \<le> length (fragments b) \<and> contiguous_fragments b \<le> total_fragments b \<and>
     consumed_frontier b \<le> total_fragments b \<and>
     (\<forall>i < consumed_frontier b. fragments b ! i = None) \<and>
     (contiguous_fragments b < total_fragments b \<longrightarrow> fragments b ! contiguous_fragments b = None)"

text \<open>The buffer as its reader sees it: nothing consumed, the frontier at the first gap.\<close>

definition prefix_len :: "'a option list \<Rightarrow> nat" where
  "prefix_len slots = length (takeWhile (\<lambda>s. s \<noteq> None) slots)"

text \<open>
  How a stream is cut: the payloads of its fragments in order.  The last one is not empty, each
  fits a packet, and there is at most one more than full payloads would need (the first may be
  short because the metadata travels with it).
\<close>

definition stream_split :: "byte list list \<Rightarrow> byte list \<Rightarrow> bool" where
  "stream_split fs d \<longleftrightarrow>
     concat fs = d \<and> fs \<noteq> [] \<and> last fs \<noteq> [] \<and> (\<forall>f \<in> set fs. length f \<le> FRAGMENT_PAYLOAD_SIZE) \<and>
     length fs \<le> calculate_fragment_count (length d) \<and> length d \<le> u32_max"

definition insert_numbered :: "byte list list \<Rightarrow> stream_buffer \<Rightarrow> nat \<Rightarrow> stream_buffer" where
  "insert_numbered fs b n = snd (insert_fragment n (fs ! (n - 1)) b)"

definition receive_buffered :: "nat \<Rightarrow> (nat \<times> byte list) list \<Rightarrow> byte list option" where
  "receive_buffered len arrivals =
     assemble (foldl (\<lambda>b (n, payload). snd (insert_fragment n payload b)) (new_stream_buffer len) arrivals)"

definition numbered :: "byte list list \<Rightarrow> nat list \<Rightarrow> (nat \<times> byte list) list" where
  "numbered fs ns = map (\<lambda>n. (n, fs ! (n - 1))) ns"

text \<open>The slots after the fragments with numbers in \<open>S\<close> have arrived.\<close>

definition arrived :: "byte list list \<Rightarrow> nat \<Rightarrow> nat set \<Rightarrow> byte list option list" where
  "arrived fs N S = map (\<lambda>i. if Suc i \<in> S then Some (fs ! i) else None) [0..<N]"

definition buffer_with :: "byte list list \<Rightarrow> byte list \<Rightarrow> nat set \<Rightarrow> stream_buffer" where
  "buffer_with fs d S =
     (let slots = arrived fs (calculate_fragment_count (length d)) S
      in (new_stream_buffer (length d))\<lparr>fragments := slots, contiguous_fragments := prefix_len slots\<rparr>)"

lemmas buffer_op_defs = insert_fragment_def take_fragment_def mark_consumed_def

section \<open>The frontier\<close>

lemma advance_frontier_spec:
  assumes "contiguous_fragments b \<le> total_fragments b"
  shows "\<exists>c. advance_frontier b = b\<lparr>contiguous_fragments := c\<rparr> \<and>
           contiguous_fragments b \<le> c \<and> c \<le> total_fragments b \<and>
           (\<forall>i. contiguous_fragments b \<le> i \<longrightarrow> i < c \<longrightarrow> fragments b ! i \<noteq> None) \<and>
           (c < total_fragments b \<longrightarrow> fragments b ! c = None)"
  using assms
proof (induction b rule: advance_frontier.induct)
  case (1 b)
  let ?c = "contiguous_fragments b"
  show ?case
  proof (cases "total_fragments b < ?c + 1 \<or> fragments b ! ?c = None")
    case True
    then have "advance_frontier b = b\<lparr>contiguous_fragments := ?c\<rparr>"
      by (subst advance_frontier.simps) auto
    then show ?thesis using True "1.prems" by (intro exI [of _ ?c]) auto
  next
    case False
    then have step: "advance_frontier b = advance_frontier (b\<lparr>contiguous_fragments := ?c + 1\<rparr>)"
      by (subst advance_frontier.simps) auto
    obtain c where c: "advance_frontier (b\<lparr>contiguous_fragments := ?c + 1\<rparr>) = b\<lparr>contiguous_fragments := c\<rparr>"
      "?c + 1 \<le> c" "c \<le> total_fragments b"
      "\<forall>i. ?c + 1 \<le> i \<longrightarrow> i < c \<longrightarrow> fragments b ! i \<noteq> None"
      "c < total_fragments b \<longrightarrow> fragments b ! c = None"
      using "1.IH" [of "?c + 1"] False by auto
    have "fragments b ! i \<noteq> None" if "?c \<le> i" "i < c" for i
      using c(4) False that by (cases "i = ?c") auto
    then show ?thesis using c step by (intro exI [of _ c]) auto
  qed
qed

lemma prefix_lenI:
  assumes "\<And>i. i < c \<Longrightarrow> slots ! i \<noteq> None" "c \<le> length slots" "c < length slots \<Longrightarrow> slots ! c = None"
  shows "prefix_len slots = c"
proof -
  have "takeWhile (\<lambda>s. s \<noteq> None) slots = take c slots"
    by (rule takeWhile_eq_take_P_nth) (use assms in auto)
  then show ?thesis using assms(2) by (simp add: prefix_len_def)
qed

lemma prefix_len_nth: "i < prefix_len slots \<Longrightarrow> slots ! i \<noteq> None"
  unfolding prefix_len_def by (metis (mono_tags, lifting) nth_mem set_takeWhileD takeWhile_nth)

lemma prefix_len_le: "prefix_len slots \<le> length slots"
  by (simp add: prefix_len_def length_takeWhile_le)

lemma prefix_len_stop: "prefix_len slots < length slots \<Longrightarrow> slots ! prefix_len slots = None"
  unfolding prefix_len_def by (drule nth_length_takeWhile) simp

section \<open>Invariant\<close>

lemma advance_frontier_inv:
  assumes "total_fragments b \<le> length (fragments b)" "contiguous_fragments b \<le> total_fragments b"
    "consumed_frontier b \<le> total_fragments b" "\<forall>i < consumed_frontier b. fragments b ! i = None"
  shows "buffer_inv (advance_frontier b)"
  using advance_frontier_spec [OF assms(2)] assms by (auto simp: buffer_inv_def)

lemma insert_inv:
  assumes "buffer_inv b"
  shows "buffer_inv (snd (insert_fragment n d b))"
proof -
  let ?b = "b\<lparr>fragments := (fragments b)[n - 1 := Some d]\<rparr>"
  have "buffer_inv (advance_frontier ?b)" if "consumed_frontier b < n" "n \<le> total_fragments b"
    by (rule advance_frontier_inv) (use assms that in \<open>auto simp: buffer_inv_def nth_list_update\<close>)
  then show ?thesis using assms by (auto simp: insert_fragment_def Let_def)
qed

lemma take_inv: "buffer_inv b \<Longrightarrow> buffer_inv (snd (take_fragment n b))"
  by (auto simp: take_fragment_def Let_def buffer_inv_def nth_list_update)

lemma fold_free_slot:
  "snd (fold free_slot is (k, slots)) = fold (\<lambda>i s. s[i := None]) is slots"
  by (induction "is" arbitrary: k slots) (auto simp: free_slot_def)

lemma fold_clear:
  "length (fold (\<lambda>i s. s[i := None]) is slots) = length slots"
  "j < length slots \<Longrightarrow> fold (\<lambda>i s. s[i := None]) is slots ! j = (if j \<in> set is then None else slots ! j)"
  by (induction "is" arbitrary: slots) (auto simp: nth_list_update)

lemma mark_consumed_result:
  "mark_consumed n b = Some (k, b') \<Longrightarrow> n \<le> total_fragments b \<and>
     b' = b\<lparr>fragments := fold (\<lambda>i s. s[i := None]) [consumed_frontier b..<n] (fragments b),
            consumed_frontier := max (consumed_frontier b) n\<rparr>"
  using fold_free_slot [of "[consumed_frontier b..<n]" 0 "fragments b"]
  by (auto simp: mark_consumed_def split: if_splits prod.splits)

lemma consume_inv:
  assumes "buffer_inv b" "mark_consumed n b = Some (k, b')"
  shows "buffer_inv b'"
  using assms(1) mark_consumed_result [OF assms(2)]
  by (auto simp: buffer_inv_def fold_clear not_less)

lemma buffer_step_inv: "buffer_inv b \<Longrightarrow> buffer_inv (buffer_step b e)"
  by (cases e) (auto simp: insert_inv take_inv split: option.split intro: consume_inv)

lemma new_stream_buffer_inv: "buffer_inv (new_stream_buffer n)"
proof -
  have "as_u32 (calculate_fragment_count n) \<le> calculate_fragment_count n" by (rule as_u32_le)
  then show ?thesis by (auto simp: buffer_inv_def new_stream_buffer_def Let_def)
qed

interpretation sb: started_machine buffer_step buffer_inv "new_stream_buffer n" for n
  by unfold_locales (rule buffer_step_inv, assumption, rule new_stream_buffer_inv)

section \<open>Assembly\<close>

lemma assemble_loop_take:
  "take t (assemble_loop t acc slots) = take t (acc @ concat (map the (takeWhile (\<lambda>s. s \<noteq> None) slots)))"
  by (induction t acc slots rule: assemble_loop.induct) (auto simp: Let_def)

lemma assemble_collects:
  "assemble b = (if is_complete b \<and> consumed_frontier b = 0 \<and> total_size b \<le> length (collect_contiguous b)
                 then Some (take (total_size b) (collect_contiguous b)) else None)"
  by (auto simp: assemble_def Let_def assemble_loop_take collect_contiguous_def iter_contiguous_def min_def)

lemma fragment_payload_size: "FRAGMENT_PAYLOAD_SIZE = 1130"
  by (simp add: FRAGMENT_PAYLOAD_SIZE_def size_defs)

lemma base_count_le_iff: "base_fragment_count n \<le> k \<longleftrightarrow> n \<le> k * 1130"
  using div_ceil_le_iff [of 1130 n k] by (auto simp: base_fragment_count_def fragment_payload_size)

lemma base_count_small: "n \<le> u32_max \<Longrightarrow> base_fragment_count n \<le> 4000000"
  by (simp add: base_count_le_iff u32_max_def)

lemma length_concat_le: "(\<And>x. x \<in> set xs \<Longrightarrow> length x \<le> k) \<Longrightarrow> length (concat xs) \<le> length xs * k"
  by (induction xs) (auto simp: add_mono)

lemma stream_split_base: "stream_split fs d \<Longrightarrow> base_fragment_count (length d) \<le> length fs"
  unfolding stream_split_def base_count_le_iff
  using length_concat_le [of fs 1130] by (auto simp: fragment_payload_size)

lemma stream_split_fits:
  assumes "stream_split fs d"
  shows "as_u32 (calculate_fragment_count (length d)) = calculate_fragment_count (length d)"
    and "as_u32 (base_fragment_count (length d)) = base_fragment_count (length d)"
    and "length fs \<le> calculate_fragment_count (length d)"
proof -
  have "length d \<le> u32_max" and l: "length fs \<le> calculate_fragment_count (length d)"
    using assms by (auto simp: stream_split_def)
  then have "base_fragment_count (length d) \<le> 4000000" by (intro base_count_small)
  then show "as_u32 (calculate_fragment_count (length d)) = calculate_fragment_count (length d)"
    "as_u32 (base_fragment_count (length d)) = base_fragment_count (length d)"
    by (auto simp: calculate_fragment_count_def Let_def u32_max_def)
  show "length fs \<le> calculate_fragment_count (length d)" by fact
qed

lemma arrived_nth [simp]: "i < N \<Longrightarrow> arrived fs N S ! i = (if Suc i \<in> S then Some (fs ! i) else None)"
  by (simp add: arrived_def)

lemma arrived_length [simp]: "length (arrived fs N S) = N"
  by (simp add: arrived_def)

lemma arrived_insert:
  "0 < n \<Longrightarrow> n \<le> N \<Longrightarrow> (arrived fs N S)[n - 1 := Some (fs ! (n - 1))] = arrived fs N (insert n S)"
  by (rule nth_equalityI) (auto simp: nth_list_update)

lemma buffer_with_empty: "buffer_with fs d {} = new_stream_buffer (length d)"
proof -
  have "arrived fs N {} = replicate N None" for N
    by (rule nth_equalityI) auto
  moreover have "prefix_len (replicate N None) = 0" for N
    by (cases N) (simp_all add: prefix_len_def)
  ultimately show ?thesis by (simp add: buffer_with_def new_stream_buffer_def Let_def)
qed

lemma advance_to_prefix:
  assumes "total_fragments b = length (fragments b)" "contiguous_fragments b \<le> prefix_len (fragments b)"
  shows "advance_frontier b = b\<lparr>contiguous_fragments := prefix_len (fragments b)\<rparr>"
proof -
  have le: "contiguous_fragments b \<le> total_fragments b"
    using assms prefix_len_le le_trans by metis
  from advance_frontier_spec [OF le] obtain c where c:
    "advance_frontier b = b\<lparr>contiguous_fragments := c\<rparr>" "c \<le> total_fragments b"
    "\<forall>i. contiguous_fragments b \<le> i \<longrightarrow> i < c \<longrightarrow> fragments b ! i \<noteq> None"
    "c < total_fragments b \<longrightarrow> fragments b ! c = None" by blast
  have "fragments b ! i \<noteq> None" if "i < c" for i
    using that c(3) prefix_len_nth [of i "fragments b"] assms(2) by (cases "contiguous_fragments b \<le> i") auto
  then have "prefix_len (fragments b) = c"
    using c assms(1) by (intro prefix_lenI) auto
  then show ?thesis using c(1) by simp
qed

lemma prefix_len_mono:
  assumes "length xs = length ys" "\<And>i. i < length xs \<Longrightarrow> xs ! i \<noteq> None \<Longrightarrow> ys ! i \<noteq> None"
  shows "prefix_len xs \<le> prefix_len ys"
proof (rule ccontr)
  assume "\<not> prefix_len xs \<le> prefix_len ys"
  then have lt: "prefix_len ys < prefix_len xs" by simp
  then have "prefix_len ys < length ys" using prefix_len_le [of xs] assms(1) by simp
  then show False
    using prefix_len_stop [of ys] prefix_len_nth [OF lt] assms by auto
qed

lemma buffer_with_insert:
  assumes split: "stream_split fs d" and n: "0 < n" "n \<le> length fs"
  shows "insert_numbered fs (buffer_with fs d S) n = buffer_with fs d (insert n S)"
proof -
  let ?N = "calculate_fragment_count (length d)"
  let ?b = "buffer_with fs d S"
  let ?b' = "?b\<lparr>fragments := (fragments ?b)[n - 1 := Some (fs ! (n - 1))]\<rparr>"
  have N: "n \<le> ?N" "total_fragments ?b = ?N" "consumed_frontier ?b = 0"
    using n stream_split_fits [OF split] by (auto simp: buffer_with_def new_stream_buffer_def Let_def)
  have f: "fragments ?b = arrived fs ?N S" by (simp add: buffer_with_def Let_def)
  show ?thesis
  proof (cases "n \<in> S")
    case True
    then show ?thesis
      using n N f by (simp add: insert_numbered_def insert_fragment_def insert_absorb)
  next
    case False
    have f': "fragments ?b' = arrived fs ?N (insert n S)"
      using f n N arrived_insert [of n ?N fs S] by simp
    have "advance_frontier ?b' = ?b'\<lparr>contiguous_fragments := prefix_len (fragments ?b')\<rparr>"
    proof (rule advance_to_prefix)
      show "total_fragments ?b' = length (fragments ?b')" using N f' by simp
      have "prefix_len (arrived fs ?N S) \<le> prefix_len (arrived fs ?N (insert n S))"
        by (rule prefix_len_mono) auto
      then show "contiguous_fragments ?b' \<le> prefix_len (fragments ?b')"
        unfolding f' by (simp add: buffer_with_def Let_def)
    qed
    also have "\<dots> = buffer_with fs d (insert n S)"
      unfolding f' using f' by (simp add: buffer_with_def Let_def)
    finally show ?thesis
      using False n N f by (simp add: insert_numbered_def insert_fragment_def Let_def)
  qed
qed

lemma buffer_with_inserts:
  assumes "stream_split fs d" "set ns \<subseteq> {1..length fs}"
  shows "foldl (insert_numbered fs) (buffer_with fs d S) ns = buffer_with fs d (S \<union> set ns)"
  using assms(2) by (induction ns arbitrary: S) (simp_all add: buffer_with_insert [OF assms(1)] Suc_le_eq)

lemma stream_split_concat_less:
  assumes "stream_split fs d" "k < length fs"
  shows "length (concat (take k fs)) < length d"
proof -
  have ne: "fs \<noteq> []" "last fs \<noteq> []" "concat fs = d" using assms(1) by (auto simp: stream_split_def)
  have "length (concat (take k fs)) \<le> length (concat (butlast fs))"
  proof -
    have "take k fs = take k (butlast fs)" using assms(2) by (auto simp: butlast_conv_take min_def)
    then have "concat (butlast fs) = concat (take k fs) @ concat (drop k (butlast fs))"
      by (metis append_take_drop_id concat_append)
    then show ?thesis by simp
  qed
  moreover have "d = concat (butlast fs) @ last fs"
    using ne append_butlast_last_id [of fs] concat_append [of "butlast fs" "[last fs]"] by simp
  moreover have "0 < length (last fs)" using ne(2) by simp
  ultimately show ?thesis by (simp del: length_greater_0_conv)
qed

lemma arrived_prefix:
  assumes "S \<subseteq> {1..length fs}" "length fs \<le> N"
  shows "prefix_len (arrived fs N S) \<le> length fs"
    "map the (takeWhile (\<lambda>s. s \<noteq> None) (arrived fs N S)) = take (prefix_len (arrived fs N S)) fs"
    "prefix_len (arrived fs N S) = length fs \<longleftrightarrow> {1..length fs} \<subseteq> S"
proof -
  let ?A = "arrived fs N S" and ?k = "prefix_len (arrived fs N S)"
  have mem: "Suc i \<in> S" if "i < ?k" for i
    using prefix_len_nth [OF that] that prefix_len_le [of ?A] by (auto split: if_splits)
  show le: "?k \<le> length fs"
    using mem [of "?k - 1"] assms(1) by (cases ?k) auto
  have "takeWhile (\<lambda>s. s \<noteq> None) ?A = take ?k ?A"
    unfolding prefix_len_def by (rule takeWhile_eq_take)
  then show "map the (takeWhile (\<lambda>s. s \<noteq> None) ?A) = take ?k fs"
    using mem le assms(2) by (auto intro!: nth_equalityI)
  show "?k = length fs \<longleftrightarrow> {1..length fs} \<subseteq> S"
  proof
    assume k: "?k = length fs"
    show "{1..length fs} \<subseteq> S"
    proof
      fix n assume "n \<in> {1..length fs}"
      then show "n \<in> S" using mem [of "n - 1"] k by (cases n) auto
    qed
  next
    assume all: "{1..length fs} \<subseteq> S"
    show "?k = length fs"
    proof (rule prefix_lenI)
      show "?A ! i \<noteq> None" if "i < length fs" for i
        using that all assms(2) by (auto simp: subset_iff)
      show "length fs < length ?A \<Longrightarrow> ?A ! length fs = None" using assms(1) by (auto simp: subset_iff)
    qed (use assms(2) in simp)
  qed
qed

lemma assemble_buffer_with:
  assumes split: "stream_split fs d" and S: "S \<subseteq> {1..length fs}"
  shows "assemble (buffer_with fs d S) = (if {1..length fs} \<subseteq> S then Some d else None)"
proof -
  let ?N = "calculate_fragment_count (length d)"
  note fits = stream_split_fits [OF split]
  note pre = arrived_prefix [OF S fits(3)]
  let ?k = "prefix_len (arrived fs ?N S)"
  have coll: "collect_contiguous (buffer_with fs d S) = concat (take ?k fs)"
    using pre(2) by (simp add: collect_contiguous_def iter_contiguous_def buffer_with_def Let_def)
  have comp: "is_complete (buffer_with fs d S) \<longleftrightarrow> base_fragment_count (length d) \<le> ?k"
    and rest: "consumed_frontier (buffer_with fs d S) = 0" "total_size (buffer_with fs d S) = length d"
    using fits by (simp_all add: is_complete_def buffer_with_def new_stream_buffer_def Let_def)
  show ?thesis
  proof (cases "?k = length fs")
    case True
    then have "collect_contiguous (buffer_with fs d S) = d"
      using coll split by (simp add: stream_split_def)
    then show ?thesis
      using True pre(3) comp rest stream_split_base [OF split] by (simp add: assemble_collects)
  next
    case False
    then have "length (collect_contiguous (buffer_with fs d S)) < length d"
      using coll pre(1) stream_split_concat_less [OF split, of ?k] by simp
    then show ?thesis
      using False pre(3) rest by (simp add: assemble_collects)
  qed
qed

section \<open>Receivers\<close>

text \<open>
  The contract of a receiver of streams: given the declared length and the arrivals (fragment
  number and payload), the fragments of a stream that arrive once each, in any order, give the
  stream when all are there and nothing before.
\<close>

locale stream_receiver =
  fixes receive :: "nat \<Rightarrow> (nat \<times> byte list) list \<Rightarrow> byte list option"
  assumes receive_distinct: "stream_split fs d \<Longrightarrow> distinct ns \<Longrightarrow> set ns \<subseteq> {1..length fs} \<Longrightarrow>
    receive (length d) (numbered fs ns) = (if {1..length fs} \<subseteq> set ns then Some d else None)"
begin

lemma receive_in_order:
  assumes "stream_split fs d"
  shows "receive (length d) (zip [1..<Suc (length fs)] fs) = Some d"
proof -
  have "zip [1..<Suc (length fs)] fs = numbered fs [1..<Suc (length fs)]"
    by (rule nth_equalityI) (auto simp: numbered_def simp del: upt_Suc)
  moreover have "set [1..<Suc (length fs)] = {1..length fs}" by auto
  ultimately show ?thesis
    using receive_distinct [OF assms, of "[1..<Suc (length fs)]"] by (simp del: upt_Suc set_upt)
qed

lemma receive_never_wrong:
  "stream_split fs d \<Longrightarrow> distinct ns \<Longrightarrow> set ns \<subseteq> {1..length fs} \<Longrightarrow>
     receive (length d) (numbered fs ns) \<in> {None, Some d}"
  by (simp add: receive_distinct)

end

lemma receive_buffered_numbered:
  assumes "stream_split fs d" "set ns \<subseteq> {1..length fs}"
  shows "receive_buffered (length d) (numbered fs ns) = (if {1..length fs} \<subseteq> set ns then Some d else None)"
proof -
  have "receive_buffered (length d) (numbered fs ns) =
      assemble (foldl (insert_numbered fs) (buffer_with fs d {}) ns)"
    by (simp add: receive_buffered_def numbered_def foldl_map insert_numbered_def [abs_def] buffer_with_empty)
  then show ?thesis
    using assemble_buffer_with [OF assms] buffer_with_inserts [OF assms, of "{}"] by simp
qed

interpretation rb: stream_receiver receive_buffered
  by unfold_locales (rule receive_buffered_numbered)

text \<open>
  C3: Reassembly.  When fragments of a stream are inserted in any order and with any
  duplicates, \<open>assemble\<close> returns the stream exactly when every fragment has arrived, and
  nothing before that; it never returns other bytes.
\<close>

theorem reassembly_any_order:
  assumes "stream_split fs d" "set ns \<subseteq> {1..length fs}"
  shows "assemble (foldl (insert_numbered fs) (new_stream_buffer (length d)) ns) =
           (if {1..length fs} \<subseteq> set ns then Some d else None)"
  using assemble_buffer_with [OF assms] buffer_with_inserts [OF assms, of "{}"]
  by (simp add: buffer_with_empty)

theorem reassembly_any_order_witness:
  "assemble (foldl (insert_numbered [[1, 2], [3]]) (new_stream_buffer 3) [2, 2, 1]) = Some [1, 2, 3]"
proof -
  have split: "stream_split [[1, 2], [3]] [1, 2, 3]"
    by (simp add: stream_split_def fragment_payload_size calculate_fragment_count_def
        base_fragment_count_def div_ceil_def u32_max_def)
  have "{1..length [[1, 2], [3 :: byte]]} = set [2, 2, 1]" by auto
  with reassembly_any_order [OF split, of "[2, 2, 1]"] show ?thesis by (simp add: numeral_3_eq_3)
qed


end
