(* ===== verification/Buffer_Concurrency.thy ===== *)
theory Buffer_Concurrency
  imports Stream_Buffer
begin

text \<open>
  The stream buffer under concurrent use: the atomic accesses of \<open>insert\<close> and
  \<open>advance_frontier\<close> (\<open>transport/peer_connection/streaming_buffer.rs\<close>) as the steps of a
  transition system in which any number of threads interleave, while readers clear slots
  (\<open>take\<close>, and the swaps of \<open>mark_consumed\<close>) and raise the consumed frontier at any time.
  A weak compare-and-exchange may fail spuriously.

  Shown: the sequential \<open>insert_fragment\<close> is one of the runs, and no interleaving loses an
  advance of the frontier: whenever no insert is under way, the frontier stands at the first
  missing fragment.
\<close>

text \<open>Where a thread stands: between two atomic accesses of \<open>insert\<close> and \<open>advance_frontier\<close>.\<close>

datatype insert_pc =
    Idle
  | CasSlot nat "byte list"
  | LoadFrontier
  | CheckNext nat
  | CasFrontier nat

record buffer_config =
  buf :: stream_buffer
  pcs :: "nat \<Rightarrow> insert_pc"

datatype buffer_action = Call nat nat "byte list" | Tau nat | ClearSlot nat | RaiseConsumed nat

definition goto :: "nat \<Rightarrow> insert_pc \<Rightarrow> stream_buffer \<Rightarrow> buffer_config \<Rightarrow> buffer_config" where
  "goto t pc b c = c\<lparr>buf := b, pcs := (pcs c)(t := pc)\<rparr>"

inductive insert_step :: "buffer_config \<Rightarrow> buffer_action \<Rightarrow> buffer_config \<Rightarrow> bool" where
  call: "pcs c t = Idle \<Longrightarrow> 0 < n \<Longrightarrow> n \<le> total_fragments (buf c) \<Longrightarrow> consumed_frontier (buf c) < n \<Longrightarrow>
    insert_step c (Call t n d) (goto t (CasSlot n d) (buf c) c)"
| reject: "pcs c t = Idle \<Longrightarrow> n = 0 \<or> total_fragments (buf c) < n \<or> n \<le> consumed_frontier (buf c) \<Longrightarrow>
    insert_step c (Call t n d) c"
| slot_ok: "pcs c t = CasSlot n d \<Longrightarrow> fragments (buf c) ! (n - 1) = None \<Longrightarrow>
    insert_step c (Tau t)
      (goto t LoadFrontier ((buf c)\<lparr>fragments := (fragments (buf c))[n - 1 := Some d]\<rparr>) c)"
| slot_duplicate: "pcs c t = CasSlot n d \<Longrightarrow> fragments (buf c) ! (n - 1) \<noteq> None \<Longrightarrow>
    insert_step c (Tau t) (goto t Idle (buf c) c)"
| load: "pcs c t = LoadFrontier \<Longrightarrow>
    insert_step c (Tau t) (goto t (CheckNext (contiguous_fragments (buf c))) (buf c) c)"
| check_end: "pcs c t = CheckNext cur \<Longrightarrow> total_fragments (buf c) < cur + 1 \<Longrightarrow>
    insert_step c (Tau t) (goto t Idle (buf c) c)"
| check_gap: "pcs c t = CheckNext cur \<Longrightarrow> cur + 1 \<le> total_fragments (buf c) \<Longrightarrow>
    fragments (buf c) ! cur = None \<Longrightarrow> insert_step c (Tau t) (goto t Idle (buf c) c)"
| check_ok: "pcs c t = CheckNext cur \<Longrightarrow> cur + 1 \<le> total_fragments (buf c) \<Longrightarrow>
    fragments (buf c) ! cur \<noteq> None \<Longrightarrow> insert_step c (Tau t) (goto t (CasFrontier cur) (buf c) c)"
| cas_ok: "pcs c t = CasFrontier cur \<Longrightarrow> contiguous_fragments (buf c) = cur \<Longrightarrow>
    insert_step c (Tau t) (goto t LoadFrontier ((buf c)\<lparr>contiguous_fragments := cur + 1\<rparr>) c)"
| cas_fail: "pcs c t = CasFrontier cur \<Longrightarrow> insert_step c (Tau t) (goto t LoadFrontier (buf c) c)"
| clear: "insert_step c (ClearSlot i) (c\<lparr>buf := (buf c)\<lparr>fragments := (fragments (buf c))[i := None]\<rparr>\<rparr>)"
| raise_consumed: "k \<le> total_fragments (buf c) \<Longrightarrow>
    insert_step c (RaiseConsumed k)
      (c\<lparr>buf := (buf c)\<lparr>consumed_frontier := max (consumed_frontier (buf c)) k\<rparr>\<rparr>)"

inductive insert_run :: "buffer_config \<Rightarrow> buffer_action list \<Rightarrow> buffer_config \<Rightarrow> bool" where
  nil: "insert_run c [] c"
| snoc: "insert_run c as c' \<Longrightarrow> insert_step c' a c'' \<Longrightarrow> insert_run c (as @ [a]) c''"

definition quiescent :: "buffer_config \<Rightarrow> bool" where
  "quiescent c \<longleftrightarrow> (\<forall>t. pcs c t = Idle)"

definition start_config :: "stream_buffer \<Rightarrow> buffer_config" where
  "start_config b = \<lparr>buf = b, pcs = (\<lambda>_. Idle)\<rparr>"

text \<open>
  A thread that will still look at the slot after the frontier: every position of the loop
  except the check of a frontier that is already out of date.
\<close>

fun will_check :: "nat \<Rightarrow> insert_pc \<Rightarrow> bool" where
  "will_check k LoadFrontier = True"
| "will_check k (CheckNext cur) = (cur = k)"
| "will_check k (CasFrontier cur) = True"
| "will_check k _ = False"

fun pc_ok :: "stream_buffer \<Rightarrow> buffer_action set \<Rightarrow> insert_pc \<Rightarrow> bool" where
  "pc_ok b done (CasSlot n d) = (0 < n \<and> n \<le> total_fragments b)"
| "pc_ok b done (CheckNext cur) = (cur \<le> contiguous_fragments b)"
| "pc_ok b done (CasFrontier cur) =
     (cur \<le> contiguous_fragments b \<and> cur < total_fragments b \<and>
      (fragments b ! cur \<noteq> None \<or> ClearSlot cur \<in> done))"
| "pc_ok b done _ = True"

definition conc_inv :: "buffer_action set \<Rightarrow> buffer_config \<Rightarrow> bool" where
  "conc_inv done c \<longleftrightarrow>
     total_fragments (buf c) \<le> length (fragments (buf c)) \<and>
     contiguous_fragments (buf c) \<le> total_fragments (buf c) \<and>
     (\<forall>t. pc_ok (buf c) done (pcs c t)) \<and>
     (\<forall>i < contiguous_fragments (buf c). fragments (buf c) ! i \<noteq> None \<or> ClearSlot i \<in> done) \<and>
     (contiguous_fragments (buf c) < total_fragments (buf c) \<longrightarrow>
      fragments (buf c) ! contiguous_fragments (buf c) \<noteq> None \<longrightarrow>
      (\<exists>t. will_check (contiguous_fragments (buf c)) (pcs c t)))"

section \<open>The sequential insert is a run\<close>

lemma insert_run_trans:
  assumes "insert_run c as c'" "insert_run c' bs c''"
  shows "insert_run c (as @ bs) c''"
  using assms(2,1)
proof (induction rule: insert_run.induct)
  case (snoc c' as' d a e)
  then show ?case using insert_run.snoc [of c "as @ as'" d a e] by simp
qed simp

lemma insert_run_one: "insert_step c a c' \<Longrightarrow> insert_run c [a] c'"
  using insert_run.snoc [OF insert_run.nil] by force

lemma insert_run_step: "insert_step c a c' \<Longrightarrow> insert_run c' as c'' \<Longrightarrow> insert_run c (a # as) c''"
  using insert_run_trans [OF insert_run_one] by force

lemma advance_is_run:
  "pcs c t = LoadFrontier \<Longrightarrow> buf c = b \<Longrightarrow> \<exists>as. insert_run c as (goto t Idle (advance_frontier b) c)"
proof (induction b arbitrary: c rule: advance_frontier.induct)
  case (1 b)
  let ?k = "contiguous_fragments b"
  let ?c1 = "goto t (CheckNext ?k) b c"
  have load: "insert_step c (Tau t) ?c1"
    using insert_step.load [OF "1.prems"(1)] "1.prems"(2) by simp
  have pc1: "pcs ?c1 t = CheckNext ?k" and buf1: "buf ?c1 = b" by (simp_all add: goto_def)
  show ?case
  proof (cases "total_fragments b < ?k + 1 \<or> fragments b ! ?k = None")
    case True
    then have "advance_frontier b = b" by (subst advance_frontier.simps) auto
    moreover have "insert_step ?c1 (Tau t) (goto t Idle b ?c1)"
      using True insert_step.check_end [OF pc1] insert_step.check_gap [OF pc1] buf1
      by (cases "total_fragments b < ?k + 1") auto
    moreover have "goto t Idle b ?c1 = goto t Idle b c" by (simp add: goto_def)
    ultimately have "insert_run c [Tau t, Tau t] (goto t Idle (advance_frontier b) c)"
      using load by (simp add: insert_run_step insert_run_one)
    then show ?thesis ..
  next
    case False
    let ?b = "b\<lparr>contiguous_fragments := ?k + 1\<rparr>"
    let ?c2 = "goto t (CasFrontier ?k) b ?c1" and ?c3 = "goto t LoadFrontier ?b c"
    have "insert_step ?c1 (Tau t) ?c2"
      using False insert_step.check_ok [OF pc1] buf1 by simp
    moreover have "insert_step ?c2 (Tau t) ?c3"
      using insert_step.cas_ok [of ?c2 t ?k] by (simp add: goto_def)
    moreover obtain as where "insert_run ?c3 as (goto t Idle (advance_frontier ?b) ?c3)"
      using "1.IH" [OF refl _ _ , of ?c3] False by (force simp: goto_def)
    moreover have "advance_frontier b = advance_frontier ?b"
      using False by (subst advance_frontier.simps) auto
    moreover have "goto t Idle (advance_frontier ?b) ?c3 = goto t Idle (advance_frontier ?b) c"
      by (simp add: goto_def)
    ultimately have "insert_run c (Tau t # Tau t # Tau t # as) (goto t Idle (advance_frontier b) c)"
      using load by (simp add: insert_run_step)
    then show ?thesis ..
  qed
qed

lemma insert_is_run:
  "pcs c t = Idle \<Longrightarrow> \<exists>as. insert_run c as (goto t Idle (snd (insert_fragment n d (buf c))) c)"
proof -
  assume idle: "pcs c t = Idle"
  let ?b = "buf c"
  have id: "goto t Idle ?b c = c" using idle by (simp add: goto_def fun_upd_idem)
  show ?thesis
  proof (cases "n = 0 \<or> total_fragments ?b < n \<or> n \<le> consumed_frontier ?b")
    case True
    then have "snd (insert_fragment n d ?b) = ?b" by (auto simp: insert_fragment_def)
    then have "insert_run c [] (goto t Idle (snd (insert_fragment n d ?b)) c)"
      using id insert_run.nil by simp
    then show ?thesis ..
  next
    case False
    let ?c1 = "goto t (CasSlot n d) ?b c"
    have s1: "insert_step c (Call t n d) ?c1" using insert_step.call [OF idle] False by simp
    have pc1: "pcs ?c1 t = CasSlot n d" by (simp add: goto_def)
    show ?thesis
    proof (cases "fragments ?b ! (n - 1) = None")
      case True
      let ?b2 = "?b\<lparr>fragments := (fragments ?b)[n - 1 := Some d]\<rparr>"
      let ?c2 = "goto t LoadFrontier ?b2 c"
      have s2: "insert_step ?c1 (Tau t) ?c2"
        using insert_step.slot_ok [OF pc1] True by (simp add: goto_def)
      obtain as where "insert_run ?c2 as (goto t Idle (advance_frontier ?b2) ?c2)"
        using advance_is_run [of ?c2 t ?b2] by (auto simp: goto_def)
      moreover have "goto t Idle (advance_frontier ?b2) ?c2 = goto t Idle (snd (insert_fragment n d ?b)) c"
        using True False by (simp add: goto_def insert_fragment_def Let_def)
      ultimately have "insert_run c (Call t n d # Tau t # as) (goto t Idle (snd (insert_fragment n d ?b)) c)"
        using s1 s2 by (simp add: insert_run_step)
      then show ?thesis ..
    next
      case dup: False
      have "insert_step ?c1 (Tau t) c"
        using insert_step.slot_duplicate [OF pc1] dup id by (simp add: goto_def)
      moreover have "snd (insert_fragment n d ?b) = ?b"
        using False dup by (auto simp: insert_fragment_def Let_def)
      ultimately have "insert_run c [Call t n d, Tau t] (goto t Idle (snd (insert_fragment n d ?b)) c)"
        using id s1 by (simp add: insert_run_step insert_run_one)
      then show ?thesis ..
    qed
  qed
qed

section \<open>No advance is lost\<close>

text \<open>What a step may do to the buffer: slots are only cleared by a recorded clear.\<close>

definition slots_kept :: "buffer_action set \<Rightarrow> stream_buffer \<Rightarrow> stream_buffer \<Rightarrow> bool" where
  "slots_kept done b b' \<longleftrightarrow>
     total_fragments b' = total_fragments b \<and> length (fragments b') = length (fragments b) \<and>
     contiguous_fragments b \<le> contiguous_fragments b' \<and>
     (\<forall>i < length (fragments b). fragments b ! i \<noteq> None \<longrightarrow> fragments b' ! i \<noteq> None \<or> ClearSlot i \<in> done)"

lemma slots_kept_refl [simp]: "slots_kept done b b"
  by (simp add: slots_kept_def)

lemma conc_invD:
  assumes "conc_inv done c"
  shows "total_fragments (buf c) \<le> length (fragments (buf c))"
    and "contiguous_fragments (buf c) \<le> total_fragments (buf c)"
    and "pc_ok (buf c) done (pcs c t)"
    and "i < contiguous_fragments (buf c) \<Longrightarrow> fragments (buf c) ! i \<noteq> None \<or> ClearSlot i \<in> done"
    and "contiguous_fragments (buf c) < total_fragments (buf c) \<Longrightarrow>
      fragments (buf c) ! contiguous_fragments (buf c) \<noteq> None \<Longrightarrow>
      \<exists>t. will_check (contiguous_fragments (buf c)) (pcs c t)"
  using assms unfolding conc_inv_def by blast+

lemma pc_ok_kept:
  assumes "pc_ok b done pc" "slots_kept done' b b'" "done \<subseteq> done'" "total_fragments b \<le> length (fragments b)"
  shows "pc_ok b' done' pc"
proof (cases pc)
  case (CasFrontier cur)
  then have "cur < length (fragments b)" using assms by simp
  then have "fragments b' ! cur \<noteq> None \<or> ClearSlot cur \<in> done'"
    using CasFrontier assms unfolding slots_kept_def by fastforce
  then show ?thesis using CasFrontier assms by (auto simp: slots_kept_def)
qed (use assms in \<open>auto simp: slots_kept_def\<close>)

lemma prefix_kept:
  assumes inv: "conc_inv done c" and kept: "slots_kept done' (buf c) b'" and sub: "done \<subseteq> done'"
    and i: "i < contiguous_fragments (buf c)"
  shows "fragments b' ! i \<noteq> None \<or> ClearSlot i \<in> done'"
proof -
  have "i < length (fragments (buf c))" using i conc_invD(1,2) [OF inv] by linarith
  then show ?thesis using conc_invD(4) [OF inv i] kept sub by (auto simp: slots_kept_def)
qed

lemma conc_inv_goto:
  assumes inv: "conc_inv done c" and kept: "slots_kept done' (buf c) b'" and sub: "done \<subseteq> done'"
    and bound: "contiguous_fragments b' \<le> total_fragments b'"
    and pc: "pc_ok b' done' pc"
    and new: "\<And>i. contiguous_fragments (buf c) \<le> i \<Longrightarrow> i < contiguous_fragments b' \<Longrightarrow>
                fragments b' ! i \<noteq> None \<or> ClearSlot i \<in> done'"
    and wit: "contiguous_fragments b' < total_fragments b' \<Longrightarrow>
      fragments b' ! contiguous_fragments b' \<noteq> None \<Longrightarrow>
      will_check (contiguous_fragments b') pc \<or>
      (\<exists>t'. t' \<noteq> t \<and> will_check (contiguous_fragments b') (pcs c t'))"
  shows "conc_inv done' (goto t pc b' c)"
proof -
  let ?c = "goto t pc b' c"
  have b: "buf ?c = b'" by (simp add: goto_def)
  have "total_fragments b' \<le> length (fragments b')"
    using conc_invD(1) [OF inv] kept by (simp add: slots_kept_def)
  moreover have "pc_ok b' done' (pcs ?c t')" for t'
    using pc pc_ok_kept [OF conc_invD(3) [OF inv] kept sub conc_invD(1) [OF inv]] by (simp add: goto_def)
  moreover have "fragments b' ! i \<noteq> None \<or> ClearSlot i \<in> done'" if "i < contiguous_fragments b'" for i
    using that new [of i] prefix_kept [OF inv kept sub, of i] by (cases "i < contiguous_fragments (buf c)") auto
  moreover have "\<exists>t'. will_check (contiguous_fragments b') (pcs ?c t')"
    if "contiguous_fragments b' < total_fragments b'" "fragments b' ! contiguous_fragments b' \<noteq> None"
    using wit [OF that] by (auto simp: goto_def)
  ultimately show ?thesis using bound b unfolding conc_inv_def by auto
qed

lemma other_witness:
  assumes "conc_inv done c" "\<not> will_check (contiguous_fragments (buf c)) (pcs c t)"
    "contiguous_fragments (buf c) < total_fragments (buf c)"
    "fragments (buf c) ! contiguous_fragments (buf c) \<noteq> None"
  shows "\<exists>t'. t' \<noteq> t \<and> will_check (contiguous_fragments (buf c)) (pcs c t')"
  using conc_invD(5) [OF assms(1,3,4)] assms(2) by metis

lemma conc_inv_stay:
  assumes inv: "conc_inv done c" and sub: "done \<subseteq> done'" and pc: "pc_ok (buf c) done' pc"
    and wit: "contiguous_fragments (buf c) < total_fragments (buf c) \<Longrightarrow>
      fragments (buf c) ! contiguous_fragments (buf c) \<noteq> None \<Longrightarrow>
      will_check (contiguous_fragments (buf c)) pc \<or> \<not> will_check (contiguous_fragments (buf c)) (pcs c t)"
  shows "conc_inv done' (goto t pc (buf c) c)"
proof (rule conc_inv_goto [OF inv slots_kept_refl sub _ pc])
  show "contiguous_fragments (buf c) \<le> total_fragments (buf c)" by (rule conc_invD(2) [OF inv])
qed (use wit other_witness [OF inv] in auto)

lemma conc_inv_step:
  assumes inv: "conc_inv done c" and step: "insert_step c a c'"
  shows "conc_inv (insert a done) c'"
  using step
proof (cases rule: insert_step.cases)
  case (reject t n d)
  then show ?thesis using conc_inv_stay [OF inv, of "insert a done" Idle t]
    by (simp add: goto_def fun_upd_idem subset_insertI)
next
  case (slot_ok t n d)
  let ?b = "(buf c)\<lparr>fragments := (fragments (buf c))[n - 1 := Some d]\<rparr>"
  have "n - 1 < length (fragments (buf c))"
    using conc_invD(3) [OF inv, of t] conc_invD(1) [OF inv] slot_ok by auto
  then have "slots_kept (insert a done) (buf c) ?b"
    by (simp add: slots_kept_def nth_list_update)
  then show ?thesis unfolding slot_ok(2)
    by (rule conc_inv_goto [OF inv]) (use conc_invD(2) [OF inv] in auto)
next
  case (cas_ok t cur)
  let ?b = "(buf c)\<lparr>contiguous_fragments := cur + 1\<rparr>"
  have pc: "cur < total_fragments (buf c)" "fragments (buf c) ! cur \<noteq> None \<or> ClearSlot cur \<in> done"
    using conc_invD(3) [OF inv, of t] cas_ok by auto
  have "slots_kept (insert a done) (buf c) ?b"
    using cas_ok by (auto simp: slots_kept_def)
  then show ?thesis unfolding cas_ok(2)
  proof (rule conc_inv_goto [OF inv])
    fix i assume "contiguous_fragments (buf c) \<le> i" "i < contiguous_fragments ?b"
    then have "i = cur" using cas_ok by simp
    then show "fragments ?b ! i \<noteq> None \<or> ClearSlot i \<in> insert a done" using pc by auto
  qed (use pc in auto)
next
  case (check_ok t cur)
  have "cur \<le> contiguous_fragments (buf c)" using conc_invD(3) [OF inv, of t] check_ok by simp
  then show ?thesis unfolding check_ok(2)
    by (intro conc_inv_stay [OF inv]) (use check_ok in auto)
next
  case (clear i)
  let ?c = "c\<lparr>buf := (buf c)\<lparr>fragments := (fragments (buf c))[i := None]\<rparr>\<rparr>"
  have kept: "slots_kept (insert a done) (buf c) (buf ?c)"
    using clear by (auto simp: slots_kept_def nth_list_update)
  have "pc_ok (buf ?c) (insert a done) (pcs c t)" for t
    by (rule pc_ok_kept [OF conc_invD(3) [OF inv] kept _ conc_invD(1) [OF inv]]) auto
  moreover have "fragments (buf ?c) ! k \<noteq> None \<or> ClearSlot k \<in> insert a done"
    if "k < contiguous_fragments (buf c)" for k
    by (rule prefix_kept [OF inv kept _ that]) auto
  moreover have "fragments (buf c) ! k \<noteq> None" if "fragments (buf ?c) ! k \<noteq> None" "k < total_fragments (buf c)" for k
    using that conc_invD(1) [OF inv] by (cases "i = k") auto
  ultimately show ?thesis
    unfolding clear(2) conc_inv_def using conc_invD [OF inv] by simp
next
  case (raise_consumed k)
  have "pc_ok (buf c') (insert a done) (pcs c t)" for t
    by (rule pc_ok_kept [OF conc_invD(3) [OF inv] _ _ conc_invD(1) [OF inv]])
      (auto simp: raise_consumed slots_kept_def)
  then show ?thesis
    unfolding raise_consumed conc_inv_def using conc_invD [OF inv] by auto
qed (use inv conc_invD(2,3) [OF inv] in \<open>auto intro!: conc_inv_stay simp: subset_insertI dest: spec\<close>)

lemma conc_inv_run:
  assumes "insert_run (start_config (new_stream_buffer n)) as c"
  shows "conc_inv (set as) c"
  using assms
proof (induction "start_config (new_stream_buffer n)" "as" c rule: insert_run.induct)
  case nil
  show ?case
    using new_stream_buffer_inv [of n]
    by (auto simp: conc_inv_def start_config_def buffer_inv_def new_stream_buffer_def Let_def)
next
  case (snoc as c' a c'')
  then show ?case using conc_inv_step by simp
qed



end
