(* ===== verification/Inbound_Stream.thy ===== *)
theory Inbound_Stream
  imports Stream_Buffer
begin

text \<open>
  \<open>InboundStream\<close> and \<open>recv_stream\<close> of \<open>transport/peer_connection/inbound_stream.rs\<close>: the
  receiver that appends fragments to one vector and keeps those that arrive early in an ordered
  map.

  Shown: it meets the contract of \<open>stream_receiver\<close> (each fragment once, in any order); but a
  duplicate of a fragment already appended stays in the map as its first entry, after which no early
  fragment is ever appended again.
\<close>

record inbound_stream =
  total_length_bytes :: nat
  last_contiguous_fragment_idx :: nat
  non_contiguous_fragments :: "(nat \<times> byte list) list"
  in_payload :: "byte list"

definition new_inbound_stream :: "nat \<Rightarrow> inbound_stream" where
  "new_inbound_stream len =
     \<lparr>total_length_bytes = len, last_contiguous_fragment_idx = 0, non_contiguous_fragments = [], in_payload = []\<rparr>"

text \<open>The \<open>while let Some(..) = pop_first()\<close> loop: the entry popped last is put back.\<close>

fun drain_contiguous ::
  "nat \<Rightarrow> byte list \<Rightarrow> (nat \<times> byte list) list \<Rightarrow> nat \<times> byte list \<times> (nat \<times> byte list) list" where
  "drain_contiguous last_idx payload [] = (last_idx, payload, [])"
| "drain_contiguous last_idx payload ((idx, v) # rest) =
     (if idx = last_idx + 1 then drain_contiguous (last_idx + 1) (payload @ v) rest
      else (last_idx, payload, bt_put idx v rest))"

definition get_and_clear :: "inbound_stream \<Rightarrow> byte list option \<times> inbound_stream" where
  "get_and_clear s =
     (if length (in_payload s) = total_length_bytes s
      then (Some (in_payload s), s\<lparr>in_payload := []\<rparr>)
      else (None, s))"

definition push_fragment :: "nat \<Rightarrow> byte list \<Rightarrow> inbound_stream \<Rightarrow> byte list option \<times> inbound_stream" where
  "push_fragment fragment_number fragment s =
     (let s = (if fragment_number = last_contiguous_fragment_idx s + 1
               then s\<lparr>last_contiguous_fragment_idx := fragment_number,
                      in_payload := in_payload s @ fragment\<rparr>
               else s\<lparr>non_contiguous_fragments :=
                        bt_put fragment_number fragment (non_contiguous_fragments s)\<rparr>);
          (last_idx, payload, rest) =
            drain_contiguous (last_contiguous_fragment_idx s) (in_payload s) (non_contiguous_fragments s)
      in get_and_clear (s\<lparr>last_contiguous_fragment_idx := last_idx, in_payload := payload,
                          non_contiguous_fragments := rest\<rparr>))"

text \<open>\<open>recv_stream\<close> on the messages of its channel; \<open>None\<close> is the error after the channel closes.\<close>

fun recv_stream :: "inbound_stream \<Rightarrow> (nat \<times> byte list) list \<Rightarrow> byte list option" where
  "recv_stream s [] = None"
| "recv_stream s ((fragment_number, payload) # messages) =
     (case push_fragment fragment_number payload s of
        (Some msg, _) \<Rightarrow> Some msg
      | (None, s) \<Rightarrow> recv_stream s messages)"

definition receive_inbound :: "nat \<Rightarrow> (nat \<times> byte list) list \<Rightarrow> byte list option" where
  "receive_inbound len arrivals = recv_stream (new_inbound_stream len) arrivals"

text \<open>
  The state after the fragments with numbers in \<open>S\<close> have arrived once each: the length of the
  contiguous prefix, and the early fragments in order.
\<close>

definition run_len :: "nat set \<Rightarrow> nat" where
  "run_len S = (LEAST k. Suc k \<notin> S)"

definition inbound_inv :: "byte list list \<Rightarrow> byte list \<Rightarrow> nat set \<Rightarrow> inbound_stream \<Rightarrow> bool" where
  "inbound_inv fs d S s \<longleftrightarrow>
     total_length_bytes s = length d \<and> last_contiguous_fragment_idx s = run_len S \<and>
     in_payload s = concat (take (run_len S) fs) \<and> bt_wf (non_contiguous_fragments s) \<and>
     (\<forall>n. map_of (non_contiguous_fragments s) n =
            (if n \<in> S \<and> run_len S < n then Some (fs ! (n - 1)) else None))"

section \<open>Contiguous prefixes\<close>

lemma run_len_gap: "finite S \<Longrightarrow> Suc (run_len S) \<notin> S"
proof -
  assume "finite S"
  then obtain k where "Suc k \<notin> S"
    by (metis finite_imageD finite_subset image_subsetI inj_Suc infinite_UNIV_nat inj_on_subset subset_UNIV)
  then show ?thesis unfolding run_len_def by (rule LeastI)
qed

lemma run_len_below: "i < run_len S \<Longrightarrow> Suc i \<in> S"
  unfolding run_len_def by (drule not_less_Least) simp

lemma run_lenI: "Suc k \<notin> S \<Longrightarrow> (\<And>i. i < k \<Longrightarrow> Suc i \<in> S) \<Longrightarrow> run_len S = k"
  unfolding run_len_def by (rule Least_equality) (auto simp: not_le [symmetric])

lemma run_len_le: "S \<subseteq> {1..n} \<Longrightarrow> run_len S \<le> n"
  using run_len_below [of n S] by (cases "n < run_len S") auto

lemma run_len_full: "S \<subseteq> {1..n} \<Longrightarrow> run_len S = n \<longleftrightarrow> {1..n} \<subseteq> S"
proof
  assume "run_len S = n"
  then show "{1..n} \<subseteq> S"
    using run_len_below [of _ S] by (auto simp: subset_iff) (metis Suc_le_D Suc_le_eq)
next
  assume "S \<subseteq> {1..n}" "{1..n} \<subseteq> S"
  then show "run_len S = n" by (intro run_lenI) auto
qed

lemma drain_contiguous_spec:
  assumes "drain_contiguous k p m = (k', p', m')" "bt_wf m" "\<forall>(n, v) \<in> set m. k < n \<and> n \<le> length fs \<and> v = fs ! (n - 1)"
    "p = concat (take k fs)"
  shows "k \<le> k' \<and> p' = concat (take k' fs) \<and> bt_wf m' \<and> Suc k' \<notin> fst ` set m \<and>
    (\<forall>n. k < n \<longrightarrow> n \<le> k' \<longrightarrow> n \<in> fst ` set m) \<and>
    (\<forall>n. map_of m' n = (if k' < n then map_of m n else None))"
  using assms
proof (induction k p m rule: drain_contiguous.induct)
  case (2 k p idx v rest)
  have wf: "bt_wf rest" "\<forall>n \<in> fst ` set rest. idx < n" and idx: "k < idx" "idx \<le> length fs" "v = fs ! (idx - 1)"
    using "2.prems" by auto
  show ?case
  proof (cases "idx = k + 1")
    case True
    have "p @ v = concat (take (k + 1) fs)"
      using "2.prems"(4) True idx by (simp add: take_Suc_conv_app_nth)
    moreover have "\<forall>(n, v) \<in> set rest. k + 1 < n \<and> n \<le> length fs \<and> v = fs ! (n - 1)"
      using "2.prems"(3) wf(2) True by fastforce
    ultimately have IH: "k + 1 \<le> k' \<and> p' = concat (take k' fs) \<and> bt_wf m' \<and> Suc k' \<notin> fst ` set rest \<and>
      (\<forall>n. k + 1 < n \<longrightarrow> n \<le> k' \<longrightarrow> n \<in> fst ` set rest) \<and>
      (\<forall>n. map_of m' n = (if k' < n then map_of rest n else None))"
      using "2.IH" [OF True _ wf(1)] "2.prems"(1) True by simp
    then show ?thesis using True by (auto simp: Suc_le_eq)
  next
    case False
    then have "k' = k" "p' = p" "m' = (idx, v) # rest"
      using "2.prems"(1) bt_put_less [OF wf(2)] by auto
    then show ?thesis
      using "2.prems" False wf idx by (auto simp: image_iff map_of_eq_None_iff)
  qed
qed auto

section \<open>The contract\<close>

lemma finite_numbers: "S \<subseteq> {1..n} \<Longrightarrow> finite (S :: nat set)"
  by (rule finite_subset [OF _ finite_atLeastAtMost])

lemma inbound_push:
  assumes inv: "inbound_inv fs d S s" and S: "S \<subseteq> {1..length fs}" and n: "n \<in> {1..length fs} - S"
  obtains k p m where
    "push_fragment n (fs ! (n - 1)) s =
       get_and_clear (s\<lparr>last_contiguous_fragment_idx := k, in_payload := p, non_contiguous_fragments := m\<rparr>)"
    "inbound_inv fs d (insert n S)
       (s\<lparr>last_contiguous_fragment_idx := k, in_payload := p, non_contiguous_fragments := m\<rparr>)"
proof -
  let ?r = "run_len S"
  let ?hit = "n = ?r + 1"
  define k0 p0 m0 where "k0 = (if ?hit then n else ?r)"
    and "p0 = (if ?hit then in_payload s @ fs ! (n - 1) else in_payload s)"
    and "m0 = (if ?hit then non_contiguous_fragments s else bt_put n (fs ! (n - 1)) (non_contiguous_fragments s))"
  obtain k p m where dr: "drain_contiguous k0 p0 m0 = (k, p, m)" by (cases "drain_contiguous k0 p0 m0")
  let ?s = "s\<lparr>last_contiguous_fragment_idx := k, in_payload := p, non_contiguous_fragments := m\<rparr>"
  have I: "total_length_bytes s = length d" "last_contiguous_fragment_idx s = ?r"
    "in_payload s = concat (take ?r fs)" "bt_wf (non_contiguous_fragments s)"
    "\<And>j. map_of (non_contiguous_fragments s) j = (if j \<in> S \<and> ?r < j then Some (fs ! (j - 1)) else None)"
    using inv by (simp_all add: inbound_inv_def)
  have push: "push_fragment n (fs ! (n - 1)) s = get_and_clear ?s"
    using dr I(2) by (auto simp: push_fragment_def k0_def p0_def m0_def Let_def split: if_splits)
  have gap: "Suc ?r \<notin> S" using run_len_gap finite_numbers [OF S] by blast
  have below: "Suc i \<in> S" if "i < ?r" for i using that by (rule run_len_below)
  have rn: "?r < n"
  proof (rule ccontr)
    assume "\<not> ?r < n"
    then have "Suc (n - 1) \<in> S" using n by (intro below) auto
    then show False using n by auto
  qed
  have m0: "map_of m0 j = (if j \<in> insert n S \<and> k0 < j then Some (fs ! (j - 1)) else None)" for j
    using I(5) gap rn by (auto simp: m0_def k0_def hm_simps)
  have wf0: "bt_wf m0" using I(4) by (simp add: m0_def)
  have p0: "p0 = concat (take k0 fs)"
    using I(3) n by (auto simp: p0_def k0_def take_Suc_conv_app_nth)
  have el: "\<forall>(j, v) \<in> set m0. k0 < j \<and> j \<le> length fs \<and> v = fs ! (j - 1)"
  proof clarify
    fix j v assume "(j, v) \<in> set m0"
    moreover have "distinct (map fst m0)" using wf0 by (auto simp: strict_sorted_iff)
    ultimately have "map_of m0 j = Some v" by simp
    then show "k0 < j \<and> j \<le> length fs \<and> v = fs ! (j - 1)"
      using m0 [of j] S n by (auto split: if_splits)
  qed
  note D = drain_contiguous_spec [OF dr wf0 el p0]
  have keys: "j \<in> fst ` set m0 \<longleftrightarrow> j \<in> insert n S \<and> k0 < j" for j
    using m0 [of j] map_of_eq_None_iff [of m0 j] by (cases "map_of m0 j") (auto split: if_splits)
  have "run_len (insert n S) = k"
  proof (rule run_lenI)
    show "Suc k \<notin> insert n S" using D keys [of "Suc k"] by auto
    show "Suc i \<in> insert n S" if "i < k" for i
    proof (cases "k0 < Suc i")
      case True
      then show ?thesis using D keys that by (meson Suc_leI)
    next
      case False
      then have "i < ?r \<or> Suc i = n" by (auto simp: k0_def split: if_splits)
      then show ?thesis using below by auto
    qed
  qed
  then have "inbound_inv fs d (insert n S) ?s"
    using D I(1) m0 by (auto simp: inbound_inv_def)
  with push show thesis by (rule that)
qed

lemma inbound_complete:
  assumes split: "stream_split fs d" and inv: "inbound_inv fs d S s" and S: "S \<subseteq> {1..length fs}"
  shows "get_and_clear s = (if {1..length fs} \<subseteq> S then (Some d, s\<lparr>in_payload := []\<rparr>) else (None, s))"
proof -
  have p: "in_payload s = concat (take (run_len S) fs)" "total_length_bytes s = length d"
    using inv by (simp_all add: inbound_inv_def)
  show ?thesis
  proof (cases "{1..length fs} \<subseteq> S")
    case True
    then have "in_payload s = d"
      using p run_len_full [OF S] split by (simp add: stream_split_def)
    then show ?thesis using True p by (simp add: get_and_clear_def)
  next
    case False
    then have "run_len S < length fs"
      using run_len_full [OF S] run_len_le [OF S] by linarith
    then have "length (in_payload s) < length d"
      using p stream_split_concat_less [OF split] by simp
    then show ?thesis using False p by (auto simp: get_and_clear_def)
  qed
qed

lemma recv_stream_numbered:
  assumes split: "stream_split fs d"
  shows "inbound_inv fs d S s \<Longrightarrow> S \<subset> {1..length fs} \<Longrightarrow> distinct ns \<Longrightarrow> set ns \<subseteq> {1..length fs} - S \<Longrightarrow>
    recv_stream s (numbered fs ns) = (if {1..length fs} \<subseteq> S \<union> set ns then Some d else None)"
proof (induction ns arbitrary: S s)
  case Nil
  then show ?case by (auto simp: numbered_def)
next
  case (Cons n ns)
  have S: "S \<subseteq> {1..length fs}" "insert n S \<subseteq> {1..length fs}" and n: "n \<in> {1..length fs} - S" using Cons.prems by auto
  obtain k p m where push: "push_fragment n (fs ! (n - 1)) s =
       get_and_clear (s\<lparr>last_contiguous_fragment_idx := k, in_payload := p, non_contiguous_fragments := m\<rparr>)"
    and inv: "inbound_inv fs d (insert n S)
       (s\<lparr>last_contiguous_fragment_idx := k, in_payload := p, non_contiguous_fragments := m\<rparr>)"
    by (rule inbound_push [OF Cons.prems(1) S(1) n])
  note out = inbound_complete [OF split inv S(2)]
  show ?case
  proof (cases "{1..length fs} \<subseteq> insert n S")
    case True
    then show ?thesis using push out by (auto simp: numbered_def)
  next
    case False
    have "recv_stream (s\<lparr>last_contiguous_fragment_idx := k, in_payload := p, non_contiguous_fragments := m\<rparr>)
        (numbered fs ns) = (if {1..length fs} \<subseteq> insert n S \<union> set ns then Some d else None)"
      by (rule Cons.IH [OF inv]) (use False S Cons.prems in auto)
    then show ?thesis using push out False by (simp add: numbered_def)
  qed
qed

lemma inbound_inv_new: "inbound_inv fs d {} (new_inbound_stream (length d))"
proof -
  have "run_len {} = 0" by (rule run_lenI) auto
  then show ?thesis by (simp add: inbound_inv_def new_inbound_stream_def)
qed

interpretation ri: stream_receiver receive_inbound
proof
  fix fs d and ns :: "nat list"
  assume a: "stream_split fs d" "distinct ns" "set ns \<subseteq> {1..length fs}"
  have "{} \<subset> {1..length fs}" using a(1) by (cases fs) (auto simp: stream_split_def)
  then show "receive_inbound (length d) (numbered fs ns) = (if {1..length fs} \<subseteq> set ns then Some d else None)"
    using recv_stream_numbered [OF a(1) inbound_inv_new _ a(2)] a(3) by (simp add: receive_inbound_def)
qed

text \<open>
  C17: A receiver that appends fragments and keeps early ones in a map reassembles every stream
  whose fragments arrive once each, in any order, and returns nothing before all have arrived.
\<close>

theorem recv_stream_any_order:
  assumes "stream_split fs d" "distinct ns" "set ns \<subseteq> {1..length fs}"
  shows "recv_stream (new_inbound_stream (length d)) (numbered fs ns) =
           (if {1..length fs} \<subseteq> set ns then Some d else None)"
  using ri.receive_distinct [OF assms] by (simp add: receive_inbound_def)

theorem recv_stream_any_order_witness:
  "recv_stream (new_inbound_stream 3) (numbered [[1, 2], [3]] [2, 1]) = Some [1, 2, 3]"
proof -
  have split: "stream_split [[1, 2], [3]] [1, 2, 3]"
    by (simp add: stream_split_def fragment_payload_size calculate_fragment_count_def
        base_fragment_count_def div_ceil_def u32_max_def)
  have "{1..length [[1, 2], [3 :: byte]]} = set [2, 1]" by auto
  with recv_stream_any_order [OF split, of "[2, 1]"] show ?thesis by (simp add: numeral_3_eq_3)
qed

section \<open>Stale duplicates\<close>

text \<open>
  A state with a stale entry: the first key of the map is a fragment that has already been
  appended.  It is popped first, does not match, and is put back.
\<close>

definition stale :: "inbound_stream \<Rightarrow> bool" where
  "stale s \<longleftrightarrow> non_contiguous_fragments s \<noteq> [] \<and>
     fst (hd (non_contiguous_fragments s)) \<le> last_contiguous_fragment_idx s \<and> bt_wf (non_contiguous_fragments s)"

lemma drain_stale:
  "bt_wf m \<Longrightarrow> m \<noteq> [] \<Longrightarrow> fst (hd m) \<le> k \<Longrightarrow> drain_contiguous k p m = (k, p, m)"
  by (cases m) (auto simp: bt_put_less)

lemma bt_put_hd_le: "m \<noteq> [] \<Longrightarrow> fst (hd (bt_put k v m)) \<le> fst (hd m) \<and> bt_put k v m \<noteq> []"
  by (cases m) (auto split: if_splits)

text \<open>
  Once a duplicate of an appended fragment is in the map, the only fragment that is
  ever appended is the next one, at the moment it arrives: no fragment that arrived early is
  taken from the map again, and the stale entry stays.
\<close>

theorem stale_duplicate_blocks:
  assumes "stale s"
  shows "in_payload (snd (push_fragment n v s)) \<in>
           {[], if n = last_contiguous_fragment_idx s + 1 then in_payload s @ v else in_payload s} \<and>
         last_contiguous_fragment_idx (snd (push_fragment n v s)) =
           (if n = last_contiguous_fragment_idx s + 1 then n else last_contiguous_fragment_idx s) \<and>
         stale (snd (push_fragment n v s))"
proof -
  let ?k = "last_contiguous_fragment_idx s" and ?m = "non_contiguous_fragments s"
  have st: "bt_wf ?m" "?m \<noteq> []" "fst (hd ?m) \<le> ?k" using assms by (auto simp: stale_def)
  show ?thesis
  proof (cases "n = ?k + 1")
    case True
    have "drain_contiguous n (in_payload s @ v) ?m = (n, in_payload s @ v, ?m)"
      using st True by (intro drain_stale) auto
    then show ?thesis
      using True st by (auto simp: push_fragment_def get_and_clear_def stale_def Let_def)
  next
    case False
    have "drain_contiguous ?k (in_payload s) (bt_put n v ?m) = (?k, in_payload s, bt_put n v ?m)"
      using st bt_put_hd_le [OF st(2), of n v] by (intro drain_stale) auto
    then show ?thesis
      using False st bt_put_hd_le [OF st(2), of n v]
      by (auto simp: push_fragment_def get_and_clear_def stale_def Let_def)
  qed
qed

theorem stale_duplicate_blocks_witness:
  "stale (snd (push_fragment 1 [7] (snd (push_fragment 1 [7] (new_inbound_stream 3))))) \<and>
   stale (snd (push_fragment 3 [9] (snd (push_fragment 1 [7] (snd (push_fragment 1 [7] (new_inbound_stream 3))))))) \<and>
   recv_stream (new_inbound_stream 3) [(1, [7]), (1, [7]), (3, [9]), (2, [8])] = None"
proof -
  let ?s = "snd (push_fragment 1 [7] (snd (push_fragment 1 [7] (new_inbound_stream 3))))"
  have "stale ?s"
    by (simp add: stale_def push_fragment_def get_and_clear_def new_inbound_stream_def)
  then show ?thesis
    using stale_duplicate_blocks [of ?s 3 "[9]"]
    by (simp add: push_fragment_def get_and_clear_def new_inbound_stream_def)
qed

end
