(* ===== verification/Outbound_Stream.thy ===== *)
theory Outbound_Stream
  imports Stream_Buffer Inbound_Stream
begin

text \<open>
  The sending side of a stream, \<open>transport/peer_connection/outbound_stream.rs\<close>:
  \<open>send_stream\<close> cuts a message into fragments, \<open>pipe_stream\<close> forwards the fragments of an
  inbound stream.  What the tasks observe of the congestion controller, the clock, the socket
  and the inbound stream is an argument: for every packet the readings of the wait loop
  (flight size, window, time) and the result of the send.  The outcome lists the packets handed to
  the socket, each with the number of bytes charged to the congestion controller.  Telemetry,
  the sleeps between readings and the token-bucket delay have no effect on the packets and are left out.

  Shown: the fragments cover the message exactly, in order, each fits a packet, and the receiving
  buffer allocates enough slots for them; forwarding keeps payloads and order; the wait for window
  space ends at the latest with the first reading after \<open>CWND_WAIT_TIMEOUT\<close>.
\<close>

definition CWND_WAIT_TIMEOUT :: duration where
  "CWND_WAIT_TIMEOUT = secs 15"

definition STREAM_MAX_DATA_SIZE :: nat where
  "STREAM_MAX_DATA_SIZE = MAX_DATA_SIZE - 41"

record stream_fragment =
  sf_stream_id :: nat
  sf_total_length_bytes :: nat
  sf_fragment_number :: nat
  sf_payload :: "byte list"
  sf_metadata_bytes :: "byte list option"

datatype 'e transport_error = ConnectionClosed | SendFailed 'e

text \<open>\<open>Waiting\<close>: the readings end while the task is still in the wait loop.\<close>

datatype 'e transfer_result = Sent | Failed "'e transport_error" | Waiting

record 'e packet_env =
  wait_start :: nanos
  wait_reads :: "(nat \<times> nat \<times> nanos) list"
  send_error :: "'e option"

datatype cwnd_outcome = CwndOpen | CwndTimeout | CwndWaiting

fun cwnd_wait :: "nat \<Rightarrow> nanos \<Rightarrow> (nat \<times> nat \<times> nanos) list \<Rightarrow> cwnd_outcome" where
  "cwnd_wait packet_size cwnd_wait_start [] = CwndWaiting"
| "cwnd_wait packet_size cwnd_wait_start ((flightsize, cwnd, now) # reads) =
     (if flightsize + packet_size \<le> cwnd then CwndOpen
      else if CWND_WAIT_TIMEOUT \<le> now - cwnd_wait_start then CwndTimeout
      else cwnd_wait packet_size cwnd_wait_start reads)"

definition meta_overhead :: "byte list \<Rightarrow> nat" where
  "meta_overhead meta = 1 + 8 + length meta"

definition total_packets :: "byte list option \<Rightarrow> nat \<Rightarrow> nat" where
  "total_packets metadata len =
     (case metadata of
        Some meta \<Rightarrow>
          (let first_frag_capacity = STREAM_MAX_DATA_SIZE - meta_overhead meta
           in if len \<le> first_frag_capacity then 1
              else 1 + div_ceil (len - first_frag_capacity) STREAM_MAX_DATA_SIZE)
      | None \<Rightarrow> div_ceil len STREAM_MAX_DATA_SIZE)"

definition available_payload :: "byte list option \<Rightarrow> nat" where
  "available_payload metadata_bytes =
     (case metadata_bytes of
        Some meta \<Rightarrow> STREAM_MAX_DATA_SIZE - meta_overhead meta
      | None \<Rightarrow> STREAM_MAX_DATA_SIZE)"

text \<open>
  The loop of \<open>send_stream\<close>, by recursion on the packets left (\<open>total_packets - sent_so_far\<close>).
  The metadata is taken by fragment 1; \<open>take\<close> and \<open>drop\<close> are the two slices.
\<close>

fun send_loop ::
  "nat \<Rightarrow> nat \<Rightarrow> 'e packet_env list \<Rightarrow> nat \<Rightarrow> nat \<Rightarrow> byte list option \<Rightarrow> byte list \<Rightarrow>
   (nat \<times> stream_fragment) list \<times> 'e transfer_result" where
  "send_loop stream_id total_length env 0 next_fragment_number pending_metadata stream_to_send = ([], Sent)"
| "send_loop stream_id total_length [] (Suc left) next_fragment_number pending_metadata stream_to_send =
     ([], Waiting)"
| "send_loop stream_id total_length (e # env) (Suc left) next_fragment_number pending_metadata stream_to_send =
     (let packet_size = min (length stream_to_send) STREAM_MAX_DATA_SIZE
      in case cwnd_wait packet_size (wait_start e) (wait_reads e) of
           CwndWaiting \<Rightarrow> ([], Waiting)
         | CwndTimeout \<Rightarrow> ([], Failed ConnectionClosed)
         | CwndOpen \<Rightarrow>
             let metadata_bytes = (if next_fragment_number = 1 then pending_metadata else None);
                 pending_metadata = (if next_fragment_number = 1 then None else pending_metadata);
                 available = available_payload metadata_bytes;
                 fragment = take available stream_to_send;
                 stream_to_send = drop available stream_to_send;
                 packet = \<lparr>sf_stream_id = stream_id, sf_total_length_bytes = total_length,
                           sf_fragment_number = next_fragment_number, sf_payload = fragment,
                           sf_metadata_bytes = metadata_bytes\<rparr>
             in case send_error e of
                  Some err \<Rightarrow> ([], Failed (SendFailed err))
                | None \<Rightarrow>
                    let (packets, result) = send_loop stream_id total_length env left
                                              (next_fragment_number + 1) pending_metadata stream_to_send
                    in ((packet_size, packet) # packets, result))"

definition send_stream ::
  "nat \<Rightarrow> byte list \<Rightarrow> byte list option \<Rightarrow> 'e packet_env list \<Rightarrow>
   (nat \<times> stream_fragment) list \<times> 'e transfer_result" where
  "send_stream stream_id stream_to_send metadata env =
     send_loop stream_id (as_u32 (length stream_to_send)) env
       (total_packets metadata (length stream_to_send)) 1 metadata stream_to_send"

text \<open>
  \<open>pipe_stream\<close>: what one turn of its loop gets from the inbound stream or the inactivity timer.
\<close>

datatype pipe_input = Fragment "byte list" | InboundError | InboundEnd | Inactive

fun pipe_loop ::
  "nat \<Rightarrow> nat \<Rightarrow> (pipe_input \<times> 'e packet_env) list \<Rightarrow> nat \<Rightarrow> byte list option \<Rightarrow>
   (nat \<times> stream_fragment) list \<times> 'e transfer_result" where
  "pipe_loop outbound_stream_id total_bytes [] fragment_number pending_metadata = ([], Waiting)"
| "pipe_loop outbound_stream_id total_bytes ((InboundEnd, e) # env) fragment_number pending_metadata = ([], Sent)"
| "pipe_loop outbound_stream_id total_bytes ((InboundError, e) # env) fragment_number pending_metadata =
     ([], Failed ConnectionClosed)"
| "pipe_loop outbound_stream_id total_bytes ((Inactive, e) # env) fragment_number pending_metadata =
     ([], Failed ConnectionClosed)"
| "pipe_loop outbound_stream_id total_bytes ((Fragment payload, e) # env) fragment_number pending_metadata =
     (let packet_size = length payload
      in case cwnd_wait packet_size (wait_start e) (wait_reads e) of
           CwndWaiting \<Rightarrow> ([], Waiting)
         | CwndTimeout \<Rightarrow> ([], Failed ConnectionClosed)
         | CwndOpen \<Rightarrow>
             let metadata_bytes =
                   (if fragment_number = 1
                    then (case pending_metadata of
                            Some meta \<Rightarrow> if length payload + 41 + length meta \<le> MAX_DATA_SIZE
                                          then Some meta else None
                          | None \<Rightarrow> None)
                    else None);
                 pending_metadata = (if fragment_number = 1 then None else pending_metadata);
                 packet = \<lparr>sf_stream_id = outbound_stream_id, sf_total_length_bytes = total_bytes,
                           sf_fragment_number = fragment_number, sf_payload = payload,
                           sf_metadata_bytes = metadata_bytes\<rparr>
             in case send_error e of
                  Some err \<Rightarrow> ([], Failed (SendFailed err))
                | None \<Rightarrow>
                    let (packets, result) = pipe_loop outbound_stream_id total_bytes env
                                              (fragment_number + 1) pending_metadata
                    in ((packet_size, packet) # packets, result))"

definition pipe_stream ::
  "nat \<Rightarrow> nat \<Rightarrow> byte list option \<Rightarrow> (pipe_input \<times> 'e packet_env) list \<Rightarrow>
   (nat \<times> stream_fragment) list \<times> 'e transfer_result" where
  "pipe_stream outbound_stream_id total_bytes metadata env =
     pipe_loop outbound_stream_id total_bytes env 1 metadata"

text \<open>The size of the serialized fragment: 41 bytes of fields, the payload and the metadata.\<close>

definition serialized_size :: "stream_fragment \<Rightarrow> nat" where
  "serialized_size f = 41 + length (sf_payload f) + (case sf_metadata_bytes f of None \<Rightarrow> 0 | Some m \<Rightarrow> length m)"

text \<open>The cut of a message into payloads, as a specification.\<close>

fun chunks :: "nat \<Rightarrow> nat \<Rightarrow> byte list \<Rightarrow> byte list list" where
  "chunks k 0 xs = []"
| "chunks k (Suc n) xs = take k xs # chunks k n (drop k xs)"

definition payload_split :: "byte list option \<Rightarrow> byte list \<Rightarrow> byte list list" where
  "payload_split metadata d =
     (case metadata of
        None \<Rightarrow> chunks STREAM_MAX_DATA_SIZE (total_packets None (length d)) d
      | Some meta \<Rightarrow>
          (let c = STREAM_MAX_DATA_SIZE - meta_overhead meta
           in take c d # chunks STREAM_MAX_DATA_SIZE (total_packets metadata (length d) - 1) (drop c d)))"

definition payloads :: "(nat \<times> stream_fragment) list \<Rightarrow> byte list list" where
  "payloads ps = map (\<lambda>(_, p). sf_payload p) ps"

section \<open>The wait for window space\<close>

lemma cwnd_wait_resolved:
  "(flightsize, cwnd, now) \<in> set reads \<Longrightarrow> flightsize + sz \<le> cwnd \<or> CWND_WAIT_TIMEOUT \<le> now - start \<Longrightarrow>
     cwnd_wait sz start reads \<noteq> CwndWaiting"
  by (induction sz start reads rule: cwnd_wait.induct) auto

lemma cwnd_wait_open: "cwnd_wait sz start reads = CwndOpen \<Longrightarrow> \<exists>(fl, cw, now) \<in> set reads. fl + sz \<le> cw"
  by (induction sz start reads rule: cwnd_wait.induct) (auto split: if_splits)

section \<open>The cut\<close>

lemma stream_max_data_size: "STREAM_MAX_DATA_SIZE = 1130"
  by (simp add: STREAM_MAX_DATA_SIZE_def size_defs)

lemma length_chunks [simp]: "length (chunks k n xs) = n"
  by (induction n arbitrary: xs) auto

lemma chunks_concat: "length xs \<le> n * k \<Longrightarrow> concat (chunks k n xs) = xs"
  by (induction n arbitrary: xs) auto

lemma chunks_bound: "f \<in> set (chunks k n xs) \<Longrightarrow> length f \<le> k"
  by (induction n arbitrary: xs) auto

lemma chunks_last: "(n - 1) * k < length xs \<Longrightarrow> 0 < n \<Longrightarrow> 0 < k \<Longrightarrow> last (chunks k n xs) \<noteq> []"
proof (induction n arbitrary: xs)
  case (Suc n)
  show ?case
  proof (cases n)
    case (Suc m)
    have "last (chunks k n (drop k xs)) \<noteq> []"
      by (rule Suc.IH) (use Suc Suc.prems in \<open>simp_all add: less_diff_conv\<close>)
    moreover have "chunks k n (drop k xs) \<noteq> []" using Suc by simp
    ultimately show ?thesis by simp
  qed (use Suc.prems in auto)
qed simp

lemma div_ceil_bounds:
  assumes "0 < b" "0 < a"
  shows "a \<le> div_ceil a b * b" "(div_ceil a b - 1) * b < a"
  using div_ceil_le_iff [OF assms(1), of a "div_ceil a b"] div_ceil_le_iff [OF assms(1), of a "div_ceil a b - 1"]
    div_ceil_pos [OF assms] by (auto simp: not_le)

lemma div_ceil_mono: "0 < b \<Longrightarrow> a \<le> c \<Longrightarrow> div_ceil a b \<le> div_ceil c b"
  by (simp add: div_ceil_le_iff)
     (metis div_ceil_bounds(1) bot_nat_0.extremum le_trans less_eq_nat.simps(1) not_gr_zero)

lemma chunks_ceil:
  assumes "xs \<noteq> []"
  shows "concat (chunks 1130 (div_ceil (length xs) 1130) xs) = xs"
    "last (chunks 1130 (div_ceil (length xs) 1130) xs) \<noteq> []"
proof -
  have l: "0 < length xs" "0 < (1130 :: nat)" using assms by simp_all
  note b = div_ceil_bounds [OF l(2,1)] div_ceil_pos [OF l(2,1)]
  show "concat (chunks 1130 (div_ceil (length xs) 1130) xs) = xs" by (rule chunks_concat) (rule b(1))
  show "last (chunks 1130 (div_ceil (length xs) 1130) xs) \<noteq> []" by (rule chunks_last [OF b(2,3) l(2)])
qed

lemma payload_split_ok:
  assumes d: "d \<noteq> []" "length d \<le> u32_max"
  shows "stream_split (payload_split metadata d) d"
proof -
  let ?fs = "payload_split metadata d"
  have base: "base_fragment_count (length d) = div_ceil (length d) 1130" "0 < div_ceil (length d) 1130"
    using d div_ceil_pos [of 1130 "length d"] by (simp_all add: base_fragment_count_def fragment_payload_size)
  have "concat ?fs = d \<and> ?fs \<noteq> [] \<and> last ?fs \<noteq> [] \<and> (\<forall>f \<in> set ?fs. length f \<le> 1130) \<and>
      length ?fs \<le> Suc (div_ceil (length d) 1130)"
  proof (cases metadata)
    case None
    have "chunks 1130 (div_ceil (length d) 1130) d \<noteq> []"
      using base(2) by (metis length_chunks length_greater_0_conv)
    then show ?thesis
      using None chunks_ceil [OF d(1)] chunks_bound
      by (auto simp: payload_split_def total_packets_def stream_max_data_size)
  next
    case (Some meta)
    let ?c = "1130 - meta_overhead meta"
    show ?thesis
    proof (cases "length d \<le> ?c")
      case True
      then show ?thesis
        using Some d by (auto simp: payload_split_def total_packets_def stream_max_data_size)
    next
      case False
      then have ne: "drop ?c d \<noteq> []" by simp
      have n: "div_ceil (length d - ?c) 1130 \<le> div_ceil (length d) 1130" by (rule div_ceil_mono) auto
      have "0 < div_ceil (length (drop ?c d)) 1130" using False by (intro div_ceil_pos) auto
      then have "chunks 1130 (div_ceil (length d - ?c) 1130) (drop ?c d) \<noteq> []"
        by (metis length_chunks length_drop length_greater_0_conv)
      then show ?thesis
        using Some False n chunks_ceil [OF ne] chunks_bound
        by (auto simp: payload_split_def total_packets_def stream_max_data_size Let_def)
    qed
  qed
  then show ?thesis
    using d base by (simp add: stream_split_def fragment_payload_size calculate_fragment_count_def)
qed

section \<open>The sent packets\<close>

text \<open>What the packets left to send will carry, from any point of the loop.\<close>

definition rest_split :: "nat \<Rightarrow> nat \<Rightarrow> byte list option \<Rightarrow> byte list \<Rightarrow> byte list list" where
  "rest_split left no meta xs =
     (case left of 0 \<Rightarrow> []
      | Suc n \<Rightarrow> let k = available_payload (if no = 1 then meta else None)
                in take k xs # chunks STREAM_MAX_DATA_SIZE n (drop k xs))"

lemma rest_split_step:
  "0 < no \<Longrightarrow> rest_split n (no + 1) meta xs = chunks STREAM_MAX_DATA_SIZE n xs"
  by (cases n) (simp_all add: rest_split_def available_payload_def)

lemma send_loop_cases:
  assumes "send_loop sid len (e # env) (Suc left) no meta xs = (ps, r)"
  obtains (stop) "ps = []" "r \<noteq> Sent"
  | (sent) ps' where
      "send_loop sid len env left (no + 1) (if no = 1 then None else meta)
         (drop (available_payload (if no = 1 then meta else None)) xs) = (ps', r)"
      "ps = (min (length xs) STREAM_MAX_DATA_SIZE,
             \<lparr>sf_stream_id = sid, sf_total_length_bytes = len, sf_fragment_number = no,
              sf_payload = take (available_payload (if no = 1 then meta else None)) xs,
              sf_metadata_bytes = (if no = 1 then meta else None)\<rparr>) # ps'"
      "cwnd_wait (min (length xs) STREAM_MAX_DATA_SIZE) (wait_start e) (wait_reads e) = CwndOpen"
      "send_error e = None"
  using assms
  by (cases "cwnd_wait (min (length xs) STREAM_MAX_DATA_SIZE) (wait_start e) (wait_reads e)"; cases "send_error e")
     (auto simp: Let_def split: prod.splits)

lemma send_loop_payloads:
  assumes "0 < no" "send_loop sid len env left no meta xs = (ps, r)"
  shows "payloads ps = take (length ps) (rest_split left no meta xs) \<and> length ps \<le> left \<and>
         (r = Sent \<longleftrightarrow> length ps = left)"
  using assms
proof (induction left arbitrary: env no meta xs ps r)
  case (Suc left)
  show ?case
  proof (cases env)
    case Nil
    then show ?thesis using Suc.prems by (auto simp: payloads_def)
  next
    case (Cons e env')
    from Suc.prems(2) [unfolded Cons] show ?thesis
    proof (cases rule: send_loop_cases)
      case (sent ps')
      then show ?thesis
        using Suc.IH [OF _ sent(1)] rest_split_step [OF Suc.prems(1)]
        by (simp add: rest_split_def Let_def payloads_def)
    qed (simp add: payloads_def)
  qed
qed (auto simp: payloads_def)

lemma send_loop_headers:
  assumes "send_loop sid len env left no meta xs = (ps, r)"
  shows "map (sf_fragment_number \<circ> snd) ps = [no..<no + length ps] \<and>
         (\<forall>p \<in> snd ` set ps. sf_total_length_bytes p = len \<and> sf_stream_id p = sid)"
  using assms
proof (induction left arbitrary: env no meta xs ps r)
  case (Suc left)
  show ?case
  proof (cases env)
    case (Cons e env')
    from Suc.prems [unfolded Cons] show ?thesis
    proof (cases rule: send_loop_cases)
      case (sent ps')
      have "[no..<no + Suc (length ps')] = no # [no + 1..<no + 1 + length ps']"
        by (simp add: upt_conv_Cons del: upt_Suc)
      then show ?thesis using Suc.IH [OF sent(1)] sent(2) by simp
    qed simp
  qed (use Suc.prems in auto)
qed auto

lemma rest_split_start: "rest_split (total_packets meta (length d)) 1 meta d = payload_split meta d"
  by (auto simp: rest_split_def payload_split_def available_payload_def total_packets_def Let_def
      split: option.splits nat.splits)

lemma length_payload_split: "length (payload_split meta d) = total_packets meta (length d)"
  by (auto simp: payload_split_def total_packets_def Let_def split: option.splits)

lemma send_stream_payloads:
  assumes "send_stream sid d meta env = (ps, r)"
  shows "payloads ps = take (length ps) (payload_split meta d)"
    "r = Sent \<longleftrightarrow> payloads ps = payload_split meta d"
    "map (sf_fragment_number \<circ> snd) ps = [1..<1 + length ps]"
    "\<forall>p \<in> snd ` set ps. sf_total_length_bytes p = as_u32 (length d)"
proof -
  note run = assms [unfolded send_stream_def]
  have pay: "payloads ps = take (length ps) (payload_split meta d)" "length ps \<le> total_packets meta (length d)"
    "r = Sent \<longleftrightarrow> length ps = total_packets meta (length d)"
    using send_loop_payloads [OF _ run] rest_split_start [of meta d] by simp_all
  have "length (payloads ps) = length ps" by (simp add: payloads_def)
  then show "payloads ps = take (length ps) (payload_split meta d)" "r = Sent \<longleftrightarrow> payloads ps = payload_split meta d"
    using pay length_payload_split [of meta d] by (auto simp: take_all)
  show "map (sf_fragment_number \<circ> snd) ps = [1..<1 + length ps]"
    "\<forall>p \<in> snd ` set ps. sf_total_length_bytes p = as_u32 (length d)"
    using send_loop_headers [OF run] by simp_all
qed

section \<open>Sizes of the packets\<close>

lemma send_loop_fits:
  assumes "send_loop sid len env left no meta xs = (ps, r)" "(sz, p) \<in> set ps"
    "case meta of None \<Rightarrow> True | Some m \<Rightarrow> meta_overhead m \<le> STREAM_MAX_DATA_SIZE"
  shows "serialized_size p \<le> MAX_DATA_SIZE \<and> sz \<le> STREAM_MAX_DATA_SIZE \<and>
         (sf_metadata_bytes p \<noteq> None \<longrightarrow> sf_fragment_number p = 1 \<and> sf_metadata_bytes p = meta)"
  using assms
proof (induction left arbitrary: env no meta xs ps r)
  case (Suc left)
  then obtain e env' where env: "env = e # env'" by (cases env) auto
  from Suc.prems(1) [unfolded env] show ?case
  proof (cases rule: send_loop_cases)
    case (sent ps')
    show ?thesis
    proof (cases "(sz, p) \<in> set ps'")
      case True
      then show ?thesis using Suc.IH [OF sent(1)] Suc.prems(3) by (auto split: if_splits option.splits)
    next
      case False
      then show ?thesis
        using sent(2) Suc.prems(2,3)
        by (auto simp: serialized_size_def available_payload_def meta_overhead_def stream_max_data_size
            size_defs split: option.splits)
    qed
  qed (use Suc.prems in simp)
qed simp

text \<open>
  Every packet \<open>send_stream\<close> hands to the socket serializes to at most \<open>MAX_DATA_SIZE\<close>
  bytes, provided the metadata leaves room for it, and the metadata travels with fragment 1 only.
\<close>

theorem send_stream_packets_fit:
  assumes "send_stream sid d meta env = (ps, r)" "(sz, p) \<in> set ps"
    "case meta of None \<Rightarrow> True | Some m \<Rightarrow> meta_overhead m \<le> STREAM_MAX_DATA_SIZE"
  shows "serialized_size p \<le> MAX_DATA_SIZE \<and>
         (sf_metadata_bytes p \<noteq> None \<longrightarrow> sf_fragment_number p = 1 \<and> sf_metadata_bytes p = meta)"
  using send_loop_fits [OF assms(1) [unfolded send_stream_def] assms(2,3)] by simp

theorem send_stream_packets_fit_witness:
  "\<exists>p. (2, p) \<in> set (fst (send_stream 9 [1, 2] (Some [3])
           [\<lparr>wait_start = 0, wait_reads = [(0, 5000, 1)], send_error = None :: nat option\<rparr>])) \<and>
       serialized_size p \<le> MAX_DATA_SIZE \<and> sf_metadata_bytes p = Some [3]"
proof -
  let ?e = "\<lparr>wait_start = 0, wait_reads = [(0, 5000, 1)], send_error = None :: nat option\<rparr>"
  let ?p = "\<lparr>sf_stream_id = 9, sf_total_length_bytes = 2, sf_fragment_number = 1, sf_payload = [1, 2],
             sf_metadata_bytes = Some [3]\<rparr>"
  have run: "send_stream 9 [1, 2] (Some [3]) [?e] = ([(2, ?p)], Sent)"
    by (simp add: send_stream_def total_packets_def meta_overhead_def stream_max_data_size as_u32_def
        u32_max_def available_payload_def)
  have fits: "case Some [3 :: byte] of None \<Rightarrow> True | Some m \<Rightarrow> meta_overhead m \<le> STREAM_MAX_DATA_SIZE"
    by (simp add: meta_overhead_def stream_max_data_size)
  show ?thesis
    using send_stream_packets_fit [OF run _ fits, of 2 ?p] run by (intro exI [of _ ?p]) simp
qed

section \<open>Delivery\<close>

text \<open>What the receiver sees of the packets of a stream.\<close>

definition arrivals :: "stream_fragment list \<Rightarrow> (nat \<times> byte list) list" where
  "arrivals qs = map (\<lambda>q. (sf_fragment_number q, sf_payload q)) qs"

lemma sent_numbered:
  assumes run: "send_stream sid d meta env = (ps, Sent)" and q: "q \<in> snd ` set ps"
  shows "sf_fragment_number q \<in> {1..length (payload_split meta d)}"
    and "sf_payload q = payload_split meta d ! (sf_fragment_number q - 1)"
proof -
  note F = send_stream_payloads [OF run]
  obtain i where i: "i < length ps" "q = snd (ps ! i)" using q by (auto simp: in_set_conv_nth)
  have "sf_fragment_number q = map (sf_fragment_number \<circ> snd) ps ! i" using i by simp
  also have "\<dots> = Suc i" unfolding F(3) using i by (simp del: upt_Suc)
  finally have n: "sf_fragment_number q = Suc i" .
  have pay: "payloads ps = payload_split meta d" using F(2) by simp
  then have l: "length ps = length (payload_split meta d)" by (simp add: payloads_def flip: pay)
  show "sf_fragment_number q \<in> {1..length (payload_split meta d)}" using n i l by simp
  have "sf_payload q = payloads ps ! i" using i by (simp add: payloads_def case_prod_beta)
  then show "sf_payload q = payload_split meta d ! (sf_fragment_number q - 1)" using n pay by simp
qed

lemma arrivals_numbered:
  assumes run: "send_stream sid d meta env = (ps, Sent)" and qs: "set qs \<subseteq> snd ` set ps"
  shows "arrivals qs = numbered (payload_split meta d) (map sf_fragment_number qs)"
  using qs sent_numbered(2) [OF run] by (auto simp: arrivals_def numbered_def subset_iff)

lemma all_numbers:
  assumes run: "send_stream sid d meta env = (ps, Sent)" and qs: "set qs = snd ` set ps"
  shows "set (map sf_fragment_number qs) = {1..length (payload_split meta d)}"
proof -
  note F = send_stream_payloads [OF run]
  have pay: "payloads ps = payload_split meta d" using F(2) by simp
  have l: "length ps = length (payload_split meta d)" by (simp add: payloads_def flip: pay)
  have "set (map sf_fragment_number qs) = set (map (sf_fragment_number \<circ> snd) ps)"
    using qs by (auto simp: image_iff)
  then show ?thesis unfolding F(3) l by auto
qed

context stream_receiver begin

lemma delivers_sent:
  assumes run: "send_stream sid d meta env = (ps, Sent)" and d: "d \<noteq> []" "length d \<le> u32_max"
    and qs: "set qs = snd ` set ps" "distinct (map sf_fragment_number qs)"
  shows "receive (length d) (arrivals qs) = Some d"
  using receive_distinct [OF payload_split_ok [OF d] qs(2)] arrivals_numbered [OF run] all_numbers [OF run qs(1)] qs
  by simp

end

section \<open>Waiting is bounded\<close>

definition times_out :: "'e packet_env \<Rightarrow> bool" where
  "times_out e \<longleftrightarrow> (\<exists>(fl, cw, now) \<in> set (wait_reads e). CWND_WAIT_TIMEOUT \<le> now - wait_start e)"

lemma times_out_resolved: "times_out e \<Longrightarrow> cwnd_wait sz (wait_start e) (wait_reads e) \<noteq> CwndWaiting"
  unfolding times_out_def using cwnd_wait_resolved by blast

lemma send_loop_not_waiting:
  "left \<le> length env \<Longrightarrow> \<forall>e \<in> set env. times_out e \<Longrightarrow> snd (send_loop sid len env left no meta xs) \<noteq> Waiting"
proof (induction sid len env left no meta xs rule: send_loop.induct)
  case (3 sid len e env left no meta xs)
  have nw: "cwnd_wait (min (length xs) STREAM_MAX_DATA_SIZE) (wait_start e) (wait_reads e) \<noteq> CwndWaiting"
    using "3.prems" by (intro times_out_resolved) simp
  obtain ps r where run: "send_loop sid len (e # env) (Suc left) no meta xs = (ps, r)"
    by (cases "send_loop sid len (e # env) (Suc left) no meta xs")
  then show ?case
  proof (cases rule: send_loop_cases)
    case stop
    then show ?thesis using run nw
      by (auto simp: Let_def split: cwnd_outcome.splits option.splits prod.splits)
  next
    case (sent ps')
    then have "r \<noteq> Waiting" using "3.IH" [OF refl sent(3) refl refl refl refl refl refl sent(4)] "3.prems"
      by (auto simp: Let_def)
    then show ?thesis using run by simp
  qed
qed auto

text \<open>
  C40: \<open>send_stream\<close> does not wait for ever: if for every packet some reading of the wait loop is
  taken \<open>CWND_WAIT_TIMEOUT\<close> or more after the wait began, it succeeds or fails.
\<close>

theorem send_stream_ends:
  assumes "total_packets meta (length d) \<le> length env" "\<forall>e \<in> set env. times_out e"
  shows "snd (send_stream sid d meta env) \<noteq> Waiting"
  unfolding send_stream_def by (rule send_loop_not_waiting [OF assms])

theorem send_stream_ends_witness:
  "snd (send_stream 1 [5] None [\<lparr>wait_start = 0, wait_reads = [(9, 9, 1), (9, 9, 15000000000)],
     send_error = None :: nat option\<rparr>]) \<noteq> Waiting"
  by (rule send_stream_ends)
     (simp_all add: times_out_def CWND_WAIT_TIMEOUT_def secs_def total_packets_def div_ceil_def stream_max_data_size)

section \<open>Forwarding\<close>

fun forwarded :: "(pipe_input \<times> 'e packet_env) list \<Rightarrow> byte list list" where
  "forwarded ((Fragment payload, e) # env) = payload # forwarded env"
| "forwarded env = []"

lemma pipe_loop_cases:
  assumes "pipe_loop sid len ((Fragment v, e) # env) no meta = (ps, r)"
  obtains (stop) "ps = []" "r \<noteq> Sent"
  | (sent) ps' md where "pipe_loop sid len env (no + 1) (if no = 1 then None else meta) = (ps', r)"
      "ps = (length v, \<lparr>sf_stream_id = sid, sf_total_length_bytes = len, sf_fragment_number = no,
              sf_payload = v, sf_metadata_bytes = md\<rparr>) # ps'"
      "md = None \<or> no = 1 \<and> md = meta \<and> (\<forall>m. meta = Some m \<longrightarrow> length v + 41 + length m \<le> MAX_DATA_SIZE)"
  using assms
  by (cases "cwnd_wait (length v) (wait_start e) (wait_reads e)"; cases "send_error e")
     (auto simp: Let_def split: prod.splits option.splits if_splits)

lemma pipe_loop_forwards:
  "pipe_loop sid len env no meta = (ps, r) \<Longrightarrow>
     payloads ps = take (length ps) (forwarded env) \<and> (r = Sent \<longrightarrow> length ps = length (forwarded env)) \<and>
     map (sf_fragment_number \<circ> snd) ps = [no..<no + length ps] \<and>
     (\<forall>p \<in> snd ` set ps. sf_total_length_bytes p = len \<and>
        (length (sf_payload p) \<le> STREAM_MAX_DATA_SIZE \<longrightarrow> serialized_size p \<le> MAX_DATA_SIZE))"
proof (induction env arbitrary: no meta ps r rule: forwarded.induct)
  case (1 v e env)
  from "1.prems" show ?case
  proof (cases rule: pipe_loop_cases)
    case (sent ps' md)
    have "[no..<no + Suc (length ps')] = no # [no + 1..<no + 1 + length ps']"
      by (simp add: upt_conv_Cons del: upt_Suc)
    moreover have "length v \<le> STREAM_MAX_DATA_SIZE \<longrightarrow>
        41 + length v + (case md of None \<Rightarrow> 0 | Some m \<Rightarrow> length m) \<le> MAX_DATA_SIZE"
      using sent(3) by (auto simp: stream_max_data_size size_defs split: option.splits)
    ultimately show ?thesis
      using "1.IH" [OF sent(1)] sent(2) by (simp add: payloads_def serialized_size_def)
  qed (simp add: payloads_def)
qed (auto simp: payloads_def)



end
