(* ===== verification/Streaming.thy ===== *)
theory Streaming
  imports Stream_Buffer
begin

text \<open>
  Incremental reading of inbound streams, \<open>transport/peer_connection/streaming.rs\<close>:
  \<open>StreamHandle\<close>, the \<open>futures::Stream\<close> reader over it and the registry of streams.

  A handle and its forks share one buffer; the buffer is therefore an argument and a result of
  the operations, while the cancelled flag and the wakers belong to the handle.  One poll reads
  the shared state several times; what other tasks do between two reads is an argument
  (\<open>env k\<close> is applied before the \<open>k\<close>-th re-check), and so is whether the event listener (and
  the second one, created after a spurious wake-up) has been notified.

  Shown: whatever happens between the reads, a poll yields the next fragment or none, so the reader
  yields a prefix of the stream in order; a stream cut into full payloads is read to its end; and a
  stream whose first fragment is short can be ended one fragment too early.
\<close>

definition STREAM_INACTIVITY_TIMEOUT :: duration where
  "STREAM_INACTIVITY_TIMEOUT = secs 30"

datatype stream_error = Cancelled | NotFound | InvalidFragment insert_error | InactivityTimeout

record 'w sync_state =
  cancelled :: bool
  wakers :: "'w list"

definition new_sync_state :: "'w sync_state" where
  "new_sync_state = \<lparr>cancelled = False, wakers = []\<rparr>"

text \<open>\<open>wake_all\<close>: the wakers it wakes and the drained state.\<close>

definition wake_all :: "'w sync_state \<Rightarrow> 'w list \<times> 'w sync_state" where
  "wake_all s = (wakers s, s\<lparr>wakers := []\<rparr>)"

record 'w stream_handle =
  sh_sync :: "'w sync_state"
  sh_stream_id :: nat
  sh_total_bytes :: nat

definition new_stream_handle :: "nat \<Rightarrow> nat \<Rightarrow> 'w stream_handle \<times> stream_buffer" where
  "new_stream_handle stream_id total_bytes =
     (\<lparr>sh_sync = new_sync_state, sh_stream_id = stream_id, sh_total_bytes = total_bytes\<rparr>,
      new_stream_buffer total_bytes)"

definition fork :: "'w stream_handle \<Rightarrow> 'w stream_handle" where
  "fork h = h\<lparr>sh_sync := new_sync_state\<lparr>cancelled := cancelled (sh_sync h)\<rparr>\<rparr>"

definition handle_push ::
  "nat \<Rightarrow> byte list \<Rightarrow> 'w stream_handle \<Rightarrow> stream_buffer \<Rightarrow>
   (stream_error + bool) \<times> 'w stream_handle \<times> stream_buffer" where
  "handle_push fragment_number payload h b =
     (if cancelled (sh_sync h) then (Inl Cancelled, h, b)
      else case insert_fragment fragment_number payload b of
             (Inr inserted, b) \<Rightarrow>
               (Inr inserted, (if inserted then h\<lparr>sh_sync := snd (wake_all (sh_sync h))\<rparr> else h), b)
           | (Inl e, b) \<Rightarrow> (Inl (InvalidFragment e), h, b))"

definition cancel :: "'w stream_handle \<Rightarrow> 'w stream_handle" where
  "cancel h = h\<lparr>sh_sync := snd (wake_all ((sh_sync h)\<lparr>cancelled := True\<rparr>))\<rparr>"

definition try_assemble :: "stream_buffer \<Rightarrow> byte list option" where
  "try_assemble b = assemble b"

text \<open>
  \<open>StreamHandle::assemble\<close>: each turn reads the flag and the buffer, then waits for a notification
  or the inactivity timeout, after which both are read once more.  \<open>None\<close>: still waiting.
\<close>

datatype wake = Notified | TimedOut bool stream_buffer

fun assemble_wait :: "(bool \<times> stream_buffer \<times> wake) list \<Rightarrow> (stream_error + byte list) option" where
  "assemble_wait [] = None"
| "assemble_wait ((c, b, w) # turns) =
     (if c then Some (Inl Cancelled)
      else case (if is_complete b then assemble b else None) of
             Some d \<Rightarrow> Some (Inr d)
           | None \<Rightarrow>
               (case w of
                  Notified \<Rightarrow> assemble_wait turns
                | TimedOut c' b' \<Rightarrow>
                    if c' then Some (Inl Cancelled)
                    else case assemble b' of
                           Some d \<Rightarrow> Some (Inr d)
                         | None \<Rightarrow> Some (Inl InactivityTimeout)))"

record stream_reader =
  next_fragment :: nat
  bytes_read :: nat
  auto_reclaim :: bool
  listening :: bool

definition stream :: stream_reader where
  "stream = \<lparr>next_fragment = 1, bytes_read = 0, auto_reclaim = False, listening = False\<rparr>"

definition stream_with_reclaim :: stream_reader where
  "stream_with_reclaim = \<lparr>next_fragment = 1, bytes_read = 0, auto_reclaim = True, listening = False\<rparr>"

definition try_get_fragment :: "stream_reader \<Rightarrow> nat \<Rightarrow> stream_buffer \<Rightarrow> byte list option \<times> stream_buffer" where
  "try_get_fragment r idx b =
     (if auto_reclaim r then take_fragment idx b else (get_fragment idx b, b))"

datatype poll = Pending | ReadyNone | ReadyErr stream_error | ReadyOk "byte list"

type_synonym shared = "bool \<times> stream_buffer"

definition yield :: "byte list \<Rightarrow> stream_reader \<Rightarrow> stream_reader" where
  "yield d r = r\<lparr>listening := False, next_fragment := next_fragment r + 1, bytes_read := bytes_read r + length d\<rparr>"

text \<open>The last re-check, after a spurious notification and the creation of a second listener.\<close>

definition poll_renewed ::
  "(nat \<Rightarrow> shared \<Rightarrow> shared) \<Rightarrow> (nat \<Rightarrow> bool) \<Rightarrow> stream_reader \<Rightarrow> shared \<Rightarrow> poll \<times> stream_reader \<times> shared" where
  "poll_renewed env notified r s =
     (let (c, b) = env 3 s
      in case try_get_fragment r (next_fragment r) b of
           (Some d, b) \<Rightarrow> (ReadyOk d, yield d r, (c, b))
         | (None, _) \<Rightarrow> (Pending, r\<lparr>listening := \<not> notified 1\<rparr>, (c, b)))"

text \<open>The poll of the listener, and the re-check when it was notified.\<close>

definition poll_listener ::
  "(nat \<Rightarrow> shared \<Rightarrow> shared) \<Rightarrow> (nat \<Rightarrow> bool) \<Rightarrow> stream_reader \<Rightarrow> shared \<Rightarrow> poll \<times> stream_reader \<times> shared" where
  "poll_listener env notified r s =
     (let (c, b) = env 2 s
      in if \<not> notified 0 then (Pending, r, (c, b))
         else if c then (ReadyErr Cancelled, r\<lparr>listening := False\<rparr>, (c, b))
         else case try_get_fragment r (next_fragment r) b of
                (Some d, b) \<Rightarrow> (ReadyOk d, yield d r, (c, b))
              | (None, _) \<Rightarrow> poll_renewed env notified r (c, b))"

text \<open>The creation of the listener and the re-check after it.\<close>

definition poll_recheck ::
  "(nat \<Rightarrow> shared \<Rightarrow> shared) \<Rightarrow> (nat \<Rightarrow> bool) \<Rightarrow> stream_reader \<Rightarrow> shared \<Rightarrow> poll \<times> stream_reader \<times> shared" where
  "poll_recheck env notified r s =
     (let (c, b) = env 1 s; r = r\<lparr>listening := True\<rparr>
      in if c then (ReadyErr Cancelled, r\<lparr>listening := False\<rparr>, (c, b))
         else case try_get_fragment r (next_fragment r) b of
                (Some d, b) \<Rightarrow> (ReadyOk d, yield d r, (c, b))
              | (None, _) \<Rightarrow> poll_listener env notified r (c, b))"

definition poll_next ::
  "(nat \<Rightarrow> shared \<Rightarrow> shared) \<Rightarrow> (nat \<Rightarrow> bool) \<Rightarrow> stream_reader \<Rightarrow> shared \<Rightarrow> poll \<times> stream_reader \<times> shared" where
  "poll_next env notified r s =
     (let next_idx = next_fragment r; (c, b) = s
      in if c then (ReadyErr Cancelled, r, s)
         else if total_fragments b < next_idx then (ReadyNone, r, s)
         else if is_complete b \<and> get_fragment next_idx b = None then (ReadyNone, r, s)
         else case try_get_fragment r next_idx b of
                (Some d, b) \<Rightarrow> (ReadyOk d, yield d r, (c, b))
              | (None, _) \<Rightarrow> poll_recheck env notified r (c, b))"

section \<open>The registry\<close>

type_synonym 'h stream_registry = "(nat, 'h) hmap"

text \<open>\<open>register\<close>: the handle found or created for the stream; the new handle is an argument.\<close>

definition register :: "nat \<Rightarrow> 'h \<Rightarrow> 'h stream_registry \<Rightarrow> 'h \<times> 'h stream_registry" where
  "register stream_id fresh reg =
     (case hm_get reg stream_id of
        Some h \<Rightarrow> (h, reg)
      | None \<Rightarrow> (fresh, hm_put stream_id fresh reg))"

definition registry_remove :: "nat \<Rightarrow> 'h stream_registry \<Rightarrow> 'h option \<times> 'h stream_registry" where
  "registry_remove stream_id reg = (hm_get reg stream_id, hm_del stream_id reg)"

definition cancel_all :: "'w stream_handle stream_registry \<Rightarrow> 'w stream_handle list \<times> 'w stream_handle stream_registry" where
  "cancel_all reg = (map (\<lambda>(_, h). cancel h) reg, [])"

text \<open>A world in which only fragments of the stream arrive, between the reads and between the polls.\<close>

definition stream_world :: "byte list list \<Rightarrow> byte list \<Rightarrow> shared \<Rightarrow> bool" where
  "stream_world fs d s \<longleftrightarrow> (\<exists>S. S \<subseteq> {1..length fs} \<and> snd s = buffer_with fs d S)"

definition arrivals_only :: "byte list list \<Rightarrow> byte list \<Rightarrow> (nat \<Rightarrow> shared \<Rightarrow> shared) \<Rightarrow> bool" where
  "arrivals_only fs d env \<longleftrightarrow> (\<forall>k s. stream_world fs d s \<longrightarrow> stream_world fs d (env k s))"

text \<open>The polls of one reader, each with what happens before and during it, and what they yield.\<close>

fun polls ::
  "(((shared \<Rightarrow> shared) \<times> (nat \<Rightarrow> shared \<Rightarrow> shared) \<times> (nat \<Rightarrow> bool)) list) \<Rightarrow> stream_reader \<Rightarrow> shared \<Rightarrow> byte list list" where
  "polls [] r s = []"
| "polls ((before, env, notified) # ps) r s =
     (case poll_next env notified r (before s) of
        (ReadyOk d, r, s) \<Rightarrow> d # polls ps r s
      | (_, r, s) \<Rightarrow> polls ps r s)"

section \<open>What a poll yields\<close>

lemma get_buffer_with:
  assumes "stream_split fs d"
  shows "get_fragment n (buffer_with fs d S) =
    (if 0 < n \<and> n \<le> calculate_fragment_count (length d) \<and> n \<in> S then Some (fs ! (n - 1)) else None)"
  using stream_split_fits [OF assms]
  by (auto simp: get_fragment_def buffer_with_def new_stream_buffer_def Let_def)

lemma stream_world_with: "S \<subseteq> {1..length fs} \<Longrightarrow> stream_world fs d (c, buffer_with fs d S)"
  by (auto simp: stream_world_def)

lemma get_in_world:
  "stream_split fs d \<Longrightarrow> stream_world fs d s \<Longrightarrow> get_fragment n (snd s) = Some v \<Longrightarrow>
     0 < n \<and> n \<le> length fs \<and> v = fs ! (n - 1)"
  by (auto simp: stream_world_def get_buffer_with split: if_splits)

definition poll_ok :: "byte list list \<Rightarrow> byte list \<Rightarrow> stream_reader \<Rightarrow> poll \<times> stream_reader \<times> shared \<Rightarrow> bool" where
  "poll_ok fs d r out \<longleftrightarrow>
     (case out of (p, r', s') \<Rightarrow>
        stream_world fs d s' \<and> \<not> auto_reclaim r' \<and>
        (case p of
           ReadyOk v \<Rightarrow> 0 < next_fragment r \<and> next_fragment r \<le> length fs \<and> v = fs ! (next_fragment r - 1) \<and>
             next_fragment r' = next_fragment r + 1 \<and> bytes_read r' = bytes_read r + length v
         | _ \<Rightarrow> next_fragment r' = next_fragment r \<and> bytes_read r' = bytes_read r))"

lemma poll_ok_yield:
  "stream_split fs d \<Longrightarrow> stream_world fs d (c, b) \<Longrightarrow> \<not> auto_reclaim r \<Longrightarrow> get_fragment (next_fragment r) b = Some v \<Longrightarrow>
     poll_ok fs d r (ReadyOk v, yield v r, (c, b))"
  using get_in_world [of fs d "(c, b)" "next_fragment r" v] by (auto simp: poll_ok_def yield_def)

lemma poll_ok_stay:
  "stream_world fs d s \<Longrightarrow> \<not> auto_reclaim r \<Longrightarrow> (\<forall>v. p \<noteq> ReadyOk v) \<Longrightarrow> next_fragment r' = next_fragment r \<Longrightarrow>
     bytes_read r' = bytes_read r \<Longrightarrow> auto_reclaim r' = auto_reclaim r \<Longrightarrow> poll_ok fs d r (p, r', s)"
  by (cases s; cases p) (auto simp: poll_ok_def)

lemma listening_irrelevant: "poll_ok fs d (r\<lparr>listening := l\<rparr>) out = poll_ok fs d r out"
  by (cases out; cases "fst out") (simp_all add: poll_ok_def)

lemma env_world: "arrivals_only fs d env \<Longrightarrow> stream_world fs d s \<Longrightarrow> stream_world fs d (env k s)"
  by (cases s) (simp add: arrivals_only_def)

lemma poll_stages_ok:
  assumes split: "stream_split fs d" and env: "arrivals_only fs d env" and keep: "\<not> auto_reclaim r"
    and w: "stream_world fs d s"
  shows "poll_ok fs d r (poll_renewed env nt r s)" "poll_ok fs d r (poll_listener env nt r s)"
    "poll_ok fs d r (poll_recheck env nt r s)"
proof -
  have renewed: "poll_ok fs d r (poll_renewed env nt r s)" if "stream_world fs d s" "\<not> auto_reclaim r" for r s
    using that env_world [OF env that(1), of 3] poll_ok_yield [OF split]
    by (cases "env 3 s") (auto simp: poll_renewed_def try_get_fragment_def poll_ok_stay split: option.split)
  have listener: "poll_ok fs d r (poll_listener env nt r s)" if "stream_world fs d s" "\<not> auto_reclaim r" for r s
    using that env_world [OF env that(1), of 2] poll_ok_yield [OF split] renewed
    by (cases "env 2 s") (auto simp: poll_listener_def try_get_fragment_def poll_ok_stay split: option.split)
  show "poll_ok fs d r (poll_renewed env nt r s)" "poll_ok fs d r (poll_listener env nt r s)"
    using renewed listener w keep by blast+
  let ?r = "r\<lparr>listening := True\<rparr>"
  have keep': "\<not> auto_reclaim ?r" using keep by simp
  obtain c b where e: "env (Suc 0) s = (c, b)" by (cases "env (Suc 0) s")
  have w': "stream_world fs d (c, b)" using env_world [OF env w, of "Suc 0"] e by simp
  have "poll_ok fs d ?r (poll_recheck env nt r s)"
    using poll_ok_yield [OF split w' keep'] listener [OF w' keep'] poll_ok_stay [OF w' keep'] keep
    by (auto simp: poll_recheck_def Let_def e try_get_fragment_def split: option.split)
  then show "poll_ok fs d r (poll_recheck env nt r s)" by (simp only: listening_irrelevant)
qed

lemma poll_next_ok:
  assumes split: "stream_split fs d" and env: "arrivals_only fs d env" and w: "stream_world fs d s"
    and keep: "\<not> auto_reclaim r"
  shows "poll_ok fs d r (poll_next env notified r s)"
  using w poll_stages_ok(3) [OF split env keep] poll_ok_yield [OF split] keep
  by (cases s) (auto simp: poll_next_def Let_def try_get_fragment_def poll_ok_stay split: option.split)

lemma polls_prefix:
  assumes split: "stream_split fs d" and ps: "\<forall>(before, env, _) \<in> set ps.
      arrivals_only fs d env \<and> (\<forall>s. stream_world fs d s \<longrightarrow> stream_world fs d (before s))"
  shows "stream_world fs d s \<Longrightarrow> \<not> auto_reclaim r \<Longrightarrow> 0 < next_fragment r \<Longrightarrow>
    \<exists>k. polls ps r s = take k (drop (next_fragment r - 1) fs)"
  using ps
proof (induction ps arbitrary: r s)
  case (Cons p ps)
  obtain before env nt where p: "p = (before, env, nt)" by (cases p)
  have b: "stream_world fs d (before s)" "arrivals_only fs d env"
    using Cons.prems p by (cases s; auto)+
  obtain q r' s' where poll: "poll_next env nt r (before s) = (q, r', s')" by (metis surj_pair)
  have ok: "poll_ok fs d r (q, r', s')"
    using poll_next_ok [OF split b(2,1) Cons.prems(2), of nt] poll by simp
  then have "\<exists>k. polls ps r' s' = take k (drop (next_fragment r' - 1) fs)"
    using Cons.prems by (intro Cons.IH) (auto simp: poll_ok_def split: poll.splits)
  then obtain k where k: "polls ps r' s' = take k (drop (next_fragment r' - 1) fs)" ..
  show ?case
  proof (cases q)
    case (ReadyOk v)
    then have v: "v = fs ! (next_fragment r - 1)" "next_fragment r' = next_fragment r + 1"
      "next_fragment r - 1 < length fs"
      using ok Cons.prems(3) by (auto simp: poll_ok_def)
    have "drop (next_fragment r - 1) fs = v # drop (next_fragment r) fs"
      using v Cons.prems(3) by (simp add: Cons_nth_drop_Suc [symmetric])
    then have "polls (p # ps) r s = take (Suc k) (drop (next_fragment r - 1) fs)"
      using p poll ReadyOk k v by simp
    then show ?thesis ..
  qed (use ok p poll k in \<open>auto simp: poll_ok_def\<close>)
qed auto



section \<open>The end of a stream\<close>

lemma complete_buffer_with:
  assumes "stream_split fs d"
  shows "is_complete (buffer_with fs d S) \<longleftrightarrow>
    base_fragment_count (length d) \<le> prefix_len (arrived fs (calculate_fragment_count (length d)) S)"
  using stream_split_fits [OF assms] by (simp add: is_complete_def buffer_with_def new_stream_buffer_def Let_def)

lemma poll_stages_not_none:
  "fst (poll_renewed env nt r s) \<noteq> ReadyNone" "fst (poll_listener env nt r s) \<noteq> ReadyNone"
  "fst (poll_recheck env nt r s) \<noteq> ReadyNone"
proof -
  have renewed: "fst (poll_renewed env nt r s) \<noteq> ReadyNone" for r s
    by (auto simp: poll_renewed_def split: option.split prod.split)
  have listener: "fst (poll_listener env nt r s) \<noteq> ReadyNone" for r s
    using renewed by (auto simp: poll_listener_def split: option.split prod.split)
  show "fst (poll_renewed env nt r s) \<noteq> ReadyNone" "fst (poll_listener env nt r s) \<noteq> ReadyNone"
    "fst (poll_recheck env nt r s) \<noteq> ReadyNone"
    using renewed listener by (auto simp: poll_recheck_def Let_def split: option.split prod.split)
qed

lemma poll_none_cases:
  "poll_next env nt r (c, b) = (ReadyNone, r', s') \<Longrightarrow>
     total_fragments b < next_fragment r \<or> is_complete b \<and> get_fragment (next_fragment r) b = None"
  using poll_stages_not_none(3) [of env nt r "(c, b)"]
  by (auto simp: poll_next_def Let_def split: if_splits option.splits prod.splits)

text \<open>
  A stream that was cut into full payloads (no metadata in its first fragment) is not ended
  early: the reader reports the end only when it has yielded every fragment.
\<close>

theorem reader_ends_complete:
  assumes split: "stream_split fs d" and full: "length fs = base_fragment_count (length d)"
    and S: "S \<subseteq> {1..length fs}" and pos: "0 < next_fragment r"
    and poll: "poll_next env nt r (c, buffer_with fs d S) = (ReadyNone, r', s')"
  shows "length fs < next_fragment r"
proof -
  let ?N = "calculate_fragment_count (length d)"
  have "length fs \<le> ?N" and tot: "total_fragments (buffer_with fs d S) = ?N"
    using stream_split_fits [OF split] by (auto simp: buffer_with_def new_stream_buffer_def Let_def)
  from poll_none_cases [OF poll] show ?thesis
  proof
    assume "total_fragments (buffer_with fs d S) < next_fragment r"
    then show ?thesis using tot \<open>length fs \<le> ?N\<close> by simp
  next
    assume a: "is_complete (buffer_with fs d S) \<and> get_fragment (next_fragment r) (buffer_with fs d S) = None"
    then have "prefix_len (arrived fs ?N S) = length fs"
      using full complete_buffer_with [OF split] arrived_prefix(1) [OF S \<open>length fs \<le> ?N\<close>] by auto
    then have "{1..length fs} \<subseteq> S" using arrived_prefix(3) [OF S \<open>length fs \<le> ?N\<close>] by simp
    then have "next_fragment r \<notin> {1..length fs}"
      using a get_buffer_with [OF split, of "next_fragment r" S] \<open>length fs \<le> ?N\<close> by (auto split: if_splits)
    then show ?thesis using pos by auto
  qed
qed

theorem reader_ends_complete_witness:
  "poll_next (\<lambda>_ s. s) (\<lambda>_. False) (stream\<lparr>next_fragment := 2\<rparr>) (False, buffer_with [[1, 2]] [1, 2] {1}) =
     (ReadyNone, stream\<lparr>next_fragment := 2\<rparr>, (False, buffer_with [[1, 2]] [1, 2] {1})) \<and>
   length [[1, 2 :: byte]] < next_fragment (stream\<lparr>next_fragment := 2\<rparr>)"
proof -
  have split: "stream_split [[1, 2]] [1, 2]" and base: "length [[1, 2 :: byte]] = base_fragment_count (length [1, 2 :: byte])"
    by (simp_all add: stream_split_def fragment_payload_size calculate_fragment_count_def
        base_fragment_count_def div_ceil_def u32_max_def)
  have n: "calculate_fragment_count (Suc (Suc 0)) = 2"
    by (simp add: calculate_fragment_count_def base_fragment_count_def div_ceil_def fragment_payload_size)
  have poll: "poll_next (\<lambda>_ s. s) (\<lambda>_. False) (stream\<lparr>next_fragment := 2\<rparr>) (False, buffer_with [[1, 2]] [1, 2] {1}) =
     (ReadyNone, stream\<lparr>next_fragment := 2\<rparr>, (False, buffer_with [[1, 2]] [1, 2] {1}))"
    using complete_buffer_with [OF split, of "{1}"] get_buffer_with [OF split, of 2 "{1}"] base
    by (simp add: poll_next_def stream_def arrived_def prefix_len_def n upt_rec)
  then show ?thesis using reader_ends_complete [OF split base _ _ poll] by simp
qed

text \<open>
  A stream whose first fragment is short is ended early when its last fragment is late: with
  all but the last of \<open>base + 1\<close> fragments in the buffer, the reader that has yielded those reports
  the end of the stream instead of waiting, although the stream is not complete.
\<close>

theorem reader_truncates_late_fragment:
  assumes split: "stream_split fs d" and over: "length fs = base_fragment_count (length d) + 1"
    and r: "next_fragment r = length fs"
  shows "poll_next env nt r (False, buffer_with fs d {1..<length fs}) =
           (ReadyNone, r, (False, buffer_with fs d {1..<length fs})) \<and>
         assemble (buffer_with fs d {1..<length fs}) = None"
proof -
  let ?S = "{1..<length fs}" and ?N = "calculate_fragment_count (length d)"
  have N: "length fs \<le> ?N" using stream_split_fits [OF split] by auto
  have "prefix_len (arrived fs ?N ?S) = length fs - 1"
    by (rule prefix_lenI) (use N over in auto)
  then have "is_complete (buffer_with fs d ?S)" using over complete_buffer_with [OF split] by simp
  moreover have "get_fragment (length fs) (buffer_with fs d ?S) = None" using get_buffer_with [OF split] by simp
  moreover have "total_fragments (buffer_with fs d ?S) = ?N"
    using stream_split_fits [OF split] by (simp add: buffer_with_def new_stream_buffer_def Let_def)
  moreover have "assemble (buffer_with fs d ?S) = None"
  proof -
    have "length fs \<notin> ?S" "length fs \<in> {1..length fs}" using over by auto
    then have "\<not> {1..length fs} \<subseteq> ?S" by blast
    moreover have "?S \<subseteq> {1..length fs}" by auto
    ultimately show ?thesis using assemble_buffer_with [OF split] by simp
  qed
  ultimately show ?thesis using r N by (simp add: poll_next_def Let_def)
qed

theorem reader_truncates_late_fragment_witness:
  "poll_next (\<lambda>_ s. s) (\<lambda>_. False) (stream\<lparr>next_fragment := 2\<rparr>) (False, buffer_with [[1, 2], [3]] [1, 2, 3] {1..<2}) =
     (ReadyNone, stream\<lparr>next_fragment := 2\<rparr>, (False, buffer_with [[1, 2], [3]] [1, 2, 3] {1..<2}))"
proof -
  have split: "stream_split [[1, 2], [3]] [1, 2, 3]"
    and over: "length [[1, 2], [3 :: byte]] = base_fragment_count (length [1, 2, 3 :: byte]) + 1"
    by (simp_all add: stream_split_def fragment_payload_size calculate_fragment_count_def
        base_fragment_count_def div_ceil_def u32_max_def)
  show ?thesis
    using reader_truncates_late_fragment [OF split over, of "stream\<lparr>next_fragment := 2\<rparr>"] by (simp add: numeral_2_eq_2)
qed

end
