(* ===== verification/F64.thy ===== *)
theory F64
  imports Complex_Main Freenet_Prelude
begin

text \<open>
  IEEE-754 double precision as Rust's \<open>f64\<close> uses it, on exact rationals: a finite double is its
  value, and every operation rounds its exact result to the nearest double, ties to even, with the
  subnormal range at the bottom.  Results beyond the largest double and the special values do not
  occur in the modelled code, whose operands are bounded.

  \<open>Duration::mul_f64\<close> and the conversions between durations and seconds are composed from these
  operations as in the standard library.

  Shown: rounding is monotone, keeps its sign, and is exact on integers of at most 53 bits.
\<close>

section \<open>Rounding to an integer\<close>

definition round_half_even :: "rat \<Rightarrow> int" where
  "round_half_even x =
     (let f = \<lfloor>x\<rfloor>; d = x - of_int f
      in if d < 1 / 2 then f else if 1 / 2 < d then f + 1 else if even f then f else f + 1)"

lemma round_half_even_int [simp]: "round_half_even (of_int n) = n"
  by (simp add: round_half_even_def)

lemma round_half_even_bounds:
  "\<lfloor>x\<rfloor> \<le> round_half_even x" "round_half_even x \<le> \<lfloor>x\<rfloor> + 1"
  by (auto simp: round_half_even_def Let_def)

lemma round_half_even_near: "\<bar>of_int (round_half_even x) - x\<bar> \<le> 1 / 2"
proof -
  have "of_int \<lfloor>x\<rfloor> \<le> x" "x < of_int \<lfloor>x\<rfloor> + 1" by linarith+
  then show ?thesis by (auto simp: round_half_even_def Let_def abs_le_iff)
qed

lemma round_half_evenI:
  assumes "\<bar>x - of_int n\<bar> < 1 / 2"
  shows "round_half_even x = n"
proof -
  have "\<bar>of_int (round_half_even x) - of_int n :: rat\<bar> < 1"
    using round_half_even_near [of x] assms by linarith
  then have "\<bar>round_half_even x - n\<bar> < 1" by linarith
  then show ?thesis by simp
qed

lemma round_half_even_mono:
  assumes "x \<le> y"
  shows "round_half_even x \<le> round_half_even y"
proof (cases "\<lfloor>x\<rfloor> = \<lfloor>y\<rfloor>")
  case True
  then show ?thesis using assms by (auto simp: round_half_even_def Let_def)
next
  case False
  then have "\<lfloor>x\<rfloor> + 1 \<le> \<lfloor>y\<rfloor>" using floor_mono [OF assms] by linarith
  then show ?thesis using round_half_even_bounds [of x] round_half_even_bounds [of y] by linarith
qed

lemma round_half_even_nonneg: "0 \<le> x \<Longrightarrow> 0 \<le> round_half_even x"
  using round_half_even_mono [of 0 x] round_half_even_int [of 0] by simp

section \<open>The binary exponent\<close>

function flog2 :: "rat \<Rightarrow> int" where
  "flog2 x =
     (if x \<le> 0 then 0
      else if x < 1 then flog2 (2 * x) - 1
      else if x < 2 then 0
      else flog2 (x / 2) + 1)"
  by pat_completeness auto
termination
proof (relation "measure (\<lambda>x. if x < 1 then nat \<lceil>1 / x\<rceil> else nat \<lfloor>x\<rfloor>)", goal_cases)
  case (2 x)
  then have pos: "0 < x" "x < 1" by auto
  have c: "2 \<le> \<lceil>1 / x\<rceil>"
  proof -
    have "1 < 1 / x" using pos by (simp add: field_simps)
    then show ?thesis by linarith
  qed
  show ?case
  proof (cases "2 * x < 1")
    case True
    have "1 / (2 * x) + 1 \<le> 1 / x" using True pos by (simp add: field_simps)
    then have "\<lceil>1 / (2 * x)\<rceil> + 1 \<le> \<lceil>1 / x\<rceil>" by linarith
    then show ?thesis using True pos c by simp
  next
    case False
    have "\<lfloor>2 * x\<rfloor> \<le> 1" using pos by linarith
    then have "\<lfloor>2 * x\<rfloor> < \<lceil>1 / x\<rceil>" using c by linarith
    then show ?thesis using False pos by simp
  qed
next
  case (3 x)
  then have "2 \<le> x" by auto
  then have "\<lfloor>x / 2\<rfloor> \<le> \<lfloor>x\<rfloor> - 1" "2 \<le> \<lfloor>x\<rfloor>" by linarith+
  then show ?case using \<open>2 \<le> x\<close> by simp
qed simp

declare flog2.simps [simp del]

lemma powi_Suc: "(2 :: rat) powi (k + 1) = 2 * 2 powi k"
  by (simp add: power_int_add)

lemma flog2_spec: "0 < x \<Longrightarrow> 2 powi (flog2 x) \<le> x \<and> x < 2 powi (flog2 x + 1)"
proof (induction x rule: flog2.induct)
  case (1 x)
  consider "x < 1" | "1 \<le> x" "x < 2" | "2 \<le> x" by linarith
  then show ?case
  proof cases
    case 1
    have step: "flog2 x = flog2 (2 * x) - 1" using 1 "1.prems" by (subst flog2.simps) simp
    have IH: "2 powi (flog2 (2 * x)) \<le> 2 * x \<and> 2 * x < 2 powi (flog2 (2 * x) + 1)"
      by (rule "1.IH"(1)) (use 1 "1.prems" in auto)
    then show ?thesis
      using powi_Suc [of "flog2 (2 * x) - 1"] powi_Suc [of "flog2 (2 * x)"] by (simp add: step)
  next
    case 2
    then have "flog2 x = 0" by (subst flog2.simps) simp
    then show ?thesis using 2 by simp
  next
    case 3
    have step: "flog2 x = flog2 (x / 2) + 1" using 3 by (subst flog2.simps) simp
    have IH: "2 powi (flog2 (x / 2)) \<le> x / 2 \<and> x / 2 < 2 powi (flog2 (x / 2) + 1)"
      by (rule "1.IH"(2)) (use 3 in auto)
    then show ?thesis
      using powi_Suc [of "flog2 (x / 2)"] powi_Suc [of "flog2 (x / 2) + 1"] by (simp add: step)
  qed
qed

section \<open>Rounding to a double\<close>

definition f64_exp :: "rat \<Rightarrow> int" where
  "f64_exp x = max (- 1074) (flog2 \<bar>x\<bar> - 52)"

definition f64_round :: "rat \<Rightarrow> rat" where
  "f64_round x =
     (if x = 0 then 0 else of_int (round_half_even (x / 2 powi f64_exp x)) * 2 powi f64_exp x)"

definition f64_add :: "rat \<Rightarrow> rat \<Rightarrow> rat" where
  "f64_add x y = f64_round (x + y)"

definition f64_sub :: "rat \<Rightarrow> rat \<Rightarrow> rat" where
  "f64_sub x y = f64_round (x - y)"

definition f64_mul :: "rat \<Rightarrow> rat \<Rightarrow> rat" where
  "f64_mul x y = f64_round (x * y)"

definition f64_div :: "rat \<Rightarrow> rat \<Rightarrow> rat" where
  "f64_div x y = f64_round (x / y)"

text \<open>\<open>n as f64\<close> for an unsigned integer, and the saturating cast \<open>x as u64\<close> (or \<open>usize\<close>).\<close>

definition f64_of_nat :: "nat \<Rightarrow> rat" where
  "f64_of_nat n = f64_round (of_nat n)"

definition f64_to_u64 :: "rat \<Rightarrow> nat" where
  "f64_to_u64 x = min (nat \<lfloor>x\<rfloor>) u64_max"

text \<open>\<open>Duration::as_secs_f64\<close>, \<open>Duration::from_secs_f64\<close> (to the nearest nanosecond), \<open>mul_f64\<close>.\<close>

definition as_secs_f64 :: "duration \<Rightarrow> rat" where
  "as_secs_f64 d = f64_add (f64_of_nat (d div 1000000000)) (f64_div (f64_of_nat (d mod 1000000000)) 1000000000)"

definition from_secs_f64 :: "rat \<Rightarrow> duration" where
  "from_secs_f64 x = nat (round_half_even (x * 1000000000))"

definition mul_f64 :: "duration \<Rightarrow> rat \<Rightarrow> duration" where
  "mul_f64 d x = from_secs_f64 (f64_mul x (as_secs_f64 d))"

lemma powi_pos [simp]: "0 < (2 :: rat) powi k"
  by (simp add: zero_less_power_int)

lemma powi_mono: "i \<le> j \<Longrightarrow> (2 :: rat) powi i \<le> 2 powi j"
  by (intro power_int_increasing) auto

lemma f64_round_0 [simp]: "f64_round 0 = 0"
  by (simp add: f64_round_def)

lemma f64_round_nonneg: "0 \<le> x \<Longrightarrow> 0 \<le> f64_round x"
  by (auto simp: f64_round_def intro!: mult_nonneg_nonneg round_half_even_nonneg less_imp_le [OF powi_pos])

lemma f64_exp_pos: "0 < x \<Longrightarrow> f64_exp x = max (- 1074) (flog2 x - 52)"
  by (simp add: f64_exp_def)

lemma flog2_mono: "0 < x \<Longrightarrow> x \<le> y \<Longrightarrow> flog2 x \<le> flog2 y"
proof (rule ccontr)
  assume a: "0 < x" "x \<le> y" "\<not> flog2 x \<le> flog2 y"
  then have "(2 :: rat) powi (flog2 y + 1) \<le> 2 powi flog2 x" by (intro powi_mono) simp
  then show False using flog2_spec [of x] flog2_spec [of y] a by linarith
qed

text \<open>A power of two that is an integer multiple of the unit is a bound that rounding respects.\<close>

lemma f64_round_le_powi:
  assumes "0 < x" "x \<le> 2 powi k" "f64_exp x \<le> k"
  shows "f64_round x \<le> 2 powi k"
proof -
  let ?u = "(2 :: rat) powi f64_exp x"
  obtain n where n: "k = f64_exp x + int n" using assms(3) zle_iff_zadd by blast
  have mult: "(2 :: rat) powi k = of_int (2 ^ n) * ?u" by (simp add: n power_int_add power_int_of_nat)
  have "x / ?u \<le> of_int (2 ^ n)" using assms(2) mult by (simp add: field_simps)
  then have "round_half_even (x / ?u) \<le> 2 ^ n"
    using round_half_even_mono [of "x / ?u" "of_int (2 ^ n)"] round_half_even_int [of "2 ^ n"] by argo
  then have "of_int (round_half_even (x / ?u)) \<le> (of_int (2 ^ n) :: rat)" by (simp only: of_int_le_iff)
  then have "of_int (round_half_even (x / ?u)) * ?u \<le> of_int (2 ^ n) * ?u" by (intro mult_right_mono) auto
  then show ?thesis using assms(1) mult by (simp add: f64_round_def)
qed

lemma f64_round_ge_powi:
  assumes "2 powi k \<le> x" "f64_exp x \<le> k"
  shows "2 powi k \<le> f64_round x"
proof -
  have pos: "0 < x" using assms(1) powi_pos [of k] by linarith
  let ?u = "(2 :: rat) powi f64_exp x"
  obtain n where n: "k = f64_exp x + int n" using assms(2) zle_iff_zadd by blast
  have mult: "(2 :: rat) powi k = of_int (2 ^ n) * ?u" by (simp add: n power_int_add power_int_of_nat)
  have "of_int (2 ^ n) \<le> x / ?u" using assms(1) mult by (simp add: field_simps)
  then have "2 ^ n \<le> round_half_even (x / ?u)"
    using round_half_even_mono [of "of_int (2 ^ n)" "x / ?u"] round_half_even_int [of "2 ^ n"] by argo
  then have "(of_int (2 ^ n) :: rat) \<le> of_int (round_half_even (x / ?u))" by (simp only: of_int_le_iff)
  then have "of_int (2 ^ n) * ?u \<le> of_int (round_half_even (x / ?u)) * ?u" by (intro mult_right_mono) auto
  then show ?thesis using pos mult by (simp add: f64_round_def)
qed

lemma f64_round_mono:
  assumes "0 \<le> x" "x \<le> y"
  shows "f64_round x \<le> f64_round y"
proof (cases "x = 0")
  case True
  then show ?thesis using f64_round_nonneg assms by simp
next
  case False
  then have pos: "0 < x" "0 < y" using assms by auto
  have le: "flog2 x \<le> flog2 y" by (rule flog2_mono [OF pos(1) assms(2)])
  show ?thesis
  proof (cases "f64_exp x = f64_exp y")
    case True
    have "x / 2 powi f64_exp y \<le> y / 2 powi f64_exp y" using assms by (simp add: divide_right_mono)
    then have "of_int (round_half_even (x / 2 powi f64_exp y)) \<le> (of_int (round_half_even (y / 2 powi f64_exp y)) :: rat)"
      using round_half_even_mono by (simp only: of_int_le_iff)
    then show ?thesis using pos True by (simp add: f64_round_def mult_right_mono)
  next
    case ne: False
    let ?k = "flog2 y"
    have lt: "flog2 x + 1 \<le> ?k" "-1074 \<le> ?k - 52"
      using ne le pos by (auto simp: f64_exp_pos max_def split: if_splits)
    have "x \<le> 2 powi ?k" using flog2_spec [OF pos(1)] powi_mono [OF lt(1)] by linarith
    then have "f64_round x \<le> 2 powi ?k"
      by (rule f64_round_le_powi [OF pos(1)]) (use lt le pos in \<open>auto simp: f64_exp_pos\<close>)
    also have "\<dots> \<le> f64_round y"
      by (rule f64_round_ge_powi) (use flog2_spec [OF pos(2)] lt pos in \<open>auto simp: f64_exp_pos\<close>)
    finally show ?thesis .
  qed
qed

text \<open>Rounding a given number: its binary exponent is found by its bounds.\<close>

lemma flog2I:
  assumes "2 powi k \<le> x" "x < 2 powi (k + 1)"
  shows "flog2 x = k"
proof -
  have pos: "0 < x" using assms(1) powi_pos [of k] by linarith
  have "\<not> flog2 x < k" "\<not> k < flog2 x"
    using flog2_spec [OF pos] assms powi_mono [of "flog2 x + 1" k] powi_mono [of "k + 1" "flog2 x"] by linarith+
  then show ?thesis by simp
qed

lemma f64_roundI:
  assumes "2 powi k \<le> x" "x < 2 powi (k + 1)" "- 1022 \<le> k"
  shows "f64_round x = of_int (round_half_even (x / 2 powi (k - 52))) * 2 powi (k - 52)"
proof -
  have "0 < x" using assms(1) powi_pos [of k] by linarith
  then show ?thesis using assms(3) by (simp add: f64_round_def f64_exp_pos flog2I [OF assms(1,2)])
qed

lemma f64_round_eqI:
  assumes "2 powi k \<le> x" "x < 2 powi (k + 1)" "- 1022 \<le> k" "\<bar>x / 2 powi (k - 52) - of_int n\<bar> < 1 / 2"
  shows "f64_round x = of_int n * 2 powi (k - 52)"
  using f64_roundI [OF assms(1-3)] round_half_evenI [OF assms(4)] by simp

lemma f64_round_multiple:
  assumes "x = of_int m * 2 powi f64_exp x"
  shows "f64_round x = x"
proof -
  have "x / 2 powi f64_exp x = of_int m" by (subst (1) assms) (simp add: power_int_eq_0_iff)
  then show ?thesis using assms by (simp add: f64_round_def)
qed

lemma powi_split: "i \<le> j \<Longrightarrow> (2 :: rat) powi j = of_int (2 ^ nat (j - i)) * 2 powi i"
proof -
  assume "i \<le> j"
  then have "j = int (nat (j - i)) + i" by simp
  then have "(2 :: rat) powi j = 2 powi int (nat (j - i)) * 2 powi i" by (metis power_int_add zero_neq_numeral)
  then show ?thesis by (simp only: power_int_of_nat of_int_power of_int_numeral)
qed

lemma f64_round_idem:
  assumes "0 \<le> x"
  shows "f64_round (f64_round x) = f64_round x"
proof (cases "x = 0 \<or> f64_round x = 0")
  case False
  define y where "y = f64_round x"
  let ?e = "f64_exp x" and ?k = "flog2 x"
  have pos: "0 < x" "0 < y" using False assms f64_round_nonneg [OF assms] by (auto simp: y_def)
  obtain n where y: "y = of_int n * 2 powi ?e" using pos by (auto simp: y_def f64_round_def)
  have "0 < n" using pos(2) y powi_pos [of ?e] by (simp add: zero_less_mult_iff)
  then have n1: "(1 :: rat) \<le> of_int n" by simp
  have ge: "2 powi ?e \<le> y" using mult_right_mono [OF n1, of "2 powi ?e"] y by simp
  have "f64_round y = y"
  proof (cases "y < 2 powi (?k + 1)")
    case True
    have "\<not> ?k < flog2 y" using flog2_spec [OF pos(2)] True powi_mono [of "?k + 1" "flog2 y"] by linarith
    then have "f64_exp y \<le> ?e" using pos by (simp add: f64_exp_pos)
    then have "y = of_int (n * 2 ^ nat (?e - f64_exp y)) * 2 powi f64_exp y"
      using y powi_split [of "f64_exp y" ?e] by simp
    then show ?thesis by (rule f64_round_multiple)
  next
    case big: False
    have ek: "?e \<le> ?k + 1"
    proof (rule ccontr)
      assume "\<not> ?e \<le> ?k + 1"
      then have "(2 :: rat) powi (?k + 1 + 1) \<le> 2 powi ?e" by (intro powi_mono) simp
      then have "2 * 2 powi (?k + 1) \<le> (2 :: rat) powi ?e" using powi_Suc [of "?k + 1"] by simp
      then have "x / 2 powi ?e < 1 / 2"
        using flog2_spec [OF pos(1)] by (simp add: field_simps)
      then have "round_half_even (x / 2 powi ?e) = 0" using pos by (intro round_half_evenI) auto
      then have "f64_round x = 0" by (simp add: f64_round_def)
      then show False using False by simp
    qed
    then have "y \<le> 2 powi (?k + 1)"
      unfolding y_def using flog2_spec [OF pos(1)] pos by (intro f64_round_le_powi) auto
    then have y2: "y = 2 powi (?k + 1)" using big by simp
    then have "flog2 y = ?k + 1"
      using powi_Suc [of "?k + 1"] powi_pos [of "?k + 1"] by (intro flog2I) linarith+
    then have "f64_exp y \<le> ?k + 1" using ek pos by (simp add: f64_exp_pos)
    from powi_split [OF this] have "y = of_int (2 ^ nat (?k + 1 - f64_exp y)) * 2 powi f64_exp y"
      using y2 by (rule trans [rotated])
    then show ?thesis by (rule f64_round_multiple)
  qed
  then show ?thesis by (simp add: y_def)
qed auto

lemma f64_round_nat [simp]:
  assumes "n < 2 ^ 53"
  shows "f64_round (of_nat n) = of_nat n"
proof (cases "n = 0")
  case False
  then have pos: "(0 :: rat) < of_nat n" by simp
  have "flog2 (of_nat n) < 53"
  proof (rule ccontr)
    assume "\<not> flog2 (of_nat n) < 53"
    then have "(2 :: rat) powi 53 \<le> 2 powi flog2 (of_nat n)" by (intro powi_mono) simp
    then have "(2 :: rat) ^ 53 \<le> of_nat n" using flog2_spec [OF pos] by simp
    then have "of_nat (2 ^ 53) \<le> (of_nat n :: rat)" by simp
    then show False using assms by (simp only: of_nat_le_iff)
  qed
  then have "f64_exp (of_nat n) \<le> 0" using pos by (simp add: f64_exp_pos)
  then obtain k where k: "f64_exp (of_nat n) = - int k" by (metis nonpos_int_cases)
  have "(of_nat n :: rat) = of_int (int n * 2 ^ k) * 2 powi f64_exp (of_nat n)"
    by (simp add: k power_int_minus field_simps)
  then show ?thesis by (rule f64_round_multiple)
qed simp

lemma f64_of_nat_exact [simp]: "n < 2 ^ 53 \<Longrightarrow> f64_of_nat n = of_nat n"
  by (simp add: f64_of_nat_def)

lemma f64_mul_nonneg: "0 \<le> x \<Longrightarrow> 0 \<le> y \<Longrightarrow> 0 \<le> f64_mul x y"
  by (simp add: f64_mul_def f64_round_nonneg)

lemma f64_add_nonneg: "0 \<le> x \<Longrightarrow> 0 \<le> y \<Longrightarrow> 0 \<le> f64_add x y"
  by (simp add: f64_add_def f64_round_nonneg)

section \<open>Signs and the grid of doubles\<close>

definition is_f64 :: "rat \<Rightarrow> bool" where
  "is_f64 x \<longleftrightarrow> f64_round x = x"

lemma round_half_even_minus: "round_half_even (- x) = - round_half_even x"
proof (cases "x = of_int \<lfloor>x\<rfloor>")
  case True
  then show ?thesis by (metis of_int_minus round_half_even_int)
next
  case False
  then have f: "\<lfloor>- x\<rfloor> = - \<lfloor>x\<rfloor> - 1" by (simp add: floor_minus ceiling_altdef)
  show ?thesis by (auto simp: round_half_even_def f Let_def)
qed

lemma f64_round_minus: "f64_round (- x) = - f64_round x"
  by (simp add: f64_round_def f64_exp_def round_half_even_minus)

lemma f64_round_abs: "f64_round \<bar>x\<bar> = \<bar>f64_round x\<bar>"
  using f64_round_nonneg [of x] f64_round_nonneg [of "- x"] f64_round_minus [of x] by (cases "0 \<le> x") auto

lemma f64_round_le:
  assumes "x \<le> y"
  shows "f64_round x \<le> f64_round y"
proof (cases "0 \<le> x")
  case True
  then show ?thesis using assms by (rule f64_round_mono)
next
  case neg: False
  show ?thesis
  proof (cases "0 \<le> y")
    case True
    then show ?thesis using neg f64_round_nonneg [of y] f64_round_nonneg [of "- x"] f64_round_minus [of x] by simp
  next
    case False
    then show ?thesis using f64_round_mono [of "- y" "- x"] assms by (simp add: f64_round_minus)
  qed
qed

text \<open>A multiple of a power of two with at most 53 significant bits is a double.\<close>

lemma is_f64_grid_pos:
  assumes "0 < n" "n < 2 ^ 53" "- 1074 \<le> e"
  shows "is_f64 (of_int n * 2 powi e)"
proof -
  let ?x = "of_int n * 2 powi e :: rat"
  have pos: "0 < ?x" using assms(1) by simp
  have "(of_int n :: rat) < of_int (2 ^ 53)" using assms(2) by (simp only: of_int_less_iff)
  then have "?x < of_int (2 ^ 53) * 2 powi e" by (intro mult_strict_right_mono) auto
  also have "\<dots> = 2 powi (e + 53)" using powi_split [of e "e + 53"] by simp
  finally have lt: "?x < 2 powi (e + 53)" .
  have "flog2 ?x < e + 53"
    using flog2_spec [OF pos] lt powi_mono [of "e + 53" "flog2 ?x"] by linarith
  then have le: "f64_exp ?x \<le> e" using assms(3) f64_exp_pos [OF pos] by simp
  have "?x = of_int (n * 2 ^ nat (e - f64_exp ?x)) * 2 powi f64_exp ?x"
    using powi_split [OF le] by simp
  then show ?thesis unfolding is_f64_def by (rule f64_round_multiple)
qed

lemma is_f64_minus: "is_f64 (- x) \<longleftrightarrow> is_f64 x"
  by (simp add: is_f64_def f64_round_minus)

lemma is_f64_grid:
  assumes "\<bar>n\<bar> < 2 ^ 53" "- 1074 \<le> e"
  shows "is_f64 (of_int n * 2 powi e)"
proof -
  consider "n = 0" | "0 < n" | "0 < - n" by linarith
  then show ?thesis
  proof cases
    case 3
    then have "is_f64 (of_int (- n) * 2 powi e)" using assms by (intro is_f64_grid_pos) auto
    then show ?thesis using is_f64_minus by fastforce
  qed (use assms is_f64_grid_pos in \<open>auto simp: is_f64_def\<close>)
qed

lemma is_f64_round: "is_f64 (f64_round x)"
  using f64_round_idem [of x] f64_round_idem [of "- x"] f64_round_minus [of x] f64_round_minus [of "f64_round x"]
  by (cases "0 \<le> x") (auto simp: is_f64_def)

lemma is_f64_int: "\<bar>n\<bar> < 2 ^ 53 \<Longrightarrow> is_f64 (of_int n)"
  using is_f64_grid [of n 0] by simp

lemma is_f64_0 [simp]: "is_f64 0" and is_f64_1 [simp]: "is_f64 1" and is_f64_half [simp]: "is_f64 (1 / 2)"
  using is_f64_int [of 0] is_f64_int [of 1] is_f64_grid [of 1 "- 1"] by (simp_all add: power_int_minus)

lemma f64_round_bounds:
  assumes "is_f64 a" "is_f64 b" "a \<le> x" "x \<le> b"
  shows "a \<le> f64_round x" "f64_round x \<le> b"
  using f64_round_le [OF assms(3)] f64_round_le [OF assms(4)] assms(1,2) by (simp_all add: is_f64_def)

text \<open>A double of at least \<open>2 ^ k\<close> is a multiple of the unit in the last place there.\<close>

lemma is_f64_multiple:
  assumes "is_f64 x" "2 powi k \<le> x" "- 1022 \<le> k"
  obtains n where "x = of_int n * 2 powi (k - 52)"
proof -
  have pos: "0 < x" using assms(2) powi_pos [of k] by linarith
  have "k \<le> flog2 x"
    using flog2_spec [OF pos] assms(2) powi_mono [of "flog2 x + 1" k] by linarith
  then have le: "k - 52 \<le> f64_exp x" using assms(3) f64_exp_pos [OF pos] by simp
  have "x = of_int (round_half_even (x / 2 powi f64_exp x)) * 2 powi f64_exp x"
    using assms(1) pos by (simp add: is_f64_def f64_round_def)
  then have "x = of_int (round_half_even (x / 2 powi f64_exp x) * 2 ^ nat (f64_exp x - (k - 52))) * 2 powi (k - 52)"
    using powi_split [OF le] by simp
  then show ?thesis by (rule that)
qed

text \<open>Sterbenz for the distance to one: \<open>1 - x\<close> is exact above a half.\<close>

lemma one_minus_exact:
  assumes "is_f64 x" "1 / 2 \<le> x" "x \<le> 1"
  shows "f64_round (1 - x) = 1 - x"
proof -
  have half: "(2 :: rat) powi (- 1) = 1 / 2" by (simp add: power_int_minus)
  obtain n where n: "x = of_int n * 2 powi (- 53)"
    by (rule is_f64_multiple [of x "- 1"]) (use assms half in auto)
  have unit: "(1 :: rat) = of_int (2 ^ 53) * 2 powi (- 53)" by (simp add: power_int_minus)
  have x: "1 - x = of_int (2 ^ 53 - n) * 2 powi (- 53)"
    unfolding of_int_diff left_diff_distrib using n unit by simp
  have "of_int (2 ^ 52) * 2 powi (- 53) \<le> of_int n * (2 :: rat) powi (- 53)"
    using assms(2) n by (simp add: power_int_minus)
  then have "2 ^ 52 \<le> n" using powi_pos [of "- 53"] by (simp only: mult_le_cancel_right_pos of_int_le_iff)
  moreover have "of_int n * (2 :: rat) powi (- 53) \<le> of_int (2 ^ 53) * 2 powi (- 53)"
    using assms(3) n unit by simp
  then have "n \<le> 2 ^ 53" using powi_pos [of "- 53"] by (simp only: mult_le_cancel_right_pos of_int_le_iff)
  ultimately have "is_f64 (1 - x)" unfolding x by (intro is_f64_grid) auto
  then show ?thesis by (simp add: is_f64_def)
qed

text \<open>Every double is a multiple of the smallest one, so that a difference of two is too.\<close>

definition tiny :: rat where
  "tiny = 2 powi (- 1074)"

lemma is_f64_tiny_multiple:
  assumes "is_f64 x"
  obtains n where "x = of_int n * tiny"
proof -
  have le: "- 1074 \<le> f64_exp x" by (simp add: f64_exp_def)
  have "\<exists>m. x = of_int m * 2 powi f64_exp x"
    using assms by (cases "x = 0") (auto simp: is_f64_def f64_round_def intro: sym)
  then obtain m where "x = of_int m * 2 powi f64_exp x" by blast
  then have "x = of_int (m * 2 ^ nat (f64_exp x - - 1074)) * 2 powi (- 1074)" using powi_split [OF le] by simp
  then show ?thesis unfolding tiny_def [symmetric] by (rule that)
qed

lemma f64_diff_tiny_multiple:
  assumes "is_f64 x" "is_f64 y"
  obtains n where "x - y = of_int n * tiny"
proof -
  obtain n m where "x = of_int n * tiny" "y = of_int m * tiny"
    using is_f64_tiny_multiple [OF assms(1)] is_f64_tiny_multiple [OF assms(2)] by metis
  then have "x - y = of_int (n - m) * tiny" by (simp add: left_diff_distrib)
  then show ?thesis by (rule that)
qed

lemma f64_sub_eq_0:
  assumes "is_f64 x" "is_f64 y" "f64_sub x y = 0"
  shows "x = y"
proof (rule ccontr)
  assume "x \<noteq> y"
  obtain n where n: "x - y = of_int n * tiny" using f64_diff_tiny_multiple [OF assms(1,2)] .
  have t: "0 < tiny" by (simp add: tiny_def)
  have "n \<noteq> 0" using n \<open>x \<noteq> y\<close> by auto
  then have "(1 :: rat) \<le> of_int \<bar>n\<bar>" by (simp only: of_int_1_le_iff)
  from mult_right_mono [OF this, of tiny] t have "tiny \<le> \<bar>x - y\<bar>" by (simp add: n abs_mult)
  moreover have "is_f64 tiny" using is_f64_grid [of 1 "- 1074"] by (simp add: tiny_def)
  ultimately have "tiny \<le> \<bar>f64_sub x y\<bar>"
    using f64_round_le [of tiny "\<bar>x - y\<bar>"] by (simp add: is_f64_def f64_round_abs f64_sub_def)
  then show False using assms(3) t by simp
qed

text \<open>Doubling commutes with rounding on differences of doubles.\<close>

lemma f64_round_double_pos:
  assumes "0 < z" "z = of_int n * tiny"
  shows "f64_round (2 * z) = 2 * f64_round z"
proof -
  have fl: "flog2 (2 * z) = flog2 z + 1"
    using flog2_spec [OF assms(1)] powi_Suc [of "flog2 z"] powi_Suc [of "flog2 z + 1"] by (intro flog2I) linarith+
  show ?thesis
  proof (cases "- 1074 \<le> flog2 z - 52")
    case True
    then have "f64_exp (2 * z) = f64_exp z + 1" using assms(1) by (simp add: f64_exp_pos fl)
    then show ?thesis using assms(1) powi_Suc [of "f64_exp z"] by (simp add: f64_round_def)
  next
    case False
    then have e: "f64_exp z = - 1074" "f64_exp (2 * z) = - 1074" using assms(1) by (simp_all add: f64_exp_pos fl)
    have "z = of_int n * 2 powi f64_exp z" unfolding e tiny_def [symmetric] by (rule assms(2))
    moreover have "2 * z = of_int (2 * n) * 2 powi f64_exp (2 * z)"
      unfolding e tiny_def [symmetric] using assms(2) by simp
    ultimately show ?thesis using f64_round_multiple by metis
  qed
qed

lemma f64_mul_2:
  assumes "is_f64 x" "is_f64 y" "y \<le> x"
  shows "f64_mul 2 (f64_round (x - y)) = f64_round (2 * (x - y))"
proof (cases "x = y")
  case False
  obtain n where n: "x - y = of_int n * tiny" using f64_diff_tiny_multiple [OF assms(1,2)] .
  have "f64_round (2 * (x - y)) = 2 * f64_round (x - y)"
    using False assms(3) n by (intro f64_round_double_pos) auto
  then show ?thesis using is_f64_round [of "2 * (x - y)"] by (simp add: f64_mul_def is_f64_def)
qed (simp add: f64_mul_def)

end
