(* ===== verification/Sent_Packet_Tracker.thy ===== *)
theory Sent_Packet_Tracker
  imports F64
begin

text \<open>
  \<open>SentPacketTracker\<close> of \<open>transport/sent_packet_tracker.rs\<close>: the packets waiting for a receipt,
  the round-trip estimate of RFC 6298, retransmission timeouts with backoff and tail loss
  probes.  The payload is a byte list, the delivery token of BBR a type variable, time in nanoseconds
  an argument (\<open>get_resend\<close> reads the clock twice).  Sums of nanoseconds stay far below \<open>u64::MAX\<close> (584
  years) and are written without wrap-around.  The \<open>f64\<close> arithmetic of the estimator is that of \<open>F64\<close>.

  Shown: the invariant of reachable states (no pending packet is missing from the resend queue, the
  timeouts and the backoff stay within their limits, the loss estimate is a proportion); what a
  receipt acknowledges and that a retransmitted packet never feeds the estimator; when a packet is
  resent or probed; and that a probed packet at the head of the queue hides the packets behind it.
\<close>

definition NETWORK_DELAY_ALLOWANCE :: duration where
  "NETWORK_DELAY_ALLOWANCE = millis 500"

definition MAX_CONFIRMATION_DELAY :: duration where
  "MAX_CONFIRMATION_DELAY = millis 100"

definition MESSAGE_CONFIRMATION_TIMEOUT :: duration where
  "MESSAGE_CONFIRMATION_TIMEOUT = MAX_CONFIRMATION_DELAY + NETWORK_DELAY_ALLOWANCE"

definition MAX_RTO_BACKOFF :: nat where
  "MAX_RTO_BACKOFF = 512"

definition MIN_RTO :: duration where
  "MIN_RTO = millis 500"

definition MIN_TLP_TIMEOUT :: duration where
  "MIN_TLP_TIMEOUT = millis 10"

definition PACKET_LOSS_DECAY_FACTOR :: rat where
  "PACKET_LOSS_DECAY_FACTOR = f64_div 1 1000"

type_synonym 't pending_receipt = "byte list \<times> nanos \<times> 't option"

datatype resend_action = WaitUntil nanos | Resend nat "byte list" | TlpProbe nat "byte list"

record 't sent_tracker =
  pending_receipts :: "(nat, 't pending_receipt) hmap"
  resend_queue :: "nat list"
  packet_loss_proportion :: rat
  srtt :: "duration option"
  rttvar :: duration
  min_rtt :: duration
  rto :: duration
  retransmitted_packets :: "nat set"
  total_packets_sent :: nat
  rto_backoff :: nat
  tlp_sent_packets :: "nat set"

definition new_sent_tracker :: "'t sent_tracker" where
  "new_sent_tracker =
     \<lparr>pending_receipts = [], resend_queue = [], packet_loss_proportion = 0, srtt = None, rttvar = 0,
      min_rtt = millis 100, rto = secs 1, retransmitted_packets = {}, total_packets_sent = 0,
      rto_backoff = 1, tlp_sent_packets = {}\<rparr>"

definition probe_timeout :: "'t sent_tracker \<Rightarrow> duration option" where
  "probe_timeout s = map_option (\<lambda>r. max (r * 2) MIN_TLP_TIMEOUT) (srtt s)"

definition report_sent_packet_with_token ::
  "nat \<Rightarrow> byte list \<Rightarrow> 't option \<Rightarrow> nanos \<Rightarrow> 't sent_tracker \<Rightarrow> 't sent_tracker" where
  "report_sent_packet_with_token packet_id payload token now s =
     s\<lparr>pending_receipts := hm_put packet_id (payload, now, token) (pending_receipts s),
       resend_queue := resend_queue s @ [packet_id],
       total_packets_sent := total_packets_sent s + 1\<rparr>"

definition report_sent_packet :: "nat \<Rightarrow> byte list \<Rightarrow> nanos \<Rightarrow> 't sent_tracker \<Rightarrow> 't sent_tracker" where
  "report_sent_packet packet_id payload now s = report_sent_packet_with_token packet_id payload None now s"

definition update_rtt :: "duration \<Rightarrow> 't sent_tracker \<Rightarrow> 't sent_tracker" where
  "update_rtt sample s =
     (let alpha = f64_div 1 8; beta = f64_div 1 4; granularity = millis 10;
          s = (case srtt s of
                 None \<Rightarrow> s\<lparr>srtt := Some sample, rttvar := sample div 2, min_rtt := sample\<rparr>
               | Some old \<Rightarrow>
                   let abs_diff = (if old < sample then sample - old else old - sample)
                   in s\<lparr>rttvar := mul_f64 (rttvar s) (f64_sub 1 beta) + mul_f64 abs_diff beta,
                        srtt := Some (mul_f64 old (f64_sub 1 alpha) + mul_f64 sample alpha),
                        min_rtt := min (min_rtt s) sample\<rparr>);
          rto_variance = rttvar s * 4;
          max_variance = (if granularity < rto_variance then rto_variance else granularity);
          rto' = (case srtt s of None \<Rightarrow> secs 1 | Some r \<Rightarrow> r) + max_variance
      in s\<lparr>rto := (if rto' < MIN_RTO then MIN_RTO else if secs 60 < rto' then secs 60 else rto')\<rparr>)"

definition effective_rto :: "'t sent_tracker \<Rightarrow> duration" where
  "effective_rto s = min (rto s * rto_backoff s) (secs 60)"

definition on_timeout :: "'t sent_tracker \<Rightarrow> 't sent_tracker" where
  "on_timeout s = s\<lparr>rto_backoff := min (min (rto_backoff s * 2) u32_max) MAX_RTO_BACKOFF\<rparr>"

definition mark_retransmitted :: "nat \<Rightarrow> 't sent_tracker \<Rightarrow> 't sent_tracker" where
  "mark_retransmitted packet_id s = s\<lparr>retransmitted_packets := insert packet_id (retransmitted_packets s)\<rparr>"

definition decayed :: "rat \<Rightarrow> rat" where
  "decayed p = f64_mul p (f64_sub 1 PACKET_LOSS_DECAY_FACTOR)"

text \<open>The body of the loop over the receipts: the acknowledgement it reports, and the new state.\<close>

definition receive_receipt ::
  "nanos \<Rightarrow> nat \<Rightarrow> 't sent_tracker \<Rightarrow> (duration option \<times> nat \<times> 't option) list \<times> 't sent_tracker" where
  "receive_receipt now packet_id s =
     (let s = s\<lparr>packet_loss_proportion :=
                  f64_add (decayed (packet_loss_proportion s)) (f64_mul PACKET_LOSS_DECAY_FACTOR 0)\<rparr>;
          is_retransmitted = packet_id \<in> retransmitted_packets s;
          (ack, s) = (case hm_get (pending_receipts s) packet_id of
              None \<Rightarrow> ([], s)
            | Some (payload, sent_time, token) \<Rightarrow>
                if is_retransmitted then ([(None, length payload, token)], s\<lparr>rto_backoff := 1\<rparr>)
                else let rtt_sample = now - sent_time
                     in ([(Some rtt_sample, length payload, token)], (update_rtt rtt_sample s)\<lparr>rto_backoff := 1\<rparr>))
      in (ack, s\<lparr>pending_receipts := hm_del packet_id (pending_receipts s),
                 retransmitted_packets := retransmitted_packets s - {packet_id},
                 tlp_sent_packets := tlp_sent_packets s - {packet_id}\<rparr>))"

fun receive_receipts ::
  "nanos \<Rightarrow> nat list \<Rightarrow> 't sent_tracker \<Rightarrow> (duration option \<times> nat \<times> 't option) list \<times> 't sent_tracker" where
  "receive_receipts now [] s = ([], s)"
| "receive_receipts now (packet_id # packet_ids) s =
     (let (ack, s) = receive_receipt now packet_id s;
          (acks, s) = receive_receipts now packet_ids s
      in (ack @ acks, s))"

definition report_received_receipts ::
  "nat list \<Rightarrow> nanos \<Rightarrow> 't sent_tracker \<Rightarrow>
   ((duration option \<times> nat \<times> 't option) list \<times> rat option) \<times> 't sent_tracker" where
  "report_received_receipts packet_ids now s =
     (let (ack_info, s) = receive_receipts now packet_ids s;
          loss_rate = (if 0 < total_packets_sent s then Some (packet_loss_proportion s) else None)
      in ((ack_info, loss_rate), s))"

text \<open>
  The loop of \<open>get_resend\<close> over the queue; \<open>effective_rto_nanos\<close> and the probe timeout are read before
  it, \<open>now'\<close> is the clock at the end of an empty queue.
\<close>

fun get_resend_loop ::
  "nanos \<Rightarrow> nanos \<Rightarrow> duration option \<Rightarrow> duration \<Rightarrow> nat list \<Rightarrow> 't sent_tracker \<Rightarrow>
   resend_action \<times> 't sent_tracker" where
  "get_resend_loop now now' pto effective_rto_nanos [] s =
     (WaitUntil (now' + effective_rto s), s\<lparr>resend_queue := []\<rparr>)"
| "get_resend_loop now now' pto effective_rto_nanos (packet_id # queue) s =
     (case hm_get (pending_receipts s) packet_id of
        None \<Rightarrow> get_resend_loop now now' pto effective_rto_nanos queue s
      | Some (packet, sent_time, token) \<Rightarrow>
          let rto_deadline = sent_time + effective_rto_nanos;
              tlp_deadline = (case pto of
                  Some pto \<Rightarrow> if packet_id \<in> tlp_sent_packets s then None else Some (sent_time + pto)
                | None \<Rightarrow> None)
          in if (case tlp_deadline of Some tlp_at \<Rightarrow> tlp_at \<le> now \<and> now < rto_deadline | None \<Rightarrow> False)
             then (TlpProbe packet_id packet,
                   mark_retransmitted packet_id
                     (s\<lparr>tlp_sent_packets := insert packet_id (tlp_sent_packets s),
                        resend_queue := packet_id # queue\<rparr>))
             else if rto_deadline \<le> now
             then (Resend packet_id packet,
                   (on_timeout (mark_retransmitted packet_id
                      (s\<lparr>pending_receipts := hm_del packet_id (pending_receipts s), resend_queue := queue,
                         packet_loss_proportion := f64_add (decayed (packet_loss_proportion s)) PACKET_LOSS_DECAY_FACTOR\<rparr>)))
                   \<lparr>tlp_sent_packets := tlp_sent_packets s - {packet_id}\<rparr>)
             else (WaitUntil (case tlp_deadline of Some tlp_at \<Rightarrow> min tlp_at rto_deadline | None \<Rightarrow> rto_deadline),
                   s\<lparr>resend_queue := packet_id # queue\<rparr>))"

definition get_resend :: "nanos \<Rightarrow> nanos \<Rightarrow> 't sent_tracker \<Rightarrow> resend_action \<times> 't sent_tracker" where
  "get_resend now now' s =
     get_resend_loop now now' (probe_timeout s) (effective_rto s) (resend_queue s) s"

datatype 't sent_event =
    SentPacket nat "byte list" "'t option" nanos
  | Receipts "nat list" nanos
  | GetResend nanos nanos

fun sent_step :: "'t sent_tracker \<Rightarrow> 't sent_event \<Rightarrow> 't sent_tracker" where
  "sent_step s (SentPacket packet_id payload token now) = report_sent_packet_with_token packet_id payload token now s"
| "sent_step s (Receipts packet_ids now) = snd (report_received_receipts packet_ids now s)"
| "sent_step s (GetResend now now') = snd (get_resend now now' s)"

definition sent_inv :: "'t sent_tracker \<Rightarrow> bool" where
  "sent_inv s \<longleftrightarrow>
     hm_wf (pending_receipts s) \<and> set (hm_keys (pending_receipts s)) \<subseteq> set (resend_queue s) \<and>
     MIN_RTO \<le> rto s \<and> rto s \<le> secs 60 \<and> 1 \<le> rto_backoff s \<and> rto_backoff s \<le> MAX_RTO_BACKOFF \<and>
     0 \<le> packet_loss_proportion s \<and> packet_loss_proportion s \<le> 1"

lemmas sent_time_defs = MIN_RTO_def MIN_TLP_TIMEOUT_def MAX_RTO_BACKOFF_def millis_def secs_def

section \<open>The loss estimate\<close>

lemma decay_factor: "PACKET_LOSS_DECAY_FACTOR = 1152921504606847 / 1152921504606846976"
proof -
  have "f64_round (1 / 1000) = of_int 4611686018427388 * 2 powi (- 10 - 52)"
    by (rule f64_round_eqI) (simp_all add: power_int_def power_one_over)
  then show ?thesis
    by (simp add: PACKET_LOSS_DECAY_FACTOR_def f64_div_def power_int_def power_one_over)
qed

lemma decay_complement: "f64_sub 1 PACKET_LOSS_DECAY_FACTOR = 8998192055486251 / 9007199254740992"
proof -
  have "f64_round (1 - 1152921504606847 / 1152921504606846976) = of_int 8998192055486251 * 2 powi (- 1 - 52)"
    by (rule f64_round_eqI) (simp_all add: power_int_def power_one_over)
  then show ?thesis
    by (simp add: f64_sub_def decay_factor power_int_def power_one_over)
qed

lemma loss_factors:
  "0 \<le> PACKET_LOSS_DECAY_FACTOR" "0 \<le> f64_sub 1 PACKET_LOSS_DECAY_FACTOR" "f64_sub 1 PACKET_LOSS_DECAY_FACTOR \<le> 1"
  "f64_round (f64_sub 1 PACKET_LOSS_DECAY_FACTOR) = f64_sub 1 PACKET_LOSS_DECAY_FACTOR"
  "f64_round (f64_sub 1 PACKET_LOSS_DECAY_FACTOR + PACKET_LOSS_DECAY_FACTOR) = 1"
proof -
  show "0 \<le> PACKET_LOSS_DECAY_FACTOR" "0 \<le> f64_sub 1 PACKET_LOSS_DECAY_FACTOR" "f64_sub 1 PACKET_LOSS_DECAY_FACTOR \<le> 1"
    by (simp_all add: decay_factor decay_complement [unfolded decay_factor])
  have "f64_round (8998192055486251 / 9007199254740992) = of_int 8998192055486251 * 2 powi (- 1 - 52)"
    by (rule f64_round_eqI) (simp_all add: power_int_def power_one_over)
  then show "f64_round (f64_sub 1 PACKET_LOSS_DECAY_FACTOR) = f64_sub 1 PACKET_LOSS_DECAY_FACTOR"
    unfolding decay_complement by (simp add: power_int_def power_one_over)
  have "f64_round (8998192055486251 / 9007199254740992 + 1152921504606847 / 1152921504606846976) =
      of_int 9007199254740992 * 2 powi (- 1 - 52)"
    by (rule f64_round_eqI) (simp_all add: power_int_def power_one_over)
  then show "f64_round (f64_sub 1 PACKET_LOSS_DECAY_FACTOR + PACKET_LOSS_DECAY_FACTOR) = 1"
    unfolding decay_complement unfolding decay_factor by (simp add: power_int_def power_one_over)
qed

lemma decayed_bounds:
  assumes "0 \<le> p" "p \<le> 1"
  shows "0 \<le> decayed p" "decayed p \<le> f64_sub 1 PACKET_LOSS_DECAY_FACTOR"
proof -
  let ?c = "f64_sub 1 PACKET_LOSS_DECAY_FACTOR"
  show "0 \<le> decayed p" using assms loss_factors(2) by (simp add: decayed_def f64_mul_nonneg)
  have "p * ?c \<le> ?c" using assms loss_factors(2) by (simp add: mult_left_le_one_le)
  then have "f64_round (p * ?c) \<le> f64_round ?c"
    using assms loss_factors(2) by (intro f64_round_mono) auto
  then show "decayed p \<le> ?c" by (simp add: decayed_def f64_mul_def loss_factors(4))
qed

lemma loss_bounds:
  assumes "0 \<le> p" "p \<le> 1"
  shows "0 \<le> f64_add (decayed p) PACKET_LOSS_DECAY_FACTOR" "f64_add (decayed p) PACKET_LOSS_DECAY_FACTOR \<le> 1"
    "0 \<le> f64_add (decayed p) (f64_mul PACKET_LOSS_DECAY_FACTOR 0)"
    "f64_add (decayed p) (f64_mul PACKET_LOSS_DECAY_FACTOR 0) \<le> 1"
proof -
  let ?c = "f64_sub 1 PACKET_LOSS_DECAY_FACTOR"
  note d = decayed_bounds [OF assms] and F = loss_factors
  show "0 \<le> f64_add (decayed p) PACKET_LOSS_DECAY_FACTOR" using d F by (simp add: f64_add_nonneg)
  have "f64_round (decayed p + PACKET_LOSS_DECAY_FACTOR) \<le> f64_round (?c + PACKET_LOSS_DECAY_FACTOR)"
    using d F by (intro f64_round_mono) auto
  then show "f64_add (decayed p) PACKET_LOSS_DECAY_FACTOR \<le> 1" by (simp add: f64_add_def F(5))
  have z: "f64_add (decayed p) (f64_mul PACKET_LOSS_DECAY_FACTOR 0) = f64_round (decayed p)"
    by (simp add: f64_add_def f64_mul_def)
  show "0 \<le> f64_add (decayed p) (f64_mul PACKET_LOSS_DECAY_FACTOR 0)"
    unfolding z using d(1) by (rule f64_round_nonneg)
  have "f64_round (decayed p) \<le> f64_round ?c" using d by (intro f64_round_mono) auto
  then show "f64_add (decayed p) (f64_mul PACKET_LOSS_DECAY_FACTOR 0) \<le> 1"
    unfolding z using F(3,4) by simp
qed

section \<open>The invariant\<close>

lemma update_rtt_frame [simp]:
  "pending_receipts (update_rtt d s) = pending_receipts s" "resend_queue (update_rtt d s) = resend_queue s"
  "packet_loss_proportion (update_rtt d s) = packet_loss_proportion s"
  "retransmitted_packets (update_rtt d s) = retransmitted_packets s"
  "tlp_sent_packets (update_rtt d s) = tlp_sent_packets s"
  "total_packets_sent (update_rtt d s) = total_packets_sent s"
  by (cases "srtt s"; simp add: update_rtt_def Let_def)+

lemma update_rtt_bounds: "MIN_RTO \<le> rto (update_rtt d s)" "rto (update_rtt d s) \<le> secs 60"
proof -
  have "MIN_RTO \<le> secs 60" by (simp add: sent_time_defs)
  then show "MIN_RTO \<le> rto (update_rtt d s)" "rto (update_rtt d s) \<le> secs 60"
    by (auto simp: update_rtt_def Let_def)
qed

lemma sent_invI:
  assumes "hm_wf (pending_receipts s)" "set (hm_keys (pending_receipts s)) \<subseteq> set (resend_queue s)"
    "MIN_RTO \<le> rto s" "rto s \<le> secs 60" "1 \<le> rto_backoff s" "rto_backoff s \<le> MAX_RTO_BACKOFF"
    "0 \<le> packet_loss_proportion s" "packet_loss_proportion s \<le> 1"
  shows "sent_inv s"
  using assms by (simp add: sent_inv_def)

lemma sent_invD:
  assumes "sent_inv s"
  shows "hm_wf (pending_receipts s)" "set (hm_keys (pending_receipts s)) \<subseteq> set (resend_queue s)"
    "MIN_RTO \<le> rto s" "rto s \<le> secs 60" "1 \<le> rto_backoff s" "rto_backoff s \<le> MAX_RTO_BACKOFF"
    "0 \<le> packet_loss_proportion s" "packet_loss_proportion s \<le> 1"
  using assms by (simp_all add: sent_inv_def)

lemma report_sent_inv: "sent_inv s \<Longrightarrow> sent_inv (report_sent_packet_with_token i p t now s)"
  by (auto simp: sent_inv_def report_sent_packet_with_token_def dom_update)

lemma receive_receipt_pending [simp]:
  "pending_receipts (snd (receive_receipt now i s)) = hm_del i (pending_receipts s)"
  "resend_queue (snd (receive_receipt now i s)) = resend_queue s"
  "retransmitted_packets (snd (receive_receipt now i s)) = retransmitted_packets s - {i}"
  "tlp_sent_packets (snd (receive_receipt now i s)) = tlp_sent_packets s - {i}"
  "total_packets_sent (snd (receive_receipt now i s)) = total_packets_sent s"
  by (auto simp: receive_receipt_def Let_def split: option.splits prod.splits)

lemma receive_receipt_inv:
  assumes inv: "sent_inv s"
  shows "sent_inv (snd (receive_receipt now i s))"
proof (rule sent_invI)
  note I = sent_invD [OF inv]
  let ?s = "snd (receive_receipt now i s)"
  show "hm_wf (pending_receipts ?s)" using I(1) by simp
  show "set (hm_keys (pending_receipts ?s)) \<subseteq> set (resend_queue ?s)"
    using I(2) hm_keys_del [of i "pending_receipts s"] by auto
  show "MIN_RTO \<le> rto ?s" "rto ?s \<le> secs 60" "1 \<le> rto_backoff ?s" "rto_backoff ?s \<le> MAX_RTO_BACKOFF"
    using I(3-6) update_rtt_bounds
    by (auto simp: receive_receipt_def Let_def MAX_RTO_BACKOFF_def split: option.splits prod.splits)
  show "0 \<le> packet_loss_proportion ?s" "packet_loss_proportion ?s \<le> 1"
    using loss_bounds(3,4) [OF I(7,8)]
    by (auto simp: receive_receipt_def Let_def split: option.splits prod.splits)
qed

lemma receive_receipts_Cons:
  "receive_receipts now (i # is) s =
     (fst (receive_receipt now i s) @ fst (receive_receipts now is (snd (receive_receipt now i s))),
      snd (receive_receipts now is (snd (receive_receipt now i s))))"
  by (simp add: Let_def case_prod_beta)

declare receive_receipts.simps(2) [simp del]

lemma receive_receipts_inv: "sent_inv s \<Longrightarrow> sent_inv (snd (receive_receipts now is s))"
  by (induction "is" arbitrary: s) (simp_all add: receive_receipts_Cons receive_receipt_inv)

lemma get_resend_loop_inv:
  assumes "sent_inv s" "set (hm_keys (pending_receipts s)) \<subseteq> set q"
  shows "sent_inv (snd (get_resend_loop now now' pto er q s))"
  using assms
proof (induction q)
  case Nil
  then show ?case by (auto simp: sent_inv_def)
next
  case (Cons i q)
  note I = sent_invD [OF Cons.prems(1)]
  show ?case
  proof (cases "hm_get (pending_receipts s) i")
    case None
    then have "set (hm_keys (pending_receipts s)) \<subseteq> set q"
      using Cons.prems(2) by (auto simp: map_of_eq_None_iff)
    then show ?thesis using Cons None by simp
  next
    case (Some e)
    obtain packet sent tok where e: "e = (packet, sent, tok)" by (cases e)
    have keep: "sent_inv (s\<lparr>resend_queue := i # q\<rparr>)"
      "sent_inv (mark_retransmitted i (s\<lparr>tlp_sent_packets := T, resend_queue := i # q\<rparr>))" for T
      using Cons.prems by (auto simp: sent_inv_def mark_retransmitted_def)
    have "set (hm_keys (hm_del i (pending_receipts s))) \<subseteq> set q"
      using Cons.prems(2) hm_keys_del [of i "pending_receipts s"] by auto
    then have drop: "sent_inv ((on_timeout (mark_retransmitted i
        (s\<lparr>pending_receipts := hm_del i (pending_receipts s), resend_queue := q,
           packet_loss_proportion := f64_add (decayed (packet_loss_proportion s)) PACKET_LOSS_DECAY_FACTOR\<rparr>)))
        \<lparr>tlp_sent_packets := T\<rparr>)" for T
      using I loss_bounds(1,2) [OF I(7,8)]
      by (auto simp: sent_inv_def on_timeout_def mark_retransmitted_def MAX_RTO_BACKOFF_def u32_max_def)
    show ?thesis using keep drop by (simp add: Some e Let_def)
  qed
qed

lemma sent_step_inv: "sent_inv s \<Longrightarrow> sent_inv (sent_step s e)"
  using get_resend_loop_inv [OF _ sent_invD(2)]
  by (cases e) (auto simp: report_sent_inv report_received_receipts_def get_resend_def Let_def
      receive_receipts_inv case_prod_beta)

lemma new_sent_tracker_inv: "sent_inv new_sent_tracker"
  by (simp add: sent_inv_def new_sent_tracker_def sent_time_defs)

interpretation st: started_machine sent_step sent_inv new_sent_tracker
  by unfold_locales (rule sent_step_inv, assumption, rule new_sent_tracker_inv)

text \<open>
  C11: In every reachable state each packet without a receipt still has an entry in the resend
  queue, so none is forgotten; the effective timeout lies between 500 ms and 60 s; the backoff
  between 1 and 512; and the loss estimate between 0 and 1.
\<close>

theorem sent_tracker_sound:
  fixes es :: "'t sent_event list"
  defines "s \<equiv> foldl sent_step new_sent_tracker es"
  shows "set (hm_keys (pending_receipts s)) \<subseteq> set (resend_queue s) \<and> MIN_RTO \<le> effective_rto s \<and> effective_rto s \<le> secs 60 \<and>
         1 \<le> rto_backoff s \<and> rto_backoff s \<le> MAX_RTO_BACKOFF \<and>
         0 \<le> packet_loss_proportion s \<and> packet_loss_proportion s \<le> 1"
proof -
  note I = sent_invD [OF st.reachable_inv [of es, folded s_def]]
  have "MIN_RTO \<le> rto s * rto_backoff s"
    using I(3,5) mult_le_mono [of MIN_RTO "rto s" 1 "rto_backoff s"] by simp
  moreover have "MIN_RTO \<le> secs 60" by (simp add: sent_time_defs)
  ultimately show ?thesis using I by (auto simp: effective_rto_def)
qed

section \<open>Receipts\<close>

lemma receive_receipts_pending:
  "hm_get (pending_receipts (snd (receive_receipts now is s))) i =
     (if i \<in> set is then None else hm_get (pending_receipts s) i)"
  by (induction "is" arbitrary: s) (auto simp: receive_receipts_Cons hm_simps)

lemma receive_receipt_ack:
  "fst (receive_receipt now i s) =
     (case hm_get (pending_receipts s) i of None \<Rightarrow> []
      | Some (p, t, k) \<Rightarrow> [(if i \<in> retransmitted_packets s then None else Some (now - t), length p, k)])"
  by (auto simp: receive_receipt_def Let_def split: option.splits prod.splits)

lemma receive_receipts_ack:
  "distinct is \<Longrightarrow> fst (receive_receipts now is s) = concat (map (\<lambda>i. fst (receive_receipt now i s)) is)"
proof (induction "is" arbitrary: s)
  case (Cons i "is")
  have "fst (receive_receipt now j (snd (receive_receipt now i s))) = fst (receive_receipt now j s)"
    if "j \<in> set is" for j
  proof -
    have "j \<noteq> i" using that Cons.prems by auto
    then show ?thesis by (simp add: receive_receipt_ack hm_simps split: option.split)
  qed
  then show ?case using Cons by (simp add: receive_receipts_Cons cong: map_cong)
qed simp

text \<open>
  C34: Receipts acknowledge exactly the pending packets they name, once each, in their order, with
  the size that was sent and a round-trip sample only for packets that were never retransmitted;
  afterwards those packets, and no others, are no longer pending.
\<close>

theorem receipts_acknowledge:
  assumes "distinct is"
  shows "fst (fst (report_received_receipts is now s)) =
           concat (map (\<lambda>i. case hm_get (pending_receipts s) i of None \<Rightarrow> []
             | Some (p, t, k) \<Rightarrow> [(if i \<in> retransmitted_packets s then None else Some (now - t), length p, k)]) is) \<and>
         (\<forall>i. hm_get (pending_receipts (snd (report_received_receipts is now s))) i =
                (if i \<in> set is then None else hm_get (pending_receipts s) i))"
  using receive_receipts_ack [OF assms, of now s] receive_receipts_pending [of now "is" s]
  by (simp add: report_received_receipts_def Let_def case_prod_beta receive_receipt_ack)

theorem receipts_acknowledge_witness:
  "fst (fst (report_received_receipts [3, 4] 70 (report_sent_packet_with_token 3 [1, 2] (Some True) 50 new_sent_tracker))) =
     [(Some 20, 2, Some True)]"
  using receipts_acknowledge [of "[3, 4]" 70 "report_sent_packet_with_token 3 [1, 2] (Some True) 50 new_sent_tracker"]
  by (simp add: report_sent_packet_with_token_def new_sent_tracker_def)

text \<open>
  Karn's rule.  Receipts for retransmitted or probed packets leave the round-trip estimate
  and the base timeout as they are, and take back the backoff.
\<close>

theorem karn_rule:
  assumes "\<forall>i \<in> set is. hm_get (pending_receipts s) i \<noteq> None \<longrightarrow> i \<in> retransmitted_packets s"
  shows "let s' = snd (report_received_receipts is now s)
         in srtt s' = srtt s \<and> rttvar s' = rttvar s \<and> min_rtt s' = min_rtt s \<and> rto s' = rto s \<and>
            rto_backoff s' \<in> {1, rto_backoff s}"
proof -
  have "srtt (snd (receive_receipts now is s)) = srtt s \<and> rttvar (snd (receive_receipts now is s)) = rttvar s \<and>
      min_rtt (snd (receive_receipts now is s)) = min_rtt s \<and> rto (snd (receive_receipts now is s)) = rto s \<and>
      rto_backoff (snd (receive_receipts now is s)) \<in> {1, rto_backoff s}"
    using assms
  proof (induction "is" arbitrary: s)
    case (Cons i "is")
    let ?s = "snd (receive_receipt now i s)"
    have "srtt ?s = srtt s \<and> rttvar ?s = rttvar s \<and> min_rtt ?s = min_rtt s \<and> rto ?s = rto s \<and>
        rto_backoff ?s \<in> {1, rto_backoff s}"
      using Cons.prems by (auto simp: receive_receipt_def Let_def split: option.splits)
    moreover have "\<forall>j \<in> set is. hm_get (pending_receipts ?s) j \<noteq> None \<longrightarrow> j \<in> retransmitted_packets ?s"
      using Cons.prems by (auto simp: hm_simps)
    ultimately show ?case using Cons.IH [of ?s] by (auto simp: receive_receipts_Cons)
  qed simp
  then show ?thesis by (simp add: report_received_receipts_def Let_def case_prod_beta)
qed

theorem karn_rule_witness:
  "srtt (snd (report_received_receipts [3] 70
     (mark_retransmitted 3 (report_sent_packet_with_token 3 [1] (None :: nat option) 50 new_sent_tracker)))) = None"
proof -
  let ?s = "mark_retransmitted 3 (report_sent_packet_with_token 3 [1] (None :: nat option) 50 new_sent_tracker)"
  have "\<forall>i \<in> set [3]. hm_get (pending_receipts ?s) i \<noteq> None \<longrightarrow> i \<in> retransmitted_packets ?s"
    by (simp add: mark_retransmitted_def)
  from karn_rule [OF this, of 70] show ?thesis
    by (simp add: Let_def mark_retransmitted_def report_sent_packet_with_token_def new_sent_tracker_def)
qed

section \<open>Resending\<close>

lemma get_resend_loop_cases:
  assumes "get_resend_loop now now' pto er q s = (a, s')"
  shows "case a of
      Resend i p \<Rightarrow> (\<exists>t k. hm_get (pending_receipts s) i = Some (p, t, k) \<and> t + er \<le> now) \<and>
        pending_receipts s' = hm_del i (pending_receipts s) \<and> i \<in> retransmitted_packets s' \<and>
        rto_backoff s' = rto_backoff (on_timeout s)
    | TlpProbe i p \<Rightarrow> (\<exists>t k r. hm_get (pending_receipts s) i = Some (p, t, k) \<and> pto = Some r \<and>
          t + r \<le> now \<and> now < t + er) \<and> i \<notin> tlp_sent_packets s \<and>
        pending_receipts s' = pending_receipts s \<and> i \<in> tlp_sent_packets s' \<and> i \<in> retransmitted_packets s' \<and>
        rto_backoff s' = rto_backoff s
    | WaitUntil t \<Rightarrow> pending_receipts s' = pending_receipts s \<and> rto_backoff s' = rto_backoff s \<and>
        (now < t \<or> (\<forall>i \<in> set q. hm_get (pending_receipts s) i = None))"
  using assms
proof (induction q)
  case Nil
  then show ?case by auto
next
  case (Cons i q)
  show ?case
  proof (cases "hm_get (pending_receipts s) i")
    case None
    then show ?thesis using Cons by (auto split: resend_action.splits)
  next
    case (Some e)
    then show ?thesis
      using Cons.prems
      by (cases e) (auto simp: Let_def mark_retransmitted_def on_timeout_def not_le
          split: if_splits option.splits resend_action.splits)
  qed
qed

text \<open>
  When \<open>get_resend\<close> hands out a packet.  A retransmission only of a pending packet whose timeout
  has passed, which then leaves the pending set and doubles the backoff; a probe only of a pending
  packet not yet probed, after the probe timeout and before the retransmission timeout, without backoff;
  and while a packet of the queue is pending it waits only for a moment in the future.
\<close>

theorem resend_timing:
  assumes "get_resend now now' s = (a, s')"
  shows "case a of
      Resend i p \<Rightarrow> (\<exists>t k. hm_get (pending_receipts s) i = Some (p, t, k) \<and> t + effective_rto s \<le> now) \<and>
        pending_receipts s' = hm_del i (pending_receipts s) \<and> i \<in> retransmitted_packets s' \<and>
        rto_backoff s' = rto_backoff (on_timeout s)
    | TlpProbe i p \<Rightarrow> (\<exists>t k r. hm_get (pending_receipts s) i = Some (p, t, k) \<and> probe_timeout s = Some r \<and>
          t + r \<le> now \<and> now < t + effective_rto s) \<and> i \<notin> tlp_sent_packets s \<and>
        pending_receipts s' = pending_receipts s \<and> i \<in> tlp_sent_packets s' \<and> i \<in> retransmitted_packets s' \<and>
        rto_backoff s' = rto_backoff s
    | WaitUntil t \<Rightarrow> pending_receipts s' = pending_receipts s \<and> rto_backoff s' = rto_backoff s \<and>
        (now < t \<or> (\<forall>i \<in> set (resend_queue s). hm_get (pending_receipts s) i = None))"
  by (rule get_resend_loop_cases [OF assms [unfolded get_resend_def]])

theorem resend_timing_witness:
  "\<exists>s'. get_resend 2000000000 2000000000 (report_sent_packet 7 [1] 0 (new_sent_tracker :: nat sent_tracker)) =
     (Resend 7 [1], s') \<and> rto_backoff s' = 2"
proof -
  let ?s = "report_sent_packet 7 [1] 0 (new_sent_tracker :: nat sent_tracker)"
  obtain s' where g: "get_resend 2000000000 2000000000 ?s = (Resend 7 [1], s')"
    by (simp add: get_resend_def report_sent_packet_def report_sent_packet_with_token_def new_sent_tracker_def
        probe_timeout_def effective_rto_def secs_def)
  from resend_timing [OF g] have "rto_backoff s' = rto_backoff (on_timeout ?s)" by simp
  then show ?thesis
    using g by (simp add: on_timeout_def report_sent_packet_def report_sent_packet_with_token_def new_sent_tracker_def
        u32_max_def MAX_RTO_BACKOFF_def)
qed

text \<open>
  A packet that has been probed stays at the head of the queue, and the caller registers it
  again with the time of the probe.  Until its own timeout \<open>get_resend\<close> looks at no other packet: it
  waits for that moment even when packets behind it have timed out.
\<close>

theorem probed_head_hides_queue:
  assumes "resend_queue s = i # q" "hm_get (pending_receipts s) i = Some (p, t, k)" "i \<in> tlp_sent_packets s"
    "now < t + effective_rto s"
  shows "get_resend now now' s = (WaitUntil (t + effective_rto s), s)"
  using assms by (auto simp: get_resend_def Let_def split: option.split)

theorem probed_head_hides_queue_witness:
  "let s = (new_sent_tracker :: nat sent_tracker)\<lparr>
         pending_receipts := [(3, ([1], 400000000, None)), (2, ([2], 0, None))],
         resend_queue := [3, 2], tlp_sent_packets := {3}, retransmitted_packets := {3}\<rparr>
   in get_resend 1300000000 1300000000 s = (WaitUntil 1400000000, s) \<and>
      (\<exists>p t k. hm_get (pending_receipts s) 2 = Some (p, t, k) \<and> t + effective_rto s \<le> 1300000000)"
proof -
  let ?s = "(new_sent_tracker :: nat sent_tracker)\<lparr>
         pending_receipts := [(3, ([1], 400000000, None)), (2, ([2], 0, None))],
         resend_queue := [3, 2], tlp_sent_packets := {3}, retransmitted_packets := {3}\<rparr>"
  have e: "effective_rto ?s = 1000000000"
    by (simp add: effective_rto_def new_sent_tracker_def secs_def)
  have "get_resend 1300000000 1300000000 ?s = (WaitUntil (400000000 + effective_rto ?s), ?s)"
    by (rule probed_head_hides_queue [where q = "[2]" and p = "[1]" and k = None]) (simp_all add: e)
  then show ?thesis by (simp add: e)
qed

end
