(* ===== verification/Token_Bucket.thy ===== *)
theory Token_Bucket
  imports F64
begin

text \<open>
  Pacing: \<open>TokenBucket\<close> of \<open>transport/token_bucket.rs\<close> and the sharing of a bandwidth limit among
  connections of \<open>transport/global_bandwidth.rs\<close>.  The tokens are an \<open>isize\<close>, here an \<open>int\<close> (a bucket would
  need a debt of 8 exabytes to leave that width; the cast from \<open>f64\<close> saturates as in Rust); the
  fraction is an \<open>f64\<close>; the clock is an argument.

  Shown: the tokens never exceed the capacity, are charged exactly what is reserved and at most by the
  refill more; reservations made in the same tick wait for each other; a refill that yields no whole
  token counts the elapsed time again later; and the connections share the limit.
\<close>

definition ISIZE_MAX :: int where
  "ISIZE_MAX = 9223372036854775807"

definition f64_to_isize :: "rat \<Rightarrow> int" where
  "f64_to_isize x = max (- ISIZE_MAX - 1) (min \<lfloor>x\<rfloor> ISIZE_MAX)"

definition f64_of_int :: "int \<Rightarrow> rat" where
  "f64_of_int n = f64_round (of_int n)"

record bucket_state =
  capacity :: nat
  tokens :: int
  fractional_tokens :: rat
  rate :: nat
  last_refill_nanos :: nanos

definition new_token_bucket :: "nat \<Rightarrow> nat \<Rightarrow> nanos \<Rightarrow> bucket_state" where
  "new_token_bucket cap r now =
     \<lparr>capacity = cap, tokens = int cap, fractional_tokens = 0, rate = r, last_refill_nanos = now\<rparr>"

definition refill_state :: "nanos \<Rightarrow> bucket_state \<Rightarrow> bucket_state" where
  "refill_state now s =
     (let elapsed_nanos = now - last_refill_nanos s
      in if elapsed_nanos = 0 then s
         else let elapsed_secs = f64_div (f64_of_nat elapsed_nanos) 1000000000;
                  new_tokens_f64 = f64_mul (f64_of_nat (rate s)) elapsed_secs;
                  fractional = f64_add (fractional_tokens s) new_tokens_f64;
                  new_tokens_whole = f64_to_isize (of_int \<lfloor>fractional\<rfloor>)
              in if 0 < new_tokens_whole
                 then s\<lparr>tokens := min (tokens s + new_tokens_whole) (int (capacity s)),
                        fractional_tokens := f64_sub fractional (f64_of_int new_tokens_whole),
                        last_refill_nanos := now\<rparr>
                 else s\<lparr>fractional_tokens := fractional\<rparr>)"

text \<open>The wait for a number of bytes, computed before they are deducted.\<close>

definition wait_time :: "nat \<Rightarrow> bucket_state \<Rightarrow> duration" where
  "wait_time bytes s =
     (if int bytes \<le> tokens s then 0
      else if rate s = 0 then 0
      else let deficit = int bytes - tokens s;
               wait_secs = f64_div (f64_of_int deficit) (f64_of_nat (rate s))
           in from_secs_f64 wait_secs)"

definition reserve :: "nat \<Rightarrow> nanos \<Rightarrow> bucket_state \<Rightarrow> duration \<times> bucket_state" where
  "reserve bytes now s =
     (let s = refill_state now s
      in (wait_time bytes s, s\<lparr>tokens := tokens s - int bytes\<rparr>))"

definition set_rate :: "nat \<Rightarrow> bucket_state \<Rightarrow> bucket_state" where
  "set_rate new_rate s = s\<lparr>rate := max new_rate 1024\<rparr>"

datatype bucket_event = Reserve nat nanos | SetRate nat

fun bucket_step :: "bucket_state \<Rightarrow> bucket_event \<Rightarrow> bucket_state" where
  "bucket_step s (Reserve bytes now) = snd (reserve bytes now s)"
| "bucket_step s (SetRate r) = set_rate r s"

definition bucket_inv :: "nat \<Rightarrow> bucket_state \<Rightarrow> bool" where
  "bucket_inv cap s \<longleftrightarrow> capacity s = cap \<and> tokens s \<le> int cap \<and> 0 \<le> fractional_tokens s"

text \<open>The tokens a span of time is worth, as the refill computes them.\<close>

definition tokens_for :: "nat \<Rightarrow> nat \<Rightarrow> rat" where
  "tokens_for r elapsed = f64_mul (f64_of_nat r) (f64_div (f64_of_nat elapsed) 1000000000)"

fun below_one :: "nat \<Rightarrow> nanos \<Rightarrow> rat \<Rightarrow> nanos list \<Rightarrow> bool" where
  "below_one r start fraction [] = True"
| "below_one r start fraction (t # ts) =
     (start < t \<and> f64_add fraction (tokens_for r (t - start)) < 1 \<and>
      below_one r start (f64_add fraction (tokens_for r (t - start))) ts)"

section \<open>Global bandwidth\<close>

definition DEFAULT_MIN_PER_CONNECTION :: nat where
  "DEFAULT_MIN_PER_CONNECTION = 1000000"

definition DEFAULT_TOTAL_LIMIT :: nat where
  "DEFAULT_TOTAL_LIMIT = 50000000"

record bandwidth_manager =
  total_limit :: nat
  connection_count :: nat
  min_per_connection :: nat

definition new_bandwidth_manager :: "nat \<Rightarrow> nat option \<Rightarrow> bandwidth_manager" where
  "new_bandwidth_manager limit min_per =
     \<lparr>total_limit = limit, connection_count = 0,
      min_per_connection = (case min_per of Some n \<Rightarrow> n | None \<Rightarrow> DEFAULT_MIN_PER_CONNECTION)\<rparr>"

definition compute_per_connection_rate :: "nat \<Rightarrow> bandwidth_manager \<Rightarrow> nat" where
  "compute_per_connection_rate cnt m = max (total_limit m div max cnt 1) (min_per_connection m)"

definition register_connection :: "bandwidth_manager \<Rightarrow> nat \<times> bandwidth_manager" where
  "register_connection m =
     (let cnt = connection_count m + 1
      in (compute_per_connection_rate cnt m, m\<lparr>connection_count := cnt\<rparr>))"

definition unregister_connection :: "bandwidth_manager \<Rightarrow> nat \<times> bandwidth_manager" where
  "unregister_connection m =
     (if 0 < connection_count m
      then let prev_count = connection_count m
           in (compute_per_connection_rate (max (prev_count - 1) 1) m, m\<lparr>connection_count := prev_count - 1\<rparr>)
      else (compute_per_connection_rate 1 m, m))"

definition current_per_connection_rate :: "bandwidth_manager \<Rightarrow> nat" where
  "current_per_connection_rate m = compute_per_connection_rate (max (connection_count m) 1) m"

text \<open>
  Handles: creating or cloning one registers a connection, dropping one unregisters it.  The
  state counts the live handles beside the manager.
\<close>

datatype handle_event = NewHandle | CloneHandle | DropHandle

fun handle_step :: "nat \<times> bandwidth_manager \<Rightarrow> handle_event \<Rightarrow> nat \<times> bandwidth_manager" where
  "handle_step (live, m) NewHandle = (live + 1, snd (register_connection m))"
| "handle_step (live, m) CloneHandle = (if 0 < live then (live + 1, snd (register_connection m)) else (live, m))"
| "handle_step (live, m) DropHandle = (if 0 < live then (live - 1, snd (unregister_connection m)) else (live, m))"

definition handle_inv :: "nat \<Rightarrow> nat \<Rightarrow> nat \<times> bandwidth_manager \<Rightarrow> bool" where
  "handle_inv limit mn = (\<lambda>(live, m). connection_count m = live \<and> total_limit m = limit \<and> min_per_connection m = mn)"

section \<open>Refilling\<close>

lemma refill_frame [simp]:
  "capacity (refill_state now s) = capacity s" "rate (refill_state now s) = rate s"
  by (simp_all add: refill_state_def Let_def)

lemma refill_tokens:
  "tokens (refill_state now s) = tokens s \<or>
     tokens s < tokens (refill_state now s) \<and> tokens (refill_state now s) \<le> int (capacity s) \<or>
     tokens (refill_state now s) = int (capacity s)"
  by (auto simp: refill_state_def Let_def min_def)

lemma of_int_floor_nonneg: "0 \<le> x \<Longrightarrow> (0 :: rat) \<le> x - of_int \<lfloor>x\<rfloor>"
  by linarith

lemma refill_inv:
  assumes "bucket_inv cap s"
  shows "bucket_inv cap (refill_state now s)"
proof -
  let ?n = "f64_mul (f64_of_nat (rate s)) (f64_div (f64_of_nat (now - last_refill_nanos s)) 1000000000)"
  let ?f = "f64_add (fractional_tokens s) ?n"
  have nat: "0 \<le> f64_of_nat k" for k by (simp add: f64_of_nat_def f64_round_nonneg)
  have "0 \<le> ?n" by (intro f64_mul_nonneg nat) (simp add: f64_div_def f64_round_nonneg nat)
  then have f: "0 \<le> ?f" using assms by (simp add: f64_add_nonneg bucket_inv_def)
  have "0 \<le> f64_sub ?f (f64_of_int (f64_to_isize (of_int \<lfloor>?f\<rfloor>)))" if "0 < f64_to_isize (of_int \<lfloor>?f\<rfloor>)"
  proof -
    let ?w = "f64_to_isize (of_int \<lfloor>?f\<rfloor>)"
    have "of_int ?w \<le> ?f" using f by (simp add: f64_to_isize_def ISIZE_MAX_def) linarith
    moreover have "0 \<le> (of_int ?w :: rat)" using that by simp
    ultimately have "f64_round (of_int ?w) \<le> f64_round ?f" by (intro f64_round_mono)
    then have "f64_of_int ?w \<le> ?f"
      using f64_round_idem [of "fractional_tokens s + ?n"] \<open>0 \<le> ?n\<close> assms
      by (simp add: f64_of_int_def f64_add_def bucket_inv_def)
    then show ?thesis by (simp add: f64_sub_def f64_round_nonneg)
  qed
  then show ?thesis using assms f by (auto simp: refill_state_def bucket_inv_def Let_def)
qed

lemma bucket_step_inv:
  assumes "bucket_inv cap s"
  shows "bucket_inv cap (bucket_step s e)"
proof (cases e)
  case (Reserve bytes now)
  have "bucket_inv cap (refill_state now s)" using assms by (rule refill_inv)
  then show ?thesis using Reserve by (simp add: reserve_def bucket_inv_def Let_def)
next
  case (SetRate r)
  then show ?thesis using assms by (simp add: set_rate_def bucket_inv_def)
qed

lemma new_bucket_inv: "bucket_inv cap (new_token_bucket cap r now)"
  by (simp add: bucket_inv_def new_token_bucket_def)

interpretation tb: started_machine bucket_step "bucket_inv cap" "new_token_bucket cap r now" for cap r now
  by unfold_locales (rule bucket_step_inv, assumption, rule new_bucket_inv)

section \<open>Waiting\<close>

lemma from_secs_mono: "x \<le> y \<Longrightarrow> from_secs_f64 x \<le> from_secs_f64 y"
  unfolding from_secs_f64_def by (intro nat_mono round_half_even_mono) simp

lemma wait_deficit_mono:
  assumes "0 \<le> a" "a \<le> b"
  shows "from_secs_f64 (f64_div (f64_of_int a) (f64_of_nat r)) \<le> from_secs_f64 (f64_div (f64_of_int b) (f64_of_nat r))"
proof -
  have r: "0 \<le> f64_of_nat r" by (simp add: f64_of_nat_def f64_round_nonneg)
  have "0 \<le> f64_of_int a" "f64_of_int a \<le> f64_of_int b"
    unfolding f64_of_int_def using assms by (auto intro!: f64_round_mono f64_round_nonneg)
  then show ?thesis
    unfolding f64_div_def using r by (intro from_secs_mono f64_round_mono divide_right_mono divide_nonneg_nonneg)
qed

text \<open>
  Pacing.  A reservation charges exactly its bytes to the bucket, which never holds more than
  its capacity; and of two reservations made in one tick (nothing left to refill) the second
  waits at least as long as the first, since it sees the debt the first left.
\<close>

theorem reservations_queue_up:
  fixes es :: "bucket_event list" and cap r start :: nat
  defines "s \<equiv> foldl bucket_step (new_token_bucket cap r start) es"
  assumes "now \<le> last_refill_nanos s"
  shows "tokens s \<le> int cap \<and> tokens (snd (reserve b1 now s)) = tokens s - int b1 \<and>
         fst (reserve b1 now s) \<le> fst (reserve b2 now (snd (reserve b1 now s)))"
proof -
  have "bucket_inv cap s" unfolding s_def by (rule tb.reachable_inv)
  then have cap: "tokens s \<le> int cap" by (simp add: bucket_inv_def)
  have same: "refill_state now t = t" if "last_refill_nanos t = last_refill_nanos s" for t
    using assms(2) that by (simp add: refill_state_def)
  have "wait_time b1 s \<le> wait_time b2 (s\<lparr>tokens := tokens s - int b1\<rparr>)"
    using wait_deficit_mono [of "int b1 - tokens s" "int b2 - (tokens s - int b1)" "rate s"]
    by (auto simp: wait_time_def Let_def)
  then show ?thesis using cap same by (simp add: reserve_def Let_def)
qed

theorem reservations_queue_up_witness:
  "fst (reserve 700 5 (foldl bucket_step (new_token_bucket 1000 1000000 5) [Reserve 600 5])) \<le>
   fst (reserve 10 5 (snd (reserve 700 5 (foldl bucket_step (new_token_bucket 1000 1000000 5) [Reserve 600 5]))))"
proof -
  have "5 \<le> last_refill_nanos (foldl bucket_step (new_token_bucket 1000 1000000 5) [Reserve 600 5])"
    by (simp add: reserve_def refill_state_def new_token_bucket_def)
  from reservations_queue_up [OF this, of 700 10] show ?thesis by (rule conjunct2 [THEN conjunct2])
qed

section \<open>Time counted twice\<close>

lemma f64_to_isize_le: "x < 1 \<Longrightarrow> f64_to_isize x \<le> 0"
  by (auto simp: f64_to_isize_def ISIZE_MAX_def min_def)

lemma refill_no_whole:
  assumes "last_refill_nanos s < now" "0 \<le> fractional_tokens s"
    "f64_add (fractional_tokens s) (tokens_for (rate s) (now - last_refill_nanos s)) < 1"
  shows "refill_state now s =
           s\<lparr>fractional_tokens := f64_add (fractional_tokens s) (tokens_for (rate s) (now - last_refill_nanos s))\<rparr>"
proof -
  let ?f = "f64_add (fractional_tokens s) (tokens_for (rate s) (now - last_refill_nanos s))"
  have "f64_to_isize (of_int \<lfloor>?f\<rfloor>) \<le> 0" by (rule f64_to_isize_le) (use assms(3) in linarith)
  then have "\<not> 0 < f64_to_isize (of_int \<lfloor>?f\<rfloor>)" by simp
  then show ?thesis using assms(1) by (simp add: refill_state_def tokens_for_def Let_def)
qed

lemma tokens_for_nonneg: "0 \<le> tokens_for r e"
  by (simp add: tokens_for_def f64_mul_def f64_div_def f64_of_nat_def f64_round_nonneg)

text \<open>
  While no whole token has accrued, the refill keeps its starting time, yet adds the tokens of
  the whole span since then at every call: after refills at the times \<open>ts\<close> the fraction holds the sum of all
  those spans, not the last one.
\<close>

theorem refill_recounts_elapsed:
  assumes "0 \<le> fractional_tokens s" "below_one (rate s) (last_refill_nanos s) (fractional_tokens s) ts"
  shows "foldl (\<lambda>s t. refill_state t s) s ts =
           s\<lparr>fractional_tokens :=
              foldl f64_add (fractional_tokens s) (map (\<lambda>t. tokens_for (rate s) (t - last_refill_nanos s)) ts)\<rparr>"
  using assms
proof (induction ts arbitrary: s)
  case (Cons t ts)
  let ?s = "s\<lparr>fractional_tokens := f64_add (fractional_tokens s) (tokens_for (rate s) (t - last_refill_nanos s))\<rparr>"
  have "refill_state t s = ?s" using Cons.prems by (intro refill_no_whole) auto
  moreover have "foldl (\<lambda>s t. refill_state t s) ?s ts = ?s\<lparr>fractional_tokens :=
      foldl f64_add (fractional_tokens ?s) (map (\<lambda>t. tokens_for (rate ?s) (t - last_refill_nanos ?s)) ts)\<rparr>"
    by (rule Cons.IH) (use Cons.prems tokens_for_nonneg in \<open>auto intro: f64_add_nonneg\<close>)
  ultimately show ?case by simp
qed simp

lemma exact_quarters:
  "f64_round (1 / 512) = 1 / 512" "f64_round (1 / 256) = 1 / 256" "f64_round (1 / 4) = 1 / 4"
  "f64_round (1 / 2) = 1 / 2" "f64_round (3 / 4) = 3 / 4"
proof -
  have "f64_round (1 / 512) = of_int 4503599627370496 * 2 powi (- 9 - 52)"
    "f64_round (1 / 256) = of_int 4503599627370496 * 2 powi (- 8 - 52)"
    "f64_round (1 / 4) = of_int 4503599627370496 * 2 powi (- 2 - 52)"
    "f64_round (1 / 2) = of_int 4503599627370496 * 2 powi (- 1 - 52)"
    "f64_round (3 / 4) = of_int 6755399441055744 * 2 powi (- 1 - 52)"
    by (rule f64_round_eqI; simp add: power_int_def power_one_over)+
  then show "f64_round (1 / 512) = 1 / 512" "f64_round (1 / 256) = 1 / 256" "f64_round (1 / 4) = 1 / 4"
    "f64_round (1 / 2) = 1 / 2" "f64_round (3 / 4) = 3 / 4"
    by (simp_all add: power_int_def power_one_over)
qed

theorem refill_recounts_elapsed_witness:
  "fractional_tokens (foldl (\<lambda>s t. refill_state t s) (new_token_bucket 1000 128 0) [1953125, 3906250]) = 3 / 4 \<and>
   tokens_for 128 3906250 = 1 / 2"
proof -
  have t: "tokens_for 128 1953125 = 1 / 4" "tokens_for 128 3906250 = 1 / 2"
    by (simp_all add: tokens_for_def f64_mul_def f64_div_def exact_quarters)
  have "below_one 128 0 0 [1953125, 3906250]" by (simp add: t f64_add_def exact_quarters)
  then show ?thesis
    using refill_recounts_elapsed [of "new_token_bucket 1000 128 0" "[1953125, 3906250]"]
    by (simp add: new_token_bucket_def t f64_add_def exact_quarters)
qed

section \<open>Sharing\<close>

lemma handle_step_inv: "handle_inv limit mn s \<Longrightarrow> handle_inv limit mn (handle_step s e)"
  by (cases s; cases e)
     (auto simp: handle_inv_def register_connection_def unregister_connection_def Let_def)

lemma handle_start: "handle_inv limit (case mn of Some n \<Rightarrow> n | None \<Rightarrow> DEFAULT_MIN_PER_CONNECTION)
    (0, new_bandwidth_manager limit mn)"
  by (simp add: handle_inv_def new_bandwidth_manager_def)

interpretation bw: invariant_machine handle_step "handle_inv limit mn" for limit mn
  by unfold_locales (rule handle_step_inv)

text \<open>
  Bandwidth is shared: for every sequence of creations, clones and drops the manager counts the
  live handles, each gets at least the minimum, and together they get no more than the limit unless the
  minimum alone exceeds it.
\<close>

theorem bandwidth_shared:
  fixes es :: "handle_event list" and limit mn :: nat
  defines "lm \<equiv> foldl handle_step (0, new_bandwidth_manager limit (Some mn)) es"
  shows "connection_count (snd lm) = fst lm \<and> mn \<le> current_per_connection_rate (snd lm) \<and>
         fst lm * current_per_connection_rate (snd lm) \<le> max limit (fst lm * mn)"
proof -
  have inv: "handle_inv limit mn lm"
    unfolding lm_def using bw.run_inv handle_start [of limit "Some mn"] by simp
  obtain live m where lm: "lm = (live, m)" by (cases lm)
  have m: "connection_count m = live" "total_limit m = limit" "min_per_connection m = mn"
    using inv by (simp_all add: lm handle_inv_def)
  have "live * (limit div max live 1) \<le> limit"
    by (cases "live = 0") (simp_all add: max_def)
  then have "live * max (limit div max live 1) mn \<le> max limit (live * mn)"
    unfolding nat_mult_max_right by (rule max.mono) simp
  then show ?thesis
    by (simp add: lm m current_per_connection_rate_def compute_per_connection_rate_def max.assoc)
qed

end
