(* ===== verification/Backoff.thy ===== *)
theory Backoff
  imports F64
begin

text \<open>
  Retry policies: \<open>ExponentialBackoff\<close> and \<open>TrackedBackoff\<close> of \<open>util/backoff.rs\<close>, and their two clients
  \<open>ConnectionBackoff\<close> (by bucket of the ring location, \<open>ring/connection_backoff.rs\<close>) and
  \<open>PeerConnectionBackoff\<close> (by address, \<open>ring/peer_connection_backoff.rs\<close>).  Instants are integers, the clock and the
  random jitter factor are arguments, and a location is its exact \<open>f64\<close> value.

  Shown: the delays; that a failure blocks its key exactly for the jittered delay of its count,
  within the table's limit; and that the last success of a key decides (locale \<open>retry_tracker\<close>).
\<close>

definition DURATION_MAX :: duration where
  "DURATION_MAX = u64_max * 1000000000 + 999999999"

record exponential_backoff =
  base :: duration
  max_delay :: duration

definition delay :: "exponential_backoff \<Rightarrow> nat \<Rightarrow> duration" where
  "delay c attempt =
     (let exponent = min attempt 10;
          multiplier = 2 ^ exponent;
          d = min (base c * multiplier) DURATION_MAX
      in if max_delay c < d then max_delay c else d)"

definition delay_for_failures :: "exponential_backoff \<Rightarrow> nat \<Rightarrow> duration" where
  "delay_for_failures c failures = (if failures = 0 then 0 else delay c (failures - 1))"

record backoff_entry =
  consecutive_failures :: nat
  last_failure :: instant
  retry_after :: instant

record 'k tracked_backoff =
  entries :: "('k, backoff_entry) hmap"
  config :: exponential_backoff
  max_entries :: nat

definition new_tracked_backoff :: "exponential_backoff \<Rightarrow> nat \<Rightarrow> 'k tracked_backoff" where
  "new_tracked_backoff c n = \<lparr>entries = [], config = c, max_entries = n\<rparr>"

definition is_in_backoff :: "'k \<Rightarrow> instant \<Rightarrow> 'k tracked_backoff \<Rightarrow> bool" where
  "is_in_backoff key now t = (case hm_get (entries t) key of Some e \<Rightarrow> now < retry_after e | None \<Rightarrow> False)"

definition remaining_backoff :: "'k \<Rightarrow> instant \<Rightarrow> 'k tracked_backoff \<Rightarrow> duration option" where
  "remaining_backoff key now t =
     (case hm_get (entries t) key of
        Some e \<Rightarrow> if now < retry_after e then Some (nat (retry_after e - now)) else None
      | None \<Rightarrow> None)"

definition failure_count :: "'k \<Rightarrow> 'k tracked_backoff \<Rightarrow> nat" where
  "failure_count key t = (case hm_get (entries t) key of Some e \<Rightarrow> consecutive_failures e | None \<Rightarrow> 0)"

text \<open>\<open>min_by_key\<close> of an iterator: the first element with the least key.\<close>

definition min_by_key :: "('a \<Rightarrow> int) \<Rightarrow> 'a list \<Rightarrow> 'a option" where
  "min_by_key f xs = (case xs of [] \<Rightarrow> None | x # xs \<Rightarrow> Some (foldl (\<lambda>m y. if f y < f m then y else m) x xs))"

lemma min_by_key_member: "min_by_key f xs = Some m \<Longrightarrow> m \<in> set xs"
proof -
  have "foldl (\<lambda>m y. if f y < f m then y else m) x ys \<in> set (x # ys)" for x ys
  proof (induction ys arbitrary: x)
    case (Cons y ys)
    then show ?case using Cons.IH [of x] Cons.IH [of y] by auto
  qed simp
  then show "min_by_key f xs = Some m \<Longrightarrow> m \<in> set xs"
    by (auto simp: min_by_key_def split: list.splits)
qed

lemma length_del_less: "k \<in> fst ` set m \<Longrightarrow> length (hm_del k m) < length m"
proof -
  assume "k \<in> fst ` set m"
  then obtain v where "(k, v) \<in> set m" by auto
  then have "length (filter (\<lambda>(k', _). k \<noteq> k') m) < length m" by (rule length_filter_less) simp
  then show ?thesis by (simp add: AList.delete_eq)
qed

function evict_if_needed :: "nat \<Rightarrow> ('k, backoff_entry) hmap \<Rightarrow> ('k, backoff_entry) hmap" where
  "evict_if_needed n es =
     (if n < length es
      then (case min_by_key (\<lambda>(_, e). last_failure e) es of
              Some (key, _) \<Rightarrow> evict_if_needed n (hm_del key es)
            | None \<Rightarrow> es)
      else es)"
  by pat_completeness auto
termination
proof (relation "measure (\<lambda>(n, es). length es)", goal_cases)
  case (2 n es x key e)
  then have "x \<in> set es" by (intro min_by_key_member) auto
  then show ?case using 2 by (auto intro!: length_del_less) force
qed simp

declare evict_if_needed.simps [simp del]

definition record_failure :: "'k \<Rightarrow> instant \<Rightarrow> rat \<Rightarrow> 'k tracked_backoff \<Rightarrow> 'k tracked_backoff" where
  "record_failure key now jitter_factor t =
     (let failures = min (failure_count key t + 1) u32_max;
          backoff = delay_for_failures (config t) failures;
          jittered_backoff = mul_f64 backoff jitter_factor;
          entry = \<lparr>consecutive_failures = failures, last_failure = now,
                   retry_after = now + int jittered_backoff\<rparr>
      in t\<lparr>entries := evict_if_needed (max_entries t) (hm_put key entry (entries t))\<rparr>)"

definition record_success :: "'k \<Rightarrow> 'k tracked_backoff \<Rightarrow> 'k tracked_backoff" where
  "record_success key t = t\<lparr>entries := hm_del key (entries t)\<rparr>"

definition cleanup_expired :: "instant \<Rightarrow> 'k tracked_backoff \<Rightarrow> 'k tracked_backoff" where
  "cleanup_expired now t =
     t\<lparr>entries := hm_retain (\<lambda>_ e. \<not> (retry_after e \<le> now \<and>
         max_delay (config t) < saturating_since now (last_failure e))) (entries t)\<rparr>"

definition clear_backoff :: "'k tracked_backoff \<Rightarrow> 'k tracked_backoff" where
  "clear_backoff t = t\<lparr>entries := []\<rparr>"

definition keys_in_backoff :: "instant \<Rightarrow> 'k tracked_backoff \<Rightarrow> 'k list" where
  "keys_in_backoff now t = map fst (filter (\<lambda>(_, e). now < retry_after e) (entries t))"

definition remove_expired_entries :: "instant \<Rightarrow> 'k tracked_backoff \<Rightarrow> nat \<times> 'k tracked_backoff" where
  "remove_expired_entries now t =
     (let kept = hm_retain (\<lambda>_ e. now < retry_after e) (entries t)
      in (length (entries t) - length kept, t\<lparr>entries := kept\<rparr>))"

section \<open>Clients\<close>

datatype connection_failure_reason =
  RoutingFailed | Timeout | Rejected | NatPunchFailed | HandshakeError | TransientError

text \<open>\<open>LocationBucket::from_location\<close>: 256 buckets of the ring, the cast to \<open>u8\<close> truncating.\<close>

definition from_location :: "rat \<Rightarrow> nat" where
  "from_location loc = nat \<lfloor>min (f64_mul loc 256) 255\<rfloor>"

definition TIMEOUT_FAILURE_ESCALATION :: nat where
  "TIMEOUT_FAILURE_ESCALATION = 2"

definition new_connection_backoff :: "nat tracked_backoff" where
  "new_connection_backoff = new_tracked_backoff \<lparr>base = secs 30, max_delay = secs 600\<rparr> 256"

definition conn_is_in_backoff :: "rat \<Rightarrow> instant \<Rightarrow> nat tracked_backoff \<Rightarrow> bool" where
  "conn_is_in_backoff target now t = is_in_backoff (from_location target) now t"

text \<open>Each recorded failure reads the clock and draws a jitter factor of its own.\<close>

definition record_failure_with_reason ::
  "rat \<Rightarrow> connection_failure_reason \<Rightarrow> (nat \<Rightarrow> instant) \<Rightarrow> (nat \<Rightarrow> rat) \<Rightarrow> nat tracked_backoff \<Rightarrow> nat tracked_backoff" where
  "record_failure_with_reason target reason now jitter t =
     (let bucket = from_location target;
          num_failures_to_record =
            (case reason of
               Timeout \<Rightarrow> TIMEOUT_FAILURE_ESCALATION
             | TransientError \<Rightarrow> 1
             | _ \<Rightarrow> 1)
      in foldl (\<lambda>t i. record_failure bucket (now i) (jitter i) t) t [0..<num_failures_to_record])"

definition conn_record_success :: "rat \<Rightarrow> nat tracked_backoff \<Rightarrow> nat tracked_backoff" where
  "conn_record_success target t = record_success (from_location target) t"

text \<open>The base interval of peer connections may be overridden by an environment variable.\<close>

definition new_peer_connection_backoff :: "nat option \<Rightarrow> 'a tracked_backoff" where
  "new_peer_connection_backoff env_base_secs =
     (let b = (case env_base_secs of Some s \<Rightarrow> secs s | None \<Rightarrow> secs 30)
      in new_tracked_backoff \<lparr>base = b, max_delay = secs 90\<rparr> 1024)"

definition peer_record_failure :: "'a \<Rightarrow> instant \<Rightarrow> rat \<Rightarrow> 'a tracked_backoff \<Rightarrow> 'a tracked_backoff" where
  "peer_record_failure peer_addr now jitter t = record_failure peer_addr now jitter t"

definition backoff_inv :: "'k tracked_backoff \<Rightarrow> bool" where
  "backoff_inv t \<longleftrightarrow> hm_wf (entries t) \<and> length (entries t) \<le> max_entries t
     \<and> (\<forall>(_, e) \<in> set (entries t). 0 < consecutive_failures e)"

section \<open>Delays\<close>

lemma if_less_min: "(if m < d then m else d) = min m (d :: nat)"
  by (simp add: min_def)

lemma delay_min: "delay c n = min (max_delay c) (min (base c * 2 ^ min n 10) DURATION_MAX)"
  by (simp only: delay_def Let_def if_less_min)

lemma delay_le_max: "delay c n \<le> max_delay c"
  by (simp add: delay_min)

lemma delay_mono: "m \<le> n \<Longrightarrow> delay c m \<le> delay c n"
  unfolding delay_min by (intro min.mono mult_le_mono power_increasing) auto

lemma delay_exact:
  "max_delay c \<le> DURATION_MAX \<Longrightarrow> delay c n = min (base c * 2 ^ min n 10) (max_delay c)"
  unfolding delay_min by (metis min.absorb1 min.assoc min.commute)

section \<open>Eviction\<close>

lemma evict_noop: "length es \<le> n \<Longrightarrow> evict_if_needed n es = es"
  by (subst evict_if_needed.simps) simp

lemma foldl_min_le:
  fixes f :: "'a \<Rightarrow> int"
  shows "f (foldl (\<lambda>m y. if f y < f m then y else m) x ys) \<le> f x"
    "z \<in> set ys \<Longrightarrow> f (foldl (\<lambda>m y. if f y < f m then y else m) x ys) \<le> f z"
proof -
  show start: "f (foldl (\<lambda>m y. if f y < f m then y else m) x ys) \<le> f x" for x ys
  proof (induction ys arbitrary: x)
    case (Cons y ys)
    show ?case using Cons.IH [of x] Cons.IH [of y] by simp
  qed simp
  show "z \<in> set ys \<Longrightarrow> f (foldl (\<lambda>m y. if f y < f m then y else m) x ys) \<le> f z"
  proof (induction ys arbitrary: x)
    case (Cons y ys)
    show ?case using Cons start [of y ys] start [of x ys] by (cases "f y < f x") auto
  qed simp
qed

lemma min_by_key_least: "min_by_key f xs = Some m \<Longrightarrow> z \<in> set xs \<Longrightarrow> f m \<le> f z"
  by (auto simp: min_by_key_def foldl_min_le split: list.splits)

lemma evict_step:
  assumes "n < length es"
  obtains key e where "(key, e) \<in> set es" "\<forall>(k', e') \<in> set es. last_failure e \<le> last_failure e'"
    "evict_if_needed n es = evict_if_needed n (hm_del key es)"
proof -
  let ?f = "\<lambda>(_, e). last_failure e"
  obtain x where x: "min_by_key ?f es = Some x" using assms by (cases es) (auto simp: min_by_key_def)
  obtain key e where ke: "x = (key, e)" by (cases x)
  have "evict_if_needed n es = evict_if_needed n (hm_del key es)"
    using assms x ke by (subst evict_if_needed.simps) simp
  moreover have "(key, e) \<in> set es" using min_by_key_member [OF x] ke by simp
  moreover have "\<forall>(k', e') \<in> set es. last_failure e \<le> last_failure e'"
    using min_by_key_least [OF x] ke by fastforce
  ultimately show thesis using that by blast
qed

lemma evict_induct:
  assumes "\<And>es. length es \<le> n \<Longrightarrow> P es es"
    "\<And>es key e r. n < length es \<Longrightarrow> (key, e) \<in> set es \<Longrightarrow> \<forall>(k', e') \<in> set es. last_failure e \<le> last_failure e' \<Longrightarrow>
       P (hm_del key es) r \<Longrightarrow> P es r"
  shows "P es (evict_if_needed n es)"
proof (induction "length es" arbitrary: es rule: less_induct)
  case less
  show ?case
  proof (cases "n < length es")
    case True
    from evict_step [OF this] obtain key e where k: "(key, e) \<in> set es"
      "\<forall>(k', e') \<in> set es. last_failure e \<le> last_failure e'"
      "evict_if_needed n es = evict_if_needed n (hm_del key es)" .
    have "length (hm_del key es) < length es" using k(1) by (intro length_del_less) force
    then have "P (hm_del key es) (evict_if_needed n (hm_del key es))" by (rule less)
    then show ?thesis using assms(2) [OF True k(1,2)] k(3) by simp
  next
    case False
    then show ?thesis using assms(1) evict_noop [of es n] by simp
  qed
qed

lemma evict_wf: "hm_wf es \<Longrightarrow> hm_wf (evict_if_needed n es)"
  by (rule evict_induct [where P = "\<lambda>es r. hm_wf es \<longrightarrow> hm_wf r", THEN mp]) auto

lemma evict_length: "length (evict_if_needed n es) \<le> n"
  by (rule evict_induct [where P = "\<lambda>es r. length r \<le> n"]) auto

lemma evict_subset: "hm_get (evict_if_needed n es) k = Some e \<Longrightarrow> hm_get es k = Some e"
  by (rule evict_induct [where P = "\<lambda>es r. hm_get r k = Some e \<longrightarrow> hm_get es k = Some e", THEN mp])
     (auto simp: hm_simps split: if_splits)

lemma another_key:
  assumes "hm_wf es" "1 < length es"
  obtains p where "p \<in> set es" "fst p \<noteq> k"
proof -
  have "es \<noteq> []" using assms(2) by auto
  then have "fst (es ! 0) \<noteq> fst (es ! 1)" using assms nth_eq_iff_index_eq [of "map fst es" 0 1] by simp
  then consider "fst (es ! 0) \<noteq> k" | "fst (es ! 1) \<noteq> k" by metis
  then show thesis using that [OF nth_mem, of 0] that [OF nth_mem, of 1] assms(2) \<open>es \<noteq> []\<close> by cases auto
qed

text \<open>An entry younger than all others survives as long as the table has room for one.\<close>

lemma evict_keeps_newest:
  assumes "hm_wf es" "hm_get es k = Some e" "\<forall>(k', e') \<in> set es. k' \<noteq> k \<longrightarrow> last_failure e' < last_failure e" "0 < n"
  shows "hm_get (evict_if_needed n es) k = Some e"
proof -
  have "hm_wf es \<and> hm_get es k = Some e \<and> (\<forall>(k', e') \<in> set es. k' \<noteq> k \<longrightarrow> last_failure e' < last_failure e) \<longrightarrow>
      hm_get (evict_if_needed n es) k = Some e"
  proof (rule evict_induct [where P = "\<lambda>es r. hm_wf es \<and> hm_get es k = Some e \<and>
      (\<forall>(k', e') \<in> set es. k' \<noteq> k \<longrightarrow> last_failure e' < last_failure e) \<longrightarrow> hm_get r k = Some e"])
    fix es key v r
    assume n: "n < length es" and mem: "(key, v) \<in> set es"
      and least: "\<forall>(k', e') \<in> set es. last_failure v \<le> last_failure e'"
      and IH: "hm_wf (hm_del key es) \<and> hm_get (hm_del key es) k = Some e \<and>
        (\<forall>(k', e') \<in> set (hm_del key es). k' \<noteq> k \<longrightarrow> last_failure e' < last_failure e) \<longrightarrow> hm_get r k = Some e"
    show "hm_wf es \<and> hm_get es k = Some e \<and>
      (\<forall>(k', e') \<in> set es. k' \<noteq> k \<longrightarrow> last_failure e' < last_failure e) \<longrightarrow> hm_get r k = Some e"
    proof (intro impI, elim conjE)
      assume wf: "hm_wf es" and get: "hm_get es k = Some e"
        and newest: "\<forall>(k', e') \<in> set es. k' \<noteq> k \<longrightarrow> last_failure e' < last_failure e"
      have "key \<noteq> k"
      proof
        assume "key = k"
        then have "v = e" using mem get wf by (simp add: hm_get_in_set)
        have "1 < length es" using n assms(4) by simp
        with wf obtain p where "p \<in> set es" "fst p \<noteq> k" by (rule another_key)
        then show False using newest least \<open>v = e\<close> by fastforce
      qed
      moreover have "set (hm_del key es) \<subseteq> set es" by (auto simp: AList.delete_eq)
      ultimately show "hm_get r k = Some e" using IH wf get newest by (fastforce simp: hm_simps)
    qed
  qed simp
  then show ?thesis using assms by blast
qed

section \<open>The tracker's operations\<close>

lemma new_tracked_backoff_inv: "backoff_inv (new_tracked_backoff c n)"
  by (simp add: backoff_inv_def new_tracked_backoff_def)

lemma record_failure_entry:
  assumes "hm_get (entries (record_failure key now j t)) k = Some e"
  shows "k = key \<and> consecutive_failures e = min (failure_count key t + 1) u32_max
    \<or> k \<noteq> key \<and> hm_get (entries t) k = Some e"
  using evict_subset [OF assms [unfolded record_failure_def Let_def, simplified]]
  by (auto simp: hm_simps split: if_splits)

lemma backoff_invD:
  assumes "backoff_inv t"
  shows "hm_wf (entries t)" "length (entries t) \<le> max_entries t"
    "hm_get (entries t) k = Some e \<Longrightarrow> 0 < consecutive_failures e"
  using assms by (auto simp: backoff_inv_def dest: map_of_SomeD)

lemma record_failure_inv: "backoff_inv t \<Longrightarrow> backoff_inv (record_failure key now j t)"
proof -
  assume inv: "backoff_inv t"
  let ?t = "record_failure key now j t"
  have wf: "hm_wf (entries ?t)" "length (entries ?t) \<le> max_entries ?t"
    using backoff_invD [OF inv] by (simp_all add: record_failure_def Let_def evict_wf evict_length)
  moreover have "0 < consecutive_failures e" if "(k, e) \<in> set (entries ?t)" for k e
  proof -
    have "hm_get (entries ?t) k = Some e" using that wf by (simp add: hm_get_in_set)
    from record_failure_entry [OF this] show ?thesis using backoff_invD(3) [OF inv] by (auto simp: u32_max_def)
  qed
  ultimately show ?thesis by (auto simp: backoff_inv_def)
qed

lemma backoff_inv_subset:
  "backoff_inv t \<Longrightarrow> hm_wf es \<Longrightarrow> set es \<subseteq> set (entries t) \<Longrightarrow> length es \<le> length (entries t) \<Longrightarrow>
   backoff_inv (t\<lparr>entries := es\<rparr>)"
  by (auto simp: backoff_inv_def)

lemma record_success_inv: "backoff_inv t \<Longrightarrow> backoff_inv (record_success key t)"
  unfolding record_success_def by (rule backoff_inv_subset) (auto simp: backoff_invD, auto simp: AList.delete_eq)

lemma retain_inv: "backoff_inv t \<Longrightarrow> backoff_inv (t\<lparr>entries := hm_retain P (entries t)\<rparr>)"
  by (rule backoff_inv_subset) (auto simp: backoff_invD, auto simp: hm_retain_def)

lemma cleanup_expired_inv: "backoff_inv t \<Longrightarrow> backoff_inv (cleanup_expired now t)"
  unfolding cleanup_expired_def by (rule retain_inv)

lemma remove_expired_entries_inv: "backoff_inv t \<Longrightarrow> backoff_inv (snd (remove_expired_entries now t))"
  by (simp add: remove_expired_entries_def Let_def retain_inv)

lemma failure_count_after_failure:
  "failure_count k (record_failure key now j t) \<le> (if k = key then failure_count k t + 1 else failure_count k t)"
proof (cases "hm_get (entries (record_failure key now j t)) k")
  case (Some e)
  then show ?thesis using record_failure_entry [OF Some] by (auto simp: failure_count_def)
qed (simp add: failure_count_def)

lemma failure_count_after_success:
  "failure_count k (record_success key t) = (if k = key then 0 else failure_count k t)"
  by (simp add: failure_count_def record_success_def hm_simps)

lemma failure_count_retain:
  "hm_wf (entries t) \<Longrightarrow> failure_count k (t\<lparr>entries := hm_retain P (entries t)\<rparr>) \<le> failure_count k t"
  by (auto simp: failure_count_def hm_simps split: option.splits)

lemma record_failure_blocks:
  assumes "hm_wf (entries t)" "0 < max_entries t"
    "\<forall>(k, e) \<in> set (entries t). k \<noteq> key \<longrightarrow> last_failure e < now"
  shows "hm_get (entries (record_failure key now j t)) key =
    Some \<lparr>consecutive_failures = min (failure_count key t + 1) u32_max, last_failure = now,
      retry_after = now + int (mul_f64 (delay_for_failures (config t) (min (failure_count key t + 1) u32_max)) j)\<rparr>"
proof -
  let ?e = "\<lparr>consecutive_failures = min (failure_count key t + 1) u32_max, last_failure = now,
      retry_after = now + int (mul_f64 (delay_for_failures (config t) (min (failure_count key t + 1) u32_max)) j)\<rparr>"
  let ?es = "hm_put key ?e (entries t)"
  have "(k', e') \<in> set (entries t)" if "(k', e') \<in> set ?es" "k' \<noteq> key" for k' e'
    using that hm_get_in_set [OF assms(1), of k' e'] hm_get_in_set [OF hm_wf_put [OF assms(1)], of key ?e k' e']
    by (simp add: hm_simps)
  then have "\<forall>(k', e') \<in> set ?es. k' \<noteq> key \<longrightarrow> last_failure e' < last_failure ?e"
    using assms(3) by fastforce
  then have "hm_get (evict_if_needed (max_entries t) ?es) key = Some ?e"
    using assms(1,2) by (intro evict_keeps_newest) (simp_all add: hm_simps)
  then show ?thesis by (simp add: record_failure_def Let_def)
qed

lemma bucket_range: "from_location loc < 256"
proof -
  have "\<lfloor>min (f64_mul loc 256) 255\<rfloor> < 256" by (simp add: floor_less_iff)
  then show ?thesis unfolding from_location_def by linarith
qed

section \<open>Sequences of attempts\<close>

text \<open>
  What a caller of a retry tracker sees: failures and successes of its keys, in any order, with
  the tracker's own tidying in between.
\<close>

datatype ('k, 'x, 'y) attempt = Failed 'k 'x | Succeeded 'k | Tidied 'y

fun since_success :: "'k \<Rightarrow> nat \<Rightarrow> ('k, 'x, 'y) attempt list \<Rightarrow> nat" where
  "since_success k n [] = n"
| "since_success k n (Failed k' _ # es) = since_success k (if k' = k then n + 1 else n) es"
| "since_success k n (Succeeded k' # es) = since_success k (if k' = k then 0 else n) es"
| "since_success k n (Tidied _ # es) = since_success k n es"

lemma since_success_mono: "m \<le> n \<Longrightarrow> since_success k m es \<le> since_success k n es"
  by (induction k m es arbitrary: n rule: since_success.induct) simp_all

locale retry_tracker =
  fixes fail :: "'k \<Rightarrow> 'x \<Rightarrow> 's \<Rightarrow> 's"
    and succeed :: "'k \<Rightarrow> 's \<Rightarrow> 's"
    and tidy :: "'y \<Rightarrow> 's \<Rightarrow> 's"
    and failures :: "'k \<Rightarrow> 's \<Rightarrow> nat"
    and ok :: "'s \<Rightarrow> bool"
  assumes ok_fail: "ok s \<Longrightarrow> ok (fail k x s)"
    and ok_succeed: "ok s \<Longrightarrow> ok (succeed k s)"
    and ok_tidy: "ok s \<Longrightarrow> ok (tidy y s)"
    and failures_fail: "failures k' (fail k x s) \<le> (if k' = k then failures k' s + 1 else failures k' s)"
    and failures_succeed: "failures k' (succeed k s) = (if k' = k then 0 else failures k' s)"
    and failures_tidy: "ok s \<Longrightarrow> failures k (tidy y s) \<le> failures k s"
begin

fun perform :: "'s \<Rightarrow> ('k, 'x, 'y) attempt \<Rightarrow> 's" where
  "perform s (Failed k x) = fail k x s"
| "perform s (Succeeded k) = succeed k s"
| "perform s (Tidied y) = tidy y s"

lemma perform_ok: "ok s \<Longrightarrow> ok (perform s a)"
  by (cases a) (simp_all add: ok_fail ok_succeed ok_tidy)

lemma perform_counts: "ok s \<Longrightarrow> failures k (perform s a) \<le> since_success k (failures k s) [a]"
  using failures_fail [of k] failures_succeed [of k] failures_tidy by (cases a) (auto simp: eq_commute)

lemma counts_since_success: "ok s \<Longrightarrow> failures k (foldl perform s es) \<le> since_success k (failures k s) es"
proof (induction es arbitrary: s)
  case (Cons a es)
  have "failures k (foldl perform s (a # es)) \<le> since_success k (failures k (perform s a)) es"
    using Cons perform_ok by simp
  also have "\<dots> \<le> since_success k (since_success k (failures k s) [a]) es"
    using Cons.prems by (intro since_success_mono perform_counts)
  also have "\<dots> = since_success k (failures k s) (a # es)" by (cases a) simp_all
  finally show ?case .
qed simp

end

text \<open>The tracker's calls: failures with the clock and jitter they read, and its three ways to tidy.\<close>

datatype tidying = Cleanup_expired instant | Remove_expired instant | Clear

fun tidy_backoff :: "tidying \<Rightarrow> 'k tracked_backoff \<Rightarrow> 'k tracked_backoff" where
  "tidy_backoff (Cleanup_expired now) t = cleanup_expired now t"
| "tidy_backoff (Remove_expired now) t = snd (remove_expired_entries now t)"
| "tidy_backoff Clear t = clear_backoff t"

fun backoff_step :: "'k tracked_backoff \<Rightarrow> ('k, instant \<times> rat, tidying) attempt \<Rightarrow> 'k tracked_backoff" where
  "backoff_step t (Failed k (now, jitter)) = record_failure k now jitter t"
| "backoff_step t (Succeeded k) = record_success k t"
| "backoff_step t (Tidied y) = tidy_backoff y t"

lemma clear_backoff_inv: "backoff_inv (clear_backoff t)"
  by (simp add: backoff_inv_def clear_backoff_def)

lemma tidy_backoff_inv: "backoff_inv t \<Longrightarrow> backoff_inv (tidy_backoff y t)"
  by (cases y) (simp_all add: cleanup_expired_inv remove_expired_entries_inv clear_backoff_inv)

lemma tidy_backoff_count: "backoff_inv t \<Longrightarrow> failure_count k (tidy_backoff y t) \<le> failure_count k t"
  by (cases y) (auto simp: backoff_inv_def cleanup_expired_def remove_expired_entries_def Let_def clear_backoff_def
    failure_count_retain, simp add: failure_count_def)

interpretation rt: retry_tracker "\<lambda>k (now, jitter). record_failure k now jitter" record_success tidy_backoff
  failure_count backoff_inv
  by unfold_locales
    (auto simp: record_failure_inv record_success_inv tidy_backoff_inv tidy_backoff_count
      failure_count_after_success split: prod.splits
      intro: order_trans [OF failure_count_after_failure])

lemma backoff_step_perform: "backoff_step = rt.perform"
proof (intro ext)
  fix t :: "'k tracked_backoff" and a
  show "backoff_step t a = rt.perform t a" by (cases "(t, a)" rule: backoff_step.cases) simp_all
qed

interpretation bo: invariant_machine backoff_step backoff_inv
  by unfold_locales (simp add: backoff_step_perform rt.perform_ok)

section \<open>What backoff guarantees\<close>

text \<open>
  A recorded failure is newer than what the tracker holds, since the clock does not run
  backwards; the only entry it may lose to eviction is another one.
\<close>

text \<open>
  With the clock past every other key's last failure, recording a failure blocks its key
  exactly until the jittered delay of its new failure count is over; that delay lies between the
  base (or the maximum, if less) and the maximum; no other key becomes blocked, and the table
  stays within its limit.
\<close>

theorem failure_blocks_exactly:
  fixes t :: "'k tracked_backoff" and key :: 'k and now :: instant and jitter :: rat
  assumes "backoff_inv t" "0 < max_entries t" "base (config t) \<le> DURATION_MAX"
    "\<forall>(k, e) \<in> set (entries t). k \<noteq> key \<longrightarrow> last_failure e < now"
  defines "n \<equiv> min (failure_count key t + 1) u32_max"
    and "t' \<equiv> record_failure key now jitter t"
  shows "(\<forall>later. is_in_backoff key later t' \<longleftrightarrow>
        later < now + int (mul_f64 (delay_for_failures (config t) n) jitter))
    \<and> failure_count key t' = n
    \<and> min (base (config t)) (max_delay (config t)) \<le> delay_for_failures (config t) n
    \<and> delay_for_failures (config t) n \<le> max_delay (config t)
    \<and> (\<forall>k later. k = key \<or> \<not> is_in_backoff k later t' \<or> is_in_backoff k later t)
    \<and> length (entries t') \<le> max_entries t'"
proof (intro conjI)
  have wf: "hm_wf (entries t)" using assms(1) by (simp add: backoff_inv_def)
  note entry = record_failure_blocks [OF wf assms(2,4), of jitter, folded n_def t'_def]
  show "\<forall>later. is_in_backoff key later t' \<longleftrightarrow>
      later < now + int (mul_f64 (delay_for_failures (config t) n) jitter)"
    using entry by (simp add: is_in_backoff_def)
  show "failure_count key t' = n" using entry by (simp add: failure_count_def)
  have n: "delay_for_failures (config t) n = delay (config t) (n - 1)"
    by (simp add: n_def delay_for_failures_def u32_max_def)
  show "min (base (config t)) (max_delay (config t)) \<le> delay_for_failures (config t) n"
    using assms(3) by (auto simp: n delay_min min_le_iff_disj)
  show "delay_for_failures (config t) n \<le> max_delay (config t)" by (simp add: n delay_le_max)
  show "\<forall>k later. k = key \<or> \<not> is_in_backoff k later t' \<or> is_in_backoff k later t"
    using record_failure_entry [of key now jitter t, folded t'_def]
    by (fastforce simp: is_in_backoff_def split: option.splits)
  show "length (entries t') \<le> max_entries t'"
    using record_failure_inv [OF assms(1)] by (simp add: t'_def backoff_inv_def)
qed

theorem failure_blocks_exactly_witness:
  "is_in_backoff (3 :: nat) 5 (record_failure 3 0 1 new_connection_backoff) \<longleftrightarrow>
     5 < int (mul_f64 (delay_for_failures (config new_connection_backoff) 1) 1)"
  using failure_blocks_exactly [of new_connection_backoff 3 0 1]
  by (simp add: backoff_inv_def new_connection_backoff_def new_tracked_backoff_def failure_count_def
    u32_max_def DURATION_MAX_def secs_def u64_max_def)

text \<open>
  Over any sequence of failures, successes and clean-ups of a fresh tracker, a key's failure
  count is at most the number of its failures since its last success, and a key that has not
  failed since its last success is not blocked.
\<close>

theorem success_clears_backoff:
  "failure_count k (foldl backoff_step (new_tracked_backoff c n) es) \<le> since_success k 0 es
   \<and> (since_success k 0 es = 0 \<longrightarrow>
       \<not> is_in_backoff k now (foldl backoff_step (new_tracked_backoff c n) es))"
proof
  let ?t = "foldl backoff_step (new_tracked_backoff c n) es"
  have "failure_count k (new_tracked_backoff c n) = 0"
    by (simp add: failure_count_def new_tracked_backoff_def)
  then show le: "failure_count k ?t \<le> since_success k 0 es"
    using rt.counts_since_success [OF new_tracked_backoff_inv, of k c n es] by (simp add: backoff_step_perform)
  have "backoff_inv ?t" by (rule bo.run_inv) (rule new_tracked_backoff_inv)
  then show "since_success k 0 es = 0 \<longrightarrow> \<not> is_in_backoff k now ?t"
    using le backoff_invD(3) [of ?t k] by (fastforce simp: failure_count_def is_in_backoff_def split: option.splits)
qed

theorem success_clears_backoff_witness:
  "\<not> is_in_backoff (3 :: nat) 7
     (foldl backoff_step (new_tracked_backoff \<lparr>base = 30, max_delay = 600\<rparr> 256)
       [Failed 3 (0, 1), Failed 4 (2, 1), Succeeded 3, Tidied (Cleanup_expired 5)])"
  using success_clears_backoff [of "3 :: nat" "\<lparr>base = 30, max_delay = 600\<rparr>" 256
      "[Failed 3 (0, 1), Failed 4 (2, 1), Succeeded 3, Tidied (Cleanup_expired 5)]" 7]
  by simp

end
