(* ===== verification/Hosting_Manager.thy ===== *)
theory Hosting_Manager
  imports Hosting_Cache Backoff "HOL-Library.List_Lexorder"
begin

text \<open>
  \<open>HostingManager\<close> of \<open>ring/hosting.rs\<close>: the leases of the node's own subscriptions, the
  subscriptions of its local clients and of downstream peers, the hosting cache and its
  persisted metadata (\<open>contract/storages/redb.rs\<close>), and the retries of subscription requests.

  A \<open>ContractKey\<close> is the type variable \<open>'k\<close>; the functions of the contract library that the
  manager uses of it are arguments: \<open>kid\<close> (the bytes of its instance id), \<open>kcode\<close> (its code
  hash) and \<open>mk\<close> (\<open>from_id_and_code\<close>).  A table of the database is the map of its rows, and
  whether a write reaches it is an argument \<open>io\<close>.

  Shown: the invariant of all the tables; which contracts are renewed; and that what is
  persisted restores the hosted contracts.
\<close>

declare map_of_eq_Some_iff [simp del] and Some_eq_map_of_iff [simp del]

section \<open>Persisted metadata\<close>

record hosting_metadata =
  last_access_ms :: nat
  md_access_type :: byte
  md_size_bytes :: nat
  md_code_hash :: "byte list"

definition to_bytes :: "hosting_metadata \<Rightarrow> byte list" where
  "to_bytes md = le_bytes 8 (last_access_ms md) @ [md_access_type md] @ le_bytes 8 (md_size_bytes md) @ md_code_hash md"

definition from_bytes :: "byte list \<Rightarrow> hosting_metadata option" where
  "from_bytes bytes =
     (if length bytes < 49 then None
      else Some \<lparr>last_access_ms = of_le_bytes (take 8 bytes),
                 md_access_type = bytes ! 8,
                 md_size_bytes = of_le_bytes (take 8 (drop 9 bytes)),
                 md_code_hash = take 32 (drop 17 bytes)\<rparr>)"

text \<open>The two tables of the database that hosting uses, by the bytes of the instance id.\<close>

record redb =
  HOSTING_METADATA_TABLE :: "(byte list, byte list) hmap"
  STATE_TABLE :: "(byte list, byte list) hmap"

definition store_hosting_metadata :: "bool \<Rightarrow> byte list \<Rightarrow> hosting_metadata \<Rightarrow> redb \<Rightarrow> redb" where
  "store_hosting_metadata ok key md db =
     (if ok then db\<lparr>HOSTING_METADATA_TABLE := hm_put key (to_bytes md) (HOSTING_METADATA_TABLE db)\<rparr> else db)"

definition remove_hosting_metadata :: "bool \<Rightarrow> byte list \<Rightarrow> redb \<Rightarrow> redb" where
  "remove_hosting_metadata ok key db =
     (if ok then db\<lparr>HOSTING_METADATA_TABLE := hm_del key (HOSTING_METADATA_TABLE db)\<rparr> else db)"

definition load_all_hosting_metadata :: "redb \<Rightarrow> (byte list \<times> hosting_metadata) list" where
  "load_all_hosting_metadata db =
     List.map_filter (\<lambda>(key, value). map_option (Pair key) (from_bytes value)) (HOSTING_METADATA_TABLE db)"

definition get_state_size :: "byte list \<Rightarrow> redb \<Rightarrow> nat option" where
  "get_state_size key db = map_option length (hm_get (STATE_TABLE db) key)"

definition iter_all_state_keys :: "redb \<Rightarrow> byte list list" where
  "iter_all_state_keys db = map fst (STATE_TABLE db)"

section \<open>The manager\<close>

definition SUBSCRIPTION_RENEWAL_INTERVAL :: duration where
  "SUBSCRIPTION_RENEWAL_INTERVAL = secs 120"

definition LEASE_RENEWAL_MULTIPLIER :: nat where
  "LEASE_RENEWAL_MULTIPLIER = 4"

definition SUBSCRIPTION_LEASE_DURATION :: duration where
  "SUBSCRIPTION_LEASE_DURATION = SUBSCRIPTION_RENEWAL_INTERVAL * LEASE_RENEWAL_MULTIPLIER"

definition INITIAL_SUBSCRIPTION_BACKOFF :: duration where
  "INITIAL_SUBSCRIPTION_BACKOFF = secs 15"

definition MAX_SUBSCRIPTION_BACKOFF :: duration where
  "MAX_SUBSCRIPTION_BACKOFF = SUBSCRIPTION_LEASE_DURATION div 4"

definition MAX_SUBSCRIPTION_BACKOFF_ENTRIES :: nat where
  "MAX_SUBSCRIPTION_BACKOFF_ENTRIES = 4096"

definition MAX_DOWNSTREAM_SUBSCRIBERS_PER_CONTRACT :: nat where
  "MAX_DOWNSTREAM_SUBSCRIBERS_PER_CONTRACT = 512"

definition DEFAULT_HOSTING_BUDGET_BYTES :: nat where
  "DEFAULT_HOSTING_BUDGET_BYTES = 100 * 1024 * 1024"

definition DEFAULT_MIN_TTL :: duration where
  "DEFAULT_MIN_TTL = SUBSCRIPTION_RENEWAL_INTERVAL * 4"

record ('k, 'cl, 'p) hosting_manager =
  active_subscriptions :: "('k, instant) hmap"
  client_subscriptions :: "(byte list, 'cl set) hmap"
  hosted :: "'k hosting_cache"
  downstream_subscribers :: "('k, ('p, instant) hmap) hmap"
  pending_subscription_requests :: "'k set"
  subscription_backoff :: "'k tracked_backoff"
  storage :: "redb option"

definition new_hosting_manager :: "('k, 'cl, 'p) hosting_manager" where
  "new_hosting_manager =
     \<lparr>active_subscriptions = [], client_subscriptions = [],
      hosted = new_hosting_cache DEFAULT_HOSTING_BUDGET_BYTES DEFAULT_MIN_TTL,
      downstream_subscribers = [], pending_subscription_requests = {},
      subscription_backoff =
        new_tracked_backoff \<lparr>base = INITIAL_SUBSCRIPTION_BACKOFF, max_delay = MAX_SUBSCRIPTION_BACKOFF\<rparr>
          MAX_SUBSCRIPTION_BACKOFF_ENTRIES,
      storage = None\<rparr>"

definition set_storage :: "redb \<Rightarrow> ('k, 'cl, 'p) hosting_manager \<Rightarrow> ('k, 'cl, 'p) hosting_manager" where
  "set_storage db m = m\<lparr>storage := Some db\<rparr>"

section \<open>Leases of the node's own subscriptions\<close>

record subscribe_result =
  sub_is_new :: bool
  expires_at :: instant

definition subscribe ::
  "instant \<Rightarrow> 'k \<Rightarrow> ('k, 'cl, 'p) hosting_manager \<Rightarrow> subscribe_result \<times> ('k, 'cl, 'p) hosting_manager" where
  "subscribe now contract m =
     (let e = now + int SUBSCRIPTION_LEASE_DURATION
      in (\<lparr>sub_is_new = \<not> hm_has contract (active_subscriptions m), expires_at = e\<rparr>,
          m\<lparr>active_subscriptions := hm_put contract e (active_subscriptions m)\<rparr>))"

definition renew_subscription ::
  "instant \<Rightarrow> 'k \<Rightarrow> ('k, 'cl, 'p) hosting_manager \<Rightarrow> bool \<times> ('k, 'cl, 'p) hosting_manager" where
  "renew_subscription now contract m =
     (if hm_has contract (active_subscriptions m)
      then (True, m\<lparr>active_subscriptions :=
              hm_put contract (now + int SUBSCRIPTION_LEASE_DURATION) (active_subscriptions m)\<rparr>)
      else (False, m))"

definition unsubscribe :: "'k \<Rightarrow> ('k, 'cl, 'p) hosting_manager \<Rightarrow> ('k, 'cl, 'p) hosting_manager" where
  "unsubscribe contract m = m\<lparr>active_subscriptions := hm_del contract (active_subscriptions m)\<rparr>"

definition is_subscribed :: "instant \<Rightarrow> 'k \<Rightarrow> ('k, 'cl, 'p) hosting_manager \<Rightarrow> bool" where
  "is_subscribed now contract m =
     (case hm_get (active_subscriptions m) contract of Some e \<Rightarrow> now < e | None \<Rightarrow> False)"

definition get_subscribed_contracts ::
  "('k \<Rightarrow> byte list) \<Rightarrow> instant \<Rightarrow> ('k, 'cl, 'p) hosting_manager \<Rightarrow> 'k list" where
  "get_subscribed_contracts kid now m =
     sort_key kid (map fst (filter (\<lambda>(_, e). now < e) (active_subscriptions m)))"

definition force_subscription_renewal :: "'k \<Rightarrow> ('k, 'cl, 'p) hosting_manager \<Rightarrow> ('k, 'cl, 'p) hosting_manager" where
  "force_subscription_renewal contract m =
     m\<lparr>active_subscriptions := hm_del contract (active_subscriptions m)\<rparr>"

definition expire_stale_subscriptions ::
  "instant \<Rightarrow> ('k, 'cl, 'p) hosting_manager \<Rightarrow> 'k list \<times> ('k, 'cl, 'p) hosting_manager" where
  "expire_stale_subscriptions now m =
     (map fst (filter (\<lambda>(_, e). e \<le> now) (active_subscriptions m)),
      m\<lparr>active_subscriptions := hm_retain (\<lambda>_ e. \<not> e \<le> now) (active_subscriptions m)\<rparr>)"

definition active_subscription_count :: "instant \<Rightarrow> ('k, 'cl, 'p) hosting_manager \<Rightarrow> nat" where
  "active_subscription_count now m = length (filter (\<lambda>(_, e). now < e) (active_subscriptions m))"

section \<open>Subscriptions of local clients\<close>

definition add_client_subscription ::
  "byte list \<Rightarrow> 'cl \<Rightarrow> ('k, 'cl, 'p) hosting_manager \<Rightarrow> bool \<times> ('k, 'cl, 'p) hosting_manager" where
  "add_client_subscription instance_id client_id m =
     (let entry = (case hm_get (client_subscriptions m) instance_id of Some s \<Rightarrow> s | None \<Rightarrow> {})
      in (entry = {},
          m\<lparr>client_subscriptions := hm_put instance_id (insert client_id entry) (client_subscriptions m)\<rparr>))"

definition remove_client_subscription ::
  "byte list \<Rightarrow> 'cl \<Rightarrow> ('k, 'cl, 'p) hosting_manager \<Rightarrow> bool \<times> ('k, 'cl, 'p) hosting_manager" where
  "remove_client_subscription instance_id client_id m =
     (case hm_get (client_subscriptions m) instance_id of
        None \<Rightarrow> (False, m)
      | Some clients \<Rightarrow>
          (let clients = clients - {client_id}
           in if clients = {}
              then (True, m\<lparr>client_subscriptions := hm_del instance_id (client_subscriptions m)\<rparr>)
              else (False, m\<lparr>client_subscriptions := hm_put instance_id clients (client_subscriptions m)\<rparr>)))"

definition has_client_subscriptions :: "byte list \<Rightarrow> ('k, 'cl, 'p) hosting_manager \<Rightarrow> bool" where
  "has_client_subscriptions instance_id m =
     (case hm_get (client_subscriptions m) instance_id of Some clients \<Rightarrow> clients \<noteq> {} | None \<Rightarrow> False)"

definition instance_ids_with_client :: "'cl \<Rightarrow> ('k, 'cl, 'p) hosting_manager \<Rightarrow> byte list list" where
  "instance_ids_with_client client_id m =
     sort (map fst (filter (\<lambda>(_, clients). client_id \<in> clients) (client_subscriptions m)))"

definition remove_client_from_all_subscriptions ::
  "('k \<Rightarrow> byte list) \<Rightarrow> 'cl \<Rightarrow> ('k, 'cl, 'p) hosting_manager \<Rightarrow> 'k list \<times> ('k, 'cl, 'p) hosting_manager" where
  "remove_client_from_all_subscriptions kid client_id m =
     foldl (\<lambda>(affected, m) instance_id.
         let m' = snd (remove_client_subscription instance_id client_id m)
         in (case find (\<lambda>k. kid k = instance_id) (map fst (active_subscriptions m')) of
               Some contract \<Rightarrow> (affected @ [contract], m')
             | None \<Rightarrow> (affected, m')))
       ([], m) (instance_ids_with_client client_id m)"

section \<open>Downstream subscribers\<close>

definition add_downstream_subscriber ::
  "instant \<Rightarrow> 'k \<Rightarrow> 'p \<Rightarrow> ('k, 'cl, 'p) hosting_manager \<Rightarrow> bool \<times> ('k, 'cl, 'p) hosting_manager" where
  "add_downstream_subscriber now contract peer m =
     (let entry = (case hm_get (downstream_subscribers m) contract of Some peers \<Rightarrow> peers | None \<Rightarrow> [])
      in if \<not> hm_has peer entry \<and> MAX_DOWNSTREAM_SUBSCRIBERS_PER_CONTRACT \<le> length entry
         then (False, m\<lparr>downstream_subscribers := hm_put contract entry (downstream_subscribers m)\<rparr>)
         else (True, m\<lparr>downstream_subscribers := hm_put contract (hm_put peer now entry) (downstream_subscribers m)\<rparr>))"

definition renew_downstream_subscriber ::
  "instant \<Rightarrow> 'k \<Rightarrow> 'p \<Rightarrow> ('k, 'cl, 'p) hosting_manager \<Rightarrow> bool \<times> ('k, 'cl, 'p) hosting_manager" where
  "renew_downstream_subscriber now contract peer m =
     (case hm_get (downstream_subscribers m) contract of
        Some peers \<Rightarrow>
          (if hm_has peer peers
           then (True, m\<lparr>downstream_subscribers := hm_put contract (hm_put peer now peers) (downstream_subscribers m)\<rparr>)
           else (False, m))
      | None \<Rightarrow> (False, m))"

definition remove_downstream_subscriber ::
  "'k \<Rightarrow> 'p \<Rightarrow> ('k, 'cl, 'p) hosting_manager \<Rightarrow> bool \<times> ('k, 'cl, 'p) hosting_manager" where
  "remove_downstream_subscriber contract peer m =
     (case hm_get (downstream_subscribers m) contract of
        Some peers \<Rightarrow>
          (if hm_has peer peers
           then (True, m\<lparr>downstream_subscribers :=
                    (if hm_del peer peers = [] then hm_del contract (downstream_subscribers m)
                     else hm_put contract (hm_del peer peers) (downstream_subscribers m))\<rparr>)
           else (False, m))
      | None \<Rightarrow> (False, m))"

definition has_downstream_subscribers :: "'k \<Rightarrow> ('k, 'cl, 'p) hosting_manager \<Rightarrow> bool" where
  "has_downstream_subscribers contract m =
     (case hm_get (downstream_subscribers m) contract of Some peers \<Rightarrow> peers \<noteq> [] | None \<Rightarrow> False)"

text \<open>One round of the loop of \<open>expire_stale_downstream_subscribers\<close>.\<close>

definition expire_downstream_key ::
  "instant \<Rightarrow> ('k \<times> nat) list \<times> ('k, ('p, instant) hmap) hmap \<Rightarrow> 'k \<Rightarrow>
   ('k \<times> nat) list \<times> ('k, ('p, instant) hmap) hmap" where
  "expire_downstream_key now s key =
     (case s of (counts, ds) \<Rightarrow>
        case hm_get ds key of
          None \<Rightarrow> (counts, ds)
        | Some peers \<Rightarrow>
            (let kept = hm_retain (\<lambda>_ last_renewed. saturating_since now last_renewed < SUBSCRIPTION_LEASE_DURATION) peers;
                 expired = length peers - length kept
             in (if 0 < expired then counts @ [(key, expired)] else counts,
                 if kept = [] then hm_del key ds else hm_put key kept ds)))"

definition expire_stale_downstream_subscribers ::
  "instant \<Rightarrow> ('k, 'cl, 'p) hosting_manager \<Rightarrow> ('k \<times> nat) list \<times> ('k, 'cl, 'p) hosting_manager" where
  "expire_stale_downstream_subscribers now m =
     (let (counts, ds) =
            foldl (expire_downstream_key now) ([], downstream_subscribers m) (map fst (downstream_subscribers m))
      in (counts, m\<lparr>downstream_subscribers := ds\<rparr>))"

definition should_unsubscribe_upstream :: "('k \<Rightarrow> byte list) \<Rightarrow> 'k \<Rightarrow> ('k, 'cl, 'p) hosting_manager \<Rightarrow> bool" where
  "should_unsubscribe_upstream kid contract m =
     (if has_client_subscriptions (kid contract) m then False else \<not> has_downstream_subscribers contract m)"

section \<open>The hosting cache and its persisted metadata\<close>

fun access_type_u8 :: "access_type \<Rightarrow> byte" where
  "access_type_u8 Get = 0"
| "access_type_u8 Put = 1"
| "access_type_u8 Subscribe = 2"

definition access_type_of :: "byte \<Rightarrow> access_type" where
  "access_type_of b = (if b = 1 then Put else if b = 2 then Subscribe else Get)"

definition remove_all_metadata :: "('k \<Rightarrow> byte list) \<Rightarrow> ('k \<Rightarrow> bool) \<Rightarrow> 'k list \<Rightarrow> redb \<Rightarrow> redb" where
  "remove_all_metadata kid io keys db = foldl (\<lambda>db k. remove_hosting_metadata (io k) (kid k) db) db keys"

text \<open>\<open>now\<close> is the monotonic clock of the cache, \<open>now_ms\<close> the wall clock of the persisted record.\<close>

definition record_contract_access ::
  "('k \<Rightarrow> byte list) \<Rightarrow> ('k \<Rightarrow> byte list) \<Rightarrow> ('k \<Rightarrow> bool) \<Rightarrow> instant \<Rightarrow> nat \<Rightarrow> 'k \<Rightarrow> nat \<Rightarrow> access_type \<Rightarrow>
   ('k, 'cl, 'p) hosting_manager \<Rightarrow> 'k record_access_result \<times> ('k, 'cl, 'p) hosting_manager" where
  "record_contract_access kid kcode io now now_ms key sz kind m =
     (let (result, cache) = record_access now key sz kind (hosted m);
          metadata = \<lparr>last_access_ms = now_ms, md_access_type = access_type_u8 kind,
                      md_size_bytes = sz, md_code_hash = kcode key\<rparr>
      in (result,
          m\<lparr>hosted := cache,
            storage := map_option (\<lambda>db. remove_all_metadata kid io (evicted result)
              (store_hosting_metadata (io key) (kid key) metadata db)) (storage m)\<rparr>))"

definition is_hosting_contract :: "'k \<Rightarrow> ('k, 'cl, 'p) hosting_manager \<Rightarrow> bool" where
  "is_hosting_contract key m = contains key (hosted m)"

definition hosting_contract_keys :: "('k, 'cl, 'p) hosting_manager \<Rightarrow> 'k list" where
  "hosting_contract_keys m = hm_keys (contracts (hosted m))"

definition hosting_contract_size :: "'k \<Rightarrow> ('k, 'cl, 'p) hosting_manager \<Rightarrow> nat" where
  "hosting_contract_size key m =
     (case hm_get (contracts (hosted m)) key of Some c \<Rightarrow> size_bytes c | None \<Rightarrow> 0)"

definition hosting_contracts_count :: "('k, 'cl, 'p) hosting_manager \<Rightarrow> nat" where
  "hosting_contracts_count m = length (contracts (hosted m))"

definition remove_hosted_contract ::
  "('k \<Rightarrow> byte list) \<Rightarrow> ('k \<Rightarrow> bool) \<Rightarrow> 'k \<Rightarrow> ('k, 'cl, 'p) hosting_manager \<Rightarrow> nat \<times> ('k, 'cl, 'p) hosting_manager" where
  "remove_hosted_contract kid io key m =
     (let (bytes_freed, cache) = remove key (hosted m)
      in (bytes_freed,
          m\<lparr>hosted := cache,
            storage := (if 0 < bytes_freed
                        then map_option (remove_hosting_metadata (io key) (kid key)) (storage m)
                        else storage m)\<rparr>))"

definition is_receiving_updates ::
  "('k \<Rightarrow> byte list) \<Rightarrow> instant \<Rightarrow> 'k \<Rightarrow> ('k, 'cl, 'p) hosting_manager \<Rightarrow> bool" where
  "is_receiving_updates kid now contract m \<longleftrightarrow>
     is_subscribed now contract m \<or> has_client_subscriptions (kid contract) m"

definition touch_hosting :: "instant \<Rightarrow> 'k \<Rightarrow> ('k, 'cl, 'p) hosting_manager \<Rightarrow> ('k, 'cl, 'p) hosting_manager" where
  "touch_hosting now key m = m\<lparr>hosted := touch now key (hosted m)\<rparr>"

definition sweep_expired_hosting ::
  "('k \<Rightarrow> byte list) \<Rightarrow> ('k \<Rightarrow> bool) \<Rightarrow> instant \<Rightarrow> ('k, 'cl, 'p) hosting_manager \<Rightarrow>
   'k list \<times> ('k, 'cl, 'p) hosting_manager" where
  "sweep_expired_hosting kid io now m =
     (let (expired, cache) = sweep_expired now
            (\<lambda>key. has_client_subscriptions (kid key) m \<or> has_downstream_subscribers key m) (hosted m)
      in (expired,
          m\<lparr>hosted := cache,
            storage := (if expired \<noteq> [] then map_option (remove_all_metadata kid io expired) (storage m)
                        else storage m)\<rparr>))"

section \<open>Subscription requests\<close>

definition can_request_subscription :: "instant \<Rightarrow> 'k \<Rightarrow> ('k, 'cl, 'p) hosting_manager \<Rightarrow> bool" where
  "can_request_subscription now contract m =
     (if contract \<in> pending_subscription_requests m then False
      else \<not> is_in_backoff contract now (subscription_backoff m))"

definition mark_subscription_pending ::
  "'k \<Rightarrow> ('k, 'cl, 'p) hosting_manager \<Rightarrow> bool \<times> ('k, 'cl, 'p) hosting_manager" where
  "mark_subscription_pending contract m =
     (if contract \<in> pending_subscription_requests m then (False, m)
      else (True, m\<lparr>pending_subscription_requests := insert contract (pending_subscription_requests m)\<rparr>))"

definition complete_subscription_request ::
  "instant \<Rightarrow> rat \<Rightarrow> 'k \<Rightarrow> bool \<Rightarrow> ('k, 'cl, 'p) hosting_manager \<Rightarrow> ('k, 'cl, 'p) hosting_manager" where
  "complete_subscription_request now jitter contract success m =
     m\<lparr>pending_subscription_requests := pending_subscription_requests m - {contract},
       subscription_backoff :=
         (if success then record_success contract (subscription_backoff m)
          else record_failure contract now jitter (subscription_backoff m))\<rparr>"

definition get_subscription_states ::
  "('k \<Rightarrow> byte list) \<Rightarrow> instant \<Rightarrow> ('k, 'cl, 'p) hosting_manager \<Rightarrow> ('k \<times> bool \<times> bool \<times> instant option) list" where
  "get_subscription_states kid now m =
     sort_key (\<lambda>(k, _). kid k)
       (map (\<lambda>(k, e). (k, has_client_subscriptions (kid k) m, now < e, Some e)) (active_subscriptions m))"

text \<open>
  \<open>contracts_needing_renewal\<close>: the set is collected as a list without repetitions, whose order
  before the final sort by id stands for the order in which the hash set is drained.
\<close>

definition expiring_soon :: "instant \<Rightarrow> ('k, 'cl, 'p) hosting_manager \<Rightarrow> 'k list" where
  "expiring_soon now m =
     map fst (filter (\<lambda>(_, e). e \<le> now + int SUBSCRIPTION_RENEWAL_INTERVAL \<and> now < e) (active_subscriptions m))"

definition has_active :: "('k \<Rightarrow> byte list) \<Rightarrow> instant \<Rightarrow> byte list \<Rightarrow> ('k, 'cl, 'p) hosting_manager \<Rightarrow> bool" where
  "has_active kid now instance_id m =
     list_ex (\<lambda>(k, e). kid k = instance_id \<and> now < e) (active_subscriptions m)"

definition client_contracts :: "('k \<Rightarrow> byte list) \<Rightarrow> instant \<Rightarrow> ('k, 'cl, 'p) hosting_manager \<Rightarrow> 'k list" where
  "client_contracts kid now m =
     List.map_filter (\<lambda>instance_id.
         if has_active kid now instance_id m then None
         else find (\<lambda>k. kid k = instance_id) (hm_keys (contracts (hosted m))))
       (sort (hm_keys (client_subscriptions m)))"

definition contracts_needing_renewal ::
  "('k \<Rightarrow> byte list) \<Rightarrow> instant \<Rightarrow> ('k, 'cl, 'p) hosting_manager \<Rightarrow> 'k list" where
  "contracts_needing_renewal kid now m =
     sort_key kid (remdups (sort_key kid (expiring_soon now m) @ client_contracts kid now m))"

section \<open>Storing states and restarting\<close>

text \<open>\<open>StateStorage::store\<close> of the database: the state and a metadata row in one transaction.\<close>

definition store_state :: "bool \<Rightarrow> nat \<Rightarrow> byte list \<Rightarrow> byte list \<Rightarrow> byte list \<Rightarrow> redb \<Rightarrow> redb" where
  "store_state ok now_ms key code_hash st db =
     (if ok
      then db\<lparr>STATE_TABLE := hm_put key st (STATE_TABLE db),
             HOSTING_METADATA_TABLE := hm_put key
               (to_bytes \<lparr>last_access_ms = now_ms, md_access_type = 1, md_size_bytes = length st,
                          md_code_hash = code_hash\<rparr>) (HOSTING_METADATA_TABLE db)\<rparr>
      else db)"

text \<open>Whether the calls of the database succeed while the cache is loaded.\<close>

record 'k load_io =
  metadata_ok :: bool
  state_keys_ok :: bool
  state_size_ok :: "'k \<Rightarrow> bool"
  write_ok :: "'k \<Rightarrow> bool"

definition persisted_entries ::
  "(byte list \<Rightarrow> byte list \<Rightarrow> 'k) \<Rightarrow> nat \<Rightarrow> (byte list \<times> hosting_metadata) list \<Rightarrow> ('k \<times> nat \<times> access_type \<times> duration) list" where
  "persisted_entries mk now_ms es =
     map (\<lambda>(key_bytes, md). (mk key_bytes (md_code_hash md), md_size_bytes md, access_type_of (md_access_type md),
            millis (now_ms - last_access_ms md)))
       (filter (\<lambda>(key_bytes, _). length key_bytes = 32) es)"

definition loaded_instance_ids :: "(byte list \<times> hosting_metadata) list \<Rightarrow> byte list set" where
  "loaded_instance_ids es = fst ` set (filter (\<lambda>(key_bytes, _). length key_bytes = 32) es)"

text \<open>The migration loop over the states that have no metadata.\<close>

fun migrate_legacy ::
  "(byte list \<Rightarrow> byte list \<Rightarrow> 'k) \<Rightarrow> (byte list \<Rightarrow> byte list option) \<Rightarrow> 'k load_io \<Rightarrow> instant \<Rightarrow> nat \<Rightarrow> byte list set \<Rightarrow>
   byte list list \<Rightarrow> nat \<Rightarrow> redb \<Rightarrow> 'k hosting_cache \<Rightarrow> nat \<times> redb \<times> 'k hosting_cache" where
  "migrate_legacy mk code_hash_lookup io now now_ms ids [] n db c = (n, db, c)"
| "migrate_legacy mk code_hash_lookup io now now_ms ids (key_bytes # ks) n db c =
     (if length key_bytes \<noteq> 32 \<or> key_bytes \<in> ids
      then migrate_legacy mk code_hash_lookup io now now_ms ids ks n db c
      else case code_hash_lookup key_bytes of
        None \<Rightarrow> migrate_legacy mk code_hash_lookup io now now_ms ids ks n db c
      | Some code_hash \<Rightarrow>
          (let key = mk key_bytes code_hash;
               sz = (if state_size_ok io key
                     then (case get_state_size key_bytes db of Some s \<Rightarrow> s | None \<Rightarrow> 0) else 0);
               md = \<lparr>last_access_ms = now_ms, md_access_type = 0, md_size_bytes = sz, md_code_hash = code_hash\<rparr>
           in migrate_legacy mk code_hash_lookup io now now_ms ids ks (n + 1)
                (store_hosting_metadata (write_ok io key) key_bytes md db)
                (load_persisted_entry now key sz Get 0 c)))"

definition load_from_storage ::
  "(byte list \<Rightarrow> byte list \<Rightarrow> 'k) \<Rightarrow> (byte list \<Rightarrow> byte list option) \<Rightarrow> 'k load_io \<Rightarrow> instant \<Rightarrow> nat \<Rightarrow> redb \<Rightarrow>
   ('k, 'cl, 'p) hosting_manager \<Rightarrow> (nat \<times> redb \<times> ('k, 'cl, 'p) hosting_manager) option" where
  "load_from_storage mk code_hash_lookup io now now_ms db m =
     (if \<not> metadata_ok io then None
      else
        (let metadata_entries = load_all_hosting_metadata db;
             es = persisted_entries mk now_ms metadata_entries;
             state_keys = (if state_keys_ok io then iter_all_state_keys db else []);
             (migrated, db', cache) =
               migrate_legacy mk code_hash_lookup io now now_ms (loaded_instance_ids metadata_entries)
                 state_keys 0 db (load_all now es (hosted m))
         in Some (length es + migrated, db', m\<lparr>hosted := finalize_loading cache\<rparr>)))"

section \<open>Calls and runs\<close>

datatype ('k, 'cl, 'p) manager_call =
  Subscribe_call 'k
| Renew_call 'k
| Unsubscribe_call 'k
| Force_renewal_call 'k
| Expire_subscriptions_call
| Add_client_call "byte list" 'cl
| Remove_client_call "byte list" 'cl
| Disconnect_call 'cl
| Add_downstream_call 'k 'p
| Renew_downstream_call 'k 'p
| Remove_downstream_call 'k 'p
| Expire_downstream_call
| Access_call nat 'k nat access_type
| Remove_hosted_call 'k
| Touch_call 'k
| Sweep_call
| Mark_pending_call 'k
| Complete_call 'k bool rat
| Store_call nat 'k "byte list"

text \<open>
  \<open>Store_call\<close> is the executor storing a state in the database that the manager shares; the
  other calls are the manager's.  \<open>io\<close> says which writes to the database succeed.
\<close>

fun manager_do ::
  "('k \<Rightarrow> byte list) \<Rightarrow> ('k \<Rightarrow> byte list) \<Rightarrow> ('k \<Rightarrow> bool) \<Rightarrow> instant \<Rightarrow> ('k, 'cl, 'p) manager_call \<Rightarrow>
   ('k, 'cl, 'p) hosting_manager \<Rightarrow> ('k, 'cl, 'p) hosting_manager" where
  "manager_do kid kcode io now (Subscribe_call k) m = snd (subscribe now k m)"
| "manager_do kid kcode io now (Renew_call k) m = snd (renew_subscription now k m)"
| "manager_do kid kcode io now (Unsubscribe_call k) m = unsubscribe k m"
| "manager_do kid kcode io now (Force_renewal_call k) m = force_subscription_renewal k m"
| "manager_do kid kcode io now Expire_subscriptions_call m = snd (expire_stale_subscriptions now m)"
| "manager_do kid kcode io now (Add_client_call i cl) m = snd (add_client_subscription i cl m)"
| "manager_do kid kcode io now (Remove_client_call i cl) m = snd (remove_client_subscription i cl m)"
| "manager_do kid kcode io now (Disconnect_call cl) m = snd (remove_client_from_all_subscriptions kid cl m)"
| "manager_do kid kcode io now (Add_downstream_call k p) m = snd (add_downstream_subscriber now k p m)"
| "manager_do kid kcode io now (Renew_downstream_call k p) m = snd (renew_downstream_subscriber now k p m)"
| "manager_do kid kcode io now (Remove_downstream_call k p) m = snd (remove_downstream_subscriber k p m)"
| "manager_do kid kcode io now Expire_downstream_call m = snd (expire_stale_downstream_subscribers now m)"
| "manager_do kid kcode io now (Access_call ms k sz kind) m =
     snd (record_contract_access kid kcode io now ms k sz kind m)"
| "manager_do kid kcode io now (Remove_hosted_call k) m = snd (remove_hosted_contract kid io k m)"
| "manager_do kid kcode io now (Touch_call k) m = touch_hosting now k m"
| "manager_do kid kcode io now Sweep_call m = snd (sweep_expired_hosting kid io now m)"
| "manager_do kid kcode io now (Mark_pending_call k) m = snd (mark_subscription_pending k m)"
| "manager_do kid kcode io now (Complete_call k ok j) m = complete_subscription_request now j k ok m"
| "manager_do kid kcode io now (Store_call ms k st) m =
     m\<lparr>storage := map_option (store_state (io k) ms (kid k) (kcode k) st) (storage m)\<rparr>"

text \<open>Sizes of hosted contracts add up to less than \<open>2 ^ 64\<close> bytes.\<close>

fun call_fits :: "('k, 'cl, 'p) manager_call \<Rightarrow> ('k, 'cl, 'p) hosting_manager \<Rightarrow> bool" where
  "call_fits (Access_call ms k sz kind) m \<longleftrightarrow> current_bytes (hosted m) + sz \<le> u64_max"
| "call_fits (Store_call ms k st) m \<longleftrightarrow> length st \<le> u64_max"
| "call_fits _ m \<longleftrightarrow> True"

text \<open>Runs from the start of a node whose database is \<open>db\<close>; the clock does not go back.\<close>

inductive manager_reachable ::
  "('k \<Rightarrow> byte list) \<Rightarrow> ('k \<Rightarrow> byte list) \<Rightarrow> ('k \<Rightarrow> bool) \<Rightarrow> redb \<Rightarrow> instant \<Rightarrow> ('k, 'cl, 'p) hosting_manager \<Rightarrow> bool"
  for kid kcode io db where
  start: "manager_reachable kid kcode io db t (set_storage db new_hosting_manager)"
| call: "manager_reachable kid kcode io db t m \<Longrightarrow> t \<le> now \<Longrightarrow> call_fits c m \<Longrightarrow>
     manager_reachable kid kcode io db now (manager_do kid kcode io now c m)"

section \<open>The invariant\<close>

definition peers_inv :: "instant \<Rightarrow> ('p, instant) hmap \<Rightarrow> bool" where
  "peers_inv now ps \<longleftrightarrow> hm_wf ps \<and> ps \<noteq> [] \<and> length ps \<le> MAX_DOWNSTREAM_SUBSCRIBERS_PER_CONTRACT
     \<and> hm_all (\<lambda>t. t \<le> now) ps"

definition tables_inv ::
  "instant \<Rightarrow> ('k, instant) hmap \<Rightarrow> (byte list, 'cl set) hmap \<Rightarrow> ('k, ('p, instant) hmap) hmap \<Rightarrow> bool" where
  "tables_inv now active clients downstream \<longleftrightarrow>
     hm_wf active \<and> hm_all (\<lambda>e. e \<le> now + int SUBSCRIPTION_LEASE_DURATION) active
     \<and> hm_wf clients \<and> hm_all (\<lambda>s. s \<noteq> {}) clients
     \<and> hm_wf downstream \<and> hm_all (peers_inv now) downstream"

definition manager_inv :: "instant \<Rightarrow> ('k, 'cl, 'p) hosting_manager \<Rightarrow> bool" where
  "manager_inv now m \<longleftrightarrow>
     tables_inv now (active_subscriptions m) (client_subscriptions m) (downstream_subscribers m)
     \<and> cache_inv now (hosted m) \<and> backoff_inv (subscription_backoff m)"

lemma peers_inv_later: "peers_inv t ps \<Longrightarrow> t \<le> now \<Longrightarrow> peers_inv now ps"
  unfolding peers_inv_def by (blast intro: hm_all_mono order_trans)

lemma tables_invD:
  assumes "tables_inv now a c d"
  shows "hm_wf a" "hm_all (\<lambda>e. e \<le> now + int SUBSCRIPTION_LEASE_DURATION) a"
    "hm_wf c" "hm_all (\<lambda>s. s \<noteq> {}) c" "hm_wf d" "hm_all (peers_inv now) d"
  using assms by (auto simp: tables_inv_def)

lemma tables_inv_later: "tables_inv t a c d \<Longrightarrow> t \<le> now \<Longrightarrow> tables_inv now a c d"
  unfolding tables_inv_def by (fastforce intro: hm_all_mono peers_inv_later)

lemma manager_invD:
  assumes "manager_inv now m"
  shows "tables_inv now (active_subscriptions m) (client_subscriptions m) (downstream_subscribers m)"
    "cache_inv now (hosted m)" "backoff_inv (subscription_backoff m)"
  using assms by (auto simp: manager_inv_def)

lemma cache_inv_later: "cache_inv t c \<Longrightarrow> t \<le> now \<Longrightarrow> cache_inv now c"
  by (simp add: cache_inv_def lru_inv_later)

lemma manager_inv_later: "manager_inv t m \<Longrightarrow> t \<le> now \<Longrightarrow> manager_inv now m"
  by (auto simp: manager_inv_def intro: tables_inv_later cache_inv_later)

subsection \<open>Leases and clients\<close>

lemma tables_put_active:
  "tables_inv now a c d \<Longrightarrow> e \<le> now + int SUBSCRIPTION_LEASE_DURATION \<Longrightarrow> tables_inv now (hm_put k e a) c d"
  by (simp add: tables_inv_def hm_all_put)

lemma tables_del_active: "tables_inv now a c d \<Longrightarrow> tables_inv now (hm_del k a) c d"
  by (simp add: tables_inv_def hm_all_del)

lemma tables_retain_active: "tables_inv now a c d \<Longrightarrow> tables_inv now (hm_retain P a) c d"
  by (simp add: tables_inv_def hm_all_retain)

lemma tables_put_client: "tables_inv now a c d \<Longrightarrow> s \<noteq> {} \<Longrightarrow> tables_inv now a (hm_put i s c) d"
  by (simp add: tables_inv_def hm_all_put)

lemma tables_del_client: "tables_inv now a c d \<Longrightarrow> tables_inv now a (hm_del i c) d"
  by (simp add: tables_inv_def hm_all_del)

lemmas lease_defs = subscribe_def renew_subscription_def unsubscribe_def force_subscription_renewal_def
  expire_stale_subscriptions_def

lemma lease_calls_inv:
  assumes "manager_inv now m"
  shows "manager_inv now (snd (subscribe now k m))"
    "manager_inv now (snd (renew_subscription now k m))"
    "manager_inv now (unsubscribe k m)"
    "manager_inv now (force_subscription_renewal k m)"
    "manager_inv now (snd (expire_stale_subscriptions now m))"
  using assms
  by (auto simp: lease_defs Let_def manager_inv_def tables_put_active tables_del_active tables_retain_active)

lemma add_client_inv: "manager_inv now m \<Longrightarrow> manager_inv now (snd (add_client_subscription i cl m))"
  by (auto simp: add_client_subscription_def Let_def manager_inv_def tables_put_client)

lemma remove_client_inv: "manager_inv now m \<Longrightarrow> manager_inv now (snd (remove_client_subscription i cl m))"
  by (auto simp: remove_client_subscription_def Let_def manager_inv_def tables_put_client tables_del_client
    split: option.splits)

lemma disconnect_inv:
  "manager_inv now m \<Longrightarrow> manager_inv now (snd (remove_client_from_all_subscriptions kid cl m))"
  unfolding remove_client_from_all_subscriptions_def
  by (rule foldl_keeps [where I = "\<lambda>s. manager_inv now (snd s)"])
     (auto simp: Let_def remove_client_inv split: option.split)

subsection \<open>Downstream subscribers\<close>

lemma tables_put_down:
  "tables_inv now a c d \<Longrightarrow> peers_inv now ps \<Longrightarrow> tables_inv now a c (hm_put k ps d)"
  by (simp add: tables_inv_def hm_all_put)

lemma tables_del_down: "tables_inv now a c d \<Longrightarrow> tables_inv now a c (hm_del k d)"
  by (simp add: tables_inv_def hm_all_del)

lemma hm_put_not_Nil [simp]: "hm_put k v m \<noteq> []"
  by (cases m) auto

lemma peers_inv_put:
  "peers_inv now ps \<Longrightarrow> hm_has p ps \<or> length ps < MAX_DOWNSTREAM_SUBSCRIBERS_PER_CONTRACT \<Longrightarrow>
   peers_inv now (hm_put p now ps)"
  by (auto simp: peers_inv_def hm_length_put)

lemma peers_inv_single: "peers_inv now [(p, now)]"
  by (simp add: peers_inv_def hm_all_def MAX_DOWNSTREAM_SUBSCRIBERS_PER_CONTRACT_def)

lemma peers_inv_retain: "peers_inv now ps \<Longrightarrow> hm_retain P ps \<noteq> [] \<Longrightarrow> peers_inv now (hm_retain P ps)"
  using hm_length_retain [of P ps] by (auto simp: peers_inv_def)

lemma peers_inv_del: "peers_inv now ps \<Longrightarrow> hm_del p ps \<noteq> [] \<Longrightarrow> peers_inv now (hm_del p ps)"
  using AList.length_delete_le [of p ps] by (auto simp: peers_inv_def)

lemma downstream_known:
  "manager_inv now m \<Longrightarrow> hm_get (downstream_subscribers m) k = Some ps \<Longrightarrow> peers_inv now ps"
  by (drule manager_invD(1)) (erule hm_all_get [OF tables_invD(6)])

lemma add_downstream_inv: "manager_inv now m \<Longrightarrow> manager_inv now (snd (add_downstream_subscriber now k p m))"
proof (cases "hm_get (downstream_subscribers m) k")
  case None
  assume "manager_inv now m"
  then show ?thesis using None
    by (simp add: add_downstream_subscriber_def manager_inv_def tables_put_down peers_inv_single
      hm_has_def MAX_DOWNSTREAM_SUBSCRIBERS_PER_CONTRACT_def)
next
  case (Some ps)
  assume inv: "manager_inv now m"
  then have "peers_inv now ps" using Some by (rule downstream_known)
  then show ?thesis using Some inv
    by (auto simp: add_downstream_subscriber_def Let_def manager_inv_def not_le intro!: tables_put_down peers_inv_put)
qed

lemma renew_downstream_inv: "manager_inv now m \<Longrightarrow> manager_inv now (snd (renew_downstream_subscriber now k p m))"
  using downstream_known [of now m k]
  by (auto simp: renew_downstream_subscriber_def manager_inv_def intro!: tables_put_down peers_inv_put
    split: option.split)

lemma remove_downstream_inv: "manager_inv now m \<Longrightarrow> manager_inv now (snd (remove_downstream_subscriber k p m))"
  using downstream_known [of now m k]
  by (auto simp: remove_downstream_subscriber_def manager_inv_def intro!: tables_put_down tables_del_down peers_inv_del
    split: option.split)

lemma expire_downstream_key_inv:
  "tables_inv now a c (snd s) \<Longrightarrow> tables_inv now a c (snd (expire_downstream_key now s k))"
  using hm_all_get [OF tables_invD(6), of now a c "snd s" k]
  by (auto simp: expire_downstream_key_def Let_def intro!: tables_put_down tables_del_down peers_inv_retain
    split: prod.splits option.splits)

lemma expire_downstream_inv:
  assumes "manager_inv now m"
  shows "manager_inv now (snd (expire_stale_downstream_subscribers now m))"
proof -
  have "tables_inv now (active_subscriptions m) (client_subscriptions m)
      (snd (foldl (expire_downstream_key now) ([], downstream_subscribers m) (map fst (downstream_subscribers m))))"
    by (rule foldl_keeps [where I = "\<lambda>s. tables_inv now (active_subscriptions m) (client_subscriptions m) (snd s)"])
       (simp_all add: manager_invD(1) [OF assms] expire_downstream_key_inv)
  then show ?thesis using assms
    by (simp add: expire_stale_downstream_subscribers_def manager_inv_def Let_def split_beta)
qed

subsection \<open>All calls\<close>

lemma access_inv:
  "manager_inv now m \<Longrightarrow> current_bytes (hosted m) + sz \<le> u64_max \<Longrightarrow>
   manager_inv now (snd (record_contract_access kid kcode io now ms k sz kind m))"
  using record_access_inv [of now "hosted m" now sz k kind]
  by (simp add: record_contract_access_def manager_inv_def Let_def split_beta)

lemma remove_hosted_inv: "manager_inv now m \<Longrightarrow> manager_inv now (snd (remove_hosted_contract kid io k m))"
  using remove_inv [of now "hosted m" k]
  by (simp add: remove_hosted_contract_def manager_inv_def Let_def split_beta)

lemma sweep_hosting_inv: "manager_inv now m \<Longrightarrow> manager_inv now (snd (sweep_expired_hosting kid io now m))"
  using sweep_inv [of now "hosted m" now]
  by (simp add: sweep_expired_hosting_def Let_def manager_inv_def split_beta)

lemma complete_inv: "manager_inv now m \<Longrightarrow> manager_inv now (complete_subscription_request now j k ok m)"
  by (simp add: complete_subscription_request_def manager_inv_def record_success_inv record_failure_inv)

lemma manager_do_inv:
  assumes "manager_inv t m" "t \<le> now" "call_fits c m"
  shows "manager_inv now (manager_do kid kcode io now c m)"
proof -
  have inv: "manager_inv now m" using assms by (blast intro: manager_inv_later)
  show ?thesis using assms(3)
    by (cases c)
      (simp_all add: inv lease_calls_inv add_client_inv remove_client_inv disconnect_inv add_downstream_inv
        renew_downstream_inv remove_downstream_inv expire_downstream_inv access_inv remove_hosted_inv
        sweep_hosting_inv complete_inv,
       use inv in \<open>auto simp: manager_inv_def touch_hosting_def touch_inv mark_subscription_pending_def\<close>)
qed

lemma new_manager_inv: "manager_inv now (set_storage db new_hosting_manager)"
  by (simp add: manager_inv_def tables_inv_def set_storage_def new_hosting_manager_def new_hosting_cache_inv
    new_tracked_backoff_inv)

lemma manager_reachable_inv: "manager_reachable kid kcode io db now m \<Longrightarrow> manager_inv now m"
  by (induction rule: manager_reachable.induct) (blast intro: new_manager_inv manager_do_inv)+

section \<open>What a sweep keeps\<close>

lemma sweep_keeps:
  assumes "cache_inv t c" "R k"
  shows "hm_get (contracts (snd (sweep_expired now R c))) k = hm_get (contracts c) k"
proof -
  obtain kept m bytes ev where run: "sweep_loop now (min_ttl c) (budget_bytes c) R (lru_order c)
      (contracts c) (current_bytes c) = (kept, m, bytes, ev)"
    by (metis prod_cases4)
  have "lru_inv t ([] @ lru_order c) (contracts c) (current_bytes c)" using assms(1) by (simp add: cache_inv_def)
  from sweep_loop_spec [OF this run] show ?thesis using assms(2) by (auto simp: sweep_expired_def run)
qed

lemma sweep_hosting_keeps:
  assumes "manager_inv t m" "has_client_subscriptions (kid k) m \<or> has_downstream_subscribers k m"
  shows "is_hosting_contract k (snd (sweep_expired_hosting kid io now m)) = is_hosting_contract k m"
  using sweep_keeps [OF manager_invD(2) [OF assms(1)],
      of "\<lambda>key. has_client_subscriptions (kid key) m \<or> has_downstream_subscribers key m" k now] assms(2)
  by (simp add: sweep_expired_hosting_def Let_def split_beta is_hosting_contract_def contains_def hm_has_def)



section \<open>Which contracts are renewed\<close>

lemma set_expiring_soon:
  assumes "hm_wf (active_subscriptions m)"
  shows "k \<in> set (expiring_soon now m) \<longleftrightarrow>
    (\<exists>e. hm_get (active_subscriptions m) k = Some e \<and> now < e \<and> e \<le> now + int SUBSCRIPTION_RENEWAL_INTERVAL)"
  using hm_get_in_set [OF assms] by (force simp: expiring_soon_def)

lemma has_active_subscribed:
  assumes "inj kid" "hm_wf (active_subscriptions m)"
  shows "has_active kid now (kid k) m \<longleftrightarrow> is_subscribed now k m"
proof -
  have "has_active kid now (kid k) m \<longleftrightarrow> (\<exists>e. hm_get (active_subscriptions m) k = Some e \<and> now < e)"
    by (auto simp: has_active_def list_ex_iff hm_get_in_set [OF assms(2)] inj_eq [OF assms(1)])
  then show ?thesis by (simp add: is_subscribed_def split: option.split)
qed

lemma set_client_contracts:
  assumes "inj kid" "hm_wf (active_subscriptions m)"
  shows "k \<in> set (client_contracts kid now m) \<longleftrightarrow>
    hm_has (kid k) (client_subscriptions m) \<and> \<not> is_subscribed now k m \<and> is_hosting_contract k m"
proof -
  have found: "find (\<lambda>k. kid k = i) ks = Some k \<Longrightarrow> kid k = i" for i ks
    by (auto simp: find_Some_iff)
  have "k \<in> set (client_contracts kid now m) \<longleftrightarrow> (\<exists>i. hm_has i (client_subscriptions m) \<and> \<not> has_active kid now i m
      \<and> find (\<lambda>k. kid k = i) (hm_keys (contracts (hosted m))) = Some k)"
    by (auto simp: client_contracts_def set_map_filter hm_has_iff)
  also have "\<dots> \<longleftrightarrow> hm_has (kid k) (client_subscriptions m) \<and> \<not> has_active kid now (kid k) m
      \<and> find (\<lambda>k'. kid k' = kid k) (hm_keys (contracts (hosted m))) = Some k"
    using found by blast
  finally show ?thesis
    by (simp add: find_key [OF assms(1)] has_active_subscribed [OF assms] is_hosting_contract_def contains_def hm_has_iff)
qed

text \<open>
  In every reachable state, and with instance ids that identify contracts, the renewal list
  holds exactly the contracts whose lease ends within the renewal interval and the hosted
  contracts of clients that have no running lease, each once and in the order of their ids.  A
  contract that clients subscribed to but that is no longer hosted is not renewed.
\<close>

theorem renewal_exact:
  fixes m :: "('k, 'cl, 'p) hosting_manager"
  assumes "manager_reachable kid kcode io db t m" "inj kid"
  shows "(k \<in> set (contracts_needing_renewal kid now m) \<longleftrightarrow>
       (\<exists>e. hm_get (active_subscriptions m) k = Some e \<and> now < e \<and> e \<le> now + int SUBSCRIPTION_RENEWAL_INTERVAL)
       \<or> has_client_subscriptions (kid k) m \<and> \<not> is_subscribed now k m \<and> is_hosting_contract k m)
    \<and> distinct (contracts_needing_renewal kid now m)
    \<and> sorted (map kid (contracts_needing_renewal kid now m))"
proof -
  have inv: "manager_inv t m" using assms(1) by (rule manager_reachable_inv)
  note tables = tables_invD [OF manager_invD(1) [OF inv]]
  have "hm_has (kid k) (client_subscriptions m) \<longleftrightarrow> has_client_subscriptions (kid k) m"
    using hm_all_get [OF tables(4)] by (auto simp: has_client_subscriptions_def hm_has_def split: option.split)
  then show ?thesis
    by (simp add: contracts_needing_renewal_def set_expiring_soon [OF tables(1)] set_client_contracts [OF assms(2) tables(1)])
qed

theorem renewal_exact_witness:
  "\<exists>m :: (bool, nat, nat) hosting_manager.
     has_client_subscriptions [0] m \<and> \<not> is_hosting_contract False m
     \<and> False \<notin> set (contracts_needing_renewal (\<lambda>b. [if b then 1 else 0]) 9 m)"
proof (intro exI conjI)
  let ?db = "\<lparr>HOSTING_METADATA_TABLE = [], STATE_TABLE = []\<rparr>"
  let ?kid = "\<lambda>b. [if b then 1 else 0 :: byte]"
  let ?m = "manager_do ?kid (\<lambda>k. []) (\<lambda>_. True) 7 (Add_client_call [0] 4) (set_storage ?db new_hosting_manager)
    :: (bool, nat, nat) hosting_manager"
  have run: "manager_reachable ?kid (\<lambda>k. []) (\<lambda>_. True) ?db 7 ?m"
    by (rule manager_reachable.call [OF manager_reachable.start [of _ _ _ _ 7]]) simp_all
  show "has_client_subscriptions [0] ?m"
    by (simp add: add_client_subscription_def set_storage_def new_hosting_manager_def has_client_subscriptions_def)
  show hosting: "\<not> is_hosting_contract False ?m"
    by (simp add: add_client_subscription_def set_storage_def new_hosting_manager_def is_hosting_contract_def
      contains_def hm_has_def new_hosting_cache_def)
  have "hm_get (active_subscriptions ?m) False = None"
    by (simp add: add_client_subscription_def set_storage_def new_hosting_manager_def)
  then show "False \<notin> set (contracts_needing_renewal ?kid 9 ?m)"
    using renewal_exact [OF run, of False 9] hosting by (simp add: inj_def)
qed

end
