(* ===== verification/Hosting_Restart.thy ===== *)
theory Hosting_Restart
  imports Hosting_Manager
begin

text \<open>
  What the hosting manager persists and what a restart makes of it: the metadata row of every
  hosted contract is in the database and reads back, and loading the cache from the database
  hosts all of them again, together with every contract whose state the database still has.
\<close>

section \<open>Metadata rows\<close>

lemma to_bytes_length: "length (md_code_hash md) = 32 \<Longrightarrow> length (to_bytes md) = 49"
  by (simp add: to_bytes_def)

lemma metadata_round_trip:
  assumes "length (md_code_hash md) = 32" "last_access_ms md \<le> u64_max" "md_size_bytes md \<le> u64_max"
  shows "from_bytes (to_bytes md) = Some md"
proof -
  have le8: "of_le_bytes (le_bytes 8 n) = n" if "n \<le> u64_max" for n
    using that by (simp add: of_le_bytes_le_bytes u64_max_def)
  show ?thesis using assms
    by (simp add: from_bytes_def to_bytes_length, simp add: to_bytes_def nth_append le8)
qed

lemma metadata_code:
  assumes "length (md_code_hash md) = 32"
  shows "\<exists>md'. from_bytes (to_bytes md) = Some md' \<and> md_code_hash md' = md_code_hash md"
  using assms by (simp add: from_bytes_def to_bytes_length, simp add: to_bytes_def)

lemma access_type_round_trip: "access_type_of (access_type_u8 kind) = kind"
  by (cases kind) (simp_all add: access_type_of_def)

section \<open>Rows and hosted contracts\<close>

text \<open>What the contract library promises of its keys: ids and code hashes have 32 bytes, ids identify contracts.\<close>

definition key_ok :: "('k \<Rightarrow> byte list) \<Rightarrow> ('k \<Rightarrow> byte list) \<Rightarrow> (byte list \<Rightarrow> byte list \<Rightarrow> 'k) \<Rightarrow> bool" where
  "key_ok kid kcode mk \<longleftrightarrow>
     inj kid \<and> (\<forall>k. length (kid k) = 32 \<and> length (kcode k) = 32 \<and> mk (kid k) (kcode k) = k)"

definition row_ok :: "('k \<Rightarrow> byte list) \<Rightarrow> ('k \<Rightarrow> byte list) \<Rightarrow> byte list \<Rightarrow> byte list \<Rightarrow> bool" where
  "row_ok kid kcode i b \<longleftrightarrow> (\<exists>k md. i = kid k \<and> from_bytes b = Some md \<and> md_code_hash md = kcode k)"

definition rows_ok :: "('k \<Rightarrow> byte list) \<Rightarrow> ('k \<Rightarrow> byte list) \<Rightarrow> redb \<Rightarrow> bool" where
  "rows_ok kid kcode db \<longleftrightarrow> hm_wf (HOSTING_METADATA_TABLE db) \<and>
     (\<forall>i b. hm_get (HOSTING_METADATA_TABLE db) i = Some b \<longrightarrow> row_ok kid kcode i b)"

definition synced :: "('k \<Rightarrow> byte list) \<Rightarrow> redb \<Rightarrow> 'k hosting_cache \<Rightarrow> bool" where
  "synced kid db c \<longleftrightarrow> (\<forall>k. contains k c \<longrightarrow> hm_has (kid k) (HOSTING_METADATA_TABLE db))"

lemma row_ok_code:
  assumes "key_ok kid kcode mk" "row_ok kid kcode (kid k) b"
  shows "\<exists>md. from_bytes b = Some md \<and> md_code_hash md = kcode k"
  using assms by (auto simp: row_ok_def key_ok_def inj_eq)

lemma store_rows_ok:
  assumes "key_ok kid kcode mk" "rows_ok kid kcode db" "md_code_hash md = kcode k"
  shows "rows_ok kid kcode (store_hosting_metadata ok (kid k) md db)"
proof -
  have "row_ok kid kcode (kid k) (to_bytes md)"
    using metadata_code [of md] assms(1,3) by (auto simp: row_ok_def key_ok_def)
  then show ?thesis using assms(2) by (auto simp: rows_ok_def store_hosting_metadata_def hm_simps)
qed

lemma remove_rows_ok: "rows_ok kid kcode db \<Longrightarrow> rows_ok kid kcode (remove_hosting_metadata ok i db)"
  by (auto simp: rows_ok_def remove_hosting_metadata_def hm_simps)

lemma remove_all_rows_ok: "rows_ok kid kcode db \<Longrightarrow> rows_ok kid kcode (remove_all_metadata kid io ks db)"
  unfolding remove_all_metadata_def by (rule foldl_keeps) (simp_all add: remove_rows_ok)

lemma store_state_rows_ok:
  assumes "key_ok kid kcode mk" "rows_ok kid kcode db"
  shows "rows_ok kid kcode (store_state ok ms (kid k) (kcode k) st db)"
proof (cases ok)
  case True
  let ?md = "\<lparr>last_access_ms = ms, md_access_type = 1, md_size_bytes = length st, md_code_hash = kcode k\<rparr>"
  from store_rows_ok [OF assms, of ?md k True] True show ?thesis
    by (simp add: store_state_def rows_ok_def store_hosting_metadata_def)
qed (simp add: store_state_def assms)

lemma remove_all_has:
  assumes "inj kid"
  shows "hm_has (kid k) (HOSTING_METADATA_TABLE (remove_all_metadata kid (\<lambda>_. True) ks db)) \<longleftrightarrow>
    hm_has (kid k) (HOSTING_METADATA_TABLE db) \<and> k \<notin> set ks"
  unfolding remove_all_metadata_def
  by (induction ks arbitrary: db)
     (auto simp: remove_hosting_metadata_def hm_has_def hm_simps inj_eq [OF assms])

section \<open>What the cache operations host\<close>

lemma contains_record_access:
  assumes "cache_inv t c"
  shows "contains k (snd (record_access now key sz kind c)) \<longleftrightarrow>
      k = key \<or> contains k c \<and> k \<notin> set (evicted (fst (record_access now key sz kind c)))"
    (is ?keys)
    and "key \<notin> set (evicted (fst (record_access now key sz kind c)))" (is ?fresh)
proof -
  have "?keys \<and> ?fresh"
  proof (cases "hm_get (contracts c) key")
    case None
    obtain lru m bytes ev where run: "evict_loop now (min_ttl c) (budget_bytes c) sz (lru_order c)
        (contracts c) (current_bytes c) [] = (lru, m, bytes, ev)"
      by (metis prod_cases4)
    have inv: "lru_inv t (lru_order c) (contracts c) (current_bytes c)" using assms by (simp add: cache_inv_def)
    have inv': "lru_inv t lru m bytes" using evict_loop_inv [OF inv run] by simp
    obtain gone where g: "lru_order c = gone @ lru" "ev = [] @ gone"
      "\<forall>x. x \<notin> set gone \<longrightarrow> hm_get m x = hm_get (contracts c) x"
      by (rule evict_loop_spec [OF inv run])
    have gone: "hm_get m x = None" if "x \<in> set gone" for x
      using that g(1) lru_invD(2) [OF inv] lru_invD(3) [OF inv'] hm_has_iff [of x m] by (auto simp: hm_has_def)
    have "key \<notin> set gone"
      using lru_inv_member [OF inv, of key] None g(1) by auto
    then show ?thesis
      using g(2,3) gone
      by (cases "k \<in> set gone") (auto simp: record_access_def None run contains_def hm_has_def hm_simps)
  next
    case (Some old)
    then show ?thesis by (simp add: record_access_def contains_def hm_has_def hm_simps)
  qed
  then show ?keys ?fresh by simp_all
qed

lemma contains_touch: "contains k (touch now key c) \<longleftrightarrow> contains k c"
  by (auto simp: touch_def contains_def hm_has_def hm_simps split: option.split)

lemma contains_remove: "contains k (snd (remove key c)) \<longleftrightarrow> contains k c \<and> k \<noteq> key"
  by (auto simp: remove_def contains_def hm_has_def hm_simps split: option.split)

lemma contains_sweep:
  assumes "cache_inv t c"
  shows "contains k (snd (sweep_expired now R c)) \<longleftrightarrow> contains k c \<and> k \<notin> set (fst (sweep_expired now R c))"
proof -
  obtain kept m bytes ev where run: "sweep_loop now (min_ttl c) (budget_bytes c) R (lru_order c)
      (contracts c) (current_bytes c) = (kept, m, bytes, ev)"
    by (metis prod_cases4)
  have "lru_inv t ([] @ lru_order c) (contracts c) (current_bytes c)" using assms by (simp add: cache_inv_def)
  from sweep_loop_spec [OF this run] show ?thesis
    by (simp add: sweep_expired_def run contains_def hm_has_def)
qed

section \<open>Runs keep the database in step\<close>

definition stored_inv ::
  "('k \<Rightarrow> byte list) \<Rightarrow> ('k \<Rightarrow> byte list) \<Rightarrow> ('k, 'cl, 'p) hosting_manager \<Rightarrow> bool" where
  "stored_inv kid kcode m \<longleftrightarrow>
     (\<exists>db. storage m = Some db \<and> rows_ok kid kcode db \<and> synced kid db (hosted m))"

lemma stored_invI:
  "storage m = Some db \<Longrightarrow> rows_ok kid kcode db \<Longrightarrow> synced kid db (hosted m) \<Longrightarrow> stored_inv kid kcode m"
  by (auto simp: stored_inv_def)

lemma access_stored:
  assumes key: "key_ok kid kcode mk" and inv: "cache_inv t (hosted m)" and m: "stored_inv kid kcode m"
  shows "stored_inv kid kcode (snd (record_contract_access kid kcode (\<lambda>_. True) now ms key sz kind m))"
proof -
  obtain db where db: "storage m = Some db" "rows_ok kid kcode db" "synced kid db (hosted m)"
    using m by (auto simp: stored_inv_def)
  have inj: "inj kid" using key by (simp add: key_ok_def)
  let ?md = "\<lparr>last_access_ms = ms, md_access_type = access_type_u8 kind, md_size_bytes = sz, md_code_hash = kcode key\<rparr>"
  let ?ev = "evicted (fst (record_access now key sz kind (hosted m)))"
  let ?db = "store_hosting_metadata True (kid key) ?md db"
  have "rows_ok kid kcode (remove_all_metadata kid (\<lambda>_. True) ?ev ?db)"
    using key db(2) by (intro remove_all_rows_ok store_rows_ok) simp_all
  moreover have "hm_has (kid k) (HOSTING_METADATA_TABLE ?db) \<longleftrightarrow> k = key \<or> hm_has (kid k) (HOSTING_METADATA_TABLE db)" for k
    by (simp add: store_hosting_metadata_def hm_has_def hm_simps inj_eq [OF inj])
  then have "synced kid (remove_all_metadata kid (\<lambda>_. True) ?ev ?db) (snd (record_access now key sz kind (hosted m)))"
    using db(3) by (auto simp: synced_def remove_all_has [OF inj] contains_record_access [OF inv])
  ultimately show ?thesis
    by (intro stored_invI) (simp_all add: record_contract_access_def Let_def split_beta db(1))
qed

lemma remove_hosted_stored:
  assumes "inj kid" "stored_inv kid kcode m"
  shows "stored_inv kid kcode (snd (remove_hosted_contract kid (\<lambda>_. True) key m))"
proof -
  obtain db where db: "storage m = Some db" "rows_ok kid kcode db" "synced kid db (hosted m)"
    using assms(2) by (auto simp: stored_inv_def)
  let ?db = "if 0 < fst (remove key (hosted m)) then remove_hosting_metadata True (kid key) db else db"
  have "synced kid ?db (snd (remove key (hosted m)))"
    using db(3) by (auto simp: synced_def contains_remove remove_hosting_metadata_def hm_has_def hm_simps inj_eq [OF assms(1)])
  moreover have "rows_ok kid kcode ?db" using db(2) by (simp add: remove_rows_ok)
  ultimately show ?thesis
    by (intro stored_invI [of _ ?db]) (simp_all add: remove_hosted_contract_def Let_def split_beta db(1))
qed

lemma sweep_stored:
  assumes "inj kid" "cache_inv t (hosted m)" "stored_inv kid kcode m"
  shows "stored_inv kid kcode (snd (sweep_expired_hosting kid (\<lambda>_. True) now m))"
proof -
  obtain db where db: "storage m = Some db" "rows_ok kid kcode db" "synced kid db (hosted m)"
    using assms(3) by (auto simp: stored_inv_def)
  let ?R = "\<lambda>key. has_client_subscriptions (kid key) m \<or> has_downstream_subscribers key m"
  let ?db = "remove_all_metadata kid (\<lambda>_. True) (fst (sweep_expired now ?R (hosted m))) db"
  have "synced kid ?db (snd (sweep_expired now ?R (hosted m)))"
    using db(3) by (auto simp: synced_def contains_sweep [OF assms(2)] remove_all_has [OF assms(1)])
  moreover have "rows_ok kid kcode ?db" using db(2) by (rule remove_all_rows_ok)
  ultimately show ?thesis
    by (intro stored_invI [of _ ?db])
       (simp_all add: sweep_expired_hosting_def Let_def split_beta db(1) remove_all_metadata_def)
qed

lemma store_state_stored:
  assumes "key_ok kid kcode mk" "stored_inv kid kcode m"
  shows "stored_inv kid kcode (m\<lparr>storage := map_option (store_state ok ms (kid k) (kcode k) st) (storage m)\<rparr>)"
proof -
  obtain db where db: "storage m = Some db" "rows_ok kid kcode db" "synced kid db (hosted m)"
    using assms(2) by (auto simp: stored_inv_def)
  have "synced kid (store_state ok ms (kid k) (kcode k) st db) (hosted m)"
    using db(3) by (auto simp: synced_def store_state_def hm_has_def hm_simps)
  then show ?thesis using store_state_rows_ok [OF assms(1) db(2)]
    by (intro stored_invI) (simp_all add: db(1))
qed

text \<open>The other calls touch neither the cache nor the database.\<close>

lemma remove_client_frame:
  "hosted (snd (remove_client_subscription i cl m)) = hosted m"
  "storage (snd (remove_client_subscription i cl m)) = storage m"
  by (auto simp: remove_client_subscription_def Let_def split: option.split)

lemma disconnect_frame:
  "hosted (snd (remove_client_from_all_subscriptions kid cl m)) = hosted m
   \<and> storage (snd (remove_client_from_all_subscriptions kid cl m)) = storage m"
  unfolding remove_client_from_all_subscriptions_def
  by (rule foldl_keeps [where I = "\<lambda>s. hosted (snd s) = hosted m \<and> storage (snd s) = storage m"])
     (auto simp: Let_def remove_client_frame split: option.split)

lemmas frame_defs = lease_defs add_client_subscription_def add_downstream_subscriber_def
  renew_downstream_subscriber_def remove_downstream_subscriber_def expire_stale_downstream_subscribers_def
  mark_subscription_pending_def complete_subscription_request_def

lemma stored_inv_updates:
  "stored_inv kid kcode (m\<lparr>active_subscriptions := a\<rparr>) = stored_inv kid kcode m"
  "stored_inv kid kcode (m\<lparr>client_subscriptions := c\<rparr>) = stored_inv kid kcode m"
  "stored_inv kid kcode (m\<lparr>downstream_subscribers := d\<rparr>) = stored_inv kid kcode m"
  "stored_inv kid kcode (m\<lparr>pending_subscription_requests := p\<rparr>) = stored_inv kid kcode m"
  "stored_inv kid kcode (m\<lparr>subscription_backoff := b\<rparr>) = stored_inv kid kcode m"
  by (simp_all add: stored_inv_def)

lemma client_calls_stored:
  assumes "stored_inv kid kcode m"
  shows "stored_inv kid kcode (snd (remove_client_subscription i cl m))"
    "stored_inv kid kcode (snd (remove_client_from_all_subscriptions kid' cl m))"
  using assms remove_client_frame [of i cl m] disconnect_frame [of kid' cl m]
  by (simp_all add: stored_inv_def)

lemma touch_stored: "stored_inv kid kcode m \<Longrightarrow> stored_inv kid kcode (touch_hosting now k m)"
  by (simp add: stored_inv_def touch_hosting_def synced_def contains_touch)

lemma manager_do_stored:
  assumes key: "key_ok kid kcode mk" and inv: "cache_inv t (hosted m)" and m: "stored_inv kid kcode m"
  shows "stored_inv kid kcode (manager_do kid kcode (\<lambda>_. True) now c m)"
proof -
  have inj: "inj kid" using key by (simp add: key_ok_def)
  show ?thesis
    by (cases c)
      (simp_all add: access_stored [OF key inv m] remove_hosted_stored [OF inj m] sweep_stored [OF inj inv m]
        store_state_stored [OF key m] touch_stored [OF m] client_calls_stored [OF m],
       simp_all add: frame_defs Let_def split_beta stored_inv_updates m split: option.split)
qed

lemma manager_reachable_stored:
  assumes "manager_reachable kid kcode (\<lambda>_. True) db t m" "key_ok kid kcode mk" "rows_ok kid kcode db"
  shows "stored_inv kid kcode m"
  using assms(1)
proof (induction rule: manager_reachable.induct)
  case (start t)
  show ?case
    by (rule stored_invI [of _ db])
       (simp_all add: set_storage_def assms(3) new_hosting_manager_def synced_def new_hosting_cache_def contains_def hm_has_def)
next
  case (call t m now c)
  then show ?case using manager_do_stored [OF assms(2) manager_invD(2) [OF manager_reachable_inv]] by blast
qed

section \<open>Loading\<close>

lemma contains_load_entry: "contains k (load_persisted_entry now key sz kind age c) \<longleftrightarrow> k = key \<or> contains k c"
  by (auto simp: load_persisted_entry_def contains_def hm_has_def hm_simps)

lemma contains_load_all: "contains k (load_all now es c) \<longleftrightarrow> contains k c \<or> k \<in> fst ` set es"
  by (induction now es c rule: load_all.induct) (auto simp: contains_load_entry)

lemma contains_finalize: "contains k (finalize_loading c) \<longleftrightarrow> contains k c"
  by (simp add: finalize_loading_def contains_def)

lemma contains_migrate:
  "migrate_legacy mk lookup io now ms ids ks n db c = (n', db', c') \<Longrightarrow>
   contains k c' \<longleftrightarrow> contains k c \<or>
     (\<exists>i \<in> set ks. length i = 32 \<and> i \<notin> ids \<and> (\<exists>h. lookup i = Some h \<and> k = mk i h))"
  by (induction mk lookup io now ms ids ks n db c rule: migrate_legacy.induct)
     (auto simp: contains_load_entry Let_def split: if_splits option.splits)

lemma loaded_metadata:
  assumes "hm_wf (HOSTING_METADATA_TABLE db)"
  shows "(i, md) \<in> set (load_all_hosting_metadata db) \<longleftrightarrow>
    (\<exists>b. hm_get (HOSTING_METADATA_TABLE db) i = Some b \<and> from_bytes b = Some md)"
  by (force simp: load_all_hosting_metadata_def set_map_filter hm_get_in_set [OF assms])

lemma row_loaded:
  assumes "key_ok kid kcode mk" "rows_ok kid kcode db" "hm_has (kid k) (HOSTING_METADATA_TABLE db)"
  shows "k \<in> fst ` set (persisted_entries mk ms (load_all_hosting_metadata db))"
proof -
  obtain b where b: "hm_get (HOSTING_METADATA_TABLE db) (kid k) = Some b" using assms(3) by (auto simp: hm_has_def)
  then have "row_ok kid kcode (kid k) b" and wf: "hm_wf (HOSTING_METADATA_TABLE db)"
    using assms(2) by (auto simp: rows_ok_def)
  from row_ok_code [OF assms(1) this(1)] obtain md where md: "from_bytes b = Some md" "md_code_hash md = kcode k" by auto
  then have "(kid k, md) \<in> set (load_all_hosting_metadata db)" using b by (auto simp: loaded_metadata [OF wf])
  then show ?thesis using assms(1) md(2) by (force simp: persisted_entries_def key_ok_def)
qed

lemma load_hosts:
  assumes key: "key_ok kid kcode mk" and rows: "rows_ok kid kcode db"
    and load: "load_from_storage mk lookup io now ms db m = Some (n, db', m')"
  shows "hm_has (kid k) (HOSTING_METADATA_TABLE db) \<Longrightarrow> is_hosting_contract k m'"
    and "state_keys_ok io \<Longrightarrow> hm_has (kid k) (STATE_TABLE db) \<Longrightarrow> lookup (kid k) = Some (kcode k) \<Longrightarrow>
      is_hosting_contract k m'"
proof -
  let ?md = "load_all_hosting_metadata db"
  let ?ks = "if state_keys_ok io then iter_all_state_keys db else []"
  obtain g db1 c where run: "migrate_legacy mk lookup io now ms (loaded_instance_ids ?md) ?ks 0 db
      (load_all now (persisted_entries mk ms ?md) (hosted m)) = (g, db1, c)"
    by (metis prod_cases3)
  then have m': "m' = m\<lparr>hosted := finalize_loading c\<rparr>"
    using load by (auto simp: load_from_storage_def Let_def split: if_splits)
  note hosts = contains_migrate [OF run] contains_load_all
  show row: "is_hosting_contract k m'" if "hm_has (kid k) (HOSTING_METADATA_TABLE db)" for k
    using row_loaded [OF key rows that, of ms] by (simp add: m' is_hosting_contract_def contains_finalize hosts)
  assume keys: "state_keys_ok io" and state: "hm_has (kid k) (STATE_TABLE db)" and code: "lookup (kid k) = Some (kcode k)"
  show "is_hosting_contract k m'"
  proof (cases "kid k \<in> loaded_instance_ids ?md")
    case True
    then have "hm_has (kid k) (HOSTING_METADATA_TABLE db)"
      using rows by (auto simp: loaded_instance_ids_def loaded_metadata rows_ok_def hm_has_def)
    then show ?thesis by (rule row)
  next
    case False
    moreover have "kid k \<in> set ?ks" using keys state by (simp add: iter_all_state_keys_def hm_has_iff)
    ultimately show ?thesis
      using code key by (auto simp: m' is_hosting_contract_def contains_finalize hosts key_ok_def)
  qed
qed


lemma load_returns: "metadata_ok io \<Longrightarrow> \<exists>n db' m'. load_from_storage mk lookup io now ms db m = Some (n, db', m')"
  by (simp add: load_from_storage_def Let_def split_beta)

text \<open>The metadata calls leave the states alone.\<close>

lemma state_table_metadata [simp]:
  "STATE_TABLE (store_hosting_metadata ok i md db) = STATE_TABLE db"
  "STATE_TABLE (remove_hosting_metadata ok i db) = STATE_TABLE db"
  by (simp_all add: store_hosting_metadata_def remove_hosting_metadata_def)

lemma state_table_remove_all [simp]: "STATE_TABLE (remove_all_metadata kid io ks db) = STATE_TABLE db"
  unfolding remove_all_metadata_def
  by (rule foldl_keeps [where I = "\<lambda>d. STATE_TABLE d = STATE_TABLE db"]) simp_all

lemma access_states:
  "storage m = Some db \<Longrightarrow>
   \<exists>db'. storage (snd (record_contract_access kid kcode io now ms k sz kind m)) = Some db' \<and> STATE_TABLE db' = STATE_TABLE db"
  by (simp add: record_contract_access_def Let_def split_beta)

lemma remove_hosted_states:
  "storage m = Some db \<Longrightarrow>
   \<exists>db'. storage (snd (remove_hosted_contract kid io k m)) = Some db' \<and> STATE_TABLE db' = STATE_TABLE db"
  by (simp add: remove_hosted_contract_def Let_def split_beta)


end
