(* ===== verification/Interest_Manager.thy ===== *)
theory Interest_Manager
  imports Freenet_Prelude "HOL-Library.List_Lexorder"
begin

text \<open>
  \<open>InterestManager\<close> of \<open>ring/interest.rs\<close>: which peers want updates of which contracts, with
  the summary of the state each of them has, the node's own reasons of interest, the index of
  contracts by hash, and the cache of deltas.

  A contract is the type variable \<open>'k\<close> with the bytes of its instance id (\<open>kid\<close>), a peer the type
  variable \<open>'p\<close> with the bytes of its public key (\<open>pbytes\<close>); summaries and deltas are byte lists.
  A \<open>HashSet\<close> of contracts is a list without repetitions.  The LRU cache and the standard hasher
  are arguments of the operations that use them.

  Shown: the map of interested peers and its reverse index refine one relation between contracts
  and peers, whatever sequence of calls is made; every contract of interest is found by its
  hash; and the deltas handed out are those of the contract as long as hashes do not collide.
\<close>

declare map_of_eq_Some_iff [simp del] and Some_eq_map_of_iff [simp del]

definition INTEREST_HEARTBEAT_INTERVAL :: duration where
  "INTEREST_HEARTBEAT_INTERVAL = secs 300"

definition INTEREST_TTL :: duration where
  "INTEREST_TTL = INTEREST_HEARTBEAT_INTERVAL * 4"

definition INTEREST_DISCONNECT_GRACE_PERIOD :: duration where
  "INTEREST_DISCONNECT_GRACE_PERIOD = secs 90"

section \<open>One peer's interest\<close>

record peer_interest =
  summary :: "byte list option"
  last_refreshed :: instant
  is_upstream :: bool

definition new_peer_interest :: "byte list option \<Rightarrow> bool \<Rightarrow> instant \<Rightarrow> peer_interest" where
  "new_peer_interest s up now = \<lparr>summary = s, last_refreshed = now, is_upstream = up\<rparr>"

definition refresh :: "instant \<Rightarrow> peer_interest \<Rightarrow> peer_interest" where
  "refresh now i = i\<lparr>last_refreshed := now\<rparr>"

definition is_expired_at :: "instant \<Rightarrow> peer_interest \<Rightarrow> bool" where
  "is_expired_at now i \<longleftrightarrow> INTEREST_TTL < saturating_since now (last_refreshed i)"

definition update_summary :: "byte list option \<Rightarrow> instant \<Rightarrow> peer_interest \<Rightarrow> peer_interest" where
  "update_summary s now i = refresh now (i\<lparr>summary := s\<rparr>)"

section \<open>The node's own interest\<close>

record local_interest =
  hosting :: bool
  local_client_count :: nat
  downstream_subscriber_count :: nat

definition default_local_interest :: local_interest where
  "default_local_interest = \<lparr>hosting = False, local_client_count = 0, downstream_subscriber_count = 0\<rparr>"

definition is_interested :: "local_interest \<Rightarrow> bool" where
  "is_interested i \<longleftrightarrow> hosting i \<or> 0 < local_client_count i \<or> 0 < downstream_subscriber_count i"

definition add_client :: "local_interest \<Rightarrow> bool \<times> local_interest" where
  "add_client i =
     (let was_first = (local_client_count i = 0)
      in (was_first \<and> \<not> hosting i \<and> downstream_subscriber_count i = 0,
          i\<lparr>local_client_count := local_client_count i + 1\<rparr>))"

definition remove_client :: "local_interest \<Rightarrow> bool \<times> local_interest" where
  "remove_client i =
     (let i = i\<lparr>local_client_count := local_client_count i - 1\<rparr> in (\<not> is_interested i, i))"

definition add_downstream :: "local_interest \<Rightarrow> bool \<times> local_interest" where
  "add_downstream i =
     (downstream_subscriber_count i = 0 \<and> local_client_count i = 0 \<and> \<not> hosting i,
      i\<lparr>downstream_subscriber_count := downstream_subscriber_count i + 1\<rparr>)"

definition remove_downstream :: "local_interest \<Rightarrow> bool \<times> local_interest" where
  "remove_downstream i =
     (let i = i\<lparr>downstream_subscriber_count := downstream_subscriber_count i - 1\<rparr> in (\<not> is_interested i, i))"

definition set_hosting :: "bool \<Rightarrow> local_interest \<Rightarrow> bool \<times> local_interest" where
  "set_hosting h i = (is_interested i \<noteq> is_interested (i\<lparr>hosting := h\<rparr>), i\<lparr>hosting := h\<rparr>)"

section \<open>Hashes\<close>

text \<open>FNV-1a over the bytes of the instance id, in 32 bits.\<close>

definition FNV_OFFSET :: "32 word" where
  "FNV_OFFSET = 2166136261"

definition FNV_PRIME :: "32 word" where
  "FNV_PRIME = 16777619"

unbundle bit_operations_syntax

definition contract_hash :: "byte list \<Rightarrow> 32 word" where
  "contract_hash id_bytes = foldl (\<lambda>hash byte. (hash XOR ucast byte) * FNV_PRIME) FNV_OFFSET id_bytes"

definition is_delta_efficient :: "nat \<Rightarrow> nat \<Rightarrow> bool" where
  "is_delta_efficient summary_size state_size = (if state_size = 0 then False else summary_size * 2 < state_size)"

record 'k delta_cache_key =
  dk_contract :: 'k
  peer_summary_hash :: nat
  our_summary_hash :: nat

section \<open>The manager\<close>

record ('k, 'p, 'c) interest_manager =
  interested_peers :: "('k, ('p, peer_interest) hmap) hmap"
  peer_contracts :: "('p, 'k list) hmap"
  local_interests :: "('k, local_interest) hmap"
  delta_cache :: 'c
  contract_hash_index :: "(32 word, 'k list) hmap"
  delta_sends :: nat
  full_state_sends :: nat
  delta_bytes_saved :: nat
  resync_requests_received :: nat
  summary_notify_timestamps :: "('k, instant) hmap"
  pending_removals :: "('p, instant) hmap"

definition new_interest_manager :: "'c \<Rightarrow> ('k, 'p, 'c) interest_manager" where
  "new_interest_manager empty_cache =
     \<lparr>interested_peers = [], peer_contracts = [], local_interests = [], delta_cache = empty_cache,
      contract_hash_index = [], delta_sends = 0, full_state_sends = 0, delta_bytes_saved = 0,
      resync_requests_received = 0, summary_notify_timestamps = [], pending_removals = []\<rparr>"

definition record_delta_send :: "nat \<Rightarrow> nat \<Rightarrow> ('k, 'p, 'c) interest_manager \<Rightarrow> ('k, 'p, 'c) interest_manager" where
  "record_delta_send state_size delta_size m =
     m\<lparr>delta_sends := wrap_add (delta_sends m) 1,
       delta_bytes_saved := wrap_add (delta_bytes_saved m) (state_size - delta_size)\<rparr>"

definition record_full_state_send :: "('k, 'p, 'c) interest_manager \<Rightarrow> ('k, 'p, 'c) interest_manager" where
  "record_full_state_send m = m\<lparr>full_state_sends := wrap_add (full_state_sends m) 1\<rparr>"

definition record_resync_request_received :: "('k, 'p, 'c) interest_manager \<Rightarrow> ('k, 'p, 'c) interest_manager" where
  "record_resync_request_received m = m\<lparr>resync_requests_received := wrap_add (resync_requests_received m) 1\<rparr>"

section \<open>The hash index\<close>

definition lookup_by_hash :: "32 word \<Rightarrow> ('k, 'p, 'c) interest_manager \<Rightarrow> 'k list" where
  "lookup_by_hash hash m = (case hm_get (contract_hash_index m) hash of Some ks \<Rightarrow> ks | None \<Rightarrow> [])"

definition index_contract_hash ::
  "('k \<Rightarrow> byte list) \<Rightarrow> 'k \<Rightarrow> ('k, 'p, 'c) interest_manager \<Rightarrow> ('k, 'p, 'c) interest_manager" where
  "index_contract_hash kid contract m =
     (let hash = contract_hash (kid contract);
          entry = lookup_by_hash hash m
      in m\<lparr>contract_hash_index :=
             hm_put hash (if contract \<in> set entry then entry else entry @ [contract]) (contract_hash_index m)\<rparr>)"

definition unindex_contract_hash ::
  "('k \<Rightarrow> byte list) \<Rightarrow> 'k \<Rightarrow> ('k, 'p, 'c) interest_manager \<Rightarrow> ('k, 'p, 'c) interest_manager" where
  "unindex_contract_hash kid contract m =
     (let hash = contract_hash (kid contract)
      in case hm_get (contract_hash_index m) hash of
           None \<Rightarrow> m
         | Some entry \<Rightarrow>
             (let entry = filter (\<lambda>c. c \<noteq> contract) entry
              in m\<lparr>contract_hash_index :=
                     (if entry = [] then hm_del hash (contract_hash_index m)
                      else hm_put hash entry (contract_hash_index m))\<rparr>))"

definition has_local_interest :: "'k \<Rightarrow> ('k, 'p, 'c) interest_manager \<Rightarrow> bool" where
  "has_local_interest contract m =
     (case hm_get (local_interests m) contract of Some i \<Rightarrow> is_interested i | None \<Rightarrow> False)"

definition cleanup_contract_if_no_interest ::
  "('k \<Rightarrow> byte list) \<Rightarrow> 'k \<Rightarrow> ('k, 'p, 'c) interest_manager \<Rightarrow> ('k, 'p, 'c) interest_manager" where
  "cleanup_contract_if_no_interest kid contract m =
     (if \<not> hm_has contract (interested_peers m) \<and> \<not> has_local_interest contract m
      then (unindex_contract_hash kid contract m)\<lparr>summary_notify_timestamps :=
              hm_del contract (summary_notify_timestamps m)\<rparr>
      else m)"

definition get_all_interest_hashes :: "('k, 'p, 'c) interest_manager \<Rightarrow> 32 word list" where
  "get_all_interest_hashes m = sort (hm_keys (contract_hash_index m))"

definition get_matching_contracts ::
  "('k \<Rightarrow> byte list) \<Rightarrow> 32 word list \<Rightarrow> ('k, 'p, 'c) interest_manager \<Rightarrow> 'k list" where
  "get_matching_contracts kid hashes m =
     sort_key kid (concat (map snd (filter (\<lambda>(h, _). h \<in> set hashes) (contract_hash_index m))))"

section \<open>Interests of peers\<close>

definition register_peer_interest ::
  "('k \<Rightarrow> byte list) \<Rightarrow> instant \<Rightarrow> 'k \<Rightarrow> 'p \<Rightarrow> byte list option \<Rightarrow> bool \<Rightarrow>
   ('k, 'p, 'c) interest_manager \<Rightarrow> bool \<times> ('k, 'p, 'c) interest_manager" where
  "register_peer_interest kid now contract peer s up m =
     (let entry = (case hm_get (interested_peers m) contract of Some ps \<Rightarrow> ps | None \<Rightarrow> []);
          contracts = (case hm_get (peer_contracts m) peer of Some ks \<Rightarrow> ks | None \<Rightarrow> [])
      in (\<not> hm_has peer entry,
          index_contract_hash kid contract
            (m\<lparr>interested_peers := hm_put contract (hm_put peer (new_peer_interest s up now) entry) (interested_peers m),
               peer_contracts := hm_put peer (List.insert contract contracts) (peer_contracts m)\<rparr>)))"

text \<open>The reverse index loses one contract of a peer, and the peer with its last contract.\<close>

definition drop_peer_contract :: "'k \<Rightarrow> 'p \<Rightarrow> ('p, 'k list) hmap \<Rightarrow> ('p, 'k list) hmap" where
  "drop_peer_contract contract peer pc =
     (case hm_get pc peer of
        None \<Rightarrow> pc
      | Some ks \<Rightarrow>
          (let ks = removeAll contract ks in if ks = [] then hm_del peer pc else hm_put peer ks pc))"

definition remove_peer_interest ::
  "('k \<Rightarrow> byte list) \<Rightarrow> 'k \<Rightarrow> 'p \<Rightarrow> ('k, 'p, 'c) interest_manager \<Rightarrow> bool \<times> ('k, 'p, 'c) interest_manager" where
  "remove_peer_interest kid contract peer m =
     (case hm_get (interested_peers m) contract of
        None \<Rightarrow> (False, m)
      | Some entry \<Rightarrow>
          (let removed = hm_has peer entry;
               entry = hm_del peer entry;
               m = (if removed then m\<lparr>peer_contracts := drop_peer_contract contract peer (peer_contracts m)\<rparr> else m)
           in (removed,
               if entry = []
               then cleanup_contract_if_no_interest kid contract
                      (m\<lparr>interested_peers := hm_del contract (interested_peers m)\<rparr>)
               else m\<lparr>interested_peers := hm_put contract entry (interested_peers m)\<rparr>)))"

text \<open>\<open>get_mut\<close> of one peer's interest.\<close>

definition modify_interest ::
  "(peer_interest \<Rightarrow> peer_interest) \<Rightarrow> 'k \<Rightarrow> 'p \<Rightarrow> ('k, 'p, 'c) interest_manager \<Rightarrow> ('k, 'p, 'c) interest_manager" where
  "modify_interest f contract peer m =
     (case hm_get (interested_peers m) contract of
        None \<Rightarrow> m
      | Some entry \<Rightarrow>
          (case hm_get entry peer of
             None \<Rightarrow> m
           | Some i \<Rightarrow> m\<lparr>interested_peers := hm_put contract (hm_put peer (f i) entry) (interested_peers m)\<rparr>))"

definition update_peer_summary ::
  "instant \<Rightarrow> 'k \<Rightarrow> 'p \<Rightarrow> byte list option \<Rightarrow> ('k, 'p, 'c) interest_manager \<Rightarrow> ('k, 'p, 'c) interest_manager" where
  "update_peer_summary now contract peer s m = modify_interest (update_summary s now) contract peer m"

definition refresh_peer_interest ::
  "instant \<Rightarrow> 'k \<Rightarrow> 'p \<Rightarrow> ('k, 'p, 'c) interest_manager \<Rightarrow> ('k, 'p, 'c) interest_manager" where
  "refresh_peer_interest now contract peer m = modify_interest (refresh now) contract peer m"

definition get_peer_interest :: "'k \<Rightarrow> 'p \<Rightarrow> ('k, 'p, 'c) interest_manager \<Rightarrow> peer_interest option" where
  "get_peer_interest contract peer m =
     (case hm_get (interested_peers m) contract of Some entry \<Rightarrow> hm_get entry peer | None \<Rightarrow> None)"

definition get_interested_peers ::
  "('p \<Rightarrow> byte list) \<Rightarrow> 'k \<Rightarrow> ('k, 'p, 'c) interest_manager \<Rightarrow> ('p \<times> peer_interest) list" where
  "get_interested_peers pbytes contract m =
     sort_key (\<lambda>(p, _). pbytes p)
       (case hm_get (interested_peers m) contract of Some entry \<Rightarrow> entry | None \<Rightarrow> [])"

definition get_contracts_for_peer :: "'p \<Rightarrow> ('k, 'p, 'c) interest_manager \<Rightarrow> 'k list" where
  "get_contracts_for_peer peer m = (case hm_get (peer_contracts m) peer of Some ks \<Rightarrow> ks | None \<Rightarrow> [])"

definition get_peer_summary :: "'k \<Rightarrow> 'p \<Rightarrow> ('k, 'p, 'c) interest_manager \<Rightarrow> byte list option" where
  "get_peer_summary contract peer m =
     (case get_peer_interest contract peer m of Some i \<Rightarrow> summary i | None \<Rightarrow> None)"

definition should_send_summary_notification ::
  "instant \<Rightarrow> 'k \<Rightarrow> ('k, 'p, 'c) interest_manager \<Rightarrow> bool \<times> ('k, 'p, 'c) interest_manager" where
  "should_send_summary_notification now contract m =
     (let min_interval = millis 100;
          last_sent = (case hm_get (summary_notify_timestamps m) contract of
                    Some t \<Rightarrow> t | None \<Rightarrow> now - int min_interval - int (millis 1))
      in if min_interval \<le> saturating_since now last_sent
         then (True, m\<lparr>summary_notify_timestamps := hm_put contract now (summary_notify_timestamps m)\<rparr>)
         else (False, m\<lparr>summary_notify_timestamps := hm_put contract last_sent (summary_notify_timestamps m)\<rparr>))"

text \<open>The loop body of \<open>remove_all_peer_interests\<close>.\<close>

definition forget_peer ::
  "('k \<Rightarrow> byte list) \<Rightarrow> 'p \<Rightarrow> ('k, 'p, 'c) interest_manager \<Rightarrow> 'k \<Rightarrow> ('k, 'p, 'c) interest_manager" where
  "forget_peer kid peer m contract =
     (case hm_get (interested_peers m) contract of
        None \<Rightarrow> m
      | Some entry \<Rightarrow>
          (let entry = hm_del peer entry
           in if entry = []
              then cleanup_contract_if_no_interest kid contract
                     (m\<lparr>interested_peers := hm_del contract (interested_peers m)\<rparr>)
              else m\<lparr>interested_peers := hm_put contract entry (interested_peers m)\<rparr>))"

definition remove_all_peer_interests ::
  "('k \<Rightarrow> byte list) \<Rightarrow> 'p \<Rightarrow> ('k, 'p, 'c) interest_manager \<Rightarrow> nat \<times> ('k, 'p, 'c) interest_manager" where
  "remove_all_peer_interests kid peer m =
     (let contracts = get_contracts_for_peer peer m
      in (length contracts,
          foldl (forget_peer kid peer) (m\<lparr>peer_contracts := hm_del peer (peer_contracts m)\<rparr>) contracts))"

definition schedule_deferred_removal ::
  "instant \<Rightarrow> 'p \<Rightarrow> ('k, 'p, 'c) interest_manager \<Rightarrow> ('k, 'p, 'c) interest_manager" where
  "schedule_deferred_removal now peer m =
     m\<lparr>pending_removals := hm_put peer (now + int INTEREST_DISCONNECT_GRACE_PERIOD) (pending_removals m)\<rparr>"

definition cancel_deferred_removal ::
  "'p \<Rightarrow> ('k, 'p, 'c) interest_manager \<Rightarrow> bool \<times> ('k, 'p, 'c) interest_manager" where
  "cancel_deferred_removal peer m =
     (hm_has peer (pending_removals m), m\<lparr>pending_removals := hm_del peer (pending_removals m)\<rparr>)"

definition execute_removal ::
  "('k \<Rightarrow> byte list) \<Rightarrow> nat \<times> ('k, 'p, 'c) interest_manager \<Rightarrow> 'p \<Rightarrow> nat \<times> ('k, 'p, 'c) interest_manager" where
  "execute_removal kid s peer =
     (case s of (executed, m) \<Rightarrow>
        if hm_has peer (pending_removals m)
        then (executed + 1, snd (remove_all_peer_interests kid peer
               (m\<lparr>pending_removals := hm_del peer (pending_removals m)\<rparr>)))
        else (executed, m))"

definition execute_pending_removals ::
  "('k \<Rightarrow> byte list) \<Rightarrow> instant \<Rightarrow> ('k, 'p, 'c) interest_manager \<Rightarrow> nat \<times> ('k, 'p, 'c) interest_manager" where
  "execute_pending_removals kid now m =
     foldl (execute_removal kid) (0, m)
       (map fst (filter (\<lambda>(_, deadline). deadline \<le> now) (pending_removals m)))"

definition sweep_expired_interests ::
  "('k \<Rightarrow> byte list) \<Rightarrow> ('p \<Rightarrow> byte list) \<Rightarrow> instant \<Rightarrow> ('k, 'p, 'c) interest_manager \<Rightarrow>
   ('k \<times> 'p) list \<times> ('k, 'p, 'c) interest_manager" where
  "sweep_expired_interests kid pbytes now m =
     (let expired = concat (map (\<lambda>(contract, peers_map).
            map (Pair contract) (sort_key pbytes (map fst (filter (\<lambda>(_, i). is_expired_at now i) peers_map))))
            (sort_key (\<lambda>(c, _). kid c) (interested_peers m)))
      in (expired, foldl (\<lambda>m (contract, peer). snd (remove_peer_interest kid contract peer m)) m expired))"

section \<open>Local interest\<close>

definition local_entry :: "'k \<Rightarrow> ('k, 'p, 'c) interest_manager \<Rightarrow> local_interest" where
  "local_entry contract m =
     (case hm_get (local_interests m) contract of Some i \<Rightarrow> i | None \<Rightarrow> default_local_interest)"

definition register_local_interest ::
  "('k \<Rightarrow> byte list) \<Rightarrow> 'k \<Rightarrow> ('k, 'p, 'c) interest_manager \<Rightarrow> ('k, 'p, 'c) interest_manager" where
  "register_local_interest kid contract m =
     index_contract_hash kid contract
       (m\<lparr>local_interests := hm_put contract (local_entry contract m) (local_interests m)\<rparr>)"

definition register_local_hosting ::
  "('k \<Rightarrow> byte list) \<Rightarrow> 'k \<Rightarrow> ('k, 'p, 'c) interest_manager \<Rightarrow> bool \<times> ('k, 'p, 'c) interest_manager" where
  "register_local_hosting kid contract m =
     (let entry = local_entry contract m
      in (\<not> is_interested entry,
          index_contract_hash kid contract
            (m\<lparr>local_interests := hm_put contract (entry\<lparr>hosting := True\<rparr>) (local_interests m)\<rparr>)))"

text \<open>The common shape of the operations that may lose the last reason of interest.\<close>

definition lose_local ::
  "('k \<Rightarrow> byte list) \<Rightarrow> (local_interest \<Rightarrow> bool \<times> local_interest) \<Rightarrow> 'k \<Rightarrow> ('k, 'p, 'c) interest_manager \<Rightarrow>
   bool \<times> ('k, 'p, 'c) interest_manager" where
  "lose_local kid f contract m =
     (case hm_get (local_interests m) contract of
        None \<Rightarrow> (False, m)
      | Some entry \<Rightarrow>
          (let (lost_interest, entry) = f entry
           in (lost_interest,
               if lost_interest
               then cleanup_contract_if_no_interest kid contract
                      (m\<lparr>local_interests := hm_del contract (local_interests m)\<rparr>)
               else m\<lparr>local_interests := hm_put contract entry (local_interests m)\<rparr>)))"

definition unregister_local_hosting ::
  "('k \<Rightarrow> byte list) \<Rightarrow> 'k \<Rightarrow> ('k, 'p, 'c) interest_manager \<Rightarrow> bool \<times> ('k, 'p, 'c) interest_manager" where
  "unregister_local_hosting kid contract m =
     lose_local kid (\<lambda>i. let i = i\<lparr>hosting := False\<rparr> in (\<not> is_interested i, i)) contract m"

definition gain_local ::
  "('k \<Rightarrow> byte list) \<Rightarrow> (local_interest \<Rightarrow> bool \<times> local_interest) \<Rightarrow> 'k \<Rightarrow> ('k, 'p, 'c) interest_manager \<Rightarrow>
   bool \<times> ('k, 'p, 'c) interest_manager" where
  "gain_local kid f contract m =
     (let (became_interested, entry) = f (local_entry contract m)
      in (became_interested,
          index_contract_hash kid contract
            (m\<lparr>local_interests := hm_put contract entry (local_interests m)\<rparr>)))"

definition add_local_client ::
  "('k \<Rightarrow> byte list) \<Rightarrow> 'k \<Rightarrow> ('k, 'p, 'c) interest_manager \<Rightarrow> bool \<times> ('k, 'p, 'c) interest_manager" where
  "add_local_client kid contract m = gain_local kid add_client contract m"

definition remove_local_client ::
  "('k \<Rightarrow> byte list) \<Rightarrow> 'k \<Rightarrow> ('k, 'p, 'c) interest_manager \<Rightarrow> bool \<times> ('k, 'p, 'c) interest_manager" where
  "remove_local_client kid contract m = lose_local kid remove_client contract m"

definition add_downstream_interest ::
  "('k \<Rightarrow> byte list) \<Rightarrow> 'k \<Rightarrow> ('k, 'p, 'c) interest_manager \<Rightarrow> bool \<times> ('k, 'p, 'c) interest_manager" where
  "add_downstream_interest kid contract m = gain_local kid add_downstream contract m"

definition remove_downstream_interest ::
  "('k \<Rightarrow> byte list) \<Rightarrow> 'k \<Rightarrow> ('k, 'p, 'c) interest_manager \<Rightarrow> bool \<times> ('k, 'p, 'c) interest_manager" where
  "remove_downstream_interest kid contract m = lose_local kid remove_downstream contract m"

definition cleanup_local_interest :: "'k \<Rightarrow> ('k, 'p, 'c) interest_manager \<Rightarrow> ('k, 'p, 'c) interest_manager" where
  "cleanup_local_interest contract m =
     (case hm_get (local_interests m) contract of
        None \<Rightarrow> m
      | Some i \<Rightarrow> if is_interested i then m
                  else m\<lparr>local_interests := hm_del contract (local_interests m)\<rparr>)"

section \<open>Deltas\<close>

text \<open>
  The LRU cache is given by its \<open>put\<close> and \<open>get\<close> (\<open>get\<close> also moves the entry to the front), the
  hasher by \<open>hash_bytes\<close>.
\<close>

record ('k, 'c) cache_ops =
  lru_put :: "'k delta_cache_key \<Rightarrow> byte list \<Rightarrow> 'c \<Rightarrow> 'c"
  lru_get :: "'k delta_cache_key \<Rightarrow> 'c \<Rightarrow> byte list option \<times> 'c"
  hash_bytes :: "byte list \<Rightarrow> nat"

definition delta_key :: "('k, 'c) cache_ops \<Rightarrow> 'k \<Rightarrow> byte list \<Rightarrow> byte list \<Rightarrow> 'k delta_cache_key" where
  "delta_key ops contract peer_summary our_summary =
     \<lparr>dk_contract = contract, peer_summary_hash = hash_bytes ops peer_summary,
      our_summary_hash = hash_bytes ops our_summary\<rparr>"

definition cache_delta ::
  "('k, 'c) cache_ops \<Rightarrow> 'k \<Rightarrow> byte list \<Rightarrow> byte list \<Rightarrow> byte list \<Rightarrow> ('k, 'p, 'c) interest_manager \<Rightarrow>
   ('k, 'p, 'c) interest_manager" where
  "cache_delta ops contract peer_summary our_summary delta m =
     m\<lparr>delta_cache := lru_put ops (delta_key ops contract peer_summary our_summary) delta (delta_cache m)\<rparr>"

definition get_cached_delta ::
  "('k, 'c) cache_ops \<Rightarrow> 'k \<Rightarrow> byte list \<Rightarrow> byte list \<Rightarrow> ('k, 'p, 'c) interest_manager \<Rightarrow>
   byte list option \<times> ('k, 'p, 'c) interest_manager" where
  "get_cached_delta ops contract peer_summary our_summary m =
     (let (d, c) = lru_get ops (delta_key ops contract peer_summary our_summary) (delta_cache m)
      in (d, m\<lparr>delta_cache := c\<rparr>))"

text \<open>What the contract handler answers to \<open>GetDeltaQuery\<close>.\<close>

datatype delta_response = DeltaOk "byte list" | DeltaFailed | OtherResponse | HandlerFailed

datatype delta_error = NotEfficient | ComputationFailed | UnexpectedResponse | HandlerError

definition compute_delta ::
  "('k, 'c) cache_ops \<Rightarrow> ('k \<Rightarrow> byte list \<Rightarrow> delta_response) \<Rightarrow> 'k \<Rightarrow> byte list \<Rightarrow> byte list \<Rightarrow> nat \<Rightarrow>
   ('k, 'p, 'c) interest_manager \<Rightarrow> (delta_error + byte list option) \<times> ('k, 'p, 'c) interest_manager" where
  "compute_delta ops handler key their_summary our_summary our_state_size m =
     (case get_cached_delta ops key their_summary our_summary m of
        (Some cached, m) \<Rightarrow> (Inr (if cached = [] then None else Some cached), m)
      | (None, m) \<Rightarrow>
          if \<not> is_delta_efficient (length their_summary) our_state_size then (Inl NotEfficient, m)
          else (case handler key their_summary of
                  DeltaOk d \<Rightarrow>
                    (Inr (if d = [] then None else Some d), cache_delta ops key their_summary our_summary d m)
                | DeltaFailed \<Rightarrow> (Inl ComputationFailed, m)
                | OtherResponse \<Rightarrow> (Inl UnexpectedResponse, m)
                | HandlerFailed \<Rightarrow> (Inl HandlerError, m)))"

section \<open>Interests as a relation\<close>

definition wants :: "('k, ('p, peer_interest) hmap) hmap \<Rightarrow> 'k \<Rightarrow> 'p \<Rightarrow> bool" where
  "wants ip k p \<longleftrightarrow> (case hm_get ip k of None \<Rightarrow> False | Some e \<Rightarrow> hm_has p e)"

definition contracts_of :: "('p, 'k list) hmap \<Rightarrow> 'p \<Rightarrow> 'k set" where
  "contracts_of pc p = (case hm_get pc p of None \<Rightarrow> {} | Some ks \<Rightarrow> set ks)"

definition tracks :: "('k, ('p, peer_interest) hmap) hmap \<Rightarrow> ('p, 'k list) hmap \<Rightarrow> bool" where
  "tracks ip pc \<longleftrightarrow>
     hm_wf ip \<and> hm_all (\<lambda>e. hm_wf e \<and> e \<noteq> []) ip \<and> hm_wf pc \<and> hm_all (\<lambda>ks. distinct ks \<and> ks \<noteq> []) pc
     \<and> (\<forall>k p. wants ip k p \<longleftrightarrow> k \<in> contracts_of pc p)"

definition abs_interests :: "('k, 'p, 'c) interest_manager \<Rightarrow> ('k \<times> 'p) set" where
  "abs_interests m = {(k, p). wants (interested_peers m) k p}"

text \<open>Adding and removing one pair in the two maps.\<close>

definition ip_add ::
  "peer_interest \<Rightarrow> 'k \<Rightarrow> 'p \<Rightarrow> ('k, ('p, peer_interest) hmap) hmap \<Rightarrow> ('k, ('p, peer_interest) hmap) hmap" where
  "ip_add i k p ip = hm_put k (hm_put p i (case hm_get ip k of Some e \<Rightarrow> e | None \<Rightarrow> [])) ip"

definition ip_del ::
  "'k \<Rightarrow> 'p \<Rightarrow> ('k, ('p, peer_interest) hmap) hmap \<Rightarrow> ('k, ('p, peer_interest) hmap) hmap" where
  "ip_del k p ip =
     (case hm_get ip k of
        None \<Rightarrow> ip
      | Some e \<Rightarrow> if hm_del p e = [] then hm_del k ip else hm_put k (hm_del p e) ip)"

definition pc_add :: "'k \<Rightarrow> 'p \<Rightarrow> ('p, 'k list) hmap \<Rightarrow> ('p, 'k list) hmap" where
  "pc_add k p pc = hm_put p (List.insert k (case hm_get pc p of Some ks \<Rightarrow> ks | None \<Rightarrow> [])) pc"

lemma hm_put_nonempty [simp]: "hm_put k v m \<noteq> []"
  by (cases m) auto

lemma hm_has_put: "hm_has x (hm_put k v m) \<longleftrightarrow> x = k \<or> hm_has x m"
  by (simp add: hm_has_def hm_simps)

lemma hm_has_Nil [simp]: "\<not> hm_has x []"
  by (simp add: hm_has_def)

lemma hm_has_nonempty: "m \<noteq> [] \<Longrightarrow> \<exists>x. hm_has x m"
  by (cases m) (auto simp: hm_has_iff)

lemma wants_add: "wants (ip_add i k p ip) k' p' \<longleftrightarrow> k' = k \<and> p' = p \<or> wants ip k' p'"
  by (auto simp: wants_def ip_add_def hm_simps hm_has_put split: option.split)

lemma wants_del: "wants (ip_del k p ip) k' p' \<longleftrightarrow> wants ip k' p' \<and> \<not> (k' = k \<and> p' = p)"
proof (cases "hm_get ip k")
  case (Some e)
  have "hm_has x (hm_del p e) \<longleftrightarrow> x \<noteq> p \<and> hm_has x e" for x by (rule hm_has_del)
  then have "hm_del p e = [] \<Longrightarrow> hm_has x e \<Longrightarrow> x = p" for x by (metis hm_has_Nil)
  then show ?thesis
    by (cases "hm_del p e = []") (auto simp: wants_def ip_del_def Some hm_simps hm_has_del)
qed (auto simp: wants_def ip_del_def)

lemma contracts_add: "contracts_of (pc_add k p pc) p' = (if p' = p then insert k (contracts_of pc p) else contracts_of pc p')"
  by (auto simp: contracts_of_def pc_add_def hm_simps split: option.split)

lemma contracts_drop:
  "contracts_of (drop_peer_contract k p pc) p' = (if p' = p then contracts_of pc p - {k} else contracts_of pc p')"
proof (cases "hm_get pc p")
  case (Some ks)
  have "removeAll k ks = [] \<Longrightarrow> set ks - {k} = {}" by (metis set_removeAll list.set(1))
  then show ?thesis using Some by (auto simp: contracts_of_def drop_peer_contract_def Let_def hm_simps)
qed (auto simp: contracts_of_def drop_peer_contract_def)

lemma tracks_add: "tracks ip pc \<Longrightarrow> tracks (ip_add i k p ip) (pc_add k p pc)"
  unfolding tracks_def
proof (elim conjE, intro conjI)
  assume wf: "hm_wf ip" "hm_wf pc" and ip: "hm_all (\<lambda>e. hm_wf e \<and> e \<noteq> []) ip" and pc: "hm_all (\<lambda>ks. distinct ks \<and> ks \<noteq> []) pc"
    and agree: "\<forall>k p. wants ip k p \<longleftrightarrow> k \<in> contracts_of pc p"
  show "hm_wf (ip_add i k p ip)" "hm_wf (pc_add k p pc)" using wf by (simp_all add: ip_add_def pc_add_def)
  show "hm_all (\<lambda>e. hm_wf e \<and> e \<noteq> []) (ip_add i k p ip)"
    unfolding ip_add_def by (rule hm_all_put [OF ip]) (auto dest: hm_all_get [OF ip] split: option.split)
  show "hm_all (\<lambda>ks. distinct ks \<and> ks \<noteq> []) (pc_add k p pc)"
    unfolding pc_add_def
    by (rule hm_all_put [OF pc]) (auto dest: hm_all_get [OF pc] simp: List.insert_def split: option.split)
  show "\<forall>k' p'. wants (ip_add i k p ip) k' p' \<longleftrightarrow> k' \<in> contracts_of (pc_add k p pc) p'"
    using agree by (auto simp: wants_add contracts_add)
qed

lemma ip_del_wf: "hm_wf ip \<Longrightarrow> hm_wf (ip_del k p ip)"
  by (auto simp: ip_del_def split: option.split)

lemma ip_del_all:
  "hm_all (\<lambda>e. hm_wf e \<and> e \<noteq> []) ip \<Longrightarrow> hm_all (\<lambda>e. hm_wf e \<and> e \<noteq> []) (ip_del k p ip)"
proof -
  assume all: "hm_all (\<lambda>e. hm_wf e \<and> e \<noteq> []) ip"
  then show ?thesis
    by (auto simp: ip_del_def intro!: hm_all_put hm_all_del split: option.split dest!: hm_all_get [OF all])
qed

lemma drop_all:
  "hm_all (\<lambda>ks. distinct ks \<and> ks \<noteq> []) pc \<Longrightarrow> hm_all (\<lambda>ks. distinct ks \<and> ks \<noteq> []) (drop_peer_contract k p pc)"
proof -
  assume all: "hm_all (\<lambda>ks. distinct ks \<and> ks \<noteq> []) pc"
  then show ?thesis
    by (auto simp: drop_peer_contract_def Let_def distinct_removeAll intro!: hm_all_put hm_all_del
      split: option.split dest!: hm_all_get [OF all])
qed

lemma tracks_del: "tracks ip pc \<Longrightarrow> tracks (ip_del k p ip) (drop_peer_contract k p pc)"
  unfolding tracks_def
  by (auto simp: ip_del_wf ip_del_all drop_all wants_del contracts_drop)
     (auto simp: drop_peer_contract_def Let_def split: option.split)

text \<open>The entry of a pair.\<close>

definition look :: "('k, ('p, peer_interest) hmap) hmap \<Rightarrow> 'k \<Rightarrow> 'p \<Rightarrow> peer_interest option" where
  "look ip k p = (case hm_get ip k of None \<Rightarrow> None | Some e \<Rightarrow> hm_get e p)"

lemma wants_look: "wants ip k p \<longleftrightarrow> look ip k p \<noteq> None"
  by (auto simp: wants_def look_def hm_has_def split: option.split)

lemma get_peer_interest_look: "get_peer_interest k p m = look (interested_peers m) k p"
  by (auto simp: get_peer_interest_def look_def split: option.split)

lemma look_add: "look (ip_add i k p ip) k' p' = (if k' = k \<and> p' = p then Some i else look ip k' p')"
  by (auto simp: look_def ip_add_def hm_simps split: option.split)

lemma look_del: "look (ip_del k p ip) k' p' = (if k' = k \<and> p' = p then None else look ip k' p')"
proof (cases "hm_get ip k")
  case (Some e)
  have "hm_get e x = None" if "hm_del p e = []" "x \<noteq> p" for x
    using that hm_get_del [of p e x] by simp
  then show ?thesis
    by (cases "hm_del p e = []") (auto simp: look_def ip_del_def Some hm_simps)
qed (auto simp: look_def ip_del_def)

section \<open>The hash index is complete\<close>

definition lookup_index :: "(32 word, 'k list) hmap \<Rightarrow> 32 word \<Rightarrow> 'k list" where
  "lookup_index idx h = (case hm_get idx h of Some ks \<Rightarrow> ks | None \<Rightarrow> [])"

definition index_ok :: "('k \<Rightarrow> byte list) \<Rightarrow> ('k \<Rightarrow> bool) \<Rightarrow> (32 word, 'k list) hmap \<Rightarrow> bool" where
  "index_ok kid P idx \<longleftrightarrow>
     hm_wf idx
     \<and> (\<forall>h. distinct (lookup_index idx h) \<and> (\<forall>k \<in> set (lookup_index idx h). h = contract_hash (kid k)))
     \<and> (\<forall>k. P k \<longrightarrow> k \<in> set (lookup_index idx (contract_hash (kid k))))"

definition interest_in :: "('k, 'p, 'c) interest_manager \<Rightarrow> 'k \<Rightarrow> bool" where
  "interest_in m k \<longleftrightarrow> hm_has k (interested_peers m) \<or> has_local_interest k m"

definition interest_inv :: "('k \<Rightarrow> byte list) \<Rightarrow> ('k, 'p, 'c) interest_manager \<Rightarrow> bool" where
  "interest_inv kid m \<longleftrightarrow>
     tracks (interested_peers m) (peer_contracts m) \<and> hm_wf (local_interests m) \<and> hm_wf (pending_removals m)
     \<and> index_ok kid (interest_in m) (contract_hash_index m)"

lemma lookup_by_hash_index: "lookup_by_hash h m = lookup_index (contract_hash_index m) h"
  by (simp add: lookup_by_hash_def lookup_index_def)

lemma index_okI:
  "hm_wf idx \<Longrightarrow> (\<And>h. distinct (lookup_index idx h)) \<Longrightarrow>
   (\<And>h k. k \<in> set (lookup_index idx h) \<Longrightarrow> h = contract_hash (kid k)) \<Longrightarrow>
   (\<And>k. P k \<Longrightarrow> k \<in> set (lookup_index idx (contract_hash (kid k)))) \<Longrightarrow> index_ok kid P idx"
  unfolding index_ok_def by blast

lemma index_okD:
  assumes "index_ok kid P idx"
  shows "hm_wf idx" "distinct (lookup_index idx h)"
    "k \<in> set (lookup_index idx h) \<Longrightarrow> h = contract_hash (kid k)"
    "P k \<Longrightarrow> k \<in> set (lookup_index idx (contract_hash (kid k)))"
  using assms unfolding index_ok_def by blast+

lemma index_ok_mono: "index_ok kid P idx \<Longrightarrow> (\<And>k. Q k \<Longrightarrow> P k) \<Longrightarrow> index_ok kid Q idx"
  by (rule index_okI) (blast dest: index_okD)+

lemma lookup_after_index:
  "lookup_index (contract_hash_index (index_contract_hash kid k m)) h =
     (if h = contract_hash (kid k) \<and> k \<notin> set (lookup_by_hash h m) then lookup_by_hash h m @ [k] else lookup_by_hash h m)"
  by (simp add: index_contract_hash_def Let_def lookup_index_def lookup_by_hash_def hm_simps split: option.split)

lemma lookup_after_unindex:
  "lookup_index (contract_hash_index (unindex_contract_hash kid k m)) h =
     (if h = contract_hash (kid k) then filter (\<lambda>c. c \<noteq> k) (lookup_by_hash h m) else lookup_by_hash h m)"
  by (auto simp: unindex_contract_hash_def Let_def lookup_index_def lookup_by_hash_def hm_simps split: option.split)

lemma index_ok_index:
  assumes "index_ok kid P (contract_hash_index m)"
  shows "index_ok kid (\<lambda>x. P x \<or> x = k) (contract_hash_index (index_contract_hash kid k m))"
proof (rule index_okI)
  note old = index_okD [OF assms, folded lookup_by_hash_index]
  show "hm_wf (contract_hash_index (index_contract_hash kid k m))"
    using old(1) by (simp add: index_contract_hash_def Let_def)
  show "distinct (lookup_index (contract_hash_index (index_contract_hash kid k m)) h)" for h
    using old(2) by (auto simp: lookup_after_index)
  show "h = contract_hash (kid x)" if "x \<in> set (lookup_index (contract_hash_index (index_contract_hash kid k m)) h)" for h x
    using that old(3) [of x h] by (auto simp: lookup_after_index split: if_splits)
  show "x \<in> set (lookup_index (contract_hash_index (index_contract_hash kid k m)) (contract_hash (kid x)))"
    if "P x \<or> x = k" for x
    using that old(4) [of x] by (auto simp: lookup_after_index)
qed

lemma index_ok_unindex:
  assumes "index_ok kid P (contract_hash_index m)"
  shows "index_ok kid (\<lambda>x. P x \<and> x \<noteq> k) (contract_hash_index (unindex_contract_hash kid k m))"
proof (rule index_okI)
  note old = index_okD [OF assms, folded lookup_by_hash_index]
  show "hm_wf (contract_hash_index (unindex_contract_hash kid k m))"
    using old(1) by (auto simp: unindex_contract_hash_def Let_def split: option.split)
  show "distinct (lookup_index (contract_hash_index (unindex_contract_hash kid k m)) h)" for h
    using old(2) by (simp add: lookup_after_unindex)
  show "h = contract_hash (kid x)" if "x \<in> set (lookup_index (contract_hash_index (unindex_contract_hash kid k m)) h)" for h x
    using that old(3) [of x h] by (auto simp: lookup_after_unindex split: if_splits)
  show "x \<in> set (lookup_index (contract_hash_index (unindex_contract_hash kid k m)) (contract_hash (kid x)))"
    if "P x \<and> x \<noteq> k" for x
    using that old(4) [of x] by (auto simp: lookup_after_unindex)
qed

text \<open>The index operations leave the other fields alone.\<close>

lemma index_frame [simp]:
  "interested_peers (index_contract_hash kid k m) = interested_peers m"
  "peer_contracts (index_contract_hash kid k m) = peer_contracts m"
  "local_interests (index_contract_hash kid k m) = local_interests m"
  "pending_removals (index_contract_hash kid k m) = pending_removals m"
  by (simp_all add: index_contract_hash_def Let_def)

lemma cleanup_frame [simp]:
  "interested_peers (cleanup_contract_if_no_interest kid k m) = interested_peers m"
  "peer_contracts (cleanup_contract_if_no_interest kid k m) = peer_contracts m"
  "local_interests (cleanup_contract_if_no_interest kid k m) = local_interests m"
  "pending_removals (cleanup_contract_if_no_interest kid k m) = pending_removals m"
  by (simp_all add: cleanup_contract_if_no_interest_def unindex_contract_hash_def Let_def split: option.split)

lemma interest_in_frame [simp]:
  "interest_in (index_contract_hash kid k m) = interest_in m"
  "interest_in (cleanup_contract_if_no_interest kid k m) = interest_in m"
  by (simp_all add: interest_in_def has_local_interest_def fun_eq_iff)

lemma index_ok_cleanup:
  assumes "index_ok kid P (contract_hash_index m)" "\<And>x. interest_in m x \<Longrightarrow> P x"
  shows "index_ok kid (interest_in m) (contract_hash_index (cleanup_contract_if_no_interest kid k m))"
proof (cases "interest_in m k")
  case True
  then show ?thesis using index_ok_mono [OF assms(1), of "interest_in m"] assms(2)
    by (auto simp: cleanup_contract_if_no_interest_def interest_in_def)
next
  case False
  have "index_ok kid (interest_in m) (contract_hash_index (unindex_contract_hash kid k m))"
    by (rule index_ok_mono [OF index_ok_unindex [OF assms(1)]]) (use False assms(2) in auto)
  then show ?thesis using False by (simp add: cleanup_contract_if_no_interest_def interest_in_def)
qed

section \<open>What each operation changes\<close>

lemma register_fields:
  "interested_peers (snd (register_peer_interest kid now k p s up m)) = ip_add (new_peer_interest s up now) k p (interested_peers m)"
  "peer_contracts (snd (register_peer_interest kid now k p s up m)) = pc_add k p (peer_contracts m)"
  "local_interests (snd (register_peer_interest kid now k p s up m)) = local_interests m"
  "pending_removals (snd (register_peer_interest kid now k p s up m)) = pending_removals m"
  by (simp_all add: register_peer_interest_def ip_add_def pc_add_def Let_def)

lemma remove_fields:
  "interested_peers (snd (remove_peer_interest kid k p m)) = ip_del k p (interested_peers m)"
  "peer_contracts (snd (remove_peer_interest kid k p m)) =
     (if wants (interested_peers m) k p then drop_peer_contract k p (peer_contracts m) else peer_contracts m)"
  "local_interests (snd (remove_peer_interest kid k p m)) = local_interests m"
  "pending_removals (snd (remove_peer_interest kid k p m)) = pending_removals m"
  by (auto simp: remove_peer_interest_def ip_del_def wants_def Let_def split: option.split)

lemma modify_look:
  "look (interested_peers (modify_interest f k p m)) k' p' =
     (if k' = k \<and> p' = p then map_option f (look (interested_peers m) k p) else look (interested_peers m) k' p')"
  by (auto simp: modify_interest_def look_def hm_simps split: option.split)

lemma modify_frame [simp]:
  "peer_contracts (modify_interest f k p m) = peer_contracts m"
  "local_interests (modify_interest f k p m) = local_interests m"
  "pending_removals (modify_interest f k p m) = pending_removals m"
  "contract_hash_index (modify_interest f k p m) = contract_hash_index m"
  by (auto simp: modify_interest_def split: option.split)

lemma modify_keys: "hm_has x (interested_peers (modify_interest f k p m)) \<longleftrightarrow> hm_has x (interested_peers m)"
  by (auto simp: modify_interest_def hm_has_put hm_has_def hm_simps split: option.split)

lemma forget_fields:
  "interested_peers (forget_peer kid p m k) = ip_del k p (interested_peers m)"
  "peer_contracts (forget_peer kid p m k) = peer_contracts m"
  "local_interests (forget_peer kid p m k) = local_interests m"
  "pending_removals (forget_peer kid p m k) = pending_removals m"
  by (auto simp: forget_peer_def ip_del_def Let_def split: option.split)

lemma hm_has_ip_del: "hm_has x (ip_del k p ip) \<Longrightarrow> hm_has x ip"
  by (auto simp: ip_del_def hm_has_put hm_has_del split: option.splits if_splits) (simp add: hm_has_def)

lemma hm_has_ip_add: "hm_has x (ip_add i k p ip) \<longleftrightarrow> x = k \<or> hm_has x ip"
  by (simp add: ip_add_def hm_has_put)

lemma interest_in_del:
  "interest_in (m\<lparr>peer_contracts := c, interested_peers := ip_del k p (interested_peers m)\<rparr>) x \<Longrightarrow> interest_in m x"
  by (auto simp: interest_in_def has_local_interest_def dest: hm_has_ip_del)

lemma forget_index:
  assumes "index_ok kid (interest_in m) (contract_hash_index m)"
  shows "index_ok kid (interest_in (forget_peer kid p m k)) (contract_hash_index (forget_peer kid p m k))"
proof -
  let ?m = "m\<lparr>interested_peers := ip_del k p (interested_peers m)\<rparr>"
  have sub: "interest_in ?m x \<Longrightarrow> interest_in m x" for x
    by (auto simp: interest_in_def has_local_interest_def dest: hm_has_ip_del)
  have old: "index_ok kid (interest_in m) (contract_hash_index ?m)" using assms by simp
  have "forget_peer kid p m k = ?m \<or> forget_peer kid p m k = cleanup_contract_if_no_interest kid k ?m"
    by (auto simp: forget_peer_def ip_del_def Let_def split: option.split)
  then show ?thesis
    using index_ok_mono [OF old sub] index_ok_cleanup [OF old sub] by (elim disjE) simp_all
qed

lemma remove_index:
  assumes "index_ok kid (interest_in m) (contract_hash_index m)"
  shows "index_ok kid (interest_in (snd (remove_peer_interest kid k p m)))
    (contract_hash_index (snd (remove_peer_interest kid k p m)))"
proof -
  let ?c = "if wants (interested_peers m) k p then drop_peer_contract k p (peer_contracts m) else peer_contracts m"
  let ?m = "m\<lparr>peer_contracts := ?c, interested_peers := ip_del k p (interested_peers m)\<rparr>"
  have sub: "interest_in ?m x \<Longrightarrow> interest_in m x" for x by (rule interest_in_del)
  have old: "index_ok kid (interest_in m) (contract_hash_index ?m)" using assms by simp
  have "snd (remove_peer_interest kid k p m) = ?m
      \<or> snd (remove_peer_interest kid k p m) = cleanup_contract_if_no_interest kid k ?m"
    by (auto simp: remove_peer_interest_def ip_del_def wants_def Let_def split: option.split)
  then show ?thesis
    using index_ok_mono [OF old sub] index_ok_cleanup [OF old sub] by (elim disjE) simp_all
qed

section \<open>Every operation keeps the invariant\<close>

lemma interest_invD:
  assumes "interest_inv kid m"
  shows "tracks (interested_peers m) (peer_contracts m)" "hm_wf (local_interests m)" "hm_wf (pending_removals m)"
    "index_ok kid (interest_in m) (contract_hash_index m)"
  using assms by (auto simp: interest_inv_def)

lemma new_interest_inv: "interest_inv kid (new_interest_manager c)"
  by (simp add: interest_inv_def new_interest_manager_def tracks_def wants_def contracts_of_def index_ok_def
    lookup_index_def interest_in_def has_local_interest_def)

lemma register_inv:
  assumes "interest_inv kid m"
  shows "interest_inv kid (snd (register_peer_interest kid now k p s up m))"
proof -
  let ?m = "m\<lparr>interested_peers := ip_add (new_peer_interest s up now) k p (interested_peers m),
    peer_contracts := pc_add k p (peer_contracts m)\<rparr>"
  have eq: "snd (register_peer_interest kid now k p s up m) = index_contract_hash kid k ?m"
    by (simp add: register_peer_interest_def ip_add_def pc_add_def Let_def)
  have "index_ok kid (\<lambda>x. interest_in m x \<or> x = k) (contract_hash_index (index_contract_hash kid k ?m))"
    using interest_invD(4) [OF assms] by (intro index_ok_index) simp
  then have "index_ok kid (interest_in ?m) (contract_hash_index (index_contract_hash kid k ?m))"
    by (rule index_ok_mono) (auto simp: interest_in_def has_local_interest_def hm_has_ip_add)
  then show ?thesis unfolding eq
    using interest_invD [OF assms] by (simp add: interest_inv_def tracks_add)
qed

lemma remove_inv_interest:
  assumes "interest_inv kid m"
  shows "interest_inv kid (snd (remove_peer_interest kid k p m))"
proof -
  have "tracks (ip_del k p ip) pc" if "tracks ip pc" "\<not> wants ip k p" for ip :: "('a, ('b, peer_interest) hmap) hmap" and pc
    using that unfolding tracks_def by (auto simp: ip_del_wf ip_del_all wants_del)
  then show ?thesis
    using interest_invD [OF assms] remove_index [OF interest_invD(4) [OF assms]]
    by (simp add: interest_inv_def remove_fields tracks_del)
qed

lemma modify_inv:
  assumes "interest_inv kid m"
  shows "interest_inv kid (modify_interest f k p m)"
proof -
  let ?m = "modify_interest f k p m"
  note tr = interest_invD(1) [OF assms, unfolded tracks_def]
  have all: "hm_all (\<lambda>e. hm_wf e \<and> e \<noteq> []) (interested_peers m)" using tr by blast
  have "hm_wf (interested_peers ?m)" using tr by (auto simp: modify_interest_def split: option.split)
  moreover have "hm_all (\<lambda>e. hm_wf e \<and> e \<noteq> []) (interested_peers ?m)"
    using all hm_all_get [OF all, of k]
    by (auto simp: modify_interest_def intro!: hm_all_put split: option.split)
  moreover have "wants (interested_peers ?m) = wants (interested_peers m)"
    by (auto simp: fun_eq_iff wants_look modify_look)
  ultimately have "tracks (interested_peers ?m) (peer_contracts ?m)" using tr by (simp add: tracks_def)
  moreover have "interest_in ?m = interest_in m"
    by (simp add: fun_eq_iff interest_in_def has_local_interest_def modify_keys)
  ultimately show ?thesis using interest_invD [OF assms] by (simp add: interest_inv_def)
qed

lemma forget_fold:
  "interested_peers (foldl (forget_peer kid p) m ks) = foldl (\<lambda>ip k. ip_del k p ip) (interested_peers m) ks"
  "peer_contracts (foldl (forget_peer kid p) m ks) = peer_contracts m"
  "local_interests (foldl (forget_peer kid p) m ks) = local_interests m"
  "pending_removals (foldl (forget_peer kid p) m ks) = pending_removals m"
  by (induction ks arbitrary: m) (simp_all add: forget_fields)

lemma look_del_fold:
  "look (foldl (\<lambda>ip k. ip_del k p ip) ip ks) k' p' = (if p' = p \<and> k' \<in> set ks then None else look ip k' p')"
  by (induction ks arbitrary: ip) (auto simp: look_del)

lemma contracts_of_del: "contracts_of (hm_del p pc) p' = (if p' = p then {} else contracts_of pc p')"
  by (simp add: contracts_of_def hm_simps)

lemma remove_all_look:
  assumes "tracks (interested_peers m) (peer_contracts m)"
  shows "look (interested_peers (snd (remove_all_peer_interests kid p m))) k' p' =
    (if p' = p then None else look (interested_peers m) k' p')"
proof -
  have "set (get_contracts_for_peer p m) = {k. wants (interested_peers m) k p}"
    using assms by (auto simp: get_contracts_for_peer_def tracks_def contracts_of_def split: option.splits)
  then show ?thesis
    by (auto simp: remove_all_peer_interests_def Let_def forget_fold look_del_fold wants_look)
qed

lemma remove_all_inv:
  assumes "interest_inv kid m"
  shows "interest_inv kid (snd (remove_all_peer_interests kid p m))"
proof -
  let ?ks = "get_contracts_for_peer p m"
  let ?m = "m\<lparr>peer_contracts := hm_del p (peer_contracts m)\<rparr>"
  let ?m' = "foldl (forget_peer kid p) ?m ?ks"
  note tr = interest_invD(1) [OF assms] and tr' = interest_invD(1) [OF assms, unfolded tracks_def]
  have "index_ok kid (interest_in ?m) (contract_hash_index ?m)"
    using interest_invD(4) [OF assms] by (simp add: interest_in_def [abs_def] has_local_interest_def)
  then have idx: "index_ok kid (interest_in ?m') (contract_hash_index ?m')"
    by (rule foldl_keeps [where I = "\<lambda>m. index_ok kid (interest_in m) (contract_hash_index m)"]) (rule forget_index)
  have "hm_wf (interested_peers ?m') \<and> hm_all (\<lambda>e. hm_wf e \<and> e \<noteq> []) (interested_peers ?m')"
    unfolding forget_fold
    by (rule foldl_keeps [where I = "\<lambda>ip. hm_wf ip \<and> hm_all (\<lambda>e. hm_wf e \<and> e \<noteq> []) ip"])
       (use tr' in \<open>auto simp: ip_del_wf ip_del_all\<close>)
  moreover have "wants (interested_peers ?m') k p' \<longleftrightarrow> k \<in> contracts_of (hm_del p (peer_contracts m)) p'" for k p'
    using tr' remove_all_look [OF tr, of kid p k p']
    by (auto simp: wants_look contracts_of_del remove_all_peer_interests_def Let_def)
  ultimately have "tracks (interested_peers ?m') (peer_contracts ?m')"
    using tr' by (auto simp: tracks_def forget_fold)
  then show ?thesis
    using idx interest_invD [OF assms] by (simp add: interest_inv_def remove_all_peer_interests_def Let_def forget_fold)
qed

lemma remove_all_frame:
  "pending_removals (snd (remove_all_peer_interests kid p m)) = pending_removals m"
  by (simp add: remove_all_peer_interests_def Let_def forget_fold)

text \<open>Fields on which the invariant does not depend.\<close>

lemma interest_inv_updates:
  "interest_inv kid m \<Longrightarrow> hm_wf d \<Longrightarrow> interest_inv kid (m\<lparr>pending_removals := d\<rparr>)"
  "interest_inv kid (m\<lparr>summary_notify_timestamps := t\<rparr>) = interest_inv kid m"
  "interest_inv kid (m\<lparr>delta_cache := c\<rparr>) = interest_inv kid m"
  "interest_inv kid (m\<lparr>resync_requests_received := r\<rparr>) = interest_inv kid m"
  by (simp_all add: interest_inv_def interest_in_def [abs_def] has_local_interest_def)

lemma execute_removal_inv: "interest_inv kid (snd s) \<Longrightarrow> interest_inv kid (snd (execute_removal kid s p))"
  using interest_invD(3) [of kid "snd s"]
  by (auto simp: execute_removal_def split: prod.split intro!: remove_all_inv interest_inv_updates)

lemma execute_inv: "interest_inv kid m \<Longrightarrow> interest_inv kid (snd (execute_pending_removals kid now m))"
  unfolding execute_pending_removals_def
  by (rule foldl_keeps [where I = "\<lambda>s. interest_inv kid (snd s)"]) (simp_all add: execute_removal_inv)

lemma sweep_interest_inv: "interest_inv kid m \<Longrightarrow> interest_inv kid (snd (sweep_expired_interests kid pbytes now m))"
  by (auto simp: sweep_expired_interests_def Let_def intro!: foldl_keeps [where I = "interest_inv kid"] remove_inv_interest)

subsection \<open>Local interest\<close>

lemma gain_inv:
  assumes "interest_inv kid m"
  shows "interest_inv kid (index_contract_hash kid k (m\<lparr>local_interests := hm_put k e (local_interests m)\<rparr>))"
proof -
  let ?m = "m\<lparr>local_interests := hm_put k e (local_interests m)\<rparr>"
  have "index_ok kid (\<lambda>x. interest_in m x \<or> x = k) (contract_hash_index (index_contract_hash kid k ?m))"
    using interest_invD(4) [OF assms] by (intro index_ok_index) simp
  then have "index_ok kid (interest_in ?m) (contract_hash_index (index_contract_hash kid k ?m))"
    by (rule index_ok_mono) (auto simp: interest_in_def has_local_interest_def hm_simps split: if_splits)
  then show ?thesis using interest_invD [OF assms] by (simp add: interest_inv_def)
qed

definition losing :: "(local_interest \<Rightarrow> bool \<times> local_interest) \<Rightarrow> bool" where
  "losing f \<longleftrightarrow> (\<forall>i. fst (f i) = (\<not> is_interested (snd (f i))) \<and> (is_interested (snd (f i)) \<longrightarrow> is_interested i))"

lemma losing_ops:
  "losing remove_client" "losing remove_downstream"
  "losing (\<lambda>i. let i = i\<lparr>hosting := False\<rparr> in (\<not> is_interested i, i))"
  by (auto simp: losing_def remove_client_def remove_downstream_def is_interested_def Let_def)

lemma lose_inv:
  assumes "interest_inv kid m" "losing f"
  shows "interest_inv kid (snd (lose_local kid f k m))"
proof (cases "hm_get (local_interests m) k")
  case (Some e)
  let ?l = "if fst (f e) then hm_del k (local_interests m) else hm_put k (snd (f e)) (local_interests m)"
  let ?m = "m\<lparr>local_interests := ?l\<rparr>"
  have sub: "interest_in ?m x \<Longrightarrow> interest_in m x" for x
    using assms(2) Some by (auto simp: interest_in_def has_local_interest_def hm_simps losing_def split: if_splits)
  have old: "index_ok kid (interest_in m) (contract_hash_index ?m)" using interest_invD(4) [OF assms(1)] by simp
  have eq: "snd (lose_local kid f k m) = (if fst (f e) then cleanup_contract_if_no_interest kid k ?m else ?m)"
    by (simp add: lose_local_def Some split_beta)
  have "index_ok kid (interest_in ?m) (contract_hash_index (snd (lose_local kid f k m)))"
    using index_ok_mono [OF old sub] index_ok_cleanup [OF old sub] by (auto simp: eq)
  then show ?thesis using interest_invD [OF assms(1)] by (auto simp: interest_inv_def eq)
qed (simp add: lose_local_def assms)

lemma cleanup_local_inv:
  assumes "interest_inv kid m"
  shows "interest_inv kid (cleanup_local_interest k m)"
proof -
  have "interest_in (cleanup_local_interest k m) x \<Longrightarrow> interest_in m x" for x
    by (auto simp: cleanup_local_interest_def interest_in_def has_local_interest_def hm_simps split: option.splits if_splits)
  then show ?thesis
    using interest_invD [OF assms] index_ok_mono [OF interest_invD(4) [OF assms], of "interest_in (cleanup_local_interest k m)"]
    by (auto simp: interest_inv_def cleanup_local_interest_def split: option.split if_split)
qed

section \<open>Sequences of calls\<close>

datatype ('k, 'p) interest_call =
  Register 'k 'p "byte list option" bool
| Remove 'k 'p
| Update 'k 'p "byte list option"
| Refresh 'k 'p
| Notify 'k
| Remove_all 'p
| Schedule 'p
| Cancel 'p
| Execute
| Sweep
| Local_register 'k
| Host 'k
| Unhost 'k
| Add_client 'k
| Remove_client 'k
| Add_downstream 'k
| Remove_downstream 'k
| Cleanup_local 'k

fun interest_do ::
  "('k \<Rightarrow> byte list) \<Rightarrow> ('p \<Rightarrow> byte list) \<Rightarrow> ('k, 'p, 'c) interest_manager \<Rightarrow> instant \<times> ('k, 'p) interest_call \<Rightarrow>
   ('k, 'p, 'c) interest_manager" where
  "interest_do kid pbytes m (now, Register k p s up) = snd (register_peer_interest kid now k p s up m)"
| "interest_do kid pbytes m (now, Remove k p) = snd (remove_peer_interest kid k p m)"
| "interest_do kid pbytes m (now, Update k p s) = update_peer_summary now k p s m"
| "interest_do kid pbytes m (now, Refresh k p) = refresh_peer_interest now k p m"
| "interest_do kid pbytes m (now, Notify k) = snd (should_send_summary_notification now k m)"
| "interest_do kid pbytes m (now, Remove_all p) = snd (remove_all_peer_interests kid p m)"
| "interest_do kid pbytes m (now, Schedule p) = schedule_deferred_removal now p m"
| "interest_do kid pbytes m (now, Cancel p) = snd (cancel_deferred_removal p m)"
| "interest_do kid pbytes m (now, Execute) = snd (execute_pending_removals kid now m)"
| "interest_do kid pbytes m (now, Sweep) = snd (sweep_expired_interests kid pbytes now m)"
| "interest_do kid pbytes m (now, Local_register k) = register_local_interest kid k m"
| "interest_do kid pbytes m (now, Host k) = snd (register_local_hosting kid k m)"
| "interest_do kid pbytes m (now, Unhost k) = snd (unregister_local_hosting kid k m)"
| "interest_do kid pbytes m (now, Add_client k) = snd (add_local_client kid k m)"
| "interest_do kid pbytes m (now, Remove_client k) = snd (remove_local_client kid k m)"
| "interest_do kid pbytes m (now, Add_downstream k) = snd (add_downstream_interest kid k m)"
| "interest_do kid pbytes m (now, Remove_downstream k) = snd (remove_downstream_interest kid k m)"
| "interest_do kid pbytes m (now, Cleanup_local k) = cleanup_local_interest k m"

lemmas local_defs = register_local_interest_def register_local_hosting_def unregister_local_hosting_def gain_local_def
  add_local_client_def remove_local_client_def add_downstream_interest_def remove_downstream_interest_def

lemma interest_do_inv: "interest_inv kid m \<Longrightarrow> interest_inv kid (interest_do kid pbytes m c)"
  by (cases "(kid, pbytes, m, c)" rule: interest_do.cases)
    (simp_all add: register_inv remove_inv_interest update_peer_summary_def refresh_peer_interest_def modify_inv
      should_send_summary_notification_def Let_def interest_inv_updates remove_all_inv schedule_deferred_removal_def
      cancel_deferred_removal_def execute_inv sweep_interest_inv local_defs gain_inv lose_inv losing_ops [unfolded Let_def] split_beta
      cleanup_local_inv interest_invD)

interpretation im: started_machine "interest_do kid pbytes" "interest_inv kid" "new_interest_manager c" for kid pbytes c
  by unfold_locales (rule interest_do_inv, assumption, rule new_interest_inv)

section \<open>The specification\<close>

text \<open>
  What the manager stands for: one partial map from pairs of a contract and a peer to the
  peer's interest, and the deadlines of disconnected peers.
\<close>

type_synonym ('k, 'p) interest_spec = "('k \<Rightarrow> 'p \<Rightarrow> peer_interest option) \<times> ('p \<Rightarrow> instant option)"

definition spec_set :: "'k \<Rightarrow> 'p \<Rightarrow> peer_interest option \<Rightarrow> ('k \<Rightarrow> 'p \<Rightarrow> peer_interest option) \<Rightarrow> 'k \<Rightarrow> 'p \<Rightarrow> peer_interest option" where
  "spec_set k p v F = (\<lambda>k' p'. if k' = k \<and> p' = p then v else F k' p')"

definition due :: "instant \<Rightarrow> ('p \<Rightarrow> instant option) \<Rightarrow> 'p \<Rightarrow> bool" where
  "due now D p \<longleftrightarrow> (\<exists>d. D p = Some d \<and> d \<le> now)"

fun spec_do :: "('k, 'p) interest_spec \<Rightarrow> instant \<times> ('k, 'p) interest_call \<Rightarrow> ('k, 'p) interest_spec" where
  "spec_do (F, D) (now, Register k p s up) = (spec_set k p (Some (new_peer_interest s up now)) F, D)"
| "spec_do (F, D) (now, Remove k p) = (spec_set k p None F, D)"
| "spec_do (F, D) (now, Update k p s) = (spec_set k p (map_option (update_summary s now) (F k p)) F, D)"
| "spec_do (F, D) (now, Refresh k p) = (spec_set k p (map_option (refresh now) (F k p)) F, D)"
| "spec_do (F, D) (now, Remove_all p) = ((\<lambda>k p'. if p' = p then None else F k p'), D)"
| "spec_do (F, D) (now, Schedule p) = (F, D(p \<mapsto> now + int INTEREST_DISCONNECT_GRACE_PERIOD))"
| "spec_do (F, D) (now, Cancel p) = (F, D(p := None))"
| "spec_do (F, D) (now, Execute) =
     ((\<lambda>k p. if due now D p then None else F k p), (\<lambda>p. if due now D p then None else D p))"
| "spec_do (F, D) (now, Sweep) =
     ((\<lambda>k p. case F k p of None \<Rightarrow> None | Some i \<Rightarrow> if is_expired_at now i then None else Some i), D)"
| "spec_do (F, D) (now, c) = (F, D)"

definition interest_abs :: "('k, 'p, 'c) interest_manager \<Rightarrow> ('k, 'p) interest_spec" where
  "interest_abs m = (look (interested_peers m), hm_get (pending_removals m))"

lemma execute_fold:
  assumes "interest_inv kid (snd s)"
  shows "interest_abs (snd (foldl (execute_removal kid) s ps)) =
    ((\<lambda>k p. if p \<in> set ps \<and> hm_has p (pending_removals (snd s)) then None else look (interested_peers (snd s)) k p),
     (\<lambda>p. if p \<in> set ps then None else hm_get (pending_removals (snd s)) p))"
  using assms
proof (induction ps arbitrary: s)
  case (Cons p ps)
  obtain n m where s: "s = (n, m)" by (cases s)
  let ?m = "m\<lparr>pending_removals := hm_del p (pending_removals m)\<rparr>"
  have "tracks (interested_peers ?m) (peer_contracts ?m)" using interest_invD(1) [OF Cons.prems] s by simp
  note all = remove_all_look [OF this, of kid p]
  have "interest_inv kid (snd (execute_removal kid s p))" using Cons.prems by (rule execute_removal_inv)
  from Cons.IH [OF this] show ?case
    using all by (auto simp: s execute_removal_def fun_eq_iff remove_all_frame hm_has_def hm_simps interest_abs_def)
qed (simp add: interest_abs_def)

lemma execute_refines:
  assumes "interest_inv kid m"
  shows "interest_abs (snd (execute_pending_removals kid now m)) = spec_do (interest_abs m) (now, Execute)"
proof -
  have wf: "hm_wf (pending_removals m)" using assms by (rule interest_invD)
  have "p \<in> set (map fst (filter (\<lambda>(_, d). d \<le> now) (pending_removals m))) \<longleftrightarrow> due now (hm_get (pending_removals m)) p" for p
    using hm_get_in_set [OF wf] by (force simp: due_def)
  then show ?thesis
    using execute_fold [of kid "(0, m)"] assms
    by (auto simp: execute_pending_removals_def interest_abs_def fun_eq_iff hm_has_def due_def)
qed

lemma sweep_fold:
  "interest_abs (foldl (\<lambda>m (k, p). snd (remove_peer_interest kid k p m)) m ps) =
     ((\<lambda>k p. if (k, p) \<in> set ps then None else look (interested_peers m) k p), hm_get (pending_removals m))"
  by (induction ps arbitrary: m) (auto simp: interest_abs_def fun_eq_iff remove_fields look_del split: if_splits)

lemma expired_pairs:
  assumes "interest_inv kid m"
  shows "(k, p) \<in> set (fst (sweep_expired_interests kid pbytes now m)) \<longleftrightarrow>
    (\<exists>i. look (interested_peers m) k p = Some i \<and> is_expired_at now i)"
proof -
  note tr = interest_invD(1) [OF assms, unfolded tracks_def]
  have "(k, p) \<in> set (fst (sweep_expired_interests kid pbytes now m)) \<longleftrightarrow>
      (\<exists>e i. (k, e) \<in> set (interested_peers m) \<and> (p, i) \<in> set e \<and> is_expired_at now i)"
    by (force simp: sweep_expired_interests_def Let_def)
  also have "\<dots> \<longleftrightarrow> (\<exists>e i. hm_get (interested_peers m) k = Some e \<and> hm_get e p = Some i \<and> is_expired_at now i)"
    using tr by (fastforce simp: hm_get_in_set hm_all_def)
  finally show ?thesis by (auto simp: look_def split: option.split)
qed

lemma sweep_refines:
  assumes "interest_inv kid m"
  shows "interest_abs (snd (sweep_expired_interests kid pbytes now m)) = spec_do (interest_abs m) (now, Sweep)"
proof -
  have eq: "snd (sweep_expired_interests kid pbytes now m) =
      foldl (\<lambda>m (k, p). snd (remove_peer_interest kid k p m)) m (fst (sweep_expired_interests kid pbytes now m))"
    by (simp add: sweep_expired_interests_def Let_def)
  show ?thesis
    unfolding eq sweep_fold by (auto simp: interest_abs_def fun_eq_iff expired_pairs [OF assms] split: option.split)
qed

lemma lose_fields:
  "interested_peers (snd (lose_local kid f k m)) = interested_peers m"
  "pending_removals (snd (lose_local kid f k m)) = pending_removals m"
  by (auto simp: lose_local_def split_beta split: option.split)

lemma cleanup_local_fields:
  "interested_peers (cleanup_local_interest k m) = interested_peers m"
  "pending_removals (cleanup_local_interest k m) = pending_removals m"
  by (auto simp: cleanup_local_interest_def split: option.split)

lemma interest_do_refines:
  assumes "interest_inv kid m"
  shows "interest_abs (interest_do kid pbytes m c) = spec_do (interest_abs m) c"
proof -
  have all: "interest_abs (snd (remove_all_peer_interests kid p m)) = spec_do (interest_abs m) (now, Remove_all p)" for p now
    by (simp add: interest_abs_def fun_eq_iff remove_all_look [OF interest_invD(1) [OF assms]] remove_all_frame)
  show ?thesis
    by (cases "(kid, pbytes, m, c)" rule: interest_do.cases)
      (simp_all add: execute_refines [OF assms] sweep_refines [OF assms] all,
       simp_all add: interest_abs_def spec_set_def fun_eq_iff register_fields remove_fields look_add look_del
        update_peer_summary_def refresh_peer_interest_def modify_look should_send_summary_notification_def Let_def
        schedule_deferred_removal_def cancel_deferred_removal_def hm_simps local_defs lose_fields cleanup_local_fields split_beta)
qed

lemma interest_run_refines:
  "interest_inv kid m \<Longrightarrow> interest_abs (foldl (interest_do kid pbytes) m cs) = foldl spec_do (interest_abs m) cs"
  by (induction cs arbitrary: m) (simp_all add: interest_do_refines interest_do_inv)

section \<open>Properties\<close>

text \<open>
  C21: Whatever calls are made, in any order and at any times, the manager is the specification:
  its entries and pending removals are those of one partial map of pairs and one of deadlines on
  which each call acts as specified, and the reverse index lists for every peer exactly the
  contracts it has an entry for, each once.
\<close>

theorem interest_manager_refines:
  fixes kid :: "'k \<Rightarrow> byte list" and pbytes :: "'p \<Rightarrow> byte list" and c :: 'c
  shows "interest_abs (foldl (interest_do kid pbytes) (new_interest_manager c) calls) =
     foldl spec_do ((\<lambda>_ _. None), (\<lambda>_. None)) calls
   \<and> set (get_contracts_for_peer p (foldl (interest_do kid pbytes) (new_interest_manager c) calls)) =
       {k. fst (foldl spec_do ((\<lambda>_ _. None), (\<lambda>_. None)) calls) k p \<noteq> None}
   \<and> distinct (get_contracts_for_peer p (foldl (interest_do kid pbytes) (new_interest_manager c) calls))"
proof -
  let ?m = "foldl (interest_do kid pbytes) (new_interest_manager c) calls"
  have inv: "interest_inv kid ?m" by (rule im.reachable_inv)
  have "interest_abs (new_interest_manager c :: ('k, 'p, 'c) interest_manager) = ((\<lambda>_ _. None), (\<lambda>_. None))"
    by (simp add: interest_abs_def new_interest_manager_def look_def fun_eq_iff)
  then have abs: "interest_abs ?m = foldl spec_do ((\<lambda>_ _. None), (\<lambda>_. None)) calls"
    by (simp add: interest_run_refines [OF new_interest_inv])
  then have look: "fst (foldl spec_do ((\<lambda>_ _. None), (\<lambda>_. None)) calls) = look (interested_peers ?m)"
    unfolding abs [symmetric] interest_abs_def by simp
  note tr = interest_invD(1) [OF inv, unfolded tracks_def]
  have "\<forall>k. look (interested_peers ?m) k p \<noteq> None \<longleftrightarrow> k \<in> contracts_of (peer_contracts ?m) p"
    unfolding wants_look [symmetric] using tr by blast
  moreover have "set (get_contracts_for_peer p ?m) = contracts_of (peer_contracts ?m) p"
    by (simp add: get_contracts_for_peer_def contracts_of_def split: option.split)
  ultimately have "set (get_contracts_for_peer p ?m) = {k. look (interested_peers ?m) k p \<noteq> None}" by blast
  moreover have "hm_all (\<lambda>ks. distinct ks \<and> ks \<noteq> []) (peer_contracts ?m)" using tr by blast
  then have "distinct (get_contracts_for_peer p ?m)"
    using hm_all_get by (fastforce simp: get_contracts_for_peer_def split: option.split)
  ultimately show ?thesis unfolding look using abs by blast
qed

section \<open>Discovery by hash\<close>

lemma matching_iff:
  assumes "interest_inv kid m"
  shows "k \<in> set (get_matching_contracts kid hashes m) \<longleftrightarrow>
    contract_hash (kid k) \<in> set hashes \<and> k \<in> set (lookup_by_hash (contract_hash (kid k)) m)"
proof -
  note ix = index_okD [OF interest_invD(4) [OF assms]]
  have "k \<in> set (get_matching_contracts kid hashes m) \<longleftrightarrow>
      (\<exists>h ks. hm_get (contract_hash_index m) h = Some ks \<and> h \<in> set hashes \<and> k \<in> set ks)"
    by (force simp: get_matching_contracts_def hm_get_in_set [OF ix(1)])
  also have "\<dots> \<longleftrightarrow> (\<exists>h. h \<in> set hashes \<and> k \<in> set (lookup_index (contract_hash_index m) h))"
    by (force simp: lookup_index_def split: option.splits)
  also have "\<dots> \<longleftrightarrow> contract_hash (kid k) \<in> set hashes \<and> k \<in> set (lookup_index (contract_hash_index m) (contract_hash (kid k)))"
    using ix(3) by blast
  finally show ?thesis by (simp add: lookup_by_hash_index)
qed

lemma interest_indexed:
  assumes "interest_inv kid m" "interest_in m k"
  shows "k \<in> set (lookup_by_hash (contract_hash (kid k)) m)"
  using index_okD(4) [OF interest_invD(4) [OF assms(1)] assms(2)] by (simp add: lookup_by_hash_index)

lemma indexed_hash_listed:
  "k \<in> set (lookup_by_hash h m) \<Longrightarrow> h \<in> set (get_all_interest_hashes m)"
proof -
  assume "k \<in> set (lookup_by_hash h m)"
  then have "hm_has h (contract_hash_index m)"
    by (cases "hm_get (contract_hash_index m) h") (auto simp: lookup_by_hash_def hm_has_def)
  then show ?thesis unfolding hm_has_iff by (simp add: get_all_interest_hashes_def)
qed

section \<open>Cached deltas\<close>

text \<open>
  What the manager relies on of the LRU cache: it is empty at first; a hit is the value last put
  under that very key; looking up changes no value.  Entries may vanish at any insertion.
\<close>

definition lru_ok :: "('k, 'c) cache_ops \<Rightarrow> 'c \<Rightarrow> bool" where
  "lru_ok ops empty_cache \<longleftrightarrow>
     (\<forall>x. fst (lru_get ops x empty_cache) = None)
     \<and> (\<forall>x y v c d. fst (lru_get ops y (lru_put ops x v c)) = Some d \<longrightarrow>
          (if y = x then d = v else fst (lru_get ops y c) = Some d))
     \<and> (\<forall>x y c. fst (lru_get ops y (snd (lru_get ops x c))) = fst (lru_get ops y c))"

text \<open>A request of the broadcast path and what the contract answers then.\<close>

record 'k delta_request =
  rq_key :: 'k
  rq_theirs :: "byte list"
  rq_ours :: "byte list"
  rq_size :: nat
  rq_handler :: "'k \<Rightarrow> byte list \<Rightarrow> delta_response"

definition answer ::
  "('k, 'c) cache_ops \<Rightarrow> ('k, 'p, 'c) interest_manager \<Rightarrow> 'k delta_request \<Rightarrow>
   (delta_error + byte list option) \<times> ('k, 'p, 'c) interest_manager" where
  "answer ops m r = compute_delta ops (rq_handler r) (rq_key r) (rq_theirs r) (rq_ours r) (rq_size r) m"

definition request_ok :: "('k \<Rightarrow> byte list \<Rightarrow> byte list \<Rightarrow> byte list) \<Rightarrow> byte list set \<Rightarrow> 'k delta_request \<Rightarrow> bool" where
  "request_ok delta_of S r \<longleftrightarrow> rq_theirs r \<in> S \<and> rq_ours r \<in> S
     \<and> (\<forall>d. rq_handler r (rq_key r) (rq_theirs r) = DeltaOk d \<longrightarrow> d = delta_of (rq_key r) (rq_theirs r) (rq_ours r))"

definition cache_sound ::
  "('k, 'c) cache_ops \<Rightarrow> ('k \<Rightarrow> byte list \<Rightarrow> byte list \<Rightarrow> byte list) \<Rightarrow> byte list set \<Rightarrow> 'c \<Rightarrow> bool" where
  "cache_sound ops delta_of S c \<longleftrightarrow>
     (\<forall>k t u d. t \<in> S \<longrightarrow> u \<in> S \<longrightarrow> fst (lru_get ops (delta_key ops k t u) c) = Some d \<longrightarrow> d = delta_of k t u)"

lemma delta_key_inj:
  assumes "inj_on (hash_bytes ops) S" "t \<in> S" "u \<in> S" "t' \<in> S" "u' \<in> S"
  shows "delta_key ops k t u = delta_key ops k' t' u' \<longleftrightarrow> k = k' \<and> t = t' \<and> u = u'"
  using assms by (auto simp: delta_key_def inj_on_eq_iff)

lemma cache_sound_put:
  assumes "lru_ok ops e" "inj_on (hash_bytes ops) S" "cache_sound ops delta_of S c" "t \<in> S" "u \<in> S"
  shows "cache_sound ops delta_of S (lru_put ops (delta_key ops k t u) (delta_of k t u) c)"
  unfolding cache_sound_def
proof (intro allI impI)
  fix k' t' u' d
  assume t': "t' \<in> S" "u' \<in> S"
    and hit: "fst (lru_get ops (delta_key ops k' t' u') (lru_put ops (delta_key ops k t u) (delta_of k t u) c)) = Some d"
  have "if delta_key ops k' t' u' = delta_key ops k t u then d = delta_of k t u
      else fst (lru_get ops (delta_key ops k' t' u') c) = Some d"
    using assms(1) hit unfolding lru_ok_def by blast
  then show "d = delta_of k' t' u'"
    using delta_key_inj [OF assms(2) t' assms(4,5), of k' k] assms(3) t'
    by (auto simp: cache_sound_def split: if_splits)
qed

lemma cache_sound_get:
  assumes "lru_ok ops e" "cache_sound ops delta_of S c"
  shows "cache_sound ops delta_of S (snd (lru_get ops x c))"
proof -
  have "\<forall>x y c. fst (lru_get ops y (snd (lru_get ops x c))) = fst (lru_get ops y c)"
    using assms(1) unfolding lru_ok_def by blast
  then show ?thesis using assms(2) by (simp only: cache_sound_def)
qed

lemma answer_hit:
  "fst (lru_get ops (delta_key ops (rq_key r) (rq_theirs r) (rq_ours r)) (delta_cache m)) = Some d \<Longrightarrow>
   fst (answer ops m r) = Inr (if d = [] then None else Some d)"
  by (simp add: answer_def compute_delta_def get_cached_delta_def split_beta)

lemma answer_miss:
  assumes "fst (lru_get ops (delta_key ops (rq_key r) (rq_theirs r) (rq_ours r)) (delta_cache m)) = None"
    "fst (answer ops m r) = Inr v"
  obtains d where "rq_handler r (rq_key r) (rq_theirs r) = DeltaOk d" "v = (if d = [] then None else Some d)"
  using assms
  by (auto simp: answer_def compute_delta_def get_cached_delta_def split: prod.splits if_splits delta_response.splits)

lemma answer_cache:
  "delta_cache (snd (answer ops m r)) =
     (let x = delta_key ops (rq_key r) (rq_theirs r) (rq_ours r); c = snd (lru_get ops x (delta_cache m))
      in case fst (lru_get ops x (delta_cache m)) of
           Some d \<Rightarrow> c
         | None \<Rightarrow> if is_delta_efficient (length (rq_theirs r)) (rq_size r)
                   then (case rq_handler r (rq_key r) (rq_theirs r) of DeltaOk d \<Rightarrow> lru_put ops x d c | _ \<Rightarrow> c)
                   else c)"
  by (auto simp: answer_def compute_delta_def get_cached_delta_def cache_delta_def Let_def
    split: prod.splits option.splits delta_response.splits)

lemma answer_sound:
  assumes ok: "lru_ok ops e" "inj_on (hash_bytes ops) S" and r: "request_ok delta_of S r"
    and c: "cache_sound ops delta_of S (delta_cache m)"
  shows "cache_sound ops delta_of S (delta_cache (snd (answer ops m r)))"
    and "fst (answer ops m r) = Inr v \<Longrightarrow>
      v = (if delta_of (rq_key r) (rq_theirs r) (rq_ours r) = [] then None else Some (delta_of (rq_key r) (rq_theirs r) (rq_ours r)))"
proof -
  let ?x = "delta_key ops (rq_key r) (rq_theirs r) (rq_ours r)"
  let ?d = "delta_of (rq_key r) (rq_theirs r) (rq_ours r)"
  have in_S: "rq_theirs r \<in> S" "rq_ours r \<in> S"
    and handler: "\<And>d. rq_handler r (rq_key r) (rq_theirs r) = DeltaOk d \<Longrightarrow> d = ?d"
    using r by (auto simp: request_ok_def)
  have got: "cache_sound ops delta_of S (snd (lru_get ops ?x (delta_cache m)))" by (rule cache_sound_get [OF ok(1) c])
  have put: "cache_sound ops delta_of S (lru_put ops ?x ?d (snd (lru_get ops ?x (delta_cache m))))"
    by (rule cache_sound_put [OF ok got in_S])
  show "cache_sound ops delta_of S (delta_cache (snd (answer ops m r)))"
    unfolding answer_cache Let_def using got put handler by (auto split: option.split delta_response.split)
  assume v: "fst (answer ops m r) = Inr v"
  show "v = (if ?d = [] then None else Some ?d)"
  proof (cases "fst (lru_get ops ?x (delta_cache m))")
    case None
    from answer_miss [OF None v] show ?thesis using handler by metis
  next
    case (Some d)
    then have "d = ?d" using c in_S unfolding cache_sound_def by blast
    then show ?thesis using answer_hit [OF Some] v by simp
  qed
qed

lemma answers_sound:
  assumes "lru_ok ops e" "inj_on (hash_bytes ops) S" "list_all (request_ok delta_of S) rs"
    "cache_sound ops delta_of S (delta_cache m)"
  shows "cache_sound ops delta_of S (delta_cache (foldl (\<lambda>m r. snd (answer ops m r)) m rs))"
  using assms(3,4)
proof (induction rs arbitrary: m)
  case (Cons r rs)
  then have "cache_sound ops delta_of S (delta_cache (snd (answer ops m r)))"
    by (intro answer_sound(1) [OF assms(1,2)]) simp_all
  then show ?case using Cons by simp
qed simp

text \<open>
  Let the summaries of a sequence of requests come from a set on which the hash is
  injective, and let the contract's answers be those of one function of the contract and the two
  summaries.  Then every delta handed out, from the cache or not, is the contract's, and none is
  handed out exactly for an empty delta.
\<close>

theorem deltas_are_the_contracts:
  assumes "lru_ok ops e" "inj_on (hash_bytes ops) S" "list_all (request_ok delta_of S) (rs @ [r])"
    and "fst (answer ops (foldl (\<lambda>m r. snd (answer ops m r)) (new_interest_manager e) rs) r) = Inr v"
  shows "v = (if delta_of (rq_key r) (rq_theirs r) (rq_ours r) = [] then None
              else Some (delta_of (rq_key r) (rq_theirs r) (rq_ours r)))"
proof -
  have "\<forall>x. fst (lru_get ops x e) = None" using assms(1) unfolding lru_ok_def by blast
  then have "cache_sound ops delta_of S (delta_cache (new_interest_manager e))"
    by (simp add: cache_sound_def new_interest_manager_def)
  then have "cache_sound ops delta_of S (delta_cache (foldl (\<lambda>m r. snd (answer ops m r)) (new_interest_manager e) rs))"
    using assms(3) by (intro answers_sound [OF assms(1,2)]) simp_all
  then show ?thesis using assms(3) by (intro answer_sound(2) [OF assms(1,2) _ _ assms(4)]) simp_all
qed

text \<open>An association list of which nothing is ever evicted is such a cache.\<close>

definition list_cache :: "(byte list \<Rightarrow> nat) \<Rightarrow> ('k, ('k delta_cache_key, byte list) hmap) cache_ops" where
  "list_cache h = \<lparr>lru_put = hm_put, lru_get = (\<lambda>x c. (hm_get c x, c)), hash_bytes = h\<rparr>"

lemma list_cache_ok: "lru_ok (list_cache h) []"
  by (simp add: lru_ok_def list_cache_def hm_simps)

theorem deltas_are_the_contracts_witness:
  "\<exists>v. fst (answer (list_cache length)
       (snd (answer (list_cache length) (new_interest_manager [] :: (nat, nat, _) interest_manager)
          \<lparr>rq_key = 1, rq_theirs = [4], rq_ours = [4, 5], rq_size = 9, rq_handler = (\<lambda>_ _. DeltaOk [5])\<rparr>))
       \<lparr>rq_key = 1, rq_theirs = [4], rq_ours = [4, 5], rq_size = 0, rq_handler = (\<lambda>_ _. HandlerFailed)\<rparr>) = Inr v
     \<and> v = Some [5]"
proof -
  let ?r1 = "\<lparr>rq_key = 1 :: nat, rq_theirs = [4], rq_ours = [4, 5], rq_size = 9, rq_handler = (\<lambda>_ _. DeltaOk [5])\<rparr>"
  let ?r2 = "\<lparr>rq_key = 1 :: nat, rq_theirs = [4], rq_ours = [4, 5], rq_size = 0, rq_handler = (\<lambda>_ _. HandlerFailed)\<rparr>"
  let ?m = "snd (answer (list_cache length) (new_interest_manager [] :: (nat, nat, _) interest_manager) ?r1)"
  obtain v where v: "fst (answer (list_cache length) ?m ?r2) = Inr v"
    by (simp add: answer_def compute_delta_def get_cached_delta_def cache_delta_def list_cache_def new_interest_manager_def
      is_delta_efficient_def delta_key_def)
  have "inj_on (hash_bytes (list_cache length)) {[4], [4, 5]}" by (simp add: list_cache_def)
  moreover have "list_all (request_ok (\<lambda>_ _ _. [5]) {[4], [4, 5]}) ([?r1] @ [?r2])" by (simp add: request_ok_def)
  ultimately have "v = Some [5]"
    using deltas_are_the_contracts [OF list_cache_ok, of length "{[4], [4, 5]}" "\<lambda>_ _ _. [5]" "[?r1]" ?r2 v] v by simp
  with v show ?thesis by blast
qed

text \<open>When two summaries collide, the cache hands out the delta of the other one.\<close>

lemma colliding_summaries_share_delta:
  assumes "h t = h t'" "2 * length t < n" "d \<noteq> []"
  shows "fst (compute_delta (list_cache h) handler k t' u n'
      (snd (compute_delta (list_cache h) (\<lambda>_ _. DeltaOk d) k t u n (new_interest_manager [])))) = Inr (Some d)"
  using assms
  by (simp add: compute_delta_def get_cached_delta_def cache_delta_def list_cache_def new_interest_manager_def
    is_delta_efficient_def delta_key_def)

end
