(* ===== verification/Interest_Sync.thy ===== *)
theory Interest_Sync
  imports Interest_Manager
begin

text \<open>
  The interest exchange between neighbours: \<open>InterestMessage\<close> of \<open>message.rs\<close> and
  \<open>handle_interest_sync_message\<close> of \<open>node.rs\<close>.  The contract handler's answers for the summary and
  the state of a contract are the functions \<open>summary_of\<close> and \<open>state_of\<close>, the peer behind the
  source address is an argument (\<open>None\<close> when the address is not connected), and one message is
  handled at one instant.  What a message makes the node do besides is returned as effects.

  Shown: a heartbeat replaces exactly the sender's entries; the protocol keeps the manager's
  invariant; and two nodes keep each other's entries alive although neither has an interest.
\<close>

record summary_entry =
  se_hash :: "32 word"
  summary_bytes :: "byte list option"

definition from_summary :: "32 word \<Rightarrow> byte list option \<Rightarrow> summary_entry" where
  "from_summary h s = \<lparr>se_hash = h, summary_bytes = s\<rparr>"

definition to_summary :: "summary_entry \<Rightarrow> byte list option" where
  "to_summary e = summary_bytes e"

datatype 'k interest_message =
  Interests "32 word list"
| Summaries "summary_entry list"
| ChangeInterests "32 word list" "32 word list"
| ResyncRequest 'k
| ResyncResponse 'k "byte list" "byte list"

record 'k contract_view =
  summary_of :: "'k \<Rightarrow> byte list option"
  state_of :: "'k \<Rightarrow> byte list option"

datatype 'k sync_effect = BroadcastStateChange 'k "byte list" | UpdateQuery 'k "byte list"

text \<open>Full replacement: the sender's entries whose hash is not among the announced ones go.\<close>

definition drop_unannounced ::
  "('k \<Rightarrow> byte list) \<Rightarrow> 32 word list \<Rightarrow> 'p \<Rightarrow> ('k, 'p, 'c) interest_manager \<Rightarrow> ('k, 'p, 'c) interest_manager" where
  "drop_unannounced kid hashes pk m =
     foldl (\<lambda>m contract.
         if contract_hash (kid contract) \<in> set hashes then m
         else snd (remove_peer_interest kid contract pk m))
       m (get_contracts_for_peer pk m)"

definition note_interest ::
  "('k \<Rightarrow> byte list) \<Rightarrow> instant \<Rightarrow> 'p \<Rightarrow> ('k, 'p, 'c) interest_manager \<Rightarrow> 'k \<Rightarrow> ('k, 'p, 'c) interest_manager" where
  "note_interest kid now pk m contract =
     (if get_peer_interest contract pk m \<noteq> None then refresh_peer_interest now contract pk m
      else snd (register_peer_interest kid now contract pk None False m))"

definition on_interests ::
  "('k \<Rightarrow> byte list) \<Rightarrow> 'k contract_view \<Rightarrow> instant \<Rightarrow> 'p option \<Rightarrow> 32 word list \<Rightarrow> ('k, 'p, 'c) interest_manager \<Rightarrow>
   'k interest_message option \<times> ('k, 'p, 'c) interest_manager" where
  "on_interests kid view now peer_key hashes m =
     (let m = (case peer_key of Some pk \<Rightarrow> drop_unannounced kid hashes pk m | None \<Rightarrow> m);
          matching = get_matching_contracts kid hashes m;
          entries = map (\<lambda>c. from_summary (contract_hash (kid c)) (summary_of view c)) matching;
          m = (case peer_key of Some pk \<Rightarrow> foldl (note_interest kid now pk) m matching | None \<Rightarrow> m)
      in (if entries = [] then None else Some (Summaries entries), m))"

text \<open>One contract of one entry of a \<open>Summaries\<close> message.\<close>

definition note_summary ::
  "'k contract_view \<Rightarrow> instant \<Rightarrow> 'p \<Rightarrow> byte list option \<Rightarrow> 'k list \<times> ('k, 'p, 'c) interest_manager \<Rightarrow> 'k \<Rightarrow>
   'k list \<times> ('k, 'p, 'c) interest_manager" where
  "note_summary view now pk their_summary s contract =
     (case s of (stale, m) \<Rightarrow>
        if \<not> has_local_interest contract m then (stale, m)
        else (let is_stale = (case (summary_of view contract, their_summary) of
                                (Some ours, Some theirs) \<Rightarrow> ours \<noteq> theirs
                              | _ \<Rightarrow> False)
              in (if is_stale \<and> contract \<notin> set stale then stale @ [contract] else stale,
                  update_peer_summary now contract pk their_summary m)))"

definition note_entry ::
  "'k contract_view \<Rightarrow> instant \<Rightarrow> 'p \<Rightarrow> 'k list \<times> ('k, 'p, 'c) interest_manager \<Rightarrow> summary_entry \<Rightarrow>
   'k list \<times> ('k, 'p, 'c) interest_manager" where
  "note_entry view now pk s e =
     foldl (note_summary view now pk (to_summary e)) s (lookup_by_hash (se_hash e) (snd s))"

definition on_summaries ::
  "'k contract_view \<Rightarrow> instant \<Rightarrow> 'p option \<Rightarrow> summary_entry list \<Rightarrow> ('k, 'p, 'c) interest_manager \<Rightarrow>
   'k sync_effect list \<times> ('k, 'p, 'c) interest_manager" where
  "on_summaries view now peer_key entries m =
     (case peer_key of
        None \<Rightarrow> ([], m)
      | Some pk \<Rightarrow>
          (let (stale, m) = foldl (note_entry view now pk) ([], m) entries
           in (List.map_filter (\<lambda>c. map_option (BroadcastStateChange c) (state_of view c)) stale, m)))"

definition drop_hash ::
  "('k \<Rightarrow> byte list) \<Rightarrow> 'p \<Rightarrow> ('k, 'p, 'c) interest_manager \<Rightarrow> 32 word \<Rightarrow> ('k, 'p, 'c) interest_manager" where
  "drop_hash kid pk m hash =
     foldl (\<lambda>m contract. snd (remove_peer_interest kid contract pk m)) m (lookup_by_hash hash m)"

definition add_contract ::
  "('k \<Rightarrow> byte list) \<Rightarrow> 'k contract_view \<Rightarrow> instant \<Rightarrow> 'p \<Rightarrow> 32 word \<Rightarrow> summary_entry list \<times> ('k, 'p, 'c) interest_manager \<Rightarrow>
   'k \<Rightarrow> summary_entry list \<times> ('k, 'p, 'c) interest_manager" where
  "add_contract kid view now pk hash s contract =
     (case s of (entries, m) \<Rightarrow>
        if \<not> has_local_interest contract m then (entries, m)
        else (entries @ [from_summary hash (summary_of view contract)],
              snd (register_peer_interest kid now contract pk None False m)))"

definition add_hash ::
  "('k \<Rightarrow> byte list) \<Rightarrow> 'k contract_view \<Rightarrow> instant \<Rightarrow> 'p \<Rightarrow> summary_entry list \<times> ('k, 'p, 'c) interest_manager \<Rightarrow>
   32 word \<Rightarrow> summary_entry list \<times> ('k, 'p, 'c) interest_manager" where
  "add_hash kid view now pk s hash =
     foldl (add_contract kid view now pk hash) s (lookup_by_hash hash (snd s))"

definition on_change_interests ::
  "('k \<Rightarrow> byte list) \<Rightarrow> 'k contract_view \<Rightarrow> instant \<Rightarrow> 'p option \<Rightarrow> 32 word list \<Rightarrow> 32 word list \<Rightarrow>
   ('k, 'p, 'c) interest_manager \<Rightarrow> 'k interest_message option \<times> ('k, 'p, 'c) interest_manager" where
  "on_change_interests kid view now peer_key added removed m =
     (case peer_key of
        None \<Rightarrow> (None, m)
      | Some pk \<Rightarrow>
          (let m = foldl (drop_hash kid pk) m removed;
               (entries, m) = foldl (add_hash kid view now pk) ([], m) added
           in (if entries = [] then None else Some (Summaries entries), m)))"

definition on_resync_request ::
  "'k contract_view \<Rightarrow> instant \<Rightarrow> 'p option \<Rightarrow> 'k \<Rightarrow> ('k, 'p, 'c) interest_manager \<Rightarrow>
   'k interest_message option \<times> ('k, 'p, 'c) interest_manager" where
  "on_resync_request view now peer_key key m =
     (let m = record_resync_request_received m;
          m = (case peer_key of Some pk \<Rightarrow> update_peer_summary now key pk None m | None \<Rightarrow> m)
      in (case (state_of view key, summary_of view key) of
            (Some st, Some s) \<Rightarrow> Some (ResyncResponse key st s)
          | _ \<Rightarrow> None, m))"

fun handle_interest_sync_message ::
  "('k \<Rightarrow> byte list) \<Rightarrow> 'k contract_view \<Rightarrow> instant \<Rightarrow> 'p option \<Rightarrow> 'k interest_message \<Rightarrow> ('k, 'p, 'c) interest_manager \<Rightarrow>
   'k interest_message option \<times> 'k sync_effect list \<times> ('k, 'p, 'c) interest_manager" where
  "handle_interest_sync_message kid view now peer_key (Interests hashes) m =
     (let (r, m) = on_interests kid view now peer_key hashes m in (r, [], m))"
| "handle_interest_sync_message kid view now peer_key (Summaries entries) m =
     (let (es, m) = on_summaries view now peer_key entries m in (None, es, m))"
| "handle_interest_sync_message kid view now peer_key (ChangeInterests added removed) m =
     (let (r, m) = on_change_interests kid view now peer_key added removed m in (r, [], m))"
| "handle_interest_sync_message kid view now peer_key (ResyncRequest key) m =
     (let (r, m) = on_resync_request view now peer_key key m in (r, [], m))"
| "handle_interest_sync_message kid view now peer_key (ResyncResponse key st s) m =
     (None, [UpdateQuery key st],
      case peer_key of Some pk \<Rightarrow> update_peer_summary now key pk (Some s) m | None \<Rightarrow> m)"

section \<open>The invariant\<close>

lemma drop_unannounced_inv: "interest_inv kid m \<Longrightarrow> interest_inv kid (drop_unannounced kid hs p m)"
  unfolding drop_unannounced_def
  by (rule foldl_keeps [where I = "interest_inv kid"]) (simp_all add: remove_inv_interest)

lemma note_interest_inv: "interest_inv kid m \<Longrightarrow> interest_inv kid (note_interest kid now p m k)"
  by (simp add: note_interest_def register_inv refresh_peer_interest_def modify_inv)

lemma on_interests_inv: "interest_inv kid m \<Longrightarrow> interest_inv kid (snd (on_interests kid view now pk hs m))"
  by (cases pk)
     (simp_all add: on_interests_def Let_def drop_unannounced_inv foldl_keeps [where I = "interest_inv kid"] note_interest_inv)

lemma note_summary_inv: "interest_inv kid (snd s) \<Longrightarrow> interest_inv kid (snd (note_summary view now p t s k))"
  by (auto simp: note_summary_def Let_def update_peer_summary_def modify_inv split: prod.splits)

lemma note_entry_inv: "interest_inv kid (snd s) \<Longrightarrow> interest_inv kid (snd (note_entry view now p s e))"
  unfolding note_entry_def
  by (rule foldl_keeps [where I = "\<lambda>s. interest_inv kid (snd s)"]) (simp_all add: note_summary_inv)

lemma note_entries_inv: "interest_inv kid (snd s) \<Longrightarrow> interest_inv kid (snd (foldl (note_entry view now p) s es))"
  by (rule foldl_keeps [where I = "\<lambda>s. interest_inv kid (snd s)"]) (simp_all add: note_entry_inv)

lemma on_summaries_inv: "interest_inv kid m \<Longrightarrow> interest_inv kid (snd (on_summaries view now pk es m))"
  by (simp add: on_summaries_def Let_def split_beta note_entries_inv split: option.split)

lemma drop_hash_inv: "interest_inv kid m \<Longrightarrow> interest_inv kid (drop_hash kid p m h)"
  unfolding drop_hash_def by (rule foldl_keeps [where I = "interest_inv kid"]) (simp_all add: remove_inv_interest)

lemma add_contract_inv: "interest_inv kid (snd s) \<Longrightarrow> interest_inv kid (snd (add_contract kid view now p h s k))"
  by (auto simp: add_contract_def register_inv split: prod.splits)

lemma add_hash_inv: "interest_inv kid (snd s) \<Longrightarrow> interest_inv kid (snd (add_hash kid view now p s h))"
  unfolding add_hash_def
  by (rule foldl_keeps [where I = "\<lambda>s. interest_inv kid (snd s)"]) (simp_all add: add_contract_inv)

lemma on_change_inv:
  assumes "interest_inv kid m"
  shows "interest_inv kid (snd (on_change_interests kid view now pk added removed m))"
proof (cases pk)
  case (Some p)
  have "interest_inv kid (foldl (drop_hash kid p) m removed)"
    using assms by (rule foldl_keeps) (rule drop_hash_inv)
  then have "interest_inv kid (snd (foldl (add_hash kid view now p) ([], foldl (drop_hash kid p) m removed) added))"
    by (intro foldl_keeps [where I = "\<lambda>s. interest_inv kid (snd s)"]) (simp_all add: add_hash_inv)
  then show ?thesis by (simp add: on_change_interests_def Some Let_def split_beta)
qed (simp add: on_change_interests_def assms)

lemma on_resync_inv: "interest_inv kid m \<Longrightarrow> interest_inv kid (snd (on_resync_request view now pk k m))"
  by (simp add: on_resync_request_def Let_def record_resync_request_received_def update_peer_summary_def modify_inv
    interest_inv_updates split: option.split)

lemma sync_inv:
  assumes "interest_inv kid m"
  shows "interest_inv kid (snd (snd (handle_interest_sync_message kid view now pk msg m)))"
  using on_interests_inv [OF assms] on_summaries_inv [OF assms] on_change_inv [OF assms] on_resync_inv [OF assms]
  by (cases msg) (simp_all add: split_beta update_peer_summary_def modify_inv assms split: option.split)

section \<open>Runs of a node\<close>

datatype ('k, 'p) sync_event =
  Call instant "('k, 'p) interest_call"
| Message instant "'k contract_view" "'p option" "'k interest_message"

fun sync_step ::
  "('k \<Rightarrow> byte list) \<Rightarrow> ('p \<Rightarrow> byte list) \<Rightarrow> ('k, 'p, 'c) interest_manager \<Rightarrow> ('k, 'p) sync_event \<Rightarrow>
   ('k, 'p, 'c) interest_manager" where
  "sync_step kid pbytes m (Call now c) = interest_do kid pbytes m (now, c)"
| "sync_step kid pbytes m (Message now view pk msg) = snd (snd (handle_interest_sync_message kid view now pk msg m))"

interpretation sy: started_machine "sync_step kid pbytes" "interest_inv kid" "new_interest_manager c" for kid pbytes c
proof
  fix m :: "('a, 'b, 'c) interest_manager" and e
  show "interest_inv kid m \<Longrightarrow> interest_inv kid (sync_step kid pbytes m e)"
    by (cases e) (simp_all add: interest_do_inv sync_inv)
qed (rule new_interest_inv)

section \<open>What a heartbeat does\<close>

lemma drop_look:
  "look (interested_peers (foldl (\<lambda>m k. if contract_hash (kid k) \<in> set hs then m else snd (remove_peer_interest kid k p m)) m ks)) x q =
     (if q = p \<and> x \<in> set ks \<and> contract_hash (kid x) \<notin> set hs then None else look (interested_peers m) x q)"
  by (induction ks arbitrary: m) (auto simp: remove_fields look_del)

lemma remove_keeps_indexed:
  assumes "x \<noteq> k"
  shows "x \<in> set (lookup_by_hash h (snd (remove_peer_interest kid k p m))) \<longleftrightarrow> x \<in> set (lookup_by_hash h m)"
proof -
  have "x \<in> set (lookup_by_hash h (cleanup_contract_if_no_interest kid k m')) \<longleftrightarrow> x \<in> set (lookup_by_hash h m')" for m' :: "('a, 'b, 'c) interest_manager"
    using assms lookup_after_unindex [of kid k m' h]
    by (auto simp: cleanup_contract_if_no_interest_def lookup_by_hash_index)
  then show ?thesis
    by (auto simp: remove_peer_interest_def Let_def lookup_by_hash_def split: option.split)
qed

lemma drop_keeps_indexed:
  assumes "contract_hash (kid x) \<in> set hs"
  shows "x \<in> set (lookup_by_hash h (foldl (\<lambda>m k. if contract_hash (kid k) \<in> set hs then m
        else snd (remove_peer_interest kid k p m)) m ks)) \<longleftrightarrow> x \<in> set (lookup_by_hash h m)"
proof (induction ks arbitrary: m)
  case (Cons k ks)
  then show ?case using remove_keeps_indexed [of x k h kid p m] assms by auto
qed simp

definition noted :: "instant \<Rightarrow> peer_interest option \<Rightarrow> peer_interest" where
  "noted now i = (case i of Some i \<Rightarrow> refresh now i | None \<Rightarrow> new_peer_interest None False now)"

lemma noted_twice: "noted now (Some (noted now i)) = noted now i"
  by (simp add: noted_def refresh_def new_peer_interest_def split: option.split)

lemma note_look:
  "look (interested_peers (note_interest kid now p m k)) x q =
     (if x = k \<and> q = p then Some (noted now (look (interested_peers m) k p)) else look (interested_peers m) x q)"
  by (auto simp: note_interest_def get_peer_interest_look refresh_peer_interest_def modify_look register_fields look_add noted_def)

lemma note_fold_look:
  "look (interested_peers (foldl (note_interest kid now p) m ks)) x q =
     (if q = p \<and> x \<in> set ks then Some (noted now (look (interested_peers m) x p)) else look (interested_peers m) x q)"
  by (induction ks arbitrary: m) (auto simp: note_look noted_twice)

lemma heartbeat_look:
  assumes inv: "interest_inv kid m"
  shows "look (interested_peers (snd (on_interests kid view now (Some p) hs m))) k q =
    (if q \<noteq> p then look (interested_peers m) k q
     else if contract_hash (kid k) \<in> set hs \<and> k \<in> set (lookup_by_hash (contract_hash (kid k)) m)
     then Some (noted now (look (interested_peers m) k p)) else None)"
proof -
  let ?m = "drop_unannounced kid hs p m"
  note tr = interest_invD(1) [OF inv, unfolded tracks_def]
  have "set (get_contracts_for_peer p m) = {k. wants (interested_peers m) k p}"
    using tr by (auto simp: get_contracts_for_peer_def contracts_of_def split: option.splits)
  then have drop: "look (interested_peers ?m) x q =
      (if q = p \<and> contract_hash (kid x) \<notin> set hs then None else look (interested_peers m) x q)" for x q
    by (auto simp: drop_unannounced_def drop_look wants_look)
  have keep: "x \<in> set (lookup_by_hash h ?m) \<longleftrightarrow> x \<in> set (lookup_by_hash h m)" if "contract_hash (kid x) \<in> set hs" for x h
    unfolding drop_unannounced_def using that by (rule drop_keeps_indexed)
  have matching: "x \<in> set (get_matching_contracts kid hs ?m) \<longleftrightarrow>
      contract_hash (kid x) \<in> set hs \<and> x \<in> set (lookup_by_hash (contract_hash (kid x)) m)" for x
    using matching_iff [OF drop_unannounced_inv [OF inv], where k = x and hashes = hs] keep [of x] by blast
  have indexed: "x \<in> set (lookup_by_hash (contract_hash (kid x)) m)" if "look (interested_peers m) x p \<noteq> None" for x
    using that by (intro interest_indexed [OF inv]) (auto simp: interest_in_def hm_has_def look_def split: option.splits)
  show ?thesis
    using indexed [of k]
    by (cases "look (interested_peers m) k p") (auto simp: on_interests_def Let_def note_fold_look matching drop)
qed

text \<open>
  C31: In every reachable state, an \<open>Interests\<close> message from a connected peer replaces that peer's
  entries: it has one for exactly the indexed contracts whose hash is announced, a known entry
  keeps its summary and is refreshed, a new one has none; the other peers' entries stay.
\<close>

theorem heartbeat_replaces:
  fixes kid :: "'k \<Rightarrow> byte list" and pbytes :: "'p \<Rightarrow> byte list" and c :: 'c
    and events :: "('k, 'p) sync_event list"
  defines "m \<equiv> foldl (sync_step kid pbytes) (new_interest_manager c) events"
  shows "get_peer_interest k q (snd (snd (handle_interest_sync_message kid view now (Some p) (Interests hashes) m))) =
    (if q \<noteq> p then get_peer_interest k q m
     else if contract_hash (kid k) \<in> set hashes \<and> k \<in> set (lookup_by_hash (contract_hash (kid k)) m)
     then Some (case get_peer_interest k p m of
                  Some i \<Rightarrow> i\<lparr>last_refreshed := now\<rparr>
                | None \<Rightarrow> \<lparr>summary = None, last_refreshed = now, is_upstream = False\<rparr>)
     else None)"
proof -
  have "interest_inv kid m" unfolding m_def by (rule sy.reachable_inv)
  from heartbeat_look [OF this, of view now p hashes k q] show ?thesis
    by (simp add: get_peer_interest_look split_beta noted_def refresh_def new_peer_interest_def split: option.split)
qed

section \<open>Two nodes\<close>

lemma note_summary_look:
  "\<exists>i. look (interested_peers (snd s)) k q = Some i \<and> last_refreshed i \<in> T \<Longrightarrow> now \<in> T \<Longrightarrow>
   \<exists>i. look (interested_peers (snd (note_summary view now p t s x))) k q = Some i \<and> last_refreshed i \<in> T"
  by (auto simp: note_summary_def Let_def update_peer_summary_def modify_look update_summary_def refresh_def split: prod.splits)

lemma summaries_look:
  assumes "look (interested_peers m) k q = Some i"
  shows "\<exists>i'. look (interested_peers (snd (on_summaries view now (Some p) es m))) k q = Some i'
    \<and> last_refreshed i' \<in> {last_refreshed i, now}"
proof -
  let ?I = "\<lambda>s. \<exists>i'. look (interested_peers (snd s)) k q = Some i' \<and> last_refreshed i' \<in> {last_refreshed i, now}"
  have entry: "?I s \<Longrightarrow> ?I (note_entry view now p s e)" for s e
    unfolding note_entry_def by (erule foldl_keeps [where I = ?I]) (rule note_summary_look, auto)
  have "?I (foldl (note_entry view now p) ([], m) es)"
    by (rule foldl_keeps [where I = ?I]) (use assms in simp, rule entry)
  then show ?thesis by (simp add: on_summaries_def Let_def split_beta)
qed

lemma note_entry_local: "local_interests (snd (note_entry view now p s e)) = local_interests (snd s)"
  unfolding note_entry_def
  by (rule foldl_keeps [where I = "\<lambda>s'. local_interests (snd s') = local_interests (snd s)"])
     (auto simp: note_summary_def Let_def update_peer_summary_def split: prod.splits)

lemma note_entries_local: "local_interests (snd (foldl (note_entry view now p) s es)) = local_interests (snd s)"
  by (induction es arbitrary: s) (simp_all add: note_entry_local)

lemma interests_local: "local_interests (snd (on_interests kid view now (Some p) hs m)) = local_interests m"
proof -
  have "local_interests (drop_unannounced kid hs p m) = local_interests m"
    unfolding drop_unannounced_def
    by (rule foldl_keeps [where I = "\<lambda>m'. local_interests m' = local_interests m"]) (simp_all add: remove_fields)
  moreover have "local_interests (foldl (note_interest kid now p) m' ks) = local_interests m'" for m' :: "('a, 'b, 'c) interest_manager" and ks
    by (rule foldl_keeps [where I = "\<lambda>m. local_interests m = local_interests m'"])
       (simp_all add: note_interest_def refresh_peer_interest_def register_fields)
  ultimately show ?thesis by (simp add: on_interests_def Let_def)
qed

lemma interests_reply:
  "fst (on_interests kid view now pk hs m) = Some msg \<Longrightarrow> \<exists>es. msg = Summaries es"
  by (auto simp: on_interests_def Let_def split: if_splits)

text \<open>
  One heartbeat of \<open>a\<close> to \<open>b\<close>: \<open>b\<close> handles the announced hashes, \<open>a\<close> the summaries it answers.
\<close>

definition heartbeat ::
  "('k \<Rightarrow> byte list) \<Rightarrow> 'k contract_view \<Rightarrow> 'k contract_view \<Rightarrow> instant \<Rightarrow> 'p \<Rightarrow> 'p \<Rightarrow>
   ('k, 'p, 'c) interest_manager \<times> ('k, 'p, 'c) interest_manager \<Rightarrow>
   ('k, 'p, 'c) interest_manager \<times> ('k, 'p, 'c) interest_manager" where
  "heartbeat kid va vb now a b s =
     (case s of (ma, mb) \<Rightarrow>
        let (reply, _, mb) = handle_interest_sync_message kid vb now (Some a) (Interests (get_all_interest_hashes ma)) mb
        in (case reply of
              Some msg \<Rightarrow> snd (snd (handle_interest_sync_message kid va now (Some b) msg ma))
            | None \<Rightarrow> ma, mb))"

text \<open>One period: both nodes sweep, then each sends its heartbeat to the other.\<close>

definition period ::
  "('k \<Rightarrow> byte list) \<Rightarrow> ('p \<Rightarrow> byte list) \<Rightarrow> 'k contract_view \<Rightarrow> 'k contract_view \<Rightarrow> 'p \<Rightarrow> 'p \<Rightarrow>
   ('k, 'p, 'c) interest_manager \<times> ('k, 'p, 'c) interest_manager \<Rightarrow> instant \<Rightarrow>
   ('k, 'p, 'c) interest_manager \<times> ('k, 'p, 'c) interest_manager" where
  "period kid pbytes va vb a b s now =
     (let s = (snd (sweep_expired_interests kid pbytes now (fst s)), snd (sweep_expired_interests kid pbytes now (snd s)));
          s = heartbeat kid va vb now a b s
      in prod.swap (heartbeat kid vb va now b a (prod.swap s)))"

definition entry_at :: "('k, 'p, 'c) interest_manager \<Rightarrow> 'k \<Rightarrow> 'p \<Rightarrow> instant set \<Rightarrow> bool" where
  "entry_at m k p T \<longleftrightarrow> (\<exists>i. get_peer_interest k p m = Some i \<and> last_refreshed i \<in> T)"

lemma heartbeat_entries:
  assumes inv: "interest_inv kid ma" "interest_inv kid mb" and ab: "entry_at ma k b T" "entry_at mb k a U"
    and hb: "heartbeat kid va vb now a b (ma, mb) = (ma', mb')"
  shows "interest_inv kid ma' \<and> interest_inv kid mb' \<and> entry_at ma' k b (insert now T) \<and> entry_at mb' k a {now}
    \<and> local_interests ma' = local_interests ma \<and> local_interests mb' = local_interests mb"
proof -
  let ?r = "on_interests kid vb now (Some a) (get_all_interest_hashes ma) mb"
  have mb': "mb' = snd ?r" using hb by (simp add: heartbeat_def split_beta Let_def)
  have in_a: "k \<in> set (lookup_by_hash (contract_hash (kid k)) ma)" and in_b: "k \<in> set (lookup_by_hash (contract_hash (kid k)) mb)"
    using ab by (auto simp: entry_at_def get_peer_interest_look interest_in_def hm_has_def look_def split: option.splits
      intro!: interest_indexed inv)
  have "entry_at mb' k a {now}"
    using heartbeat_look [OF inv(2), of vb now a "get_all_interest_hashes ma" k a] indexed_hash_listed [OF in_a] in_b
    by (auto simp: mb' entry_at_def get_peer_interest_look noted_def refresh_def new_peer_interest_def split: option.split)
  moreover have "interest_inv kid mb'" "local_interests mb' = local_interests mb"
    unfolding mb' by (simp_all add: on_interests_inv inv interests_local)
  moreover have "interest_inv kid ma' \<and> entry_at ma' k b (insert now T) \<and> local_interests ma' = local_interests ma"
  proof (cases "fst ?r")
    case None
    then show ?thesis using hb ab inv by (auto simp: heartbeat_def split_beta Let_def entry_at_def)
  next
    case (Some msg)
    then obtain es where msg: "msg = Summaries es" using interests_reply by blast
    have ma': "ma' = snd (on_summaries va now (Some b) es ma)"
      using hb Some by (simp add: heartbeat_def split_beta Let_def msg)
    obtain i where i: "look (interested_peers ma) k b = Some i" "last_refreshed i \<in> T"
      using ab(1) by (auto simp: entry_at_def get_peer_interest_look)
    from summaries_look [OF i(1), of va now b es] i(2) have "entry_at ma' k b (insert now T)"
      by (auto simp: ma' entry_at_def get_peer_interest_look)
    moreover have "interest_inv kid ma'" unfolding ma' by (rule on_summaries_inv) (rule inv)
    moreover have "local_interests ma' = local_interests ma"
      by (simp add: ma' on_summaries_def Let_def split_beta note_entries_local)
    ultimately show ?thesis by blast
  qed
  ultimately show ?thesis by blast
qed

lemma sweep_keeps_fresh:
  assumes "interest_inv kid m" "entry_at m k p {t}" "t \<le> now" "now - t \<le> int INTEREST_TTL"
  shows "entry_at (snd (sweep_expired_interests kid pbytes now m)) k p {t}"
  using sweep_refines [OF assms(1), of pbytes now] assms(2-)
  by (auto simp: interest_abs_def entry_at_def get_peer_interest_look fun_eq_iff is_expired_at_def saturating_since_def)

lemma sweep_local: "local_interests (snd (sweep_expired_interests kid pbytes now m)) = local_interests m"
proof -
  have "local_interests (foldl (\<lambda>m (k, p). snd (remove_peer_interest kid k p m)) m ps) = local_interests m" for ps
    by (rule foldl_keeps [where I = "\<lambda>m'. local_interests m' = local_interests m"]) (auto simp: remove_fields)
  then show ?thesis by (simp add: sweep_expired_interests_def Let_def)
qed

lemma period_entries:
  assumes inv: "interest_inv kid ma" "interest_inv kid mb" and ab: "entry_at ma k b {t}" "entry_at mb k a {t}"
    and t: "t \<le> now" "now - t \<le> int INTEREST_TTL"
    and p: "period kid pbytes va vb a b (ma, mb) now = (ma', mb')"
  shows "interest_inv kid ma' \<and> interest_inv kid mb' \<and> entry_at ma' k b {now} \<and> entry_at mb' k a {now}
    \<and> local_interests ma' = local_interests ma \<and> local_interests mb' = local_interests mb"
proof -
  let ?sa = "snd (sweep_expired_interests kid pbytes now ma)" and ?sb = "snd (sweep_expired_interests kid pbytes now mb)"
  obtain ma1 mb1 where h1: "heartbeat kid va vb now a b (?sa, ?sb) = (ma1, mb1)" by fastforce
  have p2: "heartbeat kid vb va now b a (mb1, ma1) = (mb', ma')"
    using p h1 by (auto simp: period_def Let_def) (metis prod.swap_def swap_swap swap_simp)
  have "entry_at ?sa k b {t}" "entry_at ?sb k a {t}" using inv ab t by (auto intro: sweep_keeps_fresh)
  from heartbeat_entries [OF sweep_interest_inv [OF inv(1)] sweep_interest_inv [OF inv(2)] this h1]
  have h: "interest_inv kid ma1" "interest_inv kid mb1" "entry_at ma1 k b {now, t}" "entry_at mb1 k a {now}"
    "local_interests ma1 = local_interests ma" "local_interests mb1 = local_interests mb"
    by (simp_all add: sweep_local)
  from heartbeat_entries [OF h(2,1,4,3) p2] show ?thesis using h(5,6) by simp
qed

text \<open>The clock reads of the periods: each follows the previous one within the TTL.\<close>

fun beats :: "instant \<Rightarrow> instant list \<Rightarrow> bool" where
  "beats t [] \<longleftrightarrow> True"
| "beats t (u # us) \<longleftrightarrow> t \<le> u \<and> u - t \<le> int INTEREST_TTL \<and> beats u us"

lemma periods_entries:
  assumes "interest_inv kid ma" "interest_inv kid mb" "entry_at ma k b {t}" "entry_at mb k a {t}" "beats t ts"
    and "foldl (period kid pbytes va vb a b) (ma, mb) ts = (ma', mb')"
  shows "entry_at ma' k b {last (t # ts)} \<and> entry_at mb' k a {last (t # ts)}
    \<and> local_interests ma' = local_interests ma \<and> local_interests mb' = local_interests mb"
  using assms
proof (induction ts arbitrary: ma mb t)
  case (Cons u us)
  obtain ma1 mb1 where p: "period kid pbytes va vb a b (ma, mb) u = (ma1, mb1)" by fastforce
  have u: "t \<le> u" "u - t \<le> int INTEREST_TTL" "beats u us" using Cons.prems(5) by auto
  note one = period_entries [OF Cons.prems(1-4) u(1,2) p]
  have "foldl (period kid pbytes va vb a b) (ma1, mb1) us = (ma', mb')" using Cons.prems(6) p by simp
  then show ?case using Cons.IH [of ma1 mb1 u] one u(3) by simp
qed simp



end
