(* ===== verification/Ring_Location.thy ===== *)
theory Ring_Location
  imports F64
begin

text \<open>
  Positions on the ring (\<open>ring/location.rs\<close>).  A \<open>Location\<close> or \<open>Distance\<close> is the rational value of
  its double, and every operation rounds as \<open>f64\<close> does; the debug assertions of \<open>Location::new\<close> and
  \<open>Distance::new\<close> are not compiled in release builds.

  Shown: every way to make a location gives a double between 0 and 1, a contract key never makes
  \<open>from_contract_key\<close> panic; the distance is the shorter arc up to one rounding and the signed
  distance agrees with it; a location depends on the /24 network of an address only; and the
  equality of locations is no equivalence.
\<close>

type_synonym location = rat

section \<open>Locations of addresses\<close>

text \<open>A socket address is an IP address and a port; flow label and scope of IPv6 are left out.\<close>

datatype socket_addr =
  V4 "32 word" "16 word"
| V6 "128 word" "16 word"

unbundle bit_operations_syntax

definition ipv6_segment :: "nat \<Rightarrow> 128 word \<Rightarrow> 16 word" where
  "ipv6_segment i ip = ucast (drop_bit (112 - 16 * i) ip)"

text \<open>Socket addresses are ordered by family, address and port.\<close>

fun addr_key :: "socket_addr \<Rightarrow> nat" where
  "addr_key (V4 ip port) = unat ip * 2 ^ 16 + unat port"
| "addr_key (V6 ip port) = 2 ^ 48 + (unat ip * 2 ^ 16 + unat port)"

lemma key_parts:
  fixes port port' :: "16 word"
  assumes "unat ip * 2 ^ 16 + unat port = unat ip' * 2 ^ 16 + unat port'"
  shows "ip = ip' \<and> port = port'"
proof -
  have p: "unat q < 2 ^ 16" for q :: "16 word" using unsigned_less [of q, where 'a = nat] by simp
  have "(unat ip * 2 ^ 16 + unat port) div 2 ^ 16 = (unat ip' * 2 ^ 16 + unat port') div 2 ^ 16"
    "(unat ip * 2 ^ 16 + unat port) mod 2 ^ 16 = (unat ip' * 2 ^ 16 + unat port') mod 2 ^ 16" by (simp_all only: assms)
  then show ?thesis using p [of port] p [of port'] by (simp add: word_unat_eq_iff)
qed

lemma addr_key_V4: "addr_key (V4 ip port) < 2 ^ 48"
  using unsigned_less [of ip, where 'a = nat] unsigned_less [of port, where 'a = nat] by simp

lemma addr_key_inj: "addr_key a = addr_key b \<Longrightarrow> a = b"
proof (cases a; cases b)
  fix ip port ip' port'
  assume "addr_key a = addr_key b" "a = V4 ip port" "b = V6 ip' port'"
  then show ?thesis using addr_key_V4 [of ip port] by simp
next
  fix ip port ip' port'
  assume "addr_key a = addr_key b" "a = V6 ip port" "b = V4 ip' port'"
  then show ?thesis using addr_key_V4 [of ip' port'] by simp
qed (use key_parts in auto)

instantiation socket_addr :: linorder
begin

definition less_eq_socket_addr :: "socket_addr \<Rightarrow> socket_addr \<Rightarrow> bool" where
  "a \<le> b \<longleftrightarrow> addr_key a \<le> addr_key b"

definition less_socket_addr :: "socket_addr \<Rightarrow> socket_addr \<Rightarrow> bool" where
  "a < b \<longleftrightarrow> addr_key a < addr_key b"

instance
  by standard (auto simp: less_eq_socket_addr_def less_socket_addr_def addr_key_inj)

end

definition xorshift :: "nat \<Rightarrow> 64 word \<Rightarrow> 64 word" where
  "xorshift k h = h XOR drop_bit k h"

definition distribute_hash :: "64 word \<Rightarrow> 64 word" where
  "distribute_hash x =
     (let h = x;
          h = h * 0x517cc1b727220a95;
          h = xorshift 32 h;
          h = h * 0x4cf5ad432745937f;
          h = xorshift 28 h;
          h = h * 0x2f38a814cad5c4ed
      in xorshift 31 h)"

definition ipv4_loopback :: "32 word \<Rightarrow> bool" where
  "ipv4_loopback ip \<longleftrightarrow> drop_bit 24 ip = 127"

fun hash_input :: "socket_addr \<Rightarrow> 64 word" where
  "hash_input (V4 ip port) =
     (let masked_value = ip AND 0xFFFFFF00
      in if ipv4_loopback ip then ucast masked_value OR push_bit 32 (ucast port) else ucast masked_value)"
| "hash_input (V6 ip port) =
     (let combined_segments =
            push_bit 32 (ucast (ipv6_segment 0 ip)) OR push_bit 16 (ucast (ipv6_segment 1 ip)) OR ucast (ipv6_segment 2 ip)
      in if ip = 1 \<or> combined_segments = 0
         then combined_segments OR push_bit 48 (ucast port) else combined_segments)"

definition deterministic_loc :: "socket_addr \<Rightarrow> location" where
  "deterministic_loc addr =
     f64_div (f64_of_nat (unat (distribute_hash (hash_input addr)))) (f64_of_nat u64_max)"

definition from_address :: "socket_addr \<Rightarrow> location" where
  "from_address addr = deterministic_loc addr"

section \<open>Other locations\<close>

text \<open>\<open>f64::rem_euclid(1.0)\<close>: the exact remainder, plus one when it is negative.\<close>

definition rem_euclid_1 :: "rat \<Rightarrow> rat" where
  "rem_euclid_1 x =
     (let r = (if 0 \<le> x then x - of_int \<lfloor>x\<rfloor> else x - of_int \<lceil>x\<rceil>)
      in if r < 0 then f64_add r 1 else r)"

definition new_rounded :: "rat \<Rightarrow> location" where
  "new_rounded x = rem_euclid_1 x"

definition try_from :: "rat \<Rightarrow> location option" where
  "try_from x = (if 0 \<le> x \<and> x \<le> 1 then Some x else None)"

fun key_value :: "rat \<Rightarrow> rat \<Rightarrow> byte list \<Rightarrow> rat" where
  "key_value value divisor [] = value"
| "key_value value divisor (b # bytes) =
     key_value (f64_add value (f64_div (f64_of_nat (unat b)) divisor)) (f64_mul divisor 256) bytes"

text \<open>\<open>None\<close> is the panic of \<open>expect\<close>.\<close>

definition from_contract_key :: "byte list \<Rightarrow> location option" where
  "from_contract_key bytes = try_from (key_value 0 256 bytes)"

section \<open>Distances and comparisons\<close>

definition distance_new :: "rat \<Rightarrow> rat" where
  "distance_new x = (if x \<le> 1 / 2 then x else f64_sub 1 x)"

definition distance :: "location \<Rightarrow> location \<Rightarrow> rat" where
  "distance a b =
     (let d = \<bar>f64_sub a b\<bar>
      in if d < 1 / 2 then distance_new d else distance_new (f64_sub 1 d))"

definition signed_distance :: "location \<Rightarrow> location \<Rightarrow> rat" where
  "signed_distance a b =
     (let diff = f64_sub b a
      in if 1 / 2 < diff then f64_sub diff 1
         else if diff < - (1 / 2) then f64_add diff 1
         else if diff = - (1 / 2) then 1 / 2
         else diff)"

definition distance_add :: "rat \<Rightarrow> rat \<Rightarrow> rat" where
  "distance_add x y =
     (let d = f64_add x y
      in if 1 / 2 < d then distance_new (f64_sub 1 d) else distance_new d)"

definition location_add :: "location \<Rightarrow> rat \<Rightarrow> location \<times> location" where
  "location_add l d = (f64_sub l d, f64_add l d)"

definition EPSILON :: rat where
  "EPSILON = 2 powi (- 52)"

definition location_eq :: "location \<Rightarrow> location \<Rightarrow> bool" where
  "location_eq a b \<longleftrightarrow> \<bar>f64_sub a b\<bar> < EPSILON"

datatype ordering = Less | Equal | Greater

definition location_cmp :: "location \<Rightarrow> location \<Rightarrow> ordering" where
  "location_cmp a b = (if a < b then Less else if a = b then Equal else Greater)"

section \<open>Locations are on the ring\<close>

definition on_ring :: "location \<Rightarrow> bool" where
  "on_ring l \<longleftrightarrow> is_f64 l \<and> 0 \<le> l \<and> l \<le> 1"

lemma u64_max_f64: "f64_of_nat u64_max = 2 ^ 64"
proof -
  have "f64_round (18446744073709551615 :: rat) = of_int (2 ^ 53) * 2 powi (63 - 52)"
    by (rule f64_round_eqI) (simp_all add: power_int_numeral)
  then show ?thesis by (simp add: f64_of_nat_def u64_max_def power_int_numeral)
qed

lemma from_address_on_ring: "on_ring (from_address addr)"
proof -
  let ?n = "unat (distribute_hash (hash_input addr))"
  have "?n < 2 ^ LENGTH(64)" by (rule unsigned_less)
  then have "?n \<le> u64_max" by (simp add: u64_max_def)
  then have "(of_nat ?n :: rat) \<le> of_nat u64_max" by (simp only: of_nat_le_iff)
  then have "f64_of_nat ?n \<le> 2 ^ 64" unfolding u64_max_f64 [symmetric] f64_of_nat_def by (rule f64_round_le)
  moreover have "0 \<le> f64_of_nat ?n" unfolding f64_of_nat_def by (rule f64_round_nonneg) (rule of_nat_0_le_iff)
  ultimately have "0 \<le> f64_of_nat ?n / 2 ^ 64" "f64_of_nat ?n / 2 ^ 64 \<le> 1" by simp_all
  from f64_round_bounds [OF is_f64_0 is_f64_1 this] show ?thesis
    by (simp add: on_ring_def from_address_def deterministic_loc_def f64_div_def u64_max_f64 is_f64_round)
qed

lemma frac_is_f64:
  assumes "is_f64 x" "0 \<le> x"
  shows "is_f64 (x - of_int \<lfloor>x\<rfloor>)"
proof (cases "x < 1 \<or> x - of_int \<lfloor>x\<rfloor> = 0")
  case True
  then show ?thesis
  proof
    assume "x < 1"
    then have "\<lfloor>x\<rfloor> = 0" using assms(2) by linarith
    then show ?thesis using assms(1) by simp
  qed simp
next
  case False
  obtain n where n: "x = of_int n * 2 powi (0 - 52)"
    by (rule is_f64_multiple [of x 0]) (use assms(1) False in auto)
  have unit: "(1 :: rat) = of_int (2 ^ 52) * 2 powi (- 52)" by (simp add: power_int_minus)
  obtain m where m: "x - of_int \<lfloor>x\<rfloor> = of_int m * 2 powi (- 52)"
  proof
    show "x - of_int \<lfloor>x\<rfloor> = of_int (n - \<lfloor>x\<rfloor> * 2 ^ 52) * 2 powi (- 52)"
      unfolding of_int_diff of_int_mult left_diff_distrib using n unit by (simp add: mult.assoc)
  qed
  have "0 \<le> of_int m * (2 :: rat) powi (- 52)" "of_int m * (2 :: rat) powi (- 52) < of_int (2 ^ 52) * 2 powi (- 52)"
    using m unit by linarith+
  then have "0 \<le> m" "m < 2 ^ 52"
    using powi_pos [of "- 52"] by (simp_all only: zero_le_mult_iff mult_less_cancel_right_pos of_int_less_iff of_int_0_le_iff)
      (auto dest: leD)
  then show ?thesis unfolding m by (intro is_f64_grid) auto
qed

lemma new_rounded_on_ring:
  assumes "is_f64 x"
  shows "on_ring (new_rounded x)"
proof (cases "0 \<le> x")
  case True
  have "\<not> x < of_int \<lfloor>x\<rfloor>" "x - of_int \<lfloor>x\<rfloor> < 1" by linarith+
  then show ?thesis
    using True frac_is_f64 [OF assms] by (simp add: on_ring_def new_rounded_def rem_euclid_1_def Let_def)
next
  case False
  let ?r = "x - of_int \<lceil>x\<rceil>"
  have zero: "?r = 0" if "\<not> x < of_int \<lceil>x\<rceil>" using that le_of_int_ceiling [of x] by linarith
  have r: "?r \<le> 0" "- 1 < ?r" by linarith+
  have "0 \<le> f64_round (?r + 1)" "f64_round (?r + 1) \<le> 1"
    using f64_round_bounds [OF is_f64_0 is_f64_1, of "?r + 1"] r by simp_all
  then show ?thesis
    using False r zero by (auto simp: on_ring_def new_rounded_def rem_euclid_1_def Let_def f64_add_def is_f64_round)
qed

section \<open>Contract keys\<close>

text \<open>After \<open>j\<close> bytes the value is at most this.\<close>

definition key_bound :: "nat \<Rightarrow> rat" where
  "key_bound j = (if j < 7 then 1 - 2 powi (- 8 * int j) else 1)"

lemma key_bound_step: "j < 7 \<Longrightarrow> key_bound j + 255 * 2 powi (- 8 * int (Suc j)) \<le> key_bound (Suc j)"
proof -
  assume j: "j < 7"
  have "(2 :: rat) powi (- 8 * int j) = 256 * 2 powi (- 8 * int (Suc j))"
    using powi_split [of "- 8 * int (Suc j)" "- 8 * int j"] by simp
  then show ?thesis using j by (simp add: key_bound_def)
qed

lemma key_bound_f64: "is_f64 (key_bound j)"
proof (cases "j < 7")
  case True
  have unit: "(1 :: rat) = of_int (2 ^ (8 * j)) * 2 powi (- 8 * int j)"
    using powi_split [of "- 8 * int j" 0] by (simp add: nat_mult_distrib)
  have "(2 :: int) ^ (8 * j) < 2 ^ 53" using True by (intro power_strict_increasing) auto
  moreover have "(1 :: int) \<le> 2 ^ (8 * j)" by simp
  ultimately have "is_f64 (of_int (2 ^ (8 * j) - 1) * 2 powi (- 8 * int j))"
    using True by (intro is_f64_grid) (auto simp del: power_strict_increasing_iff)
  then show ?thesis using True unit by (simp add: key_bound_def left_diff_distrib)
qed (simp add: key_bound_def)

lemma one_absorbs: "x \<le> 1 + 255 * 2 powi (- 64) \<Longrightarrow> f64_round x \<le> 1"
proof -
  assume "x \<le> 1 + 255 * 2 powi (- 64)"
  then have "f64_round x \<le> f64_round (1 + 255 * 2 powi (- 64))" by (rule f64_round_le)
  also have "\<dots> = of_int (2 ^ 52) * 2 powi (0 - 52)"
    by (rule f64_round_eqI) (simp_all add: power_int_minus)
  finally show ?thesis by (simp add: power_int_minus)
qed

lemma key_value_on_ring:
  assumes "is_f64 v" "0 \<le> v" "v \<le> key_bound j" "j + length bytes \<le> 100"
  shows "on_ring (key_value v (2 powi (8 * int (Suc j))) bytes)"
  using assms
proof (induction bytes arbitrary: v j)
  case Nil
  have "key_bound j \<le> 1" by (simp add: key_bound_def less_imp_le)
  then show ?case using Nil by (simp add: on_ring_def)
next
  case (Cons b bytes)
  let ?d = "(2 :: rat) powi (8 * int (Suc j))" and ?u = "(2 :: rat) powi (- 8 * int (Suc j))"
  obtain n where b: "unat b = n" and n: "n < 256" using unsigned_less [of b, where 'a = nat] by simp
  have ud: "x / ?d = x * ?u" for x using power_int_minus [of "2 :: rat" "8 * int (Suc j)"] by (simp add: divide_inverse)
  have "is_f64 (of_int (int n) * ?u)" using n Cons.prems(4) by (intro is_f64_grid) auto
  then have q: "f64_div (f64_of_nat n) ?d = of_nat n * ?u"
    using n unfolding f64_div_def ud is_f64_def by simp
  have "is_f64 (of_int 1 * 2 powi (8 * int (Suc (Suc j))))" by (intro is_f64_grid) auto
  moreover have "?d * 256 = of_int 1 * 2 powi (8 * int (Suc (Suc j)))"
    using powi_split [of "8 * int (Suc j)" "8 * int (Suc (Suc j))"] by simp
  ultimately have d: "f64_mul ?d 256 = 2 powi (8 * int (Suc (Suc j)))" by (simp add: f64_mul_def is_f64_def)
  let ?w = "f64_round (v + of_nat n * ?u)"
  have b255: "of_nat n * ?u \<le> 255 * ?u" using n by (intro mult_right_mono) auto
  have "?w \<le> key_bound (Suc j)"
  proof (cases "j < 7")
    case True
    then have "v + of_nat n * ?u \<le> key_bound (Suc j)" using key_bound_step [OF True] b255 Cons.prems(3) by linarith
    then show ?thesis using f64_round_le key_bound_f64 [of "Suc j"] by (metis is_f64_def)
  next
    case False
    then have "?u \<le> 2 powi (- 64)" by (intro powi_mono) simp
    moreover have "v \<le> 1" using Cons.prems(3) False by (simp add: key_bound_def)
    ultimately have "v + of_nat n * ?u \<le> 1 + 255 * 2 powi (- 64)" using b255 by linarith
    then show ?thesis using one_absorbs False by (simp add: key_bound_def)
  qed
  then have "on_ring (key_value ?w (2 powi (8 * int (Suc (Suc j)))) bytes)"
    using Cons.prems n by (intro Cons.IH) (auto simp: is_f64_round f64_round_nonneg)
  then show ?case unfolding key_value.simps b q d by (simp add: f64_add_def)
qed

lemma from_contract_key_on_ring:
  assumes "length bytes \<le> 100"
  shows "\<exists>l. from_contract_key bytes = Some l \<and> on_ring l"
proof -
  have "on_ring (key_value 0 (2 powi (8 * int (Suc 0))) bytes)"
    using assms by (intro key_value_on_ring [where j = 0]) (auto simp: key_bound_def)
  then show ?thesis by (simp add: from_contract_key_def try_from_def on_ring_def)
qed

section \<open>Distances\<close>

lemma ring_difference:
  assumes "on_ring a" "on_ring b"
  shows "is_f64 \<bar>f64_sub a b\<bar>" "\<bar>f64_sub a b\<bar> \<le> 1"
proof -
  show "is_f64 \<bar>f64_sub a b\<bar>"
    unfolding f64_sub_def f64_round_abs [symmetric] by (rule is_f64_round)
  have "0 \<le> \<bar>a - b\<bar>" "\<bar>a - b\<bar> \<le> 1" using assms by (auto simp: on_ring_def abs_le_iff)
  then show "\<bar>f64_sub a b\<bar> \<le> 1"
    unfolding f64_sub_def f64_round_abs [symmetric] by (rule f64_round_bounds(2) [OF is_f64_0 is_f64_1])
qed

lemma distance_ring:
  assumes "on_ring a" "on_ring b"
  shows "distance a b = (let d = \<bar>f64_sub a b\<bar> in min d (1 - d))" "is_f64 (distance a b)"
    "0 \<le> distance a b" "distance a b \<le> 1 / 2"
proof -
  let ?d = "\<bar>f64_sub a b\<bar>"
  note d = ring_difference [OF assms]
  have big: "f64_sub 1 ?d = 1 - ?d" if "1 / 2 \<le> ?d"
    unfolding f64_sub_def [of 1] using d(1) that d(2) by (rule one_minus_exact)
  then show eq: "distance a b = (let d = \<bar>f64_sub a b\<bar> in min d (1 - d))"
    by (auto simp: distance_def distance_new_def Let_def min_def)
  have "is_f64 (1 - ?d)" if "1 / 2 \<le> ?d" using big [OF that] is_f64_round [of "1 - ?d"] by (simp add: f64_sub_def)
  then show "is_f64 (distance a b)" using d(1) by (auto simp: eq Let_def min_def)
  show "0 \<le> distance a b" "distance a b \<le> 1 / 2" using d(2) by (auto simp: eq Let_def min_def)
qed

lemma f64_sub_swap: "f64_sub b a = - f64_sub a b"
  using f64_round_minus [of "a - b"] by (simp add: f64_sub_def)

lemma signed_distance_ring:
  assumes "on_ring a" "on_ring b"
  shows "\<bar>signed_distance a b\<bar> = distance a b" "- (1 / 2) < signed_distance a b" "signed_distance a b \<le> 1 / 2"
proof -
  let ?s = "f64_sub b a"
  have d: "is_f64 \<bar>?s\<bar>" "\<bar>?s\<bar> \<le> 1" using ring_difference [OF assms(2,1)] by auto
  have pos: "f64_sub ?s 1 = ?s - 1" if "1 / 2 < ?s"
    using one_minus_exact [of ?s] d that f64_sub_swap [of ?s 1] by (auto simp: f64_sub_def)
  have neg: "f64_add ?s 1 = 1 + ?s" if "?s < - (1 / 2)"
    using one_minus_exact [of "- ?s"] d that by (auto simp: f64_add_def add.commute)
  have "distance a b = min \<bar>?s\<bar> (1 - \<bar>?s\<bar>)" using distance_ring(1) [OF assms] f64_sub_swap [of b a] by (simp add: Let_def)
  then show "\<bar>signed_distance a b\<bar> = distance a b" "- (1 / 2) < signed_distance a b" "signed_distance a b \<le> 1 / 2"
    using pos neg d(2) by (auto simp: signed_distance_def Let_def min_def)
qed

lemma arc_close: "\<bar>x - y\<bar> \<le> e \<Longrightarrow> \<bar>min x (1 - x) - min y (1 - y)\<bar> \<le> (e :: rat)"
  by (auto simp: min_def abs_le_iff)

lemma f64_round_error:
  assumes "\<bar>x\<bar> \<le> 1"
  shows "\<bar>f64_round x - x\<bar> \<le> 2 powi (- 54)"
proof (cases "x = 0 \<or> \<bar>x\<bar> = 1")
  case True
  then have "is_f64 x" using is_f64_minus [of 1] by (auto simp: abs_if split: if_splits)
  then show ?thesis by (simp add: is_f64_def less_imp_le)
next
  case False
  let ?u = "(2 :: rat) powi f64_exp x"
  have pos: "0 < \<bar>x\<bar>" "\<bar>x\<bar> < 1" using False assms by auto
  have "flog2 \<bar>x\<bar> < 0" using flog2_spec [OF pos(1)] pos(2) powi_mono [of 0 "flog2 \<bar>x\<bar>"] by fastforce
  then have "?u \<le> 2 powi (- 53)" by (intro powi_mono) (simp add: f64_exp_def)
  then have u: "?u / 2 \<le> 2 powi (- 54)" using powi_Suc [of "- 54"] by simp
  have "f64_round x - x = (of_int (round_half_even (x / ?u)) - x / ?u) * ?u"
    using False by (simp add: f64_round_def left_diff_distrib power_int_eq_0_iff)
  then have "\<bar>f64_round x - x\<bar> = \<bar>of_int (round_half_even (x / ?u)) - x / ?u\<bar> * ?u" by (simp add: abs_mult)
  also have "\<dots> \<le> 1 / 2 * ?u" using round_half_even_near by (intro mult_right_mono) auto
  finally show ?thesis using u by simp
qed



text \<open>
  The distance of two locations is symmetric and the length of the shorter arc up to one
  rounding of the difference, and the signed distance is its length with a direction, in the
  half-open interval from -1/2 to 1/2.
\<close>

theorem distance_shorter_arc:
  assumes "on_ring a" "on_ring b"
  shows "distance a b = distance b a \<and> \<bar>distance a b - min \<bar>a - b\<bar> (1 - \<bar>a - b\<bar>)\<bar> \<le> 2 powi (- 54)
    \<and> \<bar>signed_distance a b\<bar> = distance a b \<and> - (1 / 2) < signed_distance a b \<and> signed_distance a b \<le> 1 / 2"
proof -
  have "\<bar>a - b\<bar> \<le> 1" using assms by (auto simp: on_ring_def abs_le_iff)
  then have "\<bar>\<bar>f64_sub a b\<bar> - \<bar>a - b\<bar>\<bar> \<le> 2 powi (- 54)"
    using f64_round_error [of "\<bar>a - b\<bar>"] f64_round_abs [of "a - b"] by (simp add: f64_sub_def)
  then have "\<bar>distance a b - min \<bar>a - b\<bar> (1 - \<bar>a - b\<bar>)\<bar> \<le> 2 powi (- 54)"
    unfolding distance_ring(1) [OF assms] Let_def by (rule arc_close)
  moreover have "distance a b = distance b a" by (simp add: distance_def f64_sub_swap [of a b])
  ultimately show ?thesis using signed_distance_ring [OF assms] by simp
qed

theorem distance_shorter_arc_witness:
  "distance (1 / 2) 1 = distance 1 (1 / 2) \<and> \<bar>signed_distance (1 / 2) 1\<bar> = distance (1 / 2) 1"
proof -
  have "on_ring (1 / 2)" "on_ring 1" by (simp_all add: on_ring_def)
  from distance_shorter_arc [OF this] show ?thesis by simp
qed

section \<open>Addresses of one network\<close>

lemma xorshift_inj:
  assumes "0 < k" "xorshift k x = xorshift k y"
  shows "x = y"
proof (rule bit_word_eqI)
  fix n
  assume "n < LENGTH(64)"
  show "bit x n = bit y n"
  proof (induction "64 - n" arbitrary: n rule: less_induct)
    case less
    have eq: "(bit x n \<noteq> bit x (n + k)) = (bit y n \<noteq> bit y (n + k))"
      using arg_cong [OF assms(2), of "\<lambda>w. bit w n"]
      by (simp add: xorshift_def bit_xor_iff bit_drop_bit_eq add.commute)
    have "bit x (n + k) = bit y (n + k)"
    proof (cases "n + k < 64")
      case True
      then show ?thesis using less [of "n + k"] assms(1) by simp
    qed (auto dest: bit_imp_le_length)
    then show ?case using eq by auto
  qed
qed

lemma mult_inj_word:
  assumes "c * d = 1" "x * c = y * c"
  shows "x = (y :: 64 word)"
proof -
  have "x * c * d = y * c * d" using assms(2) by simp
  then show ?thesis unfolding mult.assoc assms(1) by simp
qed

lemma distribute_hash_inj: "distribute_hash x = distribute_hash y \<longleftrightarrow> x = y"
proof
  have inv: "(0x517cc1b727220a95 :: 64 word) * 0x2040003d780970bd = 1" "(0x4cf5ad432745937f :: 64 word) * 0xa81e14edd9de2c7f = 1"
    "(0x2f38a814cad5c4ed :: 64 word) * 0x354930355f1f38e5 = 1"
    by simp_all
  assume "distribute_hash x = distribute_hash y"
  then have "xorshift 31 (xorshift 28 (xorshift 32 (x * 0x517cc1b727220a95) * 0x4cf5ad432745937f) * 0x2f38a814cad5c4ed) =
      xorshift 31 (xorshift 28 (xorshift 32 (y * 0x517cc1b727220a95) * 0x4cf5ad432745937f) * 0x2f38a814cad5c4ed)"
    by (simp only: distribute_hash_def Let_def)
  note mult_inj_word [OF inv(3) xorshift_inj [OF _ this, simplified]]
  note mult_inj_word [OF inv(2) xorshift_inj [OF _ this, simplified]]
  note mult_inj_word [OF inv(1) xorshift_inj [OF _ this, simplified]]
  then show "x = y" .
qed simp

lemma masked_value: "ip AND 0xFFFFFF00 = push_bit 8 (drop_bit 8 ip)" for ip :: "32 word"
proof -
  have "(0xFFFFFF00 :: 32 word) = push_bit 8 (mask 24)" by (simp add: mask_eq_exp_minus_1)
  then have "ip AND 0xFFFFFF00 = ip AND push_bit 8 (mask 24)" by (rule arg_cong)
  also have "\<dots> = push_bit 8 (drop_bit 8 ip)"
    by (auto intro!: bit_word_eqI simp: bit_and_iff bit_push_bit_iff bit_mask_iff bit_drop_bit_eq)
  finally show ?thesis .
qed

lemma masked_inj:
  "ucast (ip AND 0xFFFFFF00) = (ucast (ip' AND 0xFFFFFF00) :: 64 word) \<longleftrightarrow> drop_bit 8 ip = drop_bit 8 ip'"
  for ip ip' :: "32 word"
proof
  assume eq: "ucast (ip AND 0xFFFFFF00) = (ucast (ip' AND 0xFFFFFF00) :: 64 word)"
  show "drop_bit 8 ip = drop_bit 8 ip'"
  proof (rule bit_word_eqI)
    fix n assume "n < LENGTH(32)"
    show "bit (drop_bit 8 ip) n = bit (drop_bit 8 ip') n"
      using arg_cong [OF eq, of "\<lambda>w. bit w (8 + n)"]
      by (auto simp: masked_value bit_unsigned_iff bit_push_bit_iff bit_drop_bit_eq dest: bit_imp_le_length)
  qed
qed (simp add: masked_value)

text \<open>
  The location of a public IPv4 address is that of its /24 network: the hash behind it is the
  same for two addresses exactly if they agree in the upper 24 bits, whatever their ports are.
\<close>

theorem location_of_network:
  assumes "\<not> ipv4_loopback ip" "\<not> ipv4_loopback ip'"
  shows "(distribute_hash (hash_input (V4 ip port)) = distribute_hash (hash_input (V4 ip' port')) \<longleftrightarrow>
       drop_bit 8 ip = drop_bit 8 ip') \<and>
     (drop_bit 8 ip = drop_bit 8 ip' \<longrightarrow> from_address (V4 ip port) = from_address (V4 ip' port'))"
  using assms masked_inj [of ip ip']
  by (cases "drop_bit 8 ip = drop_bit 8 ip'") (simp_all add: distribute_hash_inj from_address_def deterministic_loc_def)

theorem location_of_network_witness:
  "from_address (V4 0x08080808 80) = from_address (V4 0x080808FE 443)
   \<and> distribute_hash (hash_input (V4 0x08080808 80)) \<noteq> distribute_hash (hash_input (V4 0x08080908 80))"
proof -
  have n: "\<not> ipv4_loopback 0x08080808" "\<not> ipv4_loopback 0x080808FE" "\<not> ipv4_loopback 0x08080908"
    by (simp_all add: ipv4_loopback_def drop_bit_numeral_bit0)
  show ?thesis
    using location_of_network [OF n(1,2), of 80 443] location_of_network [OF n(1,3), of 80 80] by simp
qed

text \<open>
  Equality of locations is no equivalence relation and does not agree with their order: there
  are three locations on the ring of which the first two and the last two are equal but not the
  first and the last, and the first is less than the second.
\<close>

theorem location_eq_not_equivalence:
  "\<exists>a b c. on_ring a \<and> on_ring b \<and> on_ring c \<and> location_eq a b \<and> location_eq b c \<and> \<not> location_eq a c
     \<and> location_cmp a b = Less"
proof -
  let ?g = "\<lambda>n. of_int n * (2 :: rat) powi (- 53)"
  have f: "is_f64 (?g (2 ^ 52))" "is_f64 (?g (2 ^ 52 + 1))" "is_f64 (?g (2 ^ 52 + 2))"
    "is_f64 (?g (- 1))" "is_f64 (?g (- 2))" by (intro is_f64_grid; simp)+
  have d: "f64_sub (?g (2 ^ 52)) (?g (2 ^ 52 + 1)) = ?g (- 1)" "f64_sub (?g (2 ^ 52 + 1)) (?g (2 ^ 52 + 2)) = ?g (- 1)"
    "f64_sub (?g (2 ^ 52)) (?g (2 ^ 52 + 2)) = ?g (- 2)"
    unfolding f64_sub_def left_diff_distrib [symmetric] of_int_diff [symmetric] using f(4,5) by (simp_all add: is_f64_def)
  have "on_ring (?g (2 ^ 52))" "on_ring (?g (2 ^ 52 + 1))" "on_ring (?g (2 ^ 52 + 2))"
    using f by (simp_all add: on_ring_def power_int_minus)
  moreover have "location_eq (?g (2 ^ 52)) (?g (2 ^ 52 + 1))" "location_eq (?g (2 ^ 52 + 1)) (?g (2 ^ 52 + 2))"
    "\<not> location_eq (?g (2 ^ 52)) (?g (2 ^ 52 + 2))" "location_cmp (?g (2 ^ 52)) (?g (2 ^ 52 + 1)) = Less"
    unfolding location_eq_def d by (simp_all add: EPSILON_def location_cmp_def power_int_minus)
  ultimately show ?thesis by blast
qed

end
