(* ===== verification/Small_World.thy ===== *)
theory Small_World
  imports Ring_Location
begin

text \<open>
  The small-world geometry of connections (\<open>topology/small_world_rand.rs\<close>): gaps of the connection
  distances in logarithmic scale, the targets and the scores computed from them.  The mathematical
  functions of the platform (\<open>ln\<close>, \<open>exp\<close>, \<open>powf\<close>) and the draws of the random generator are
  arguments; \<open>None\<close> is a panic of the generator on an empty range or a bad probability.

  Shown: with a monotone logarithm no target computation panics and every target is on the ring;
  the score of a candidate is its distance to the nearest point on the logarithmic scale; and twice
  the score of a candidate never exceeds the largest gap of the analysis.
\<close>

record f64_math =
  ln_f64 :: "rat \<Rightarrow> rat"
  exp_f64 :: "rat \<Rightarrow> rat"
  powf :: "rat \<Rightarrow> rat \<Rightarrow> rat"

text \<open>
  One draw of each kind: a double below 1, a fair coin, a coin of given probability, an index below a
  bound, a double between two bounds.
\<close>

record rng_draws =
  unit_draw :: rat
  coin :: bool
  random_bool :: "rat \<Rightarrow> bool"
  random_index :: "nat \<Rightarrow> nat"
  random_between :: "rat \<Rightarrow> rat \<Rightarrow> rat"

definition D_MIN_TARGET :: rat where
  "D_MIN_TARGET = f64_round (1 / 1000)"

definition D_MAX :: rat where
  "D_MAX = 1 / 2"

definition LOG_RATIO :: rat where
  "LOG_RATIO = f64_round (6214608098422191 / 1000000000000000)"

definition random_link_distance :: "f64_math \<Rightarrow> rng_draws \<Rightarrow> rat \<Rightarrow> rat" where
  "random_link_distance mth r d_min = distance_new (f64_mul d_min (powf mth (f64_div D_MAX d_min) (unit_draw r)))"

definition kleinberg_target :: "f64_math \<Rightarrow> rng_draws \<Rightarrow> location \<Rightarrow> location" where
  "kleinberg_target mth r my_location =
     (let distance = random_link_distance mth r D_MIN_TARGET;
          offset = (if coin r then distance else - distance)
      in new_rounded (f64_add my_location offset))"

definition to_log_unit :: "f64_math \<Rightarrow> rat \<Rightarrow> rat" where
  "to_log_unit mth d =
     (if d \<le> D_MIN_TARGET then 0
      else if D_MAX \<le> d then 1
      else f64_div (ln_f64 mth (f64_div d D_MIN_TARGET)) LOG_RATIO)"

record gap_analysis =
  gaps :: "(rat \<times> rat) list"
  ga_largest_gap_size :: rat
  point_count :: nat

fun gap_list :: "rat \<Rightarrow> rat list \<Rightarrow> (rat \<times> rat) list" where
  "gap_list prev [] = [(prev, f64_sub 1 prev)]"
| "gap_list prev (p # points) = (prev, f64_sub p prev) # gap_list p points"

definition analyze_gaps :: "f64_math \<Rightarrow> rat list \<Rightarrow> gap_analysis option" where
  "analyze_gaps mth connection_distances =
     (let points = map (to_log_unit mth) (filter (\<lambda>d. D_MIN_TARGET < d \<and> d \<le> D_MAX) connection_distances)
      in if points = [] then None
         else (let points = remdups_adj (sort points);
                   gs = gap_list 0 points
               in Some \<lparr>gaps = gs, ga_largest_gap_size = foldl max 0 (map snd gs), point_count = length points\<rparr>))"

definition largest_gap_size :: "f64_math \<Rightarrow> rat list \<Rightarrow> rat \<times> nat" where
  "largest_gap_size mth ds =
     (case analyze_gaps mth ds of Some a \<Rightarrow> (ga_largest_gap_size a, point_count a) | None \<Rightarrow> (1, 0))"

definition distance_from_gap_analysis :: "f64_math \<Rightarrow> rng_draws \<Rightarrow> gap_analysis \<Rightarrow> rat option" where
  "distance_from_gap_analysis mth r a =
     (let threshold = f64_mul (ga_largest_gap_size a) (f64_round (99 / 100));
          largest_gaps = filter (\<lambda>(_, size). threshold \<le> size) (gaps a)
      in if largest_gaps = [] then None
         else (let (best_gap_start, best_gap_size) = largest_gaps ! random_index r (length largest_gaps);
                   midpoint = f64_add best_gap_start (f64_div best_gap_size 2);
                   jitter_range = f64_mul best_gap_size (1 / 4)
               in if jitter_range < - jitter_range then None
                  else (let jitter = random_between r (- jitter_range) jitter_range;
                            u_target = max 0 (min 1 (f64_add midpoint jitter))
                        in Some (f64_mul D_MIN_TARGET (exp_f64 mth (f64_mul u_target LOG_RATIO))))))"

definition gap_target :: "f64_math \<Rightarrow> rng_draws \<Rightarrow> location \<Rightarrow> rat list \<Rightarrow> location option" where
  "gap_target mth r my_location connection_distances =
     (case analyze_gaps mth connection_distances of
        None \<Rightarrow> Some (kleinberg_target mth r my_location)
      | Some a \<Rightarrow>
          map_option (\<lambda>distance.
            let offset = (if coin r then distance else - distance)
            in new_rounded (f64_add my_location offset)) (distance_from_gap_analysis mth r a))"

section \<open>Scores\<close>

definition score_step :: "f64_math \<Rightarrow> rat \<Rightarrow> rat \<times> rat \<Rightarrow> rat \<Rightarrow> rat \<times> rat" where
  "score_step mth u_c near d =
     (case near of (nearest_below, nearest_above) \<Rightarrow>
        let u = to_log_unit mth d
        in if u \<le> u_c \<and> nearest_below < u then (u, nearest_above)
           else if u_c < u \<and> u < nearest_above then (nearest_below, u)
           else (nearest_below, nearest_above))"

definition kleinberg_score :: "f64_math \<Rightarrow> rat \<Rightarrow> rat list \<Rightarrow> rat" where
  "kleinberg_score mth candidate_distance connection_distances =
     (if candidate_distance \<le> 0 \<or> D_MAX < candidate_distance then 0
      else (let u_c = to_log_unit mth candidate_distance;
                (nearest_below, nearest_above) = foldl (score_step mth u_c) (0, 1) connection_distances
            in min (f64_sub u_c nearest_below) (f64_sub nearest_above u_c)))"

definition removal_step :: "f64_math \<Rightarrow> rat \<Rightarrow> rat \<times> rat \<Rightarrow> rat \<Rightarrow> rat \<times> rat" where
  "removal_step mth u_peer near d =
     (case near of (lo, hi) \<Rightarrow>
        let u = to_log_unit mth d
        in if \<bar>f64_sub u u_peer\<bar> < f64_round (1 / 1000000000000) then (lo, hi)
           else (if u < u_peer \<and> lo < u then u else lo,
                 if u_peer < u \<and> u < hi then u else hi))"

definition removal_gap :: "f64_math \<Rightarrow> rat \<Rightarrow> rat list \<Rightarrow> rat" where
  "removal_gap mth peer_distance all_distances =
     (if peer_distance \<le> 0 \<or> D_MAX < peer_distance then 0
      else (let u_peer = to_log_unit mth peer_distance;
                (lo, hi) = foldl (removal_step mth u_peer) (0, 1) all_distances
            in f64_sub hi lo))"

section \<open>Directional variants\<close>

fun split_by_direction :: "rat list \<Rightarrow> rat list \<times> rat list" where
  "split_by_direction [] = ([], [])"
| "split_by_direction (sd # sds) =
     (case split_by_direction sds of (cw, ccw) \<Rightarrow> if 0 \<le> sd then (sd # cw, ccw) else (cw, - sd # ccw))"

text \<open>\<open>random_bool\<close> panics unless its argument is between 0 and 1 (and the quotient is no NaN).\<close>

definition gap_target_directional :: "f64_math \<Rightarrow> rng_draws \<Rightarrow> location \<Rightarrow> rat list \<Rightarrow> location option" where
  "gap_target_directional mth r my_location signed_distances =
     (let (cw_dists, ccw_dists) = split_by_direction signed_distances
      in case (analyze_gaps mth cw_dists, analyze_gaps mth ccw_dists) of
           (None, None) \<Rightarrow> Some (kleinberg_target mth r my_location)
         | (Some cw, Some ccw) \<Rightarrow>
             (let total = f64_add (ga_largest_gap_size cw) (ga_largest_gap_size ccw);
                  pick_cw_prob = f64_div (ga_largest_gap_size cw) total
              in if total = 0 \<or> pick_cw_prob < 0 \<or> 1 < pick_cw_prob then None
                 else (let (analysis, sign) = (if random_bool r pick_cw_prob then (cw, 1) else (ccw, - 1))
                       in map_option (\<lambda>distance. new_rounded (f64_add my_location (f64_mul sign distance)))
                            (distance_from_gap_analysis mth r analysis)))
         | _ \<Rightarrow> gap_target mth r my_location (map abs signed_distances))"

definition removal_gap_directional :: "f64_math \<Rightarrow> rat \<Rightarrow> rat list \<Rightarrow> rat \<times> nat" where
  "removal_gap_directional mth peer_signed_distance signed_distances =
     (let peer_abs = \<bar>peer_signed_distance\<bar>;
          (cw_dists, ccw_dists) = split_by_direction signed_distances;
          same_side = (if 0 \<le> peer_signed_distance then cw_dists else ccw_dists)
      in (removal_gap mth peer_abs same_side, length same_side))"

definition largest_gap_size_directional :: "f64_math \<Rightarrow> rat list \<Rightarrow> rat \<times> nat" where
  "largest_gap_size_directional mth signed_distances =
     (let (cw_dists, ccw_dists) = split_by_direction signed_distances;
          (cw_gap, cw_count) = largest_gap_size mth cw_dists;
          (ccw_gap, ccw_count) = largest_gap_size mth ccw_dists
      in if ccw_gap \<le> cw_gap then (cw_gap, cw_count) else (ccw_gap, ccw_count))"

section \<open>The logarithmic scale\<close>

text \<open>
  What is used of the platform's logarithm: it is monotone, zero at 1, and at 500 no more than the
  constant the source derives from it.
\<close>

definition ln_ok :: "f64_math \<Rightarrow> bool" where
  "ln_ok mth \<longleftrightarrow>
     (\<forall>x y. 0 < x \<and> x \<le> y \<longrightarrow> ln_f64 mth x \<le> ln_f64 mth y) \<and> ln_f64 mth 1 = 0 \<and> ln_f64 mth 500 \<le> LOG_RATIO"

lemma ln_okD:
  assumes "ln_ok mth"
  shows "0 < x \<Longrightarrow> x \<le> y \<Longrightarrow> ln_f64 mth x \<le> ln_f64 mth y" "ln_f64 mth 1 = 0" "ln_f64 mth 500 \<le> LOG_RATIO"
  using assms by (simp_all add: ln_ok_def)

text \<open>The generator draws within the requested ranges.\<close>

definition rng_ok :: "rng_draws \<Rightarrow> bool" where
  "rng_ok r \<longleftrightarrow> (\<forall>n. 0 < n \<longrightarrow> random_index r n < n)"

lemma D_MIN_val: "D_MIN_TARGET = 1152921504606847 / 1152921504606846976"
proof -
  have "f64_round (1 / 1000) = of_int 4611686018427388 * 2 powi (- 10 - 52)"
    by (rule f64_round_eqI) (simp_all add: power_int_minus)
  then show ?thesis by (simp add: D_MIN_TARGET_def power_int_minus)
qed

lemma LOG_RATIO_pos: "0 < LOG_RATIO"
proof -
  have six: "f64_round 6 = 6" using is_f64_int [of 6] by (simp add: is_f64_def)
  have "(6 :: rat) \<le> 6214608098422191 / 1000000000000000" by simp
  from f64_round_le [OF this] show ?thesis unfolding LOG_RATIO_def six by simp
qed

lemma quotient_range:
  assumes "D_MIN_TARGET < d" "d < D_MAX"
  shows "1 \<le> f64_div d D_MIN_TARGET" "f64_div d D_MIN_TARGET \<le> 500"
proof -
  have pos: "0 < D_MIN_TARGET" by (simp add: D_MIN_val)
  then have "1 \<le> d / D_MIN_TARGET" using assms(1) by simp
  from f64_round_le [OF this] show "1 \<le> f64_div d D_MIN_TARGET" using is_f64_1 by (simp add: f64_div_def is_f64_def)
  have "d / D_MIN_TARGET \<le> D_MAX / D_MIN_TARGET" using assms(2) pos by (simp add: divide_right_mono)
  then have "f64_div d D_MIN_TARGET \<le> f64_round (D_MAX / D_MIN_TARGET)" unfolding f64_div_def by (rule f64_round_le)
  also have "\<dots> = of_int 8796093022208000 * 2 powi (8 - 52)"
    by (rule f64_round_eqI) (simp_all add: D_MIN_val D_MAX_def power_int_minus power_int_numeral)
  finally show "f64_div d D_MIN_TARGET \<le> 500" by (simp add: power_int_minus)
qed

lemma to_log_unit_range:
  assumes "ln_ok mth"
  shows "0 \<le> to_log_unit mth d" "to_log_unit mth d \<le> 1" "is_f64 (to_log_unit mth d)"
proof -
  have "0 \<le> to_log_unit mth d \<and> to_log_unit mth d \<le> 1"
  proof (cases "D_MIN_TARGET < d \<and> d < D_MAX")
    case True
    let ?q = "f64_div d D_MIN_TARGET"
    have q: "1 \<le> ?q" "?q \<le> 500" using quotient_range True by auto
    have "ln_f64 mth 1 \<le> ln_f64 mth ?q" using q(1) by (intro ln_okD(1) [OF assms]) auto
    moreover have "ln_f64 mth ?q \<le> ln_f64 mth 500" using q by (intro ln_okD(1) [OF assms]) auto
    ultimately have "0 \<le> ln_f64 mth ?q" "ln_f64 mth ?q \<le> LOG_RATIO" using ln_okD(2,3) [OF assms] by linarith+
    then have "0 \<le> ln_f64 mth ?q / LOG_RATIO" "ln_f64 mth ?q / LOG_RATIO \<le> 1" using LOG_RATIO_pos by simp_all
    from f64_round_bounds [OF is_f64_0 is_f64_1 this] show ?thesis
      using True by (simp add: to_log_unit_def f64_div_def [of "ln_f64 mth _"])
  qed (auto simp: to_log_unit_def)
  then show "0 \<le> to_log_unit mth d" "to_log_unit mth d \<le> 1" by auto
  show "is_f64 (to_log_unit mth d)" by (simp add: to_log_unit_def f64_div_def is_f64_round)
qed

section \<open>Gaps\<close>

lemma foldl_max: "foldl max a xs = Max (insert a (set xs))" for a :: "'a :: linorder"
proof (induction xs arbitrary: a)
  case (Cons x xs)
  have "Max (insert (max a x) (set xs)) = Max (insert a (insert x (set xs)))"
    by (cases "set xs = {}") (simp_all add: max.assoc)
  then show ?case using Cons by simp
qed simp

definition unit_points :: "rat list \<Rightarrow> bool" where
  "unit_points ps \<longleftrightarrow> (\<forall>p \<in> set ps. is_f64 p \<and> 0 \<le> p \<and> p \<le> 1)"

lemma gap_sizes:
  assumes "sorted (prev # ps)" "unit_points (prev # ps)" "(s, g) \<in> set (gap_list prev ps)"
  shows "0 \<le> g" "is_f64 g"
  using assms
  by (induction ps arbitrary: prev) (auto simp: unit_points_def f64_sub_def f64_round_nonneg is_f64_round)

lemma some_gap_positive:
  assumes "unit_points (prev # ps)" "\<forall>(s, g) \<in> set (gap_list prev ps). g = 0"
  shows "prev = 1"
  using assms
proof (induction ps arbitrary: prev)
  case Nil
  then show ?case using f64_sub_eq_0 [of 1 prev] by (simp add: unit_points_def)
next
  case (Cons p ps)
  then have "p = 1" "f64_sub p prev = 0" by (auto simp: unit_points_def)
  then show ?case using f64_sub_eq_0 [of p prev] Cons.prems by (simp add: unit_points_def)
qed

lemma gap_around:
  assumes "prev \<le> u" "u \<le> 1"
  obtains s e where "(s, f64_sub e s) \<in> set (gap_list prev ps)" "s \<le> u" "u \<le> e" "s \<in> insert prev (set ps)" "e \<in> insert 1 (set ps)"
  using assms
proof (induction ps arbitrary: prev thesis)
  case (Cons p ps)
  show ?case
  proof (cases "u \<le> p")
    case True
    then show ?thesis using Cons.prems by (intro Cons.prems(1) [of prev p]) auto
  next
    case False
    then obtain s e where "(s, f64_sub e s) \<in> set (gap_list p ps)" "s \<le> u" "u \<le> e" "s \<in> insert p (set ps)" "e \<in> insert 1 (set ps)"
      using Cons.IH [of p] Cons.prems by auto
    then show ?thesis by (intro Cons.prems(1) [of s e]) auto
  qed
qed auto

definition analysis_ok :: "gap_analysis \<Rightarrow> bool" where
  "analysis_ok a \<longleftrightarrow> is_f64 (ga_largest_gap_size a) \<and> 0 < ga_largest_gap_size a
     \<and> ga_largest_gap_size a \<in> snd ` set (gaps a) \<and> (\<forall>(s, g) \<in> set (gaps a). 0 \<le> g \<and> g \<le> ga_largest_gap_size a)"

lemma analyze_gaps_ok:
  assumes "ln_ok mth" "analyze_gaps mth ds = Some a"
  shows "analysis_ok a"
proof -
  define ps where "ps = remdups_adj (sort (map (to_log_unit mth) (filter (\<lambda>d. D_MIN_TARGET < d \<and> d \<le> D_MAX) ds)))"
  have a: "gaps a = gap_list 0 ps" "ga_largest_gap_size a = foldl max 0 (map snd (gap_list 0 ps))"
    using assms(2) by (auto simp: analyze_gaps_def Let_def ps_def split: if_splits)
  have unit: "unit_points (0 # ps)" by (auto simp: unit_points_def ps_def to_log_unit_range [OF assms(1)])
  have "sorted (0 # ps)" using unit by (auto simp: ps_def unit_points_def)
  note sizes = gap_sizes [OF this unit]
  let ?L = "ga_largest_gap_size a"
  have L: "?L = Max (insert 0 (snd ` set (gap_list 0 ps)))" by (simp add: a foldl_max)
  have le: "g \<le> ?L" if "(s, g) \<in> set (gap_list 0 ps)" for s g
    unfolding L using that by (intro Max_ge) (auto intro: rev_image_eqI)
  have "\<exists>(s, g) \<in> set (gap_list 0 ps). g \<noteq> 0" using some_gap_positive [OF unit] by auto
  then have pos: "0 < ?L" using le sizes(1) by force
  have "?L \<in> insert 0 (snd ` set (gap_list 0 ps))" unfolding L by (intro Max_in) auto
  then have mem: "?L \<in> snd ` set (gap_list 0 ps)" using pos by auto
  then have "is_f64 ?L" using sizes(2) by auto
  then show ?thesis using pos mem le sizes(1) by (auto simp: analysis_ok_def a(1))
qed

lemma distance_from_gap_analysis_total:
  assumes "analysis_ok a" "rng_ok r"
  shows "\<exists>d. distance_from_gap_analysis mth r a = Some d"
proof -
  let ?L = "ga_largest_gap_size a"
  let ?t = "f64_mul ?L (f64_round (99 / 100))"
  let ?gs = "filter (\<lambda>(_, size). ?t \<le> size) (gaps a)"
  have "f64_round (99 / 100) \<le> 1" using f64_round_le [of "99 / 100" 1] is_f64_1 by (simp add: is_f64_def)
  then have "?L * f64_round (99 / 100) \<le> ?L" using assms(1) by (simp add: analysis_ok_def)
  from f64_round_le [OF this] have "?t \<le> ?L" using assms(1) by (simp add: analysis_ok_def f64_mul_def is_f64_def)
  then have ne: "?gs \<noteq> []" using assms(1) by (auto simp: analysis_ok_def filter_empty_conv)
  let ?p = "?gs ! random_index r (length ?gs)"
  have "?p \<in> set ?gs" using ne assms(2) by (intro nth_mem) (simp add: rng_ok_def)
  then have "0 \<le> snd ?p" using assms(1) by (auto simp: analysis_ok_def)
  then have "0 \<le> f64_mul (snd ?p) (1 / 4)" by (simp add: f64_mul_nonneg)
  then show ?thesis
    unfolding distance_from_gap_analysis_def Let_def split_beta if_not_P [OF ne] by simp
qed

section \<open>Targets\<close>

lemma target_on_ring: "on_ring (new_rounded (f64_add l d))"
  by (simp add: new_rounded_on_ring f64_add_def is_f64_round)

lemma gap_target_total:
  assumes "ln_ok mth" "rng_ok r"
  shows "\<exists>l. gap_target mth r me ds = Some l \<and> on_ring l"
proof (cases "analyze_gaps mth ds")
  case None
  then show ?thesis by (simp add: gap_target_def kleinberg_target_def Let_def target_on_ring)
next
  case (Some a)
  then obtain d where "distance_from_gap_analysis mth r a = Some d"
    using distance_from_gap_analysis_total analyze_gaps_ok assms by blast
  then show ?thesis by (simp add: gap_target_def Some Let_def target_on_ring)
qed

text \<open>
  C37: No choice of a target can panic, and every target is a location on the ring, for any
  connection distances, any signed distances and any draws.
\<close>

theorem targets_total_on_ring:
  assumes "ln_ok mth" "rng_ok r"
  shows "(\<exists>l. gap_target mth r my_location distances = Some l \<and> on_ring l)
    \<and> (\<exists>l. gap_target_directional mth r my_location signed_distances = Some l \<and> on_ring l)"
proof (intro conjI gap_target_total assms)
  obtain cw ccw where split: "split_by_direction signed_distances = (cw, ccw)" by fastforce
  show "\<exists>l. gap_target_directional mth r my_location signed_distances = Some l \<and> on_ring l"
  proof (cases "analyze_gaps mth cw = None \<or> analyze_gaps mth ccw = None")
    case True
    then show ?thesis
      using gap_target_total [OF assms]
      by (auto simp: gap_target_directional_def split kleinberg_target_def Let_def target_on_ring split: option.split)
  next
    case False
    then obtain a b where ab: "analyze_gaps mth cw = Some a" "analyze_gaps mth ccw = Some b" by auto
    let ?A = "ga_largest_gap_size a" and ?B = "ga_largest_gap_size b"
    have ok: "analysis_ok a" "analysis_ok b" using ab analyze_gaps_ok [OF assms(1)] by auto
    then have pos: "0 < ?A" "0 < ?B" "f64_round ?A = ?A" by (auto simp: analysis_ok_def is_f64_def)
    have total: "?A \<le> f64_add ?A ?B" using f64_round_le [of ?A "?A + ?B"] pos by (simp add: f64_add_def)
    then have "0 \<le> ?A / f64_add ?A ?B" "?A / f64_add ?A ?B \<le> 1" using pos by simp_all
    from f64_round_bounds [OF is_f64_0 is_f64_1 this] total pos
    have "\<not> (f64_add ?A ?B = 0 \<or> f64_div ?A (f64_add ?A ?B) < 0 \<or> 1 < f64_div ?A (f64_add ?A ?B))"
      by (auto simp: f64_div_def)
    moreover obtain d e where "distance_from_gap_analysis mth r a = Some d" "distance_from_gap_analysis mth r b = Some e"
      using distance_from_gap_analysis_total ok assms(2) by blast
    ultimately show ?thesis
      by (simp add: gap_target_directional_def split ab Let_def target_on_ring)
  qed
qed

text \<open>A linear function stands for the logarithm in the concrete instances.\<close>

definition linear_math :: f64_math where
  "linear_math = \<lparr>ln_f64 = (\<lambda>x. (x - 1) * (LOG_RATIO / 499)), exp_f64 = (\<lambda>x. x), powf = (\<lambda>x y. x)\<rparr>"

definition first_draws :: rng_draws where
  "first_draws = \<lparr>unit_draw = 0, coin = True, random_bool = (\<lambda>_. True), random_index = (\<lambda>_. 0), random_between = (\<lambda>a b. a)\<rparr>"

lemma linear_math_ok: "ln_ok linear_math"
  using LOG_RATIO_pos by (auto simp: ln_ok_def linear_math_def intro: mult_right_mono)

lemma first_draws_ok: "rng_ok first_draws"
  by (simp add: rng_ok_def first_draws_def)

theorem targets_total_on_ring_witness:
  "(\<exists>l. gap_target linear_math first_draws (1 / 2) [1 / 4] = Some l \<and> on_ring l)
   \<and> (\<exists>l. gap_target_directional linear_math first_draws (1 / 2) [1 / 4, - (1 / 8)] = Some l \<and> on_ring l)"
  by (rule targets_total_on_ring [OF linear_math_ok first_draws_ok])

section \<open>Scores\<close>

definition scale_points :: "f64_math \<Rightarrow> rat list \<Rightarrow> rat set" where
  "scale_points mth ds = insert 0 (insert 1 (to_log_unit mth ` set ds))"

lemma score_fold:
  assumes "0 \<le> b" "b \<le> u" "u \<le> a" "a \<le> 1" "foldl (score_step mth u) (b, a) ds = (b', a')" "\<And>d. to_log_unit mth d \<le> 1"
  shows "b \<le> b' \<and> b' \<le> u \<and> u \<le> a' \<and> a' \<le> a \<and> b' \<in> insert b (to_log_unit mth ` set ds)
    \<and> a' \<in> insert a (to_log_unit mth ` set ds) \<and> (\<forall>d \<in> set ds. to_log_unit mth d \<le> b' \<or> a' \<le> to_log_unit mth d)"
  using assms
proof (induction ds arbitrary: b a)
  case (Cons d ds)
  let ?u = "to_log_unit mth d"
  obtain b1 a1 where st: "score_step mth u (b, a) d = (b1, a1)" by fastforce
  then have near: "b \<le> b1" "b1 \<le> u" "u \<le> a1" "a1 \<le> a" "?u \<le> b1 \<or> a1 \<le> ?u" "b1 \<in> {b, ?u}" "a1 \<in> {a, ?u}"
    using Cons.prems by (auto simp: score_step_def Let_def split: if_splits)
  have "foldl (score_step mth u) (b1, a1) ds = (b', a')" using Cons.prems(5) st by simp
  note IH = Cons.IH [OF _ near(2,3) _ this Cons.prems(6)]
  then show ?case using near Cons.prems(1,4) by auto
qed simp

lemma score_near:
  assumes "ln_ok mth" "0 < d" "d \<le> D_MAX"
  obtains b a where "kleinberg_score mth d ds = min (f64_sub (to_log_unit mth d) b) (f64_sub a (to_log_unit mth d))"
    "b \<in> scale_points mth ds" "a \<in> scale_points mth ds" "b \<le> to_log_unit mth d" "to_log_unit mth d \<le> a"
    "\<forall>p \<in> scale_points mth ds. p \<le> b \<or> a \<le> p"
proof -
  let ?u = "to_log_unit mth d"
  obtain b a where f: "foldl (score_step mth ?u) (0, 1) ds = (b, a)" by fastforce
  have "0 \<le> b \<and> b \<le> ?u \<and> ?u \<le> a \<and> a \<le> 1 \<and> b \<in> insert 0 (to_log_unit mth ` set ds)
    \<and> a \<in> insert 1 (to_log_unit mth ` set ds) \<and> (\<forall>d \<in> set ds. to_log_unit mth d \<le> b \<or> a \<le> to_log_unit mth d)"
    by (rule score_fold [OF _ _ _ _ f]) (simp_all add: to_log_unit_range [OF assms(1)])
  then show ?thesis
    using assms(2,3) f by (intro that [of b a]) (auto simp: kleinberg_score_def scale_points_def Let_def)
qed

lemma f64_sub_le: "x - y \<le> z - w \<Longrightarrow> f64_sub x y \<le> f64_sub z w"
  by (simp add: f64_sub_def f64_round_le)

lemma f64_sub_nonneg: "y \<le> x \<Longrightarrow> 0 \<le> f64_sub x y"
  by (simp add: f64_sub_def f64_round_nonneg)

lemma score_nearest:
  assumes "ln_ok mth" "0 < candidate" "candidate \<le> D_MAX"
  shows "kleinberg_score mth candidate distances =
    Min ((\<lambda>p. \<bar>f64_sub (to_log_unit mth candidate) p\<bar>) ` scale_points mth distances)"
proof -
  let ?u = "to_log_unit mth candidate"
  obtain b a where ba: "kleinberg_score mth candidate distances = min (f64_sub ?u b) (f64_sub a ?u)"
    "b \<in> scale_points mth distances" "a \<in> scale_points mth distances" "b \<le> ?u" "?u \<le> a"
    "\<forall>p \<in> scale_points mth distances. p \<le> b \<or> a \<le> p"
    by (rule score_near [OF assms])
  have abs_below: "\<bar>f64_sub ?u p\<bar> = f64_sub ?u p" if "p \<le> ?u" for p using f64_sub_nonneg [OF that] by simp
  have abs_above: "\<bar>f64_sub ?u p\<bar> = f64_sub p ?u" if "?u \<le> p" for p
    using f64_sub_nonneg [OF that] f64_sub_swap [of ?u p] by simp
  have "Min ((\<lambda>p. \<bar>f64_sub ?u p\<bar>) ` scale_points mth distances) = min (f64_sub ?u b) (f64_sub a ?u)"
  proof (rule Min_eqI)
    fix y
    assume "y \<in> (\<lambda>p. \<bar>f64_sub ?u p\<bar>) ` scale_points mth distances"
    then obtain p where p: "y = \<bar>f64_sub ?u p\<bar>" "p \<le> b \<or> a \<le> p" using ba(6) by auto
    then have "f64_sub ?u b \<le> y \<or> f64_sub a ?u \<le> y"
      using ba(4,5) f64_sub_le [of ?u b ?u p] f64_sub_le [of a ?u p ?u] abs_below [of p] abs_above [of p] by auto
    then show "min (f64_sub ?u b) (f64_sub a ?u) \<le> y" by auto
  next
    have "f64_sub ?u b \<in> (\<lambda>p. \<bar>f64_sub ?u p\<bar>) ` scale_points mth distances"
      using ba(2) abs_below [OF ba(4)] by (intro rev_image_eqI) auto
    moreover have "f64_sub a ?u \<in> (\<lambda>p. \<bar>f64_sub ?u p\<bar>) ` scale_points mth distances"
      using ba(3) abs_above [OF ba(5)] by (intro rev_image_eqI) auto
    ultimately show "min (f64_sub ?u b) (f64_sub a ?u) \<in> (\<lambda>p. \<bar>f64_sub ?u p\<bar>) ` scale_points mth distances"
      by (simp add: min_def)
  qed (simp add: scale_points_def)
  then show ?thesis by (simp add: ba(1))
qed

text \<open>
  The score of a candidate is the distance on the logarithmic scale to the nearest connection or
  end of the scale, though the code looks only at the nearest point on either side.
\<close>

theorem score_is_nearest_distance:
  assumes "ln_ok mth" "0 < candidate" "candidate \<le> D_MAX"
  shows "kleinberg_score mth candidate distances =
    Min ((\<lambda>p. \<bar>f64_sub (to_log_unit mth candidate) p\<bar>) ` insert 0 (insert 1 (to_log_unit mth ` set distances)))"
  using score_nearest [OF assms] by (simp add: scale_points_def)

theorem score_is_nearest_distance_witness:
  "kleinberg_score linear_math (1 / 4) [1 / 8] =
    Min ((\<lambda>p. \<bar>f64_sub (to_log_unit linear_math (1 / 4)) p\<bar>) ` insert 0 (insert 1 (to_log_unit linear_math ` set [1 / 8])))"
  by (rule score_is_nearest_distance [OF linear_math_ok]) (simp_all add: D_MAX_def)

text \<open>
  Twice the score of a candidate is at most the largest gap the analysis of the same
  connections reports: a score tells how well a candidate splits a gap.
\<close>

theorem score_at_most_half_gap:
  assumes ok: "ln_ok mth" and d: "0 < candidate" "candidate \<le> D_MAX"
  shows "f64_mul 2 (kleinberg_score mth candidate distances) \<le> fst (largest_gap_size mth distances)"
proof -
  let ?u = "to_log_unit mth candidate" and ?score = "kleinberg_score mth candidate distances"
  note u = to_log_unit_range [OF ok, of candidate]
  have near: "?score \<le> \<bar>f64_sub ?u p\<bar>" if "p \<in> scale_points mth distances" for p
    using that unfolding score_nearest [OF assms]
    by (intro Min_le) (auto simp: scale_points_def)
  have f64: "is_f64 p" if "p \<in> scale_points mth distances" for p
    using that to_log_unit_range(3) [OF ok] by (auto simp: scale_points_def)
  have halves: "f64_mul 2 ?score \<le> f64_sub e s"
    if "s \<in> scale_points mth distances" "e \<in> scale_points mth distances" "s \<le> ?u" "?u \<le> e" for s e
  proof -
    have "?score \<le> f64_sub ?u s" "?score \<le> f64_sub e ?u"
      using near [OF that(1)] near [OF that(2)] f64_sub_nonneg [OF that(3)] f64_sub_nonneg [OF that(4)] f64_sub_swap [of e ?u] by auto
    moreover have "2 * (?u - s) \<le> e - s \<or> 2 * (e - ?u) \<le> e - s" by auto
    ultimately have "\<exists>x y. ?score \<le> f64_round (x - y) \<and> 2 * (x - y) \<le> e - s \<and> is_f64 x \<and> is_f64 y \<and> y \<le> x"
      using that f64 [OF that(1)] f64 [OF that(2)] u(3) unfolding f64_sub_def by blast
    then obtain x y where xy: "?score \<le> f64_round (x - y)" "2 * (x - y) \<le> e - s" "is_f64 x" "is_f64 y" "y \<le> x" by blast
    have "f64_mul 2 ?score \<le> f64_mul 2 (f64_round (x - y))" using xy(1) by (simp add: f64_mul_def f64_round_le)
    also have "\<dots> = f64_round (2 * (x - y))" using xy(3,4,5) by (rule f64_mul_2)
    also have "\<dots> \<le> f64_sub e s" unfolding f64_sub_def using xy(2) by (rule f64_round_le)
    finally show ?thesis .
  qed
  show ?thesis
  proof (cases "analyze_gaps mth distances")
    case None
    then show ?thesis
      using halves [of 0 1] u is_f64_1 by (simp add: largest_gap_size_def scale_points_def f64_sub_def is_f64_def)
  next
    case (Some a)
    define ps where "ps = remdups_adj (sort (map (to_log_unit mth) (filter (\<lambda>d. D_MIN_TARGET < d \<and> d \<le> D_MAX) distances)))"
    have a: "gaps a = gap_list 0 ps" using Some by (auto simp: analyze_gaps_def Let_def ps_def split: if_splits)
    have ps: "set ps \<subseteq> scale_points mth distances" by (auto simp: ps_def scale_points_def)
    obtain s e where g: "(s, f64_sub e s) \<in> set (gap_list 0 ps)" "s \<le> ?u" "?u \<le> e" "s \<in> insert 0 (set ps)" "e \<in> insert 1 (set ps)"
      by (rule gap_around [OF u(1,2)])
    have "f64_mul 2 ?score \<le> f64_sub e s" using g ps by (intro halves) (auto simp: scale_points_def)
    also have "\<dots> \<le> ga_largest_gap_size a" using analyze_gaps_ok [OF ok Some] g(1) by (auto simp: analysis_ok_def a)
    finally show ?thesis by (simp add: largest_gap_size_def Some)
  qed
qed

theorem score_at_most_half_gap_witness:
  "f64_mul 2 (kleinberg_score linear_math (1 / 4) [1 / 8, 1 / 3]) \<le> fst (largest_gap_size linear_math [1 / 8, 1 / 3])"
  by (rule score_at_most_half_gap [OF linear_math_ok]) (simp_all add: D_MAX_def)

end
