(* ===== verification/Peer_Health.thy ===== *)
theory Peer_Health
  imports Ring_Location
begin

text \<open>
  Which peers a node gives up: the routing health of ring connections (\<open>PeerHealthTracker\<close>), the peers
  excluded from CONNECT routing, and the failure counter behind the jitter of CONNECT targets, all
  of \<open>ring/connection_manager.rs\<close>.  The tables are ordered by address; the counters are incremented
  one at a time and do not reach their width.

  Shown: eviction never leaves the ring empty and never goes below the minimum for a peer that has
  ever succeeded; exclusion is capped, justified and takes the worst offenders first.
\<close>

section \<open>Routing health\<close>

record peer_health_stats =
  successes :: nat
  failures :: nat
  last_success :: "instant option"
  added_at :: instant

type_synonym health_table = "(socket_addr \<times> peer_health_stats) list"

definition HEALTH_MIN_EVENTS :: nat where
  "HEALTH_MIN_EVENTS = 10"

definition HEALTH_FAILURE_RATE_THRESHOLD :: rat where
  "HEALTH_FAILURE_RATE_THRESHOLD = f64_round (90 / 100)"

definition HEALTH_NO_SUCCESS_TIMEOUT :: duration where
  "HEALTH_NO_SUCCESS_TIMEOUT = secs 600"

definition HEALTH_LAST_SUCCESS_TIMEOUT :: duration where
  "HEALTH_LAST_SUCCESS_TIMEOUT = secs 600"

definition HEALTH_BURST_MIN_FAILURES :: nat where
  "HEALTH_BURST_MIN_FAILURES = 10"

definition init_peer :: "instant \<Rightarrow> socket_addr \<Rightarrow> health_table \<Rightarrow> health_table" where
  "init_peer now addr t = bt_put addr \<lparr>successes = 0, failures = 0, last_success = None, added_at = now\<rparr> t"

definition remove_peer :: "socket_addr \<Rightarrow> health_table \<Rightarrow> health_table" where
  "remove_peer addr t = hm_del addr t"

definition health_record_success :: "instant \<Rightarrow> socket_addr \<Rightarrow> health_table \<Rightarrow> health_table" where
  "health_record_success now addr t =
     (case hm_get t addr of
        Some s \<Rightarrow> bt_put addr (s\<lparr>successes := successes s + 1, last_success := Some now\<rparr>) t
      | None \<Rightarrow> t)"

definition health_record_failure :: "socket_addr \<Rightarrow> health_table \<Rightarrow> health_table" where
  "health_record_failure addr t =
     (case hm_get t addr of Some s \<Rightarrow> bt_put addr (s\<lparr>failures := failures s + 1\<rparr>) t | None \<Rightarrow> t)"

definition unhealthy :: "instant \<Rightarrow> peer_health_stats \<Rightarrow> bool" where
  "unhealthy now s \<longleftrightarrow>
     (let total = successes s + failures s
      in HEALTH_MIN_EVENTS \<le> total
           \<and> HEALTH_FAILURE_RATE_THRESHOLD \<le> f64_div (f64_of_nat (failures s)) (f64_of_nat total)
       \<or> successes s = 0 \<and> 1 \<le> failures s \<and> HEALTH_NO_SUCCESS_TIMEOUT < saturating_since now (added_at s)
       \<or> (case last_success s of
            Some last_ok \<Rightarrow> HEALTH_LAST_SUCCESS_TIMEOUT < saturating_since now last_ok
                              \<and> HEALTH_BURST_MIN_FAILURES < failures s
          | None \<Rightarrow> False))"

definition unhealthy_peers :: "instant \<Rightarrow> nat \<Rightarrow> nat \<Rightarrow> health_table \<Rightarrow> socket_addr list" where
  "unhealthy_peers now min_conns current_count t =
     (let candidates = map (\<lambda>(addr, s). (addr, successes s = 0)) (filter (\<lambda>(_, s). unhealthy now s) t);
          (never_succeeded, degraded) = partition snd candidates;
          max_never_succeeded = (if 1 < current_count then min (length never_succeeded) (current_count - 1) else 0);
          result = map fst (take max_never_succeeded never_succeeded);
          remaining = current_count - length result
      in if min_conns < remaining then result @ map fst (take (remaining - min_conns) degraded) else result)"

text \<open>
  Eviction of unhealthy peers.  Only unhealthy peers of the table are named, none twice; with a
  positive minimum at least one connection stays; and if a peer is named that has ever succeeded,
  the minimum number of connections stays.
\<close>

theorem eviction_keeps_floor:
  fixes t :: health_table and now :: instant
  assumes wf: "bt_wf t" and m: "0 < min_conns" "0 < current_count"
  defines "evicted \<equiv> unhealthy_peers now min_conns current_count t"
  shows "distinct evicted \<and> (\<forall>a \<in> set evicted. \<exists>s. hm_get t a = Some s \<and> unhealthy now s)
    \<and> length evicted < current_count
    \<and> ((\<exists>a \<in> set evicted. \<exists>s. hm_get t a = Some s \<and> successes s \<noteq> 0) \<longrightarrow> min_conns + length evicted \<le> current_count)"
proof -
  define cs where "cs = map (\<lambda>(addr, s). (addr, successes s = 0)) (filter (\<lambda>(_, s). unhealthy now s) t)"
  define ns ds where "ns = filter snd cs" and "ds = filter (Not \<circ> snd) cs"
  define k where "k = (if 1 < current_count then min (length ns) (current_count - 1) else 0)"
  define r where "r = current_count - k"
  have k: "k \<le> length ns" "k < current_count" using m by (auto simp: k_def)
  have ev: "evicted = map fst (take k ns) @ (if min_conns < r then map fst (take (r - min_conns) ds) else [])"
    unfolding evicted_def unhealthy_peers_def Let_def cs_def [symmetric] partition_filter_conv prod.case
      ns_def [symmetric] ds_def [symmetric] k_def [symmetric] using k by (simp add: r_def)
  have dcs: "distinct (map fst cs)"
  proof -
    have "map fst cs = map fst (filter (\<lambda>(_, s). unhealthy now s) t)" by (simp add: cs_def case_prod_unfold)
    then show ?thesis using bt_wf_hm_wf [OF wf] by (simp add: distinct_map_filter)
  qed
  have mem: "\<exists>s. hm_get t a = Some s \<and> unhealthy now s \<and> z = (successes s = 0)" if "(a, z) \<in> set cs" for a z
    using that hm_get_in_set [OF bt_wf_hm_wf [OF wf]] by (auto simp: cs_def)
  have disj: "fst ` set ns \<inter> fst ` set ds = {}"
    using eq_key_imp_eq_value [OF dcs] by (fastforce simp: ns_def ds_def)
  have "distinct (map fst ns)" "distinct (map fst ds)" using dcs by (simp_all add: ns_def ds_def distinct_map_filter)
  then have dis: "distinct evicted"
    using disj by (auto simp: ev take_map [symmetric] distinct_take dest!: in_set_takeD)
  have sub: "set evicted \<subseteq> fst ` set (take k ns) \<union> (if min_conns < r then fst ` set ds else {})"
    using set_take_subset [of "r - min_conns" ds] by (auto simp: ev)
  have len: "length evicted < current_count" "min_conns < r \<Longrightarrow> min_conns + length evicted \<le> current_count"
    using k m by (auto simp: ev r_def)
  have zero: "successes s = 0" if a: "a \<in> fst ` set (take k ns)" "hm_get t a = Some s" for a s
  proof -
    obtain z where "(a, z) \<in> set ns" using a(1) set_take_subset [of k ns] by fastforce
    then have "(a, True) \<in> set cs" by (cases z) (auto simp: ns_def)
    then show ?thesis using mem a(2) by fastforce
  qed
  have lt: "min_conns < r" if "a \<in> set evicted" "hm_get t a = Some s" "successes s \<noteq> 0" for a s
  proof (rule ccontr)
    assume "\<not> min_conns < r"
    then have "a \<in> fst ` set (take k ns)" using subsetD [OF sub that(1)] by simp
    then show False using zero [OF _ that(2)] that(3) by simp
  qed
  have floor: "min_conns + length evicted \<le> current_count" if "a \<in> set evicted" "hm_get t a = Some s" "successes s \<noteq> 0" for a s
    using len(2) [OF lt [OF that]] .
  have named: "\<exists>s. hm_get t a = Some s \<and> unhealthy now s" if a: "a \<in> set evicted" for a
  proof -
    have "set evicted \<subseteq> fst ` set (take k ns) \<union> fst ` set ds" by (rule order_trans [OF sub]) simp
    also have "\<dots> \<subseteq> fst ` set cs" by (force simp: ns_def ds_def dest: in_set_takeD)
    finally have "a \<in> fst ` set cs" using a by (rule subsetD)
    then obtain z where "(a, z) \<in> set cs" by auto
    then show ?thesis using mem [of a z] by blast
  qed
  show ?thesis
  proof (intro conjI ballI impI dis len(1) named)
    assume "\<exists>a \<in> set evicted. \<exists>s. hm_get t a = Some s \<and> successes s \<noteq> 0"
    then show "min_conns + length evicted \<le> current_count" by (elim bexE exE conjE) (rule floor)
  qed
qed

theorem eviction_keeps_floor_witness:
  "length (unhealthy_peers 700000000000 1 2
      (health_record_failure (V4 1 1) (init_peer 0 (V4 1 1) (init_peer 0 (V4 2 2) [])))) < 2"
proof -
  have "bt_wf (health_record_failure (V4 1 1) (init_peer 0 (V4 1 1) (init_peer 0 (V4 2 2) [])))"
    by (simp add: health_record_failure_def init_peer_def less_socket_addr_def split: option.split)
  from eviction_keeps_floor [OF this, of 1 2 700000000000] show ?thesis by simp
qed

section \<open>Exclusion from CONNECT routing\<close>

type_synonym exclusion_table = "(socket_addr \<times> (nat \<times> instant)) list"

definition CONNECT_EXCLUDE_TTL :: duration where
  "CONNECT_EXCLUDE_TTL = secs (30 * 60)"

definition CONNECT_EXCLUDE_MIN_FAILURES :: nat where
  "CONNECT_EXCLUDE_MIN_FAILURES = 3"

definition CONNECT_EXCLUDE_MAX_FRACTION :: rat where
  "CONNECT_EXCLUDE_MAX_FRACTION = 1 / 2"

definition record_connect_acceptor_failure :: "socket_addr \<Rightarrow> instant \<Rightarrow> exclusion_table \<Rightarrow> nat \<times> exclusion_table" where
  "record_connect_acceptor_failure addr now t =
     (let count = (case hm_get t addr of Some (c, _) \<Rightarrow> c | None \<Rightarrow> 0) + 1
      in (count, bt_put addr (count, now) t))"

definition exclusion_eligible :: "instant \<Rightarrow> nat \<times> instant \<Rightarrow> bool" where
  "exclusion_eligible now e =
     (CONNECT_EXCLUDE_MIN_FAILURES \<le> fst e \<and> saturating_since now (snd e) < CONNECT_EXCLUDE_TTL)"

definition compute_connect_excluded_peers :: "instant \<Rightarrow> nat \<Rightarrow> exclusion_table \<Rightarrow> socket_addr list" where
  "compute_connect_excluded_peers now ring_peer_count t =
     (let eligible = map (\<lambda>(addr, (count, _)). (addr, count)) (filter (\<lambda>(_, e). exclusion_eligible now e) t)
      in if eligible = [] then []
         else (let sorted = sort_key (\<lambda>(_, count). - int count) eligible;
                   max_excluded = f64_to_u64 (of_int \<lfloor>f64_mul (f64_of_nat ring_peer_count) CONNECT_EXCLUDE_MAX_FRACTION\<rfloor>)
               in map fst (take (max max_excluded 1) sorted)))"

definition clear_connect_exclusion :: "socket_addr \<Rightarrow> exclusion_table \<Rightarrow> exclusion_table" where
  "clear_connect_exclusion addr t = hm_del addr t"

definition cleanup_expired_exclusions :: "instant \<Rightarrow> exclusion_table \<Rightarrow> exclusion_table" where
  "cleanup_expired_exclusions now t = hm_retain (\<lambda>_ (_, ts). saturating_since now ts < CONNECT_EXCLUDE_TTL) t"

lemma half_of_count: "n < 2 ^ 53 \<Longrightarrow> f64_to_u64 (of_int \<lfloor>f64_mul (f64_of_nat n) CONNECT_EXCLUDE_MAX_FRACTION\<rfloor>) = n div 2"
proof -
  assume n: "n < 2 ^ 53"
  then have "is_f64 (of_int (int n) * 2 powi (- 1))" by (intro is_f64_grid) auto
  then have half: "f64_mul (of_nat n) (1 / 2) = of_nat n / 2" by (simp add: f64_mul_def is_f64_def power_int_minus)
  have fl: "\<lfloor>of_nat n / (2 :: rat)\<rfloor> = int (n div 2)"
    using floor_divide_of_nat_eq [of n 2, where 'a = rat] by simp
  show ?thesis
    unfolding CONNECT_EXCLUDE_MAX_FRACTION_def f64_of_nat_exact [OF n] half fl f64_to_u64_def using n by (simp add: u64_max_def)
qed

lemma sorted_take_drop:
  assumes "sorted xs" "x \<in> set (take n xs)" "y \<in> set (drop n xs)"
  shows "x \<le> y"
  using assms sorted_append [of "take n xs" "drop n xs"] by simp

text \<open>
  Exclusion from CONNECT routing.  At most half of the ring (but possibly one) peer is excluded;
  only peers with three or more recent failures are; and no peer left in has more failures than one
  that is excluded while being eligible itself.
\<close>

theorem exclusion_capped:
  fixes t :: exclusion_table and now :: instant
  assumes wf: "bt_wf t" and n: "ring_peer_count < 2 ^ 53"
  defines "excluded \<equiv> compute_connect_excluded_peers now ring_peer_count t"
  shows "length excluded \<le> max (ring_peer_count div 2) 1
    \<and> (\<forall>a \<in> set excluded. \<exists>e. hm_get t a = Some e \<and> exclusion_eligible now e)
    \<and> (\<forall>a b e f. a \<in> set excluded \<and> b \<notin> set excluded \<and> hm_get t a = Some e \<and> hm_get t b = Some f \<and> exclusion_eligible now f
         \<longrightarrow> fst f \<le> fst e)"
proof -
  define el where "el = map (\<lambda>(addr, (count, _)). (addr, count)) (filter (\<lambda>(_, e). exclusion_eligible now e) t)"
  define sr where "sr = sort_key (\<lambda>(_, count). - int count) el"
  define k where "k = max (ring_peer_count div 2) 1"
  have ex: "excluded = map fst (take k sr)"
    by (simp add: excluded_def compute_connect_excluded_peers_def el_def [symmetric] sr_def [symmetric] Let_def half_of_count [OF n] k_def)
       (simp add: sr_def)
  have mem: "(a, c) \<in> set sr \<longleftrightarrow> (\<exists>ts. hm_get t a = Some (c, ts) \<and> exclusion_eligible now (c, ts))" for a c
    using hm_get_in_set [OF bt_wf_hm_wf [OF wf]] by (force simp: sr_def el_def)
  have srt: "sorted (map (\<lambda>(_, count). - int count) sr)" unfolding sr_def by (rule sorted_sort_key)
  have worst: "d \<le> c" if ac: "(a, c) \<in> set (take k sr)" and b: "b \<notin> fst ` set (take k sr)" "(b, d) \<in> set sr" for a b c d
  proof -
    have "(b, d) \<in> set (drop k sr)" using b by (metis Un_iff append_take_drop_id fst_conv image_eqI set_append)
    then have "- int d \<in> set (drop k (map (\<lambda>(_, count). - int count) sr))" by (force simp: drop_map)
    moreover have "- int c \<in> set (take k (map (\<lambda>(_, count). - int count) sr))" using ac by (force simp: take_map)
    ultimately show ?thesis using sorted_take_drop [OF srt] by fastforce
  qed
  have sub: "(a, c) \<in> set sr" if "(a, c) \<in> set (take k sr)" for a c using that set_take_subset [of k sr] by auto
  show ?thesis
  proof (intro conjI ballI allI impI)
    show "length excluded \<le> max (ring_peer_count div 2) 1" by (simp add: ex k_def)
  next
    fix a
    assume "a \<in> set excluded"
    then obtain c where "(a, c) \<in> set sr" by (auto simp: ex dest: in_set_takeD)
    then show "\<exists>e. hm_get t a = Some e \<and> exclusion_eligible now e" using mem [of a c] by blast
  next
    fix a b e f
    assume "a \<in> set excluded \<and> b \<notin> set excluded \<and> hm_get t a = Some e \<and> hm_get t b = Some f \<and> exclusion_eligible now f"
    then obtain c where a: "(a, c) \<in> set (take k sr)" "b \<notin> fst ` set (take k sr)" "hm_get t a = Some e" "hm_get t b = Some f"
      "exclusion_eligible now f" by (auto simp: ex)
    then have "(b, fst f) \<in> set sr" using mem [of b "fst f"] by (cases f) simp
    moreover have "fst e = c" using mem [of a c] sub [OF a(1)] a(3) by auto
    ultimately have "(b, fst f) \<in> set sr" "fst e = c" by auto
    then show "fst f \<le> fst e" using worst [OF a(1,2)] by simp
  qed
qed

theorem exclusion_capped_witness:
  "length (compute_connect_excluded_peers 0 4 [(V4 1 1, (3, 0)), (V4 2 2, (4, 0)), (V4 3 3, (5, 0))]) \<le> 2"
proof -
  have "bt_wf [(V4 1 1, (3 :: nat, 0 :: instant)), (V4 2 2, (4, 0)), (V4 3 3, (5, 0))]"
    by (simp add: less_socket_addr_def)
  from exclusion_capped [OF this, of 4 0] show ?thesis by simp
qed

section \<open>Jitter of CONNECT targets\<close>

definition JITTER_DECAY_INTERVAL :: duration where
  "JITTER_DECAY_INTERVAL = secs (5 * 60)"

definition increment_connect_jitter_failures :: "instant \<Rightarrow> nat \<times> instant option \<Rightarrow> nat \<times> (nat \<times> instant option)" where
  "increment_connect_jitter_failures now g =
     (case g of (n, last_failure) \<Rightarrow>
        let n = (case last_failure of
                       Some ts \<Rightarrow> n - as_u32 (saturating_since now ts div 1000000000 div (JITTER_DECAY_INTERVAL div 1000000000))
                     | None \<Rightarrow> n);
            n = n + 1
        in (n, (n, Some now)))"

definition reset_connect_jitter_failures :: "nat \<times> instant option \<Rightarrow> nat \<times> instant option" where
  "reset_connect_jitter_failures g = (0, None)"

lemma jitter_bounds: "1 \<le> fst (increment_connect_jitter_failures now g) \<and> fst (increment_connect_jitter_failures now g) \<le> fst g + 1"
  by (cases g) (simp add: increment_connect_jitter_failures_def Let_def split: option.split)

end
