(* ===== verification/Connection_Evaluator.thy ===== *)
theory Connection_Evaluator
  imports Small_World
begin

text \<open>
  The rate limiter of accepted connections: \<open>ConnectionEvaluator\<close> (\<open>topology/connection_evaluator.rs\<close>) and
  the two evaluators of \<open>TopologyManager\<close> (\<open>topology.rs\<close>) between which the acquisition strategy chooses.

  Shown: with a clock that does not run backwards a candidate is accepted exactly if its score beats
  every score recorded within the window, by either evaluator.
\<close>

record connection_evaluator =
  scores :: "(instant \<times> rat) list"
  window_duration :: duration

definition new_evaluator :: "duration \<Rightarrow> connection_evaluator" where
  "new_evaluator w = \<lparr>scores = [], window_duration = w\<rparr>"

definition remove_outdated_scores :: "instant \<Rightarrow> connection_evaluator \<Rightarrow> connection_evaluator" where
  "remove_outdated_scores current_time e =
     e\<lparr>scores := dropWhile (\<lambda>(time, _). window_duration e < saturating_since current_time time) (scores e)\<rparr>"

definition record_only_with_current_time :: "rat \<Rightarrow> instant \<Rightarrow> connection_evaluator \<Rightarrow> connection_evaluator" where
  "record_only_with_current_time score current_time e =
     (let e = remove_outdated_scores current_time e in e\<lparr>scores := scores e @ [(current_time, score)]\<rparr>)"

definition record_and_eval_with_current_time ::
  "rat \<Rightarrow> instant \<Rightarrow> connection_evaluator \<Rightarrow> bool \<times> connection_evaluator" where
  "record_and_eval_with_current_time score current_time e =
     (let e = remove_outdated_scores current_time e;
          is_better = (scores e = [] \<or> list_all (\<lambda>(_, s). s < score) (scores e))
      in (is_better, record_only_with_current_time score current_time e))"

section \<open>The evaluators of the topology manager\<close>

datatype acquisition_strategy = Slow | Fast

record topology_evaluators =
  slow_connection_evaluator :: connection_evaluator
  fast_connection_evaluator :: connection_evaluator
  connection_acquisition_strategy :: acquisition_strategy

definition SLOW_CONNECTION_EVALUATOR_WINDOW_DURATION :: duration where
  "SLOW_CONNECTION_EVALUATOR_WINDOW_DURATION = secs (5 * 60)"

definition FAST_CONNECTION_EVALUATOR_WINDOW_DURATION :: duration where
  "FAST_CONNECTION_EVALUATOR_WINDOW_DURATION = secs 60"

definition new_topology_evaluators :: topology_evaluators where
  "new_topology_evaluators =
     \<lparr>slow_connection_evaluator = new_evaluator SLOW_CONNECTION_EVALUATOR_WINDOW_DURATION,
      fast_connection_evaluator = new_evaluator FAST_CONNECTION_EVALUATOR_WINDOW_DURATION,
      connection_acquisition_strategy = Fast\<rparr>"

definition evaluate_new_connection_with_score ::
  "rat \<Rightarrow> instant \<Rightarrow> topology_evaluators \<Rightarrow> bool \<times> topology_evaluators" where
  "evaluate_new_connection_with_score score current_time t =
     (case connection_acquisition_strategy t of
        Slow \<Rightarrow>
          (let fast = record_only_with_current_time score current_time (fast_connection_evaluator t);
               (r, slow) = record_and_eval_with_current_time score current_time (slow_connection_evaluator t)
           in (r, t\<lparr>fast_connection_evaluator := fast, slow_connection_evaluator := slow\<rparr>))
      | Fast \<Rightarrow>
          (let slow = record_only_with_current_time score current_time (slow_connection_evaluator t);
               (r, fast) = record_and_eval_with_current_time score current_time (fast_connection_evaluator t)
           in (r, t\<lparr>fast_connection_evaluator := fast, slow_connection_evaluator := slow\<rparr>)))"

definition update_connection_acquisition_strategy :: "acquisition_strategy \<Rightarrow> topology_evaluators \<Rightarrow> topology_evaluators" where
  "update_connection_acquisition_strategy new_strategy t = t\<lparr>connection_acquisition_strategy := new_strategy\<rparr>"

section \<open>What the window holds\<close>

lemma dropWhile_sorted:
  "sorted (map fst h) \<Longrightarrow>
   dropWhile (\<lambda>(t, _). w < saturating_since now t) h = filter (\<lambda>(t, _). saturating_since now t \<le> w) h"
proof (induction h)
  case (Cons x h)
  show ?case
  proof (cases "w < saturating_since now (fst x)")
    case True
    then show ?thesis using Cons by (cases x) auto
  next
    case False
    have "saturating_since now (fst y) \<le> w" if "y \<in> set h" for y
      using False Cons.prems that by (auto simp: saturating_since_def)
    then have "filter (\<lambda>(t, _). saturating_since now t \<le> w) h = h" by (intro filter_True) auto
    then show ?thesis using False by (cases x) auto
  qed
qed simp

definition window :: "duration \<Rightarrow> instant \<Rightarrow> (instant \<times> rat) list \<Rightarrow> (instant \<times> rat) list" where
  "window w now h = filter (\<lambda>(t, _). saturating_since now t \<le> w) h"

text \<open>The evaluator keeps, of the scores recorded so far, a part that holds all of the window.\<close>

definition holds_window :: "(instant \<times> rat) list \<Rightarrow> connection_evaluator \<Rightarrow> bool" where
  "holds_window h e \<longleftrightarrow> sorted (map fst h) \<and>
     (\<exists>now. (\<forall>(t, _) \<in> set h. t \<le> now) \<and> (h \<noteq> [] \<longrightarrow> now = fst (last h)) \<and> scores e = window (window_duration e) now h)"

lemma window_later:
  "now \<le> now' \<Longrightarrow> window w now' (window w now h) = window w now' h"
  by (auto simp: window_def saturating_since_def intro!: filter_cong)

lemma outdated_window:
  assumes "holds_window h e" "\<forall>(t, _) \<in> set h. t \<le> now'"
  shows "scores (remove_outdated_scores now' e) = window (window_duration e) now' h"
proof -
  obtain now where n: "sorted (map fst h)" "h \<noteq> [] \<longrightarrow> now = fst (last h)" "scores e = window (window_duration e) now h"
    using assms(1) by (auto simp: holds_window_def)
  have "sorted (map fst (scores e))" unfolding n(3) window_def using n(1) by (rule sorted_filter)
  then have "scores (remove_outdated_scores now' e) = window (window_duration e) now' (scores e)"
    by (simp add: remove_outdated_scores_def dropWhile_sorted window_def)
  also have "\<dots> = window (window_duration e) now' h"
  proof (cases "h = []")
    case False
    then have "now \<le> now'" using n(2) assms(2) last_in_set [of h] by (auto simp: split_beta)
    then show ?thesis by (simp add: n(3) window_later)
  qed (simp add: n(3) window_def)
  finally show ?thesis .
qed

lemma record_holds:
  assumes "holds_window h e" "\<forall>(t, _) \<in> set h. t \<le> now"
  shows "holds_window (h @ [(now, s)]) (record_only_with_current_time s now e)"
proof -
  have w: "window_duration (remove_outdated_scores now e) = window_duration e" by (simp add: remove_outdated_scores_def)
  have "sorted (map fst (h @ [(now, s)]))" using assms by (auto simp: holds_window_def sorted_append)
  then show ?thesis
    using assms(2) outdated_window [OF assms]
    by (auto simp: holds_window_def record_only_with_current_time_def Let_def w window_def saturating_since_def intro!: exI [of _ now])
qed

lemma eval_window:
  assumes "holds_window h e" "\<forall>(t, _) \<in> set h. t \<le> now"
  shows "fst (record_and_eval_with_current_time s now e) \<longleftrightarrow> (\<forall>(t, s') \<in> set h. now - t \<le> int (window_duration e) \<longrightarrow> s' < s)"
  using assms(2) outdated_window [OF assms]
  by (auto simp: record_and_eval_with_current_time_def Let_def window_def list_all_iff saturating_since_def filter_empty_conv nat_le_iff)

lemma remove_outdated_idem: "remove_outdated_scores now (remove_outdated_scores now e) = remove_outdated_scores now e"
  by (simp add: remove_outdated_scores_def)

lemma eval_records: "snd (record_and_eval_with_current_time s now e) = record_only_with_current_time s now e"
  by (simp add: record_and_eval_with_current_time_def record_only_with_current_time_def Let_def remove_outdated_idem)

lemma record_window: "window_duration (record_only_with_current_time s now e) = window_duration e"
  by (simp add: record_only_with_current_time_def remove_outdated_scores_def Let_def)

section \<open>Runs\<close>

text \<open>Offers of scores and changes of the strategy, in the order of time.\<close>

datatype evaluation = Offer instant rat | Strategy acquisition_strategy

fun evaluate :: "topology_evaluators \<Rightarrow> evaluation \<Rightarrow> topology_evaluators" where
  "evaluate t (Offer now s) = snd (evaluate_new_connection_with_score s now t)"
| "evaluate t (Strategy st) = update_connection_acquisition_strategy st t"

fun offers :: "evaluation list \<Rightarrow> (instant \<times> rat) list" where
  "offers [] = []"
| "offers (Offer now s # es) = (now, s) # offers es"
| "offers (Strategy _ # es) = offers es"

definition evaluators_ok :: "(instant \<times> rat) list \<Rightarrow> topology_evaluators \<Rightarrow> bool" where
  "evaluators_ok h t \<longleftrightarrow>
     holds_window h (slow_connection_evaluator t) \<and> holds_window h (fast_connection_evaluator t)
     \<and> window_duration (slow_connection_evaluator t) = SLOW_CONNECTION_EVALUATOR_WINDOW_DURATION
     \<and> window_duration (fast_connection_evaluator t) = FAST_CONNECTION_EVALUATOR_WINDOW_DURATION"

lemma evaluators_new: "evaluators_ok [] new_topology_evaluators"
  by (simp add: evaluators_ok_def new_topology_evaluators_def holds_window_def new_evaluator_def window_def)

lemma evaluators_run:
  assumes "evaluators_ok h t" "sorted (map fst (h @ offers es))"
  shows "evaluators_ok (h @ offers es) (foldl evaluate t es)"
  using assms
proof (induction es arbitrary: h t)
  case (Cons e es)
  show ?case
  proof (cases e)
    case (Offer now s)
    have "\<forall>(t, _) \<in> set h. t \<le> now" using Cons.prems(2) by (auto simp: Offer sorted_append)
    then have "evaluators_ok (h @ [(now, s)]) (evaluate t e)"
      using Cons.prems(1) record_holds [of h _ now s]
      by (auto simp: evaluators_ok_def Offer evaluate_new_connection_with_score_def Let_def split_beta eval_records record_window
        split: acquisition_strategy.split)
    then show ?thesis using Cons.IH [of "h @ [(now, s)]"] Cons.prems(2) by (simp add: Offer)
  next
    case (Strategy st)
    have "evaluators_ok h (evaluate t e)"
      using Cons.prems(1) by (simp add: evaluators_ok_def Strategy update_connection_acquisition_strategy_def)
    then show ?thesis using Cons.IH [of h] Cons.prems(2) by (simp add: Strategy)
  qed
qed simp

text \<open>
  Accepting by score.  After any history of offers and strategy changes, a new offer is accepted
  exactly if its score is higher than all the scores offered within the window of the current
  strategy: five minutes when slow, one minute when fast.
\<close>

theorem offer_beats_window:
  fixes es :: "evaluation list"
  assumes times: "sorted (map fst (offers es))" "\<forall>(t, _) \<in> set (offers es). t \<le> now"
  defines "t \<equiv> foldl evaluate new_topology_evaluators es"
  shows "fst (evaluate_new_connection_with_score score now t) \<longleftrightarrow>
    (\<forall>(time, s) \<in> set (offers es).
       now - time \<le> int (case connection_acquisition_strategy t of Slow \<Rightarrow> secs 300 | Fast \<Rightarrow> secs 60) \<longrightarrow> s < score)"
proof -
  have ok: "evaluators_ok (offers es) t" using evaluators_run [OF evaluators_new, of es] times(1) by (simp add: t_def)
  show ?thesis
  proof (cases "connection_acquisition_strategy t")
    case Slow
    then show ?thesis
      using ok eval_window [OF _ times(2), of "slow_connection_evaluator t" score]
      by (simp add: evaluate_new_connection_with_score_def Let_def split_beta evaluators_ok_def SLOW_CONNECTION_EVALUATOR_WINDOW_DURATION_def)
  next
    case Fast
    then show ?thesis
      using ok eval_window [OF _ times(2), of "fast_connection_evaluator t" score]
      by (simp add: evaluate_new_connection_with_score_def Let_def split_beta evaluators_ok_def FAST_CONNECTION_EVALUATOR_WINDOW_DURATION_def)
  qed
qed

theorem offer_beats_window_witness:
  "fst (evaluate_new_connection_with_score (1 / 3) 100000000000 (foldl evaluate new_topology_evaluators [Offer 0 (1 / 2), Offer 50000000000 (1 / 4)]))"
  by (subst offer_beats_window) (simp_all add: secs_def new_topology_evaluators_def
    evaluate_new_connection_with_score_def Let_def split_beta)

end
