(* ===== verification/Connection_Manager.thy ===== *)
theory Connection_Manager
  imports Connection_Evaluator Peer_Health Backoff
begin

text \<open>
  The ring connections of a node: \<open>ConnectionManager\<close> of \<open>ring/connection_manager.rs\<close>, and the parts of
  \<open>node/network_bridge/p2p_protoc.rs\<close> that promote a transport connection to the ring.  A connection is
  kept in three tables that have to agree: the location of an address, the connections at a
  location, and the reservations of peers that are still connecting.  Each operation is taken as one
  step, at one instant; the score functions of the platform and the random draws are arguments.

  Shown: in every reachable state the tables agree, the connections stay within the configured
  maximum and the transient ones within their budget; cleaning up leaves no phantom entries; and
  the table of acceptance.
\<close>

section \<open>State\<close>

record 'k connection =
  pub_key :: 'k
  peer_addr :: socket_addr
  connected_at :: instant

record transient_entry =
  te_location :: "location option"
  created_at :: instant

definition PENDING_RESERVATION_TTL :: duration where
  "PENDING_RESERVATION_TTL = secs 60"

definition KLEINBERG_FILTER_MIN_CONNECTIONS :: nat where
  "KLEINBERG_FILTER_MIN_CONNECTIONS = 3"

definition MAX_CONCURRENT_GATEWAY_CONNECTS :: nat where
  "MAX_CONCURRENT_GATEWAY_CONNECTS = 8"

definition FAILED_ADDR_BASE_TTL :: duration where
  "FAILED_ADDR_BASE_TTL = secs 300"

definition FAILED_ADDR_MAX_TTL :: duration where
  "FAILED_ADDR_MAX_TTL = secs 3600"

definition FAILED_ADDR_MAX_ENTRIES :: nat where
  "FAILED_ADDR_MAX_ENTRIES = 1024"

definition OPTIMISTIC_READY_TIMEOUT :: duration where
  "OPTIMISTIC_READY_TIMEOUT = secs 60"

record 'k connection_manager =
  pending_reservations :: "(socket_addr \<times> (location \<times> instant)) list"
  location_for_peer :: "(socket_addr \<times> location) list"
  topology_manager :: topology_evaluators
  connections_by_location :: "(location \<times> 'k connection list) list"
  own_location :: rat
  own_addr :: "socket_addr option"
  is_gateway :: bool
  transient_connections :: "(socket_addr, transient_entry) hmap"
  transient_in_use :: nat
  transient_budget :: nat
  transient_ttl :: duration
  min_connections :: nat
  max_connections :: nat
  connect_in_flight :: nat
  max_concurrent_connects :: nat
  recently_failed_addrs :: "socket_addr tracked_backoff"
  ready_peers :: "socket_addr set"
  min_ready_connections :: nat
  connected_since :: "(socket_addr \<times> instant) list"
  peer_health :: health_table
  connect_jitter_failures :: "nat \<times> instant option"
  connect_excluded_peers :: exclusion_table

definition init_connection_manager ::
  "nat \<Rightarrow> nat \<Rightarrow> socket_addr option \<Rightarrow> rat \<Rightarrow> bool \<Rightarrow> nat \<Rightarrow> duration \<Rightarrow> nat \<Rightarrow> 'k connection_manager" where
  "init_connection_manager min_conns max_conns addr loc gateway budget ttl min_ready =
     \<lparr>pending_reservations = [], location_for_peer = [], topology_manager = new_topology_evaluators,
      connections_by_location = [], own_location = loc, own_addr = addr, is_gateway = gateway,
      transient_connections = [], transient_in_use = 0, transient_budget = budget, transient_ttl = ttl,
      min_connections = min_conns, max_connections = max_conns, connect_in_flight = 0,
      max_concurrent_connects = (if gateway then MAX_CONCURRENT_GATEWAY_CONNECTS else u64_max),
      recently_failed_addrs =
        new_tracked_backoff \<lparr>base = FAILED_ADDR_BASE_TTL, max_delay = FAILED_ADDR_MAX_TTL\<rparr> FAILED_ADDR_MAX_ENTRIES,
      ready_peers = {}, min_ready_connections = min_ready, connected_since = [], peer_health = [],
      connect_jitter_failures = (0, None), connect_excluded_peers = []\<rparr>"

section \<open>Admission of CONNECT operations\<close>

text \<open>\<open>try_admit_connect\<close> hands out a guard (\<open>True\<close>); dropping it releases the slot.\<close>

definition try_admit_connect :: "'k connection_manager \<Rightarrow> bool \<times> 'k connection_manager" where
  "try_admit_connect m =
     (if max_concurrent_connects m \<le> connect_in_flight m then (False, m)
      else (True, m\<lparr>connect_in_flight := connect_in_flight m + 1\<rparr>))"

definition drop_admission_guard :: "'k connection_manager \<Rightarrow> 'k connection_manager" where
  "drop_admission_guard m =
     m\<lparr>connect_in_flight := (if connect_in_flight m = 0 then u64_max else connect_in_flight m - 1)\<rparr>"

section \<open>Reading the tables\<close>

definition connection_count :: "'k connection_manager \<Rightarrow> nat" where
  "connection_count m = sum_list (map (\<lambda>(_, conns). length conns) (connections_by_location m))"

definition get_stored_location :: "'k connection_manager \<Rightarrow> location option" where
  "get_stored_location m = (if own_location m < 0 then None else Some (own_location m))"

definition bucket_has :: "socket_addr \<Rightarrow> 'k connection list \<Rightarrow> bool" where
  "bucket_has addr conns = list_ex (\<lambda>c. peer_addr c = addr) conns"

definition is_in_ring :: "socket_addr \<Rightarrow> 'k connection_manager \<Rightarrow> bool" where
  "is_in_ring addr m = list_ex (\<lambda>(_, conns). bucket_has addr conns) (connections_by_location m)"

definition has_connection_or_pending :: "instant \<Rightarrow> socket_addr \<Rightarrow> 'k connection_manager \<Rightarrow> bool" where
  "has_connection_or_pending now addr m =
     ((case hm_get (location_for_peer m) addr of
         Some loc \<Rightarrow> (case hm_get (connections_by_location m) loc of Some conns \<Rightarrow> bucket_has addr conns | None \<Rightarrow> False)
       | None \<Rightarrow> False)
      \<or> (case hm_get (pending_reservations m) addr of
           Some (_, created) \<Rightarrow> saturating_since now created \<le> PENDING_RESERVATION_TTL
         | None \<Rightarrow> False))"

definition get_peer_location_by_addr :: "socket_addr \<Rightarrow> 'k connection_manager \<Rightarrow> 'k connection option" where
  "get_peer_location_by_addr addr m = find (\<lambda>c. peer_addr c = addr) (concat (map snd (connections_by_location m)))"

definition get_peer_by_addr :: "socket_addr \<Rightarrow> 'k connection_manager \<Rightarrow> 'k connection option" where
  "get_peer_by_addr addr m =
     (case find (\<lambda>c. peer_addr c = addr) (concat (map snd (connections_by_location m))) of
        Some c \<Rightarrow> Some c
      | None \<Rightarrow>
          (case hm_get (location_for_peer m) addr of
             None \<Rightarrow> None
           | Some loc \<Rightarrow> (case hm_get (connections_by_location m) loc of Some (c # _) \<Rightarrow> Some c | _ \<Rightarrow> None)))"

definition get_peer_by_pub_key :: "'k \<Rightarrow> 'k connection_manager \<Rightarrow> 'k connection option" where
  "get_peer_by_pub_key key m = find (\<lambda>c. pub_key c = key) (concat (map snd (connections_by_location m)))"

definition location_for_all_peers :: "'k connection_manager \<Rightarrow> location list" where
  "location_for_all_peers m = map fst (connections_by_location m)"

definition connected_peer_addrs :: "'k connection_manager \<Rightarrow> socket_addr list" where
  "connected_peer_addrs m = map fst (location_for_peer m)"

definition get_connection_duration_ms :: "instant \<Rightarrow> socket_addr \<Rightarrow> 'k connection_manager \<Rightarrow> nat option" where
  "get_connection_duration_ms now addr m =
     (case hm_get (location_for_peer m) addr of
        None \<Rightarrow> None
      | Some loc \<Rightarrow>
          (case hm_get (connections_by_location m) loc of
             None \<Rightarrow> None
           | Some conns \<Rightarrow> map_option (\<lambda>c. saturating_since now (connected_at c) div 1000000) (find (\<lambda>c. peer_addr c = addr) conns)))"

section \<open>Acceptance\<close>

definition record_pending_location :: "socket_addr \<Rightarrow> location \<Rightarrow> 'k connection_manager \<Rightarrow> 'k connection_manager" where
  "record_pending_location addr loc m =
     (case hm_get (location_for_peer m) addr of
        Some _ \<Rightarrow> m
      | None \<Rightarrow> m\<lparr>location_for_peer := bt_put addr loc (location_for_peer m)\<rparr>)"

definition compute_kleinberg_score :: "f64_math \<Rightarrow> location \<Rightarrow> location \<Rightarrow> 'k connection_manager \<Rightarrow> rat" where
  "compute_kleinberg_score mth my_location candidate m =
     kleinberg_score mth (distance my_location candidate)
       (concat (map (\<lambda>(loc, conns). replicate (length conns) (distance my_location loc)) (connections_by_location m)))"

text \<open>The soft filter below the minimum: the floor slides from 0.9 to 0.3.\<close>

definition soft_filter :: "f64_math \<Rightarrow> rat \<Rightarrow> nat \<Rightarrow> location \<Rightarrow> location \<Rightarrow> 'k connection_manager \<Rightarrow> bool" where
  "soft_filter mth draw n_open me loc m =
     (let score = compute_kleinberg_score mth me loc m;
          range = min_connections m - KLEINBERG_FILTER_MIN_CONNECTIONS;
          progress = (if 0 < range
                      then f64_div (f64_of_nat (n_open - KLEINBERG_FILTER_MIN_CONNECTIONS)) (f64_of_nat range) else 1);
          floor = f64_sub (f64_round (9 / 10)) (f64_mul (f64_round (6 / 10)) progress);
          accept_prob = min (f64_add floor score) 1
      in draw < accept_prob)"

definition live_reservations :: "instant \<Rightarrow> 'k connection_manager \<Rightarrow> nat" where
  "live_reservations now m =
     length (filter (\<lambda>(_, (_, created)). saturating_since now created \<le> PENDING_RESERVATION_TTL) (pending_reservations m))"

definition accept_decision ::
  "f64_math \<Rightarrow> rat \<Rightarrow> instant \<Rightarrow> location \<Rightarrow> nat \<Rightarrow> nat \<Rightarrow> 'k connection_manager \<Rightarrow> bool \<times> 'k connection_manager" where
  "accept_decision mth draw now loc n_open total_conn m =
     (if max_connections m \<le> total_conn then (False, m)
      else if n_open < min_connections m
      then (n_open < KLEINBERG_FILTER_MIN_CONNECTIONS \<or>
            (case get_stored_location m of Some me \<Rightarrow> soft_filter mth draw n_open me loc m | None \<Rightarrow> True), m)
      else (case get_stored_location m of
              Some me \<Rightarrow>
                (let (r, t) = evaluate_new_connection_with_score (compute_kleinberg_score mth me loc m) now (topology_manager m)
                 in (r, m\<lparr>topology_manager := t\<rparr>))
            | None \<Rightarrow> (True, m)))"

definition should_accept ::
  "f64_math \<Rightarrow> rat \<Rightarrow> instant \<Rightarrow> location \<Rightarrow> socket_addr \<Rightarrow> 'k connection_manager \<Rightarrow> bool \<times> 'k connection_manager" where
  "should_accept mth draw now loc addr m =
     (if own_addr m = Some addr then (False, m)
      else
        (let n_open = connection_count m;
             reserved_before = live_reservations now m
         in if hm_has addr (location_for_peer m) then (False, m)
            else
              (let m = m\<lparr>pending_reservations := bt_put addr (loc, now) (pending_reservations m)\<rparr>;
                   total_conn = reserved_before + 1 + n_open
               in if u64_max < total_conn then (False, m\<lparr>pending_reservations := hm_del addr (pending_reservations m)\<rparr>)
                  else if n_open = 0 then (True, m)
                  else
                    (let (accepted, m) = accept_decision mth draw now loc n_open total_conn m
                     in if accepted then (True, record_pending_location addr loc m)
                        else (False, m\<lparr>pending_reservations := hm_del addr (pending_reservations m)\<rparr>)))))"

section \<open>Own address and location\<close>

definition update_location :: "location option \<Rightarrow> 'k connection_manager \<Rightarrow> 'k connection_manager" where
  "update_location loc m =
     (case loc of
        Some l \<Rightarrow> if 0 \<le> own_location m then m else m\<lparr>own_location := l\<rparr>
      | None \<Rightarrow> m\<lparr>own_location := - 1\<rparr>)"

definition try_set_own_addr :: "socket_addr \<Rightarrow> 'k connection_manager \<Rightarrow> socket_addr option \<times> 'k connection_manager" where
  "try_set_own_addr addr m =
     (if own_addr m = None then (None, m\<lparr>own_addr := Some addr\<rparr>) else (own_addr m, m))"

definition set_own_addr :: "socket_addr \<Rightarrow> 'k connection_manager \<Rightarrow> 'k connection_manager" where
  "set_own_addr addr m = m\<lparr>own_addr := Some addr\<rparr>"

section \<open>Transient connections\<close>

definition try_register_transient ::
  "instant \<Rightarrow> socket_addr \<Rightarrow> location option \<Rightarrow> 'k connection_manager \<Rightarrow> bool \<times> 'k connection_manager" where
  "try_register_transient now addr loc m =
     (case hm_get (transient_connections m) addr of
        Some e \<Rightarrow> (True, m\<lparr>transient_connections := hm_put addr (e\<lparr>te_location := loc\<rparr>) (transient_connections m)\<rparr>)
      | None \<Rightarrow>
          (if transient_budget m \<le> transient_in_use m then (False, m)
           else (True, m\<lparr>transient_connections := hm_put addr \<lparr>te_location = loc, created_at = now\<rparr> (transient_connections m),
                         transient_in_use := transient_in_use m + 1\<rparr>)))"

definition drop_transient :: "socket_addr \<Rightarrow> 'k connection_manager \<Rightarrow> transient_entry option \<times> 'k connection_manager" where
  "drop_transient addr m =
     (case hm_get (transient_connections m) addr of
        Some e \<Rightarrow> (Some e, m\<lparr>transient_connections := hm_del addr (transient_connections m),
                            transient_in_use := transient_in_use m - 1\<rparr>)
      | None \<Rightarrow> (None, m))"

definition cleanup_expired_transients :: "instant \<Rightarrow> 'k connection_manager \<Rightarrow> nat \<times> 'k connection_manager" where
  "cleanup_expired_transients now m =
     (let kept = hm_retain (\<lambda>_ e. saturating_since now (created_at e) \<le> transient_ttl m) (transient_connections m);
          removed = length (transient_connections m) - length kept
      in (removed, m\<lparr>transient_connections := kept, transient_in_use := transient_in_use m - removed\<rparr>))"

section \<open>Ring connections\<close>

definition swap_remove :: "nat \<Rightarrow> 'a list \<Rightarrow> 'a list" where
  "swap_remove i xs = (if i = length xs - 1 then butlast xs else (butlast xs)[i := last xs])"

fun position :: "('a \<Rightarrow> bool) \<Rightarrow> 'a list \<Rightarrow> nat option" where
  "position P [] = None"
| "position P (x # xs) = (if P x then Some 0 else map_option Suc (position P xs))"

definition bucket_drop :: "socket_addr \<Rightarrow> 'k connection list \<Rightarrow> 'k connection list" where
  "bucket_drop addr conns =
     (case position (\<lambda>c. peer_addr c = addr) conns of Some pos \<Rightarrow> swap_remove pos conns | None \<Rightarrow> conns)"

text \<open>The connections at the previous location of an address that is added again.\<close>

definition drop_relocated ::
  "location \<Rightarrow> socket_addr \<Rightarrow> (location \<times> 'k connection list) list \<Rightarrow> (location \<times> 'k connection list) list" where
  "drop_relocated prev_loc addr cbl =
     (case hm_get cbl prev_loc of
        None \<Rightarrow> cbl
      | Some prev_list \<Rightarrow>
          (let prev_list = bucket_drop addr prev_list
           in if prev_list = [] then hm_del prev_loc cbl else bt_put prev_loc prev_list cbl))"

definition push_connection ::
  "location \<Rightarrow> 'k connection \<Rightarrow> (location \<times> 'k connection list) list \<Rightarrow> (location \<times> 'k connection list) list" where
  "push_connection loc c cbl = bt_put loc ((case hm_get cbl loc of Some conns \<Rightarrow> conns | None \<Rightarrow> []) @ [c]) cbl"

definition add_connection ::
  "instant \<Rightarrow> location \<Rightarrow> socket_addr \<Rightarrow> 'k \<Rightarrow> bool \<Rightarrow> 'k connection_manager \<Rightarrow> bool \<times> 'k connection_manager" where
  "add_connection now loc addr key was_reserved m =
     (let pending = (if was_reserved then hm_del addr (pending_reservations m) else pending_reservations m);
          previous_location = hm_get (location_for_peer m) addr
      in if previous_location = None \<and> max_connections m \<le> connection_count m
         then (False, m\<lparr>pending_reservations := pending,
                       location_for_peer := hm_del addr (bt_put addr loc (location_for_peer m))\<rparr>)
         else
           (let cbl = (case previous_location of
                         Some prev_loc \<Rightarrow> drop_relocated prev_loc addr (connections_by_location m)
                       | None \<Rightarrow> connections_by_location m);
                m = m\<lparr>pending_reservations := pending, location_for_peer := bt_put addr loc (location_for_peer m),
                      connections_by_location :=
                        push_connection loc \<lparr>pub_key = key, peer_addr = addr, connected_at = now\<rparr> cbl\<rparr>;
                m = snd (drop_transient addr m)
            in (True, m\<lparr>connected_since := bt_put addr now (connected_since m),
                        peer_health := init_peer now addr (peer_health m)\<rparr>)))"

definition rename_connection :: "socket_addr \<Rightarrow> socket_addr \<Rightarrow> 'k \<Rightarrow> instant \<Rightarrow> 'k connection list \<Rightarrow> 'k connection list" where
  "rename_connection old_addr new_addr key now conns =
     (case position (\<lambda>c. peer_addr c = old_addr) conns of
        Some i \<Rightarrow> conns[i := (conns ! i)\<lparr>pub_key := key, peer_addr := new_addr\<rparr>]
      | None \<Rightarrow> conns @ [\<lparr>pub_key = key, peer_addr = new_addr, connected_at = now\<rparr>])"

definition update_peer_identity ::
  "instant \<Rightarrow> socket_addr \<Rightarrow> socket_addr \<Rightarrow> 'k \<Rightarrow> 'k connection_manager \<Rightarrow> bool \<times> 'k connection_manager" where
  "update_peer_identity now old_addr new_addr key m =
     (if old_addr = new_addr then (False, m)
      else case hm_get (location_for_peer m) old_addr of
             None \<Rightarrow> (False, m)
           | Some loc \<Rightarrow>
               (let entry = (case hm_get (connections_by_location m) loc of Some conns \<Rightarrow> conns | None \<Rightarrow> [])
                in (True,
                    m\<lparr>location_for_peer := bt_put new_addr loc (hm_del old_addr (location_for_peer m)),
                      connections_by_location :=
                        bt_put loc (rename_connection old_addr new_addr key now entry) (connections_by_location m),
                      connected_since :=
                        (case hm_get (connected_since m) old_addr of
                           Some since \<Rightarrow> bt_put new_addr since (hm_del old_addr (connected_since m))
                         | None \<Rightarrow> connected_since m),
                      peer_health :=
                        (case hm_get (peer_health m) old_addr of
                           Some stats \<Rightarrow> bt_put new_addr stats (hm_del old_addr (peer_health m))
                         | None \<Rightarrow> peer_health m)\<rparr>)))"

definition prune_connection :: "socket_addr \<Rightarrow> bool \<Rightarrow> 'k connection_manager \<Rightarrow> location option \<times> 'k connection_manager" where
  "prune_connection addr is_alive m =
     (case hm_get (location_for_peer m) addr of
        None \<Rightarrow>
          (None, if is_alive then m else m\<lparr>pending_reservations := hm_del addr (pending_reservations m)\<rparr>)
      | Some loc \<Rightarrow>
          (let cbl = (case hm_get (connections_by_location m) loc of
                        None \<Rightarrow> connections_by_location m
                      | Some bucket \<Rightarrow>
                          (case position (\<lambda>c. peer_addr c = addr) bucket of
                             None \<Rightarrow> connections_by_location m
                           | Some pos \<Rightarrow>
                               (let bucket = swap_remove pos bucket
                                in if bucket = [] then hm_del loc (connections_by_location m)
                                   else bt_put loc bucket (connections_by_location m))))
           in (Some loc,
               m\<lparr>location_for_peer := hm_del addr (location_for_peer m),
                 connections_by_location := cbl,
                 pending_reservations := (if is_alive then pending_reservations m else hm_del addr (pending_reservations m)),
                 ready_peers := ready_peers m - {addr},
                 connected_since := hm_del addr (connected_since m),
                 peer_health := remove_peer addr (peer_health m)\<rparr>)))"

definition prune_alive_connection :: "socket_addr \<Rightarrow> 'k connection_manager \<Rightarrow> location option \<times> 'k connection_manager" where
  "prune_alive_connection addr m = prune_connection addr True m"

definition prune_in_transit_connection :: "socket_addr \<Rightarrow> 'k connection_manager \<Rightarrow> location option \<times> 'k connection_manager" where
  "prune_in_transit_connection addr m = prune_connection addr False m"

definition clear_pending_reservations_for :: "socket_addr list \<Rightarrow> 'k connection_manager \<Rightarrow> 'k connection_manager" where
  "clear_pending_reservations_for addrs m =
     (let removed = filter (\<lambda>a. hm_has a (pending_reservations m)) addrs
      in m\<lparr>pending_reservations := foldl (\<lambda>t a. hm_del a t) (pending_reservations m) addrs,
           location_for_peer := foldl (\<lambda>t a. hm_del a t) (location_for_peer m) removed\<rparr>)"

definition cleanup_stale_reservations :: "instant \<Rightarrow> 'k connection_manager \<Rightarrow> nat \<times> 'k connection_manager" where
  "cleanup_stale_reservations now m =
     (let pending = hm_retain (\<lambda>_ (_, created). saturating_since now created \<le> PENDING_RESERVATION_TTL) (pending_reservations m);
          stale = length (pending_reservations m) - length pending;
          valid_pending_addrs = map fst pending;
          locations = hm_retain (\<lambda>addr loc.
              (case hm_get (connections_by_location m) loc of Some conns \<Rightarrow> bucket_has addr conns | None \<Rightarrow> False)
              \<or> addr \<in> set valid_pending_addrs) (location_for_peer m)
      in (stale + (length (location_for_peer m) - length locations),
          m\<lparr>pending_reservations := pending, location_for_peer := locations\<rparr>))"

section \<open>Readiness, failed addresses\<close>

definition mark_peer_ready :: "socket_addr \<Rightarrow> 'k connection_manager \<Rightarrow> 'k connection_manager" where
  "mark_peer_ready addr m = m\<lparr>ready_peers := insert addr (ready_peers m)\<rparr>"

definition mark_peer_not_ready :: "socket_addr \<Rightarrow> 'k connection_manager \<Rightarrow> 'k connection_manager" where
  "mark_peer_not_ready addr m = m\<lparr>ready_peers := ready_peers m - {addr}\<rparr>"

definition is_peer_ready :: "instant \<Rightarrow> socket_addr \<Rightarrow> 'k connection_manager \<Rightarrow> bool" where
  "is_peer_ready now addr m =
     (min_ready_connections m = 0 \<or> addr \<in> ready_peers m
      \<or> (case hm_get (connected_since m) addr of
           Some since \<Rightarrow> OPTIMISTIC_READY_TIMEOUT \<le> saturating_since now since
         | None \<Rightarrow> False))"

definition is_self_ready :: "'k connection_manager \<Rightarrow> bool" where
  "is_self_ready m = (min_ready_connections m = 0 \<or> min_ready_connections m \<le> connection_count m)"

definition record_failed_addr :: "socket_addr \<Rightarrow> instant \<Rightarrow> rat \<Rightarrow> 'k connection_manager \<Rightarrow> 'k connection_manager" where
  "record_failed_addr addr now jitter m = m\<lparr>recently_failed_addrs := record_failure addr now jitter (recently_failed_addrs m)\<rparr>"

definition clear_failed_addr :: "socket_addr \<Rightarrow> 'k connection_manager \<Rightarrow> 'k connection_manager" where
  "clear_failed_addr addr m = m\<lparr>recently_failed_addrs := record_success addr (recently_failed_addrs m)\<rparr>"

definition cleanup_stale_failed_addrs :: "instant \<Rightarrow> 'k connection_manager \<Rightarrow> nat \<times> 'k connection_manager" where
  "cleanup_stale_failed_addrs now m =
     (let (n, t) = remove_expired_entries now (recently_failed_addrs m) in (n, m\<lparr>recently_failed_addrs := t\<rparr>))"

definition cleanup_all_failed_addrs :: "'k connection_manager \<Rightarrow> 'k connection_manager" where
  "cleanup_all_failed_addrs m = m\<lparr>recently_failed_addrs := clear_backoff (recently_failed_addrs m)\<rparr>"

section \<open>Routing candidates\<close>

text \<open>
  For each location in order one of its connections, drawn by \<open>pick\<close> from the list sorted by address;
  \<open>skip\<close> is the skip list.  \<open>Some False\<close> marks a peer that is not ready.
\<close>

definition candidate_at ::
  "instant \<Rightarrow> (location \<Rightarrow> nat \<Rightarrow> nat) \<Rightarrow> socket_addr option \<Rightarrow> (socket_addr \<Rightarrow> bool) \<Rightarrow> bool \<Rightarrow> 'k connection_manager \<Rightarrow>
   location \<times> 'k connection list \<Rightarrow> ('k connection \<times> bool) option" where
  "candidate_at now pick requesting skip check_readiness m entry =
     (case entry of (loc, conns) \<Rightarrow>
        let sorted_conns = sort_key peer_addr conns
        in if sorted_conns = [] then None
           else (let conn = sorted_conns ! pick loc (length sorted_conns); addr = peer_addr conn
                 in if hm_has addr (transient_connections m) then None
                    else if requesting = Some addr then None
                    else if skip addr then None
                    else Some (conn, \<not> (check_readiness \<and> \<not> is_peer_ready now addr m))))"

definition routing_candidates ::
  "instant \<Rightarrow> (location \<Rightarrow> nat \<Rightarrow> nat) \<Rightarrow> socket_addr option \<Rightarrow> (socket_addr \<Rightarrow> bool) \<Rightarrow> bool \<Rightarrow> 'k connection_manager \<Rightarrow>
   'k connection list" where
  "routing_candidates now pick requesting skip check_readiness m =
     (let found = List.map_filter (candidate_at now pick requesting skip check_readiness m) (connections_by_location m);
          candidates = map fst (filter snd found);
          not_ready_fallback = map fst (filter (Not \<circ> snd) found)
      in if check_readiness \<and> candidates = [] \<and> not_ready_fallback \<noteq> [] then not_ready_fallback else candidates)"

section \<open>Promotion to the ring\<close>

text \<open>
  \<open>handle_connect_peer\<close> finds an existing transport connection and promotes it (\<open>promote_existing\<close>);
  \<open>handle_successful_connection\<close> promotes a new one of known identity (\<open>promote_established\<close>).
\<close>

definition promote_existing :: "instant \<Rightarrow> socket_addr \<Rightarrow> 'k \<Rightarrow> 'k connection_manager \<Rightarrow> 'k connection_manager" where
  "promote_existing now addr key m =
     (let (was_transient, m) = drop_transient addr m;
          needs_promotion = (was_transient \<noteq> None \<or> \<not> is_in_ring addr m)
      in if \<not> needs_promotion then m
         else (let loc = (case was_transient of
                            Some e \<Rightarrow> (case te_location e of Some l \<Rightarrow> l | None \<Rightarrow> from_address addr)
                          | None \<Rightarrow> from_address addr)
               in if max_connections m \<le> connection_count m then m
                  else snd (add_connection now loc addr key True m)))"

definition promote_established :: "instant \<Rightarrow> bool \<Rightarrow> socket_addr \<Rightarrow> 'k \<Rightarrow> 'k connection_manager \<Rightarrow> 'k connection_manager" where
  "promote_established now is_transient addr key m =
     (let (pending_loc, m) = prune_in_transit_connection addr m;
          loc = (case pending_loc of Some l \<Rightarrow> l | None \<Rightarrow> from_address addr)
      in if max_connections m \<le> connection_count m then snd (prune_alive_connection addr m)
         else (let m = snd (add_connection now loc addr key True m)
               in if is_transient then snd (drop_transient addr m) else m))"

section \<open>Buckets\<close>

lemma position_Some: "position P xs = Some i \<Longrightarrow> i < length xs \<and> P (xs ! i)"
  by (induction xs arbitrary: i) (auto split: if_splits)

lemma position_None: "position P xs = None \<longleftrightarrow> (\<forall>x \<in> set xs. \<not> P x)"
  by (induction xs) auto

lemma swap_remove_mset: "i < length xs \<Longrightarrow> mset (swap_remove i xs) = mset xs - {#xs ! i#}"
proof -
  assume i: "i < length xs"
  then have xs: "xs = butlast xs @ [last xs]" by (cases xs rule: rev_cases) auto
  show ?thesis
  proof (cases "i = length xs - 1")
    case True
    then have "xs ! i = last xs" using i by (cases xs rule: rev_cases) auto
    then show ?thesis by (subst (2) xs) (simp add: swap_remove_def True del: append_butlast_last_id)
  next
    case False
    then have "i < length (butlast xs)" "xs ! i = butlast xs ! i" using i by (auto simp: nth_butlast)
    then have "mset ((butlast xs)[i := last xs]) = mset (butlast xs) - {#xs ! i#} + {#last xs#}" by (simp add: mset_update)
    moreover have "xs ! i \<in># mset (butlast xs)" using \<open>i < length (butlast xs)\<close> \<open>xs ! i = butlast xs ! i\<close> by simp
    ultimately show ?thesis
      using False by (subst (2) xs) (simp add: swap_remove_def del: append_butlast_last_id)
  qed
qed

lemma filter_at: "i < length xs \<Longrightarrow> distinct (map f xs) \<Longrightarrow> filter (\<lambda>x. f x = f (xs ! i)) xs = [xs ! i]"
proof (induction xs arbitrary: i)
  case (Cons x xs)
  show ?case
  proof (cases i)
    case 0
    have "filter (\<lambda>y. f y = f x) xs = []" using Cons.prems(2) by (simp add: filter_empty_conv) (metis image_eqI)
    then show ?thesis by (simp add: 0)
  next
    case (Suc j)
    then have "f x \<noteq> f (xs ! j)" using Cons.prems by auto
    then show ?thesis using Cons by (simp add: Suc)
  qed
qed simp

lemma bucket_drop_mset:
  assumes "distinct (map peer_addr cs)"
  shows "mset (bucket_drop a cs) = filter_mset (\<lambda>c. peer_addr c \<noteq> a) (mset cs)"
proof (cases "position (\<lambda>c. peer_addr c = a) cs")
  case None
  then have "filter (\<lambda>c. peer_addr c \<noteq> a) cs = cs" by (simp add: position_None)
  then show ?thesis by (simp add: bucket_drop_def None mset_filter [symmetric] del: mset_filter)
next
  case (Some i)
  note i = position_Some [OF Some]
  have "filter_mset (\<lambda>c. peer_addr c = a) (mset cs) = {#cs ! i#}"
  proof -
    have "filter (\<lambda>c. peer_addr c = a) cs = [cs ! i]"
      using filter_at [of i cs peer_addr] i assms by simp
    from arg_cong [OF this, of mset] show ?thesis by simp
  qed
  moreover define F where "F = filter_mset (\<lambda>c. peer_addr c \<noteq> a) (mset cs)"
  ultimately have "mset cs = F + {#cs ! i#}"
    using multiset_partition [of "mset cs" "\<lambda>c. peer_addr c \<noteq> a"] by simp
  then have "mset (swap_remove i cs) = F" using swap_remove_mset [of i cs] i by simp
  then show ?thesis by (simp add: bucket_drop_def Some F_def)
qed

lemma bucket_drop_props:
  assumes "distinct (map peer_addr cs)"
  shows "set (bucket_drop a cs) = {c \<in> set cs. peer_addr c \<noteq> a}" "distinct (map peer_addr (bucket_drop a cs))"
    "length (bucket_drop a cs) + (if a \<in> peer_addr ` set cs then 1 else 0) = length cs"
proof -
  note ms = bucket_drop_mset [OF assms, of a]
  show "set (bucket_drop a cs) = {c \<in> set cs. peer_addr c \<noteq> a}"
    using arg_cong [OF ms, of set_mset] by auto
  have fm: "mset (bucket_drop a cs) = mset (filter (\<lambda>c. peer_addr c \<noteq> a) cs)" by (simp add: ms)
  then have mm: "mset (map peer_addr (bucket_drop a cs)) = mset (map peer_addr (filter (\<lambda>c. peer_addr c \<noteq> a) cs))" by simp
  show "distinct (map peer_addr (bucket_drop a cs))"
    using mset_eq_imp_distinct_iff [OF mm] assms by (simp add: distinct_map_filter)
  have "length (bucket_drop a cs) = length (filter (\<lambda>c. peer_addr c \<noteq> a) cs)"
    using mset_eq_length [OF fm] .
  also have "\<dots> + (if a \<in> peer_addr ` set cs then 1 else 0) = length cs"
    using assms by (induction cs) auto
  finally show "length (bucket_drop a cs) + (if a \<in> peer_addr ` set cs then 1 else 0) = length cs" .
qed

section \<open>Agreement of the tables\<close>

definition in_ring :: "socket_addr \<Rightarrow> (location \<times> 'k connection list) list \<Rightarrow> bool" where
  "in_ring a cbl \<longleftrightarrow> (\<exists>loc cs. hm_get cbl loc = Some cs \<and> a \<in> peer_addr ` set cs)"

definition cbl_ok :: "(socket_addr \<Rightarrow> location option) \<Rightarrow> (location \<times> 'k connection list) list \<Rightarrow> bool" where
  "cbl_ok lop cbl \<longleftrightarrow> bt_wf cbl \<and>
     (\<forall>loc cs. hm_get cbl loc = Some cs \<longrightarrow>
        cs \<noteq> [] \<and> distinct (map peer_addr cs) \<and> (\<forall>c \<in> set cs. lop (peer_addr c) = Some loc))"

lemma cbl_okD:
  assumes "cbl_ok lop cbl"
  shows "bt_wf cbl" "hm_get cbl loc = Some cs \<Longrightarrow> cs \<noteq> []" "hm_get cbl loc = Some cs \<Longrightarrow> distinct (map peer_addr cs)"
    "hm_get cbl loc = Some cs \<Longrightarrow> c \<in> set cs \<Longrightarrow> lop (peer_addr c) = Some loc"
  using assms by (auto simp: cbl_ok_def)

lemma cbl_ok_cong:
  assumes "cbl_ok lop cbl" "\<And>a. in_ring a cbl \<Longrightarrow> lop' a = lop a"
  shows "cbl_ok lop' cbl"
  using assms by (fastforce simp: cbl_ok_def in_ring_def)

lemma in_ring_located: "cbl_ok lop cbl \<Longrightarrow> in_ring a cbl \<Longrightarrow>
    \<exists>loc cs. lop a = Some loc \<and> hm_get cbl loc = Some cs \<and> a \<in> peer_addr ` set cs"
  by (fastforce simp: cbl_ok_def in_ring_def)

lemma in_ring_iff:
  assumes "cbl_ok lop cbl" "lop a = Some loc"
  shows "in_ring a cbl \<longleftrightarrow> (case hm_get cbl loc of Some cs \<Rightarrow> a \<in> peer_addr ` set cs | None \<Rightarrow> False)"
proof (cases "in_ring a cbl")
  case True
  then show ?thesis using in_ring_located [OF assms(1) True] assms(2) by auto
qed (auto simp: in_ring_def split: option.split)

lemma is_in_ring_iff: "bt_wf (connections_by_location m) \<Longrightarrow> is_in_ring a m \<longleftrightarrow> in_ring a (connections_by_location m)"
  using hm_get_in_set [OF bt_wf_hm_wf, of "connections_by_location m"]
  by (force simp: is_in_ring_def in_ring_def list_ex_iff bucket_has_def)

lemma relocated_view:
  assumes "cbl_ok lop cbl"
  shows "hm_get (drop_relocated loc a cbl) l =
    (if l = loc then (case hm_get cbl loc of
        Some cs \<Rightarrow> if bucket_drop a cs = [] then None else Some (bucket_drop a cs) | None \<Rightarrow> None)
     else hm_get cbl l)"
  by (simp add: drop_relocated_def Let_def hm_simps split: option.split)

lemma relocated_ok:
  assumes ok: "cbl_ok lop cbl" and a: "lop a = Some loc" and lop': "\<And>x. x \<noteq> a \<Longrightarrow> lop' x = lop x"
  shows "cbl_ok lop' (drop_relocated loc a cbl)"
    "in_ring x (drop_relocated loc a cbl) \<longleftrightarrow> in_ring x cbl \<and> x \<noteq> a"
    "hm_sum length (drop_relocated loc a cbl) + (if in_ring a cbl then 1 else 0) = hm_sum length cbl"
proof -
  note view = relocated_view [OF ok, of loc a]
  have drop: "set (bucket_drop a cs) = {c \<in> set cs. peer_addr c \<noteq> a}" "distinct (map peer_addr (bucket_drop a cs))"
    "length (bucket_drop a cs) + (if a \<in> peer_addr ` set cs then 1 else 0) = length cs" if "hm_get cbl loc = Some cs" for cs
    using bucket_drop_props [OF cbl_okD(3) [OF ok that]] by auto
  have elsewhere: "peer_addr c \<noteq> a" if "hm_get cbl l = Some cs" "l \<noteq> loc" "c \<in> set cs" for l cs c
    using cbl_okD(4) [OF ok that(1,3)] a that(2) by auto
  have wf: "bt_wf (drop_relocated loc a cbl)"
    using cbl_okD(1) [OF ok] by (simp add: drop_relocated_def Let_def split: option.split)
  show "cbl_ok lop' (drop_relocated loc a cbl)"
    unfolding cbl_ok_def
  proof (intro conjI wf allI impI)
    fix l cs
    assume l: "hm_get (drop_relocated loc a cbl) l = Some cs"
    have "cs \<noteq> [] \<and> distinct (map peer_addr cs) \<and> (\<forall>c \<in> set cs. lop' (peer_addr c) = Some l)"
    proof (cases "l = loc")
      case True
      then obtain cs0 where cs0: "hm_get cbl loc = Some cs0" "cs = bucket_drop a cs0" "cs \<noteq> []"
        using l view [of l] by (auto split: option.splits if_splits)
      then have "lop' (peer_addr c) = Some l" if "c \<in> set cs" for c
        using that drop(1) [OF cs0(1)] cbl_okD(4) [OF ok cs0(1)] lop' True by auto
      then show ?thesis using drop(2) [OF cs0(1)] cs0 by simp
    next
      case False
      then have l': "hm_get cbl l = Some cs" using l view [of l] by simp
      have "lop' (peer_addr c) = Some l" if "c \<in> set cs" for c
        using lop' elsewhere [OF l' False that] cbl_okD(4) [OF ok l' that] by simp
      then show ?thesis using cbl_okD(2,3) [OF ok l'] by simp
    qed
    then show "cs \<noteq> []" "distinct (map peer_addr cs)" "\<forall>c \<in> set cs. lop' (peer_addr c) = Some l" by auto
  qed
  show "in_ring x (drop_relocated loc a cbl) \<longleftrightarrow> in_ring x cbl \<and> x \<noteq> a"
  proof -
    have "(\<exists>cs. hm_get (drop_relocated loc a cbl) l = Some cs \<and> x \<in> peer_addr ` set cs) \<longleftrightarrow>
        (\<exists>cs. hm_get cbl l = Some cs \<and> x \<in> peer_addr ` set cs \<and> x \<noteq> a)" for l
    proof (cases "l = loc")
      case True
      have e: "peer_addr ` set (bucket_drop a cs) = peer_addr ` set cs - {a}" if "hm_get cbl loc = Some cs" for cs
        using drop(1) [OF that] by auto
      show ?thesis
      proof (cases "hm_get cbl loc")
        case (Some cs)
        then show ?thesis using view [of l] e [OF Some] True by (auto split: if_splits)
      qed (use view [of l] True in simp)
    next
      case False
      then show ?thesis using view [of l] elsewhere by auto
    qed
    then show ?thesis unfolding in_ring_def by blast
  qed
  show "hm_sum length (drop_relocated loc a cbl) + (if in_ring a cbl then 1 else 0) = hm_sum length cbl"
  proof (cases "hm_get cbl loc")
    case None
    then show ?thesis using in_ring_iff [OF ok a] by (simp add: drop_relocated_def)
  next
    case (Some cs)
    show ?thesis
      using hm_sum_del [OF bt_wf_hm_wf [OF cbl_okD(1) [OF ok]], of length loc] bt_sum_put [OF cbl_okD(1) [OF ok], of length loc "bucket_drop a cs"]
        drop(3) [OF Some] in_ring_iff [OF ok a]
      by (auto simp: drop_relocated_def Some Let_def split: if_splits)
  qed
qed

lemma push_ok:
  assumes ok: "cbl_ok lop cbl" and new: "\<not> in_ring (peer_addr c) cbl"
    and lop': "lop' (peer_addr c) = Some loc" "\<And>x. x \<noteq> peer_addr c \<Longrightarrow> lop' x = lop x"
  shows "cbl_ok lop' (push_connection loc c cbl)"
    "in_ring x (push_connection loc c cbl) \<longleftrightarrow> in_ring x cbl \<or> x = peer_addr c"
    "hm_sum length (push_connection loc c cbl) = hm_sum length cbl + 1"
proof -
  define old where "old = (case hm_get cbl loc of Some conns \<Rightarrow> conns | None \<Rightarrow> [])"
  have push: "push_connection loc c cbl = bt_put loc (old @ [c]) cbl" by (simp add: push_connection_def old_def)
  have old: "distinct (map peer_addr old)" "\<And>d. d \<in> set old \<Longrightarrow> lop (peer_addr d) = Some loc \<and> peer_addr d \<noteq> peer_addr c"
  proof -
    have "distinct (map peer_addr old) \<and> (\<forall>d \<in> set old. lop (peer_addr d) = Some loc \<and> peer_addr d \<noteq> peer_addr c)"
    proof (cases "hm_get cbl loc")
      case (Some cs)
      have "peer_addr c \<notin> peer_addr ` set cs" using new Some by (auto simp: in_ring_def)
      then have "\<forall>d \<in> set cs. peer_addr d \<noteq> peer_addr c" by (metis image_eqI)
      then show ?thesis using cbl_okD(3,4) [OF ok Some] by (auto simp: old_def Some)
    qed (simp add: old_def)
    then show "distinct (map peer_addr old)" "\<And>d. d \<in> set old \<Longrightarrow> lop (peer_addr d) = Some loc \<and> peer_addr d \<noteq> peer_addr c" by auto
  qed
  show "cbl_ok lop' (push_connection loc c cbl)"
    unfolding push cbl_ok_def
  proof (intro conjI allI impI)
    show "bt_wf (bt_put loc (old @ [c]) cbl)" using cbl_okD(1) [OF ok] by simp
  next
    fix l cs
    assume l: "hm_get (bt_put loc (old @ [c]) cbl) l = Some cs"
    have "cs \<noteq> [] \<and> distinct (map peer_addr cs) \<and> (\<forall>c \<in> set cs. lop' (peer_addr c) = Some l)"
    proof (cases "l = loc")
      case True
      then have cs: "cs = old @ [c]" using l by (simp add: hm_simps)
      have "lop' (peer_addr d) = Some l" if "d \<in> set old" for d using old(2) [OF that] lop'(2) True by simp
      moreover have "peer_addr c \<notin> peer_addr ` set old" using old(2) by fastforce
      ultimately show ?thesis using old(1) lop'(1) True by (auto simp: cs)
    next
      case False
      then have l': "hm_get cbl l = Some cs" using l by (simp add: hm_simps)
      have "lop' (peer_addr d) = Some l" if "d \<in> set cs" for d
      proof -
        have "peer_addr d \<noteq> peer_addr c" using new l' that unfolding in_ring_def by (metis image_eqI)
        then show ?thesis using lop'(2) cbl_okD(4) [OF ok l' that] by simp
      qed
      then show ?thesis using cbl_okD(2,3) [OF ok l'] by simp
    qed
    then show "cs \<noteq> []" "distinct (map peer_addr cs)" "\<forall>c \<in> set cs. lop' (peer_addr c) = Some l" by auto
  qed
  have "(\<exists>cs. hm_get (bt_put loc (old @ [c]) cbl) l = Some cs \<and> x \<in> peer_addr ` set cs) \<longleftrightarrow>
      (\<exists>cs. hm_get cbl l = Some cs \<and> x \<in> peer_addr ` set cs) \<or> l = loc \<and> x = peer_addr c" for l
    by (cases "hm_get cbl loc") (auto simp: hm_simps old_def)
  then show "in_ring x (push_connection loc c cbl) \<longleftrightarrow> in_ring x cbl \<or> x = peer_addr c"
    unfolding push in_ring_def by blast
  show "hm_sum length (push_connection loc c cbl) = hm_sum length cbl + 1"
    using bt_sum_put [OF cbl_okD(1) [OF ok], of length loc "old @ [c]"] by (auto simp: push old_def split: option.splits)
qed

lemma count_sum: "connection_count m = hm_sum length (connections_by_location m)"
  by (simp add: connection_count_def hm_sum_def)

definition tables_ok :: "'k connection_manager \<Rightarrow> bool" where
  "tables_ok m \<longleftrightarrow>
     bt_wf (pending_reservations m) \<and> bt_wf (location_for_peer m)
     \<and> cbl_ok (hm_get (location_for_peer m)) (connections_by_location m)
     \<and> (\<forall>a. in_ring a (connections_by_location m) \<longrightarrow> \<not> hm_has a (pending_reservations m))"

definition tracked_ok :: "'k connection_manager \<Rightarrow> bool" where
  "tracked_ok m \<longleftrightarrow>
     bt_wf (connected_since m) \<and> bt_wf (peer_health m)
     \<and> (\<forall>a. hm_has a (connected_since m) \<longleftrightarrow> in_ring a (connections_by_location m))
     \<and> (\<forall>a. hm_has a (peer_health m) \<longleftrightarrow> in_ring a (connections_by_location m))"

definition transients_ok :: "'k connection_manager \<Rightarrow> bool" where
  "transients_ok m \<longleftrightarrow> hm_wf (transient_connections m) \<and> transient_in_use m = length (transient_connections m)
     \<and> transient_in_use m \<le> transient_budget m"

definition cm_inv :: "'k connection_manager \<Rightarrow> bool" where
  "cm_inv m \<longleftrightarrow> tables_ok m \<and> tracked_ok m \<and> transients_ok m \<and> connection_count m \<le> max_connections m
     \<and> bt_wf (connect_excluded_peers m)"

lemma cm_invI:
  "tables_ok m \<Longrightarrow> tracked_ok m \<Longrightarrow> transients_ok m \<Longrightarrow> connection_count m \<le> max_connections m
   \<Longrightarrow> bt_wf (connect_excluded_peers m) \<Longrightarrow> cm_inv m"
  by (simp add: cm_inv_def)

lemma cm_invD:
  assumes "cm_inv m"
  shows "tables_ok m" "tracked_ok m" "transients_ok m" "connection_count m \<le> max_connections m" "bt_wf (connect_excluded_peers m)"
  using assms by (simp_all add: cm_inv_def)

lemma tables_okD:
  assumes "tables_ok m"
  shows "bt_wf (pending_reservations m)" "bt_wf (location_for_peer m)"
    "cbl_ok (hm_get (location_for_peer m)) (connections_by_location m)"
    "in_ring a (connections_by_location m) \<Longrightarrow> \<not> hm_has a (pending_reservations m)"
  using assms by (auto simp: tables_ok_def)

lemma ring_located: "tables_ok m \<Longrightarrow> in_ring a (connections_by_location m) \<Longrightarrow> hm_has a (location_for_peer m)"
  using in_ring_located [OF tables_okD(3)] by (fastforce simp: hm_has_def)

text \<open>Changes of the pending tables away from the ring.\<close>

lemma tables_ok_pending:
  assumes "tables_ok m" "bt_wf p" "bt_wf l"
    and "\<And>a. in_ring a (connections_by_location m) \<Longrightarrow> hm_get l a = hm_get (location_for_peer m) a \<and> \<not> hm_has a p"
  shows "tables_ok (m\<lparr>pending_reservations := p, location_for_peer := l\<rparr>)"
  using assms cbl_ok_cong [OF tables_okD(3) [OF assms(1)], of "hm_get l"] by (simp add: tables_ok_def)

lemma frame_count [simp]:
  "connection_count (m\<lparr>pending_reservations := p\<rparr>) = connection_count m"
  "connection_count (m\<lparr>location_for_peer := l\<rparr>) = connection_count m"
  "connection_count (m\<lparr>topology_manager := t\<rparr>) = connection_count m"
  by (simp_all add: connection_count_def)

section \<open>Preservation\<close>

lemma pending_inv:
  assumes "cm_inv m" "bt_wf p" "bt_wf l"
    and "\<And>a. in_ring a (connections_by_location m) \<Longrightarrow> hm_get l a = hm_get (location_for_peer m) a \<and> \<not> hm_has a p"
  shows "cm_inv (m\<lparr>pending_reservations := p, location_for_peer := l\<rparr>)"
proof (rule cm_invI)
  show "tables_ok (m\<lparr>pending_reservations := p, location_for_peer := l\<rparr>)"
    using cm_invD(1) [OF assms(1)] assms(2-4) by (rule tables_ok_pending)
qed (use cm_invD(2-5) [OF assms(1)] in \<open>simp_all add: tracked_ok_def transients_ok_def\<close>)

lemma topology_inv: "cm_inv m \<Longrightarrow> cm_inv (m\<lparr>topology_manager := t\<rparr>)"
  by (simp add: cm_inv_def tables_ok_def tracked_ok_def transients_ok_def)

lemma accept_decision_frame:
  "\<exists>t. snd (accept_decision mth draw now loc n_open n_total m) = m\<lparr>topology_manager := t\<rparr>"
proof -
  have "m\<lparr>topology_manager := topology_manager m\<rparr> = m" by simp
  then have "\<exists>t. m = m\<lparr>topology_manager := t\<rparr>" by metis
  then show ?thesis by (auto simp: accept_decision_def split_beta Let_def split: option.split)
qed

lemma record_pending_inv:
  assumes "cm_inv m"
  shows "cm_inv (record_pending_location addr loc m)"
proof (cases "hm_get (location_for_peer m) addr")
  case None
  then have "\<not> in_ring addr (connections_by_location m)"
    using ring_located [OF cm_invD(1) [OF assms], of addr] by (auto simp: hm_has_def)
  then have "cm_inv (m\<lparr>pending_reservations := pending_reservations m, location_for_peer := bt_put addr loc (location_for_peer m)\<rparr>)"
    using tables_okD [OF cm_invD(1) [OF assms]] by (intro pending_inv [OF assms]) (auto simp: hm_simps)
  then show ?thesis by (simp add: record_pending_location_def None)
qed (simp add: record_pending_location_def assms)

lemma reservation_inv:
  assumes "cm_inv m" "bt_wf p" "\<And>a. in_ring a (connections_by_location m) \<Longrightarrow> \<not> hm_has a p"
  shows "cm_inv (m\<lparr>pending_reservations := p\<rparr>)"
proof -
  have "cm_inv (m\<lparr>pending_reservations := p, location_for_peer := location_for_peer m\<rparr>)"
    using assms tables_okD(2) [OF cm_invD(1) [OF assms(1)]] by (intro pending_inv) auto
  then show ?thesis by simp
qed

lemma unreserve_inv: "cm_inv m \<Longrightarrow> cm_inv (m\<lparr>pending_reservations := hm_del addr (pending_reservations m)\<rparr>)"
  using tables_okD [OF cm_invD(1), of m] by (intro reservation_inv) (auto simp: hm_simps)

lemma should_accept_inv:
  assumes inv: "cm_inv m"
  shows "cm_inv (snd (should_accept mth draw now loc addr m))"
proof (cases "own_addr m = Some addr \<or> hm_has addr (location_for_peer m)")
  case False
  define m1 where "m1 = m\<lparr>pending_reservations := bt_put addr (loc, now) (pending_reservations m)\<rparr>"
  have "\<not> in_ring addr (connections_by_location m)" using False ring_located [OF cm_invD(1) [OF inv]] by blast
  then have m1: "cm_inv m1"
    unfolding m1_def using tables_okD [OF cm_invD(1) [OF inv]] by (intro reservation_inv [OF inv]) (auto simp: hm_simps)
  obtain ok m2 where d: "accept_decision mth draw now loc (connection_count m) (live_reservations now m + 1 + connection_count m) m1 = (ok, m2)"
    by fastforce
  then have "cm_inv m2" using accept_decision_frame topology_inv [OF m1] by (metis snd_conv)
  then show ?thesis
    using False m1 d by (auto simp: should_accept_def Let_def m1_def [symmetric] unreserve_inv record_pending_inv)
qed (auto simp: should_accept_def inv)

lemma transients_inv:
  assumes "cm_inv m" "hm_wf t" "n = length t" "n \<le> transient_budget m"
  shows "cm_inv (m\<lparr>transient_connections := t, transient_in_use := n\<rparr>)"
  using assms by (simp add: cm_inv_def tables_ok_def tracked_ok_def transients_ok_def connection_count_def)

lemma register_transient_inv:
  assumes "cm_inv m"
  shows "cm_inv (snd (try_register_transient now addr loc m))"
proof (cases "hm_get (transient_connections m) addr")
  case None
  then show ?thesis
    using assms cm_invD(3) [OF assms]
    by (auto simp: try_register_transient_def transients_ok_def hm_length_put hm_has_def intro!: transients_inv)
next
  case (Some e)
  have "cm_inv (m\<lparr>transient_connections := hm_put addr (e\<lparr>te_location := loc\<rparr>) (transient_connections m), transient_in_use := transient_in_use m\<rparr>)"
    using assms cm_invD(3) [OF assms] Some
    by (intro transients_inv) (auto simp: transients_ok_def hm_length_put hm_has_def)
  then show ?thesis by (simp add: try_register_transient_def Some)
qed

lemma drop_transient_inv:
  assumes "cm_inv m"
  shows "cm_inv (snd (drop_transient addr m))"
  using assms cm_invD(3) [OF assms]
  by (auto simp: drop_transient_def transients_ok_def hm_length_del hm_has_def split: option.split intro!: transients_inv)

lemma cleanup_transients_inv:
  assumes "cm_inv m"
  shows "cm_inv (snd (cleanup_expired_transients now m))"
  using assms cm_invD(3) [OF assms] order_trans [OF hm_length_retain, of "transient_connections m"]
  by (auto simp: cleanup_expired_transients_def Let_def transients_ok_def intro!: transients_inv)

text \<open>A ring table replaced together with the tables that follow it.\<close>

lemma ring_inv:
  assumes inv: "cm_inv m" and wf: "bt_wf p" "bt_wf l" "bt_wf s" "bt_wf h"
    and ok: "cbl_ok (hm_get l) cbl" and res: "\<And>a. in_ring a cbl \<Longrightarrow> \<not> hm_has a p"
    and trk: "\<And>a. hm_has a s \<longleftrightarrow> in_ring a cbl" "\<And>a. hm_has a h \<longleftrightarrow> in_ring a cbl"
    and cap: "hm_sum length cbl \<le> max_connections m"
    and t: "transients_ok m'"
    and m': "location_for_peer m' = l" "connections_by_location m' = cbl" "pending_reservations m' = p"
      "connected_since m' = s" "peer_health m' = h" "max_connections m' = max_connections m"
      "connect_excluded_peers m' = connect_excluded_peers m"
  shows "cm_inv m'"
  using cm_invD [OF inv] wf ok res trk cap t
  by (auto simp: cm_inv_def tables_ok_def tracked_ok_def count_sum m')

lemma prune_ring:
  assumes "cbl_ok lop cbl"
  shows "(case hm_get cbl loc of None \<Rightarrow> cbl
      | Some bucket \<Rightarrow> (case position (\<lambda>c. peer_addr c = addr) bucket of None \<Rightarrow> cbl
         | Some pos \<Rightarrow> (let bucket = swap_remove pos bucket in if bucket = [] then hm_del loc cbl else bt_put loc bucket cbl)))
    = drop_relocated loc addr cbl"
proof (cases "hm_get cbl loc")
  case (Some bucket)
  then show ?thesis
    using cbl_okD(2) [OF assms Some] bt_put_same [OF cbl_okD(1) [OF assms] Some]
    by (simp add: drop_relocated_def bucket_drop_def Let_def split: option.split)
qed (simp add: drop_relocated_def)

lemma prune_inv:
  assumes inv: "cm_inv m"
  shows "cm_inv (snd (prune_connection addr alive m))"
proof (cases "hm_get (location_for_peer m) addr")
  case None
  then show ?thesis using inv unreserve_inv [OF inv] by (simp add: prune_connection_def)
next
  case (Some loc)
  note t = tables_okD [OF cm_invD(1) [OF inv]]
  note rel = relocated_ok [OF t(3) Some, of "hm_get (hm_del addr (location_for_peer m))"]
  have "hm_sum length (drop_relocated loc addr (connections_by_location m)) \<le> max_connections m"
    using rel(3) cm_invD(4) [OF inv] by (simp add: count_sum hm_simps split: if_splits)
  then show ?thesis
    unfolding prune_connection_def Some option.case Let_def snd_conv
    using t rel(1,2) cm_invD(2,3) [OF inv]
    by (subst prune_ring [OF t(3), unfolded Let_def])
      (rule ring_inv [OF inv], auto simp: tracked_ok_def transients_ok_def remove_peer_def hm_simps)
qed

lemma drop_transient_fields [simp]:
  "pending_reservations (snd (drop_transient addr m)) = pending_reservations m"
  "location_for_peer (snd (drop_transient addr m)) = location_for_peer m"
  "connections_by_location (snd (drop_transient addr m)) = connections_by_location m"
  "max_connections (snd (drop_transient addr m)) = max_connections m"
  "connected_since (snd (drop_transient addr m)) = connected_since m"
  "peer_health (snd (drop_transient addr m)) = peer_health m"
  "connection_count (snd (drop_transient addr m)) = connection_count m"
  "is_in_ring a (snd (drop_transient addr m)) = is_in_ring a m"
  by (simp_all add: drop_transient_def connection_count_def is_in_ring_def split: option.split)

lemma add_inv:
  assumes inv: "cm_inv m"
    and room: "connection_count m < max_connections m \<or> hm_get (location_for_peer m) addr = None \<or> in_ring addr (connections_by_location m)"
  shows "cm_inv (snd (add_connection now loc addr key True m))"
proof (cases "hm_get (location_for_peer m) addr = None \<and> max_connections m \<le> connection_count m")
  case True
  note t = tables_okD [OF cm_invD(1) [OF inv]]
  have "\<not> in_ring addr (connections_by_location m)"
    using True ring_located [OF cm_invD(1) [OF inv], of addr] by (auto simp: hm_has_def)
  then have "cm_inv (m\<lparr>pending_reservations := hm_del addr (pending_reservations m),
      location_for_peer := hm_del addr (bt_put addr loc (location_for_peer m))\<rparr>)"
    using t by (intro pending_inv [OF inv]) (auto simp: hm_simps)
  then show ?thesis using True by (simp add: add_connection_def Let_def)
next
  case False
  note t = tables_okD [OF cm_invD(1) [OF inv]]
  define cbl where "cbl = (case hm_get (location_for_peer m) addr of
      Some prev_loc \<Rightarrow> drop_relocated prev_loc addr (connections_by_location m) | None \<Rightarrow> connections_by_location m)"
  define c where "c = \<lparr>pub_key = key, peer_addr = addr, connected_at = now\<rparr>"
  have cbl: "cbl_ok (hm_get (location_for_peer m)) cbl \<and> (\<forall>x. in_ring x cbl \<longleftrightarrow> in_ring x (connections_by_location m) \<and> x \<noteq> addr)
      \<and> hm_sum length cbl + (if in_ring addr (connections_by_location m) then 1 else 0) = connection_count m"
  proof (cases "hm_get (location_for_peer m) addr")
    case None
    then have "\<not> in_ring addr (connections_by_location m)"
      using ring_located [OF cm_invD(1) [OF inv], of addr] by (auto simp: hm_has_def)
    then show ?thesis using t(3) by (auto simp: cbl_def None count_sum)
  next
    case (Some l)
    show ?thesis using relocated_ok [OF t(3) Some] by (simp add: cbl_def Some count_sum)
  qed
  have new: "\<not> in_ring (peer_addr c) cbl" using cbl by (simp add: c_def)
  note push = push_ok [OF conjunct1 [OF cbl] new, of "hm_get (bt_put addr loc (location_for_peer m))" loc]
  define m1 where "m1 = m\<lparr>pending_reservations := hm_del addr (pending_reservations m),
      location_for_peer := bt_put addr loc (location_for_peer m), connections_by_location := push_connection loc c cbl\<rparr>"
  have res: "snd (add_connection now loc addr key True m) =
      (let m = snd (drop_transient addr m1) in m\<lparr>connected_since := bt_put addr now (connected_since m),
                        peer_health := init_peer now addr (peer_health m)\<rparr>)"
    unfolding add_connection_def Let_def if_not_P [OF False] by (simp add: m1_def c_def cbl_def)
  have tr: "transients_ok (snd (drop_transient addr m1))" "connect_excluded_peers (snd (drop_transient addr m1)) = connect_excluded_peers m"
    using cm_invD(3) [OF inv]
    by (auto simp: m1_def drop_transient_def transients_ok_def hm_length_del hm_has_def split: option.split)
  have room': "connection_count m < max_connections m \<or> in_ring addr (connections_by_location m)"
    using room False by auto
  have "hm_sum length (push_connection loc c cbl) \<le> max_connections m"
    using push(3) cbl room' cm_invD(4) [OF inv] by (auto simp: hm_simps c_def split: if_splits)
  then show ?thesis
    unfolding res Let_def
    using push(1,2) cbl t tr cm_invD(2) [OF inv]
    by (intro ring_inv [OF inv])
      (auto simp: m1_def hm_simps c_def transients_ok_def tracked_ok_def init_peer_def)
qed

lemma del_all:
  "hm_get (foldl (\<lambda>t a. hm_del a t) t as) x = (if x \<in> set as then None else hm_get t x)"
  "bt_wf t \<Longrightarrow> bt_wf (foldl (\<lambda>t a. hm_del a t) t as)"
  by (induction as arbitrary: t) (auto simp: hm_simps)

lemma clear_pending_inv:
  assumes inv: "cm_inv m"
  shows "cm_inv (clear_pending_reservations_for addrs m)"
  unfolding clear_pending_reservations_for_def Let_def
  using tables_okD [OF cm_invD(1) [OF inv]] by (intro pending_inv [OF inv]) (auto simp: del_all hm_has_def)

lemma kept_if_connected:
  assumes "tables_ok m" "in_ring a (connections_by_location m)" "hm_get (location_for_peer m) a = Some loc"
  shows "\<exists>cs. hm_get (connections_by_location m) loc = Some cs \<and> bucket_has a cs"
  using in_ring_iff [OF tables_okD(3) [OF assms(1)] assms(3)] assms(2)
  by (auto simp: bucket_has_def list_ex_iff split: option.splits)

lemma cleanup_stale_inv:
  assumes inv: "cm_inv m"
  shows "cm_inv (snd (cleanup_stale_reservations now m))"
  unfolding cleanup_stale_reservations_def Let_def snd_conv
proof (rule pending_inv [OF inv])
  note t = tables_okD [OF cm_invD(1) [OF inv]]
  let ?P = "hm_retain (\<lambda>_ (_, created). saturating_since now created \<le> PENDING_RESERVATION_TTL) (pending_reservations m)"
  let ?L = "hm_retain (\<lambda>addr loc. (case hm_get (connections_by_location m) loc of Some conns \<Rightarrow> bucket_has addr conns | None \<Rightarrow> False)
      \<or> addr \<in> set (map fst ?P)) (location_for_peer m)"
  show "bt_wf ?P" "bt_wf ?L" using t by simp_all
  fix a
  assume a: "in_ring a (connections_by_location m)"
  obtain loc where loc: "hm_get (location_for_peer m) a = Some loc"
    using ring_located [OF cm_invD(1) [OF inv] a] by (auto simp: hm_has_def)
  have "hm_get ?L a = Some loc"
    using kept_if_connected [OF cm_invD(1) [OF inv] a loc] loc by (auto simp: bt_get_retain [OF t(2)])
  then show "hm_get ?L a = hm_get (location_for_peer m) a \<and> \<not> hm_has a ?P"
    using t(4) [OF a] loc by (auto simp: hm_has_def bt_get_retain [OF t(1)] split: option.splits)
qed

lemma promote_existing_inv:
  assumes inv: "cm_inv m"
  shows "cm_inv (promote_existing now addr key m)"
  using drop_transient_inv [OF inv, of addr]
  by (auto simp: promote_existing_def split_beta Let_def intro!: add_inv)

lemma promote_established_inv:
  assumes inv: "cm_inv m"
  shows "cm_inv (promote_established now is_transient addr key m)"
  using prune_inv [OF inv, of addr False]
  by (auto simp: promote_established_def prune_in_transit_connection_def prune_alive_connection_def split_beta Let_def
      intro!: add_inv prune_inv drop_transient_inv)

lemma other_fields_inv:
  assumes "cm_inv m" "pending_reservations m' = pending_reservations m" "location_for_peer m' = location_for_peer m"
    "connections_by_location m' = connections_by_location m" "connected_since m' = connected_since m"
    "bt_wf (peer_health m')" "\<And>a. hm_has a (peer_health m') = hm_has a (peer_health m)"
    "transient_connections m' = transient_connections m" "transient_in_use m' = transient_in_use m"
    "transient_budget m' = transient_budget m" "max_connections m' = max_connections m" "bt_wf (connect_excluded_peers m')"
  shows "cm_inv m'"
  using assms by (simp add: cm_inv_def tables_ok_def tracked_ok_def transients_ok_def count_sum)

section \<open>Reachable states\<close>

text \<open>
  One event per call that changes the state.  The identity of a peer is updated at its own address,
  as the only call site does.
\<close>

datatype 'k cm_event =
    Should_Accept rat instant location socket_addr
  | Promote_Existing instant socket_addr 'k
  | Promote_Established instant bool socket_addr 'k
  | Prune_Alive socket_addr
  | Prune_In_Transit socket_addr
  | Update_Identity instant socket_addr 'k
  | Clear_Pending "socket_addr list"
  | Cleanup_Stale instant
  | Register_Transient instant socket_addr "location option"
  | Drop_Transient socket_addr
  | Cleanup_Transients instant
  | Admit_Connect
  | Drop_Admission
  | Update_Location "location option"
  | Try_Set_Own_Addr socket_addr
  | Set_Own_Addr socket_addr
  | Mark_Ready socket_addr
  | Mark_Not_Ready socket_addr
  | Failed_Addr socket_addr instant rat
  | Clear_Failed socket_addr
  | Cleanup_Failed instant
  | Cleanup_All_Failed
  | Health_Success instant socket_addr
  | Health_Failure socket_addr
  | Acceptor_Failure socket_addr instant
  | Clear_Exclusion socket_addr
  | Cleanup_Exclusions instant
  | Jitter_Failure instant
  | Jitter_Reset

fun cm_step :: "f64_math \<Rightarrow> 'k connection_manager \<Rightarrow> 'k cm_event \<Rightarrow> 'k connection_manager" where
  "cm_step mth m (Should_Accept draw now loc addr) = snd (should_accept mth draw now loc addr m)"
| "cm_step mth m (Promote_Existing now addr key) = promote_existing now addr key m"
| "cm_step mth m (Promote_Established now tr addr key) = promote_established now tr addr key m"
| "cm_step mth m (Prune_Alive addr) = snd (prune_alive_connection addr m)"
| "cm_step mth m (Prune_In_Transit addr) = snd (prune_in_transit_connection addr m)"
| "cm_step mth m (Update_Identity now addr key) = snd (update_peer_identity now addr addr key m)"
| "cm_step mth m (Clear_Pending addrs) = clear_pending_reservations_for addrs m"
| "cm_step mth m (Cleanup_Stale now) = snd (cleanup_stale_reservations now m)"
| "cm_step mth m (Register_Transient now addr loc) = snd (try_register_transient now addr loc m)"
| "cm_step mth m (Drop_Transient addr) = snd (drop_transient addr m)"
| "cm_step mth m (Cleanup_Transients now) = snd (cleanup_expired_transients now m)"
| "cm_step mth m Admit_Connect = snd (try_admit_connect m)"
| "cm_step mth m Drop_Admission = drop_admission_guard m"
| "cm_step mth m (Update_Location loc) = update_location loc m"
| "cm_step mth m (Try_Set_Own_Addr addr) = snd (try_set_own_addr addr m)"
| "cm_step mth m (Set_Own_Addr addr) = set_own_addr addr m"
| "cm_step mth m (Mark_Ready addr) = mark_peer_ready addr m"
| "cm_step mth m (Mark_Not_Ready addr) = mark_peer_not_ready addr m"
| "cm_step mth m (Failed_Addr addr now jitter) = record_failed_addr addr now jitter m"
| "cm_step mth m (Clear_Failed addr) = clear_failed_addr addr m"
| "cm_step mth m (Cleanup_Failed now) = snd (cleanup_stale_failed_addrs now m)"
| "cm_step mth m Cleanup_All_Failed = cleanup_all_failed_addrs m"
| "cm_step mth m (Health_Success now addr) = m\<lparr>peer_health := health_record_success now addr (peer_health m)\<rparr>"
| "cm_step mth m (Health_Failure addr) = m\<lparr>peer_health := health_record_failure addr (peer_health m)\<rparr>"
| "cm_step mth m (Acceptor_Failure addr now) =
     m\<lparr>connect_excluded_peers := snd (record_connect_acceptor_failure addr now (connect_excluded_peers m))\<rparr>"
| "cm_step mth m (Clear_Exclusion addr) = m\<lparr>connect_excluded_peers := clear_connect_exclusion addr (connect_excluded_peers m)\<rparr>"
| "cm_step mth m (Cleanup_Exclusions now) = m\<lparr>connect_excluded_peers := cleanup_expired_exclusions now (connect_excluded_peers m)\<rparr>"
| "cm_step mth m (Jitter_Failure now) =
     m\<lparr>connect_jitter_failures := snd (increment_connect_jitter_failures now (connect_jitter_failures m))\<rparr>"
| "cm_step mth m Jitter_Reset = m\<lparr>connect_jitter_failures := reset_connect_jitter_failures (connect_jitter_failures m)\<rparr>"

lemmas small_ops = try_admit_connect_def drop_admission_guard_def update_location_def try_set_own_addr_def set_own_addr_def
  mark_peer_ready_def mark_peer_not_ready_def record_failed_addr_def clear_failed_addr_def cleanup_stale_failed_addrs_def
  cleanup_all_failed_addrs_def health_record_success_def health_record_failure_def record_connect_acceptor_failure_def
  clear_connect_exclusion_def cleanup_expired_exclusions_def

lemma cm_step_inv:
  assumes inv: "cm_inv m"
  shows "cm_inv (cm_step mth m e)"
proof -
  have wf: "bt_wf (peer_health m)" "bt_wf (connect_excluded_peers m)"
    using cm_invD(2,5) [OF inv] by (auto simp: tracked_ok_def)
  have big: "cm_inv (snd (should_accept mth draw now loc addr m))" "cm_inv (promote_existing now addr key m)"
    "cm_inv (promote_established now tr addr key m)" "cm_inv (snd (prune_alive_connection addr m))"
    "cm_inv (snd (prune_in_transit_connection addr m))" "cm_inv (snd (update_peer_identity now addr addr key m))"
    "cm_inv (clear_pending_reservations_for addrs m)" "cm_inv (snd (cleanup_stale_reservations now m))"
    "cm_inv (snd (try_register_transient now addr tloc m))" "cm_inv (snd (drop_transient addr m))"
    "cm_inv (snd (cleanup_expired_transients now m))" for draw now loc addr key tr addrs tloc
    using inv by (simp_all add: should_accept_inv promote_existing_inv promote_established_inv prune_inv clear_pending_inv
        cleanup_stale_inv register_transient_inv drop_transient_inv cleanup_transients_inv
        prune_alive_connection_def prune_in_transit_connection_def update_peer_identity_def)
  show ?thesis
    by (cases e; (simp only: cm_step.simps big)?; rule other_fields_inv [OF inv])
      (auto simp: small_ops wf split_beta Let_def hm_simps hm_has_def split: option.split)
qed

lemma accept_config:
  "max_connections (snd (accept_decision mth draw now loc n_open n_total m)) = max_connections m
   \<and> transient_budget (snd (accept_decision mth draw now loc n_open n_total m)) = transient_budget m"
  using accept_decision_frame [of mth draw now loc n_open n_total m] by auto

lemma add_config:
  "max_connections (snd (add_connection now loc addr key r m)) = max_connections m
   \<and> transient_budget (snd (add_connection now loc addr key r m)) = transient_budget m"
  by (simp add: add_connection_def Let_def drop_transient_def split: option.split)

lemma prune_config:
  "max_connections (snd (prune_connection addr alive m)) = max_connections m
   \<and> transient_budget (snd (prune_connection addr alive m)) = transient_budget m"
  by (simp add: prune_connection_def Let_def split: option.split)

lemma cm_step_config:
  "max_connections (cm_step mth m e) = max_connections m \<and> transient_budget (cm_step mth m e) = transient_budget m"
proof (cases e)
  case (Should_Accept draw now loc addr)
  then show ?thesis
    by (simp add: should_accept_def Let_def split_beta accept_config record_pending_location_def split: option.split)
next
  case (Promote_Existing now addr key)
  then show ?thesis by (simp add: promote_existing_def Let_def split_beta add_config) (simp add: drop_transient_def split: option.split)
next
  case (Promote_Established now tr addr key)
  then show ?thesis
    by (simp add: promote_established_def Let_def split_beta add_config prune_config prune_alive_connection_def prune_in_transit_connection_def)
      (simp add: drop_transient_def add_config prune_config split: option.split)
qed (auto simp: small_ops prune_config prune_alive_connection_def prune_in_transit_connection_def update_peer_identity_def
    clear_pending_reservations_for_def cleanup_stale_reservations_def try_register_transient_def drop_transient_def
    cleanup_expired_transients_def Let_def split_beta split: option.split)

lemma init_cm_inv: "cm_inv (init_connection_manager mn mx addr loc gw budget ttl mr)"
  by (simp add: cm_inv_def tables_ok_def tracked_ok_def transients_ok_def cbl_ok_def in_ring_def init_connection_manager_def
      connection_count_def hm_has_def)

interpretation cm: started_machine "cm_step mth"
  "\<lambda>m. cm_inv m \<and> max_connections m = mx \<and> transient_budget m = budget"
  "init_connection_manager mn mx addr loc gw budget ttl mr" for mth mn mx addr loc gw budget ttl mr
  by unfold_locales (simp_all add: cm_step_inv cm_step_config init_cm_inv, simp_all add: init_connection_manager_def)

lemma distinct_buckets:
  assumes "cbl_ok lop cbl"
  shows "distinct (map peer_addr (concat (map snd cbl)))"
proof -
  have wf: "hm_wf cbl" using cbl_okD(1) [OF assms] by (rule bt_wf_hm_wf)
  have get: "hm_get cbl l = Some cs" if "(l, cs) \<in> set cbl" for l cs using wf that by (simp add: hm_get_in_set)
  have "distinct (map peer_addr (concat (map snd xs)))" if "set xs \<subseteq> set cbl" "distinct (map fst xs)" for xs
    using that
  proof (induction xs)
    case (Cons x xs)
    obtain l cs where x: "x = (l, cs)" by fastforce
    have cs: "hm_get cbl l = Some cs" using get Cons.prems(1) by (simp add: x)
    have "peer_addr c \<noteq> peer_addr d" if "c \<in> set cs" "(k, ds) \<in> set xs" "d \<in> set ds" for c k ds d
    proof -
      have "k \<noteq> l" using Cons.prems(2) that(2) by (force simp: x)
      moreover have "hm_get cbl k = Some ds" using get Cons.prems(1) that(2) by auto
      ultimately show ?thesis using cbl_okD(4) [OF assms cs that(1)] cbl_okD(4) [OF assms _ that(3), of k] by auto
    qed
    then show ?case using Cons cbl_okD(3) [OF assms cs] by (fastforce simp: x)
  qed simp
  then show ?thesis using wf by simp
qed

lemma bucket_has_image: "bucket_has a cs \<longleftrightarrow> a \<in> peer_addr ` set cs"
  by (auto simp: bucket_has_def list_ex_iff)

lemma is_in_ring_get:
  assumes "tables_ok m"
  shows "is_in_ring a m \<longleftrightarrow> (\<exists>loc cs. hm_get (location_for_peer m) a = Some loc
    \<and> hm_get (connections_by_location m) loc = Some cs \<and> bucket_has a cs)"
  using is_in_ring_iff [OF cbl_okD(1) [OF tables_okD(3) [OF assms]], of a] in_ring_located [OF tables_okD(3) [OF assms], of a]
  unfolding in_ring_def bucket_has_image by blast

text \<open>
  C9: whatever events a connection manager goes through, it never holds more connections than its
  maximum nor more transient connections than its budget, no address is connected twice, and its
  tables agree: an address is in the ring exactly when its recorded location leads to its
  connection, exactly then it has a connection time and health statistics, and it has no
  reservation left.
\<close>

theorem ring_tables_agree:
  fixes es :: "'k cm_event list" and mth :: f64_math and mn mx budget mr :: nat and addr :: "socket_addr option"
    and loc :: rat and gw :: bool and ttl :: duration and a :: socket_addr
  defines "s \<equiv> foldl (cm_step mth) (init_connection_manager mn mx addr loc gw budget ttl mr) es"
  shows "connection_count s \<le> mx \<and> length (transient_connections s) \<le> budget
    \<and> distinct (map peer_addr (concat (map snd (connections_by_location s))))
    \<and> (is_in_ring a s \<longleftrightarrow> (\<exists>loc cs. hm_get (location_for_peer s) a = Some loc
         \<and> hm_get (connections_by_location s) loc = Some cs \<and> bucket_has a cs))
    \<and> (is_in_ring a s \<longleftrightarrow> hm_has a (connected_since s)) \<and> (is_in_ring a s \<longleftrightarrow> hm_has a (peer_health s))
    \<and> \<not> (is_in_ring a s \<and> hm_has a (pending_reservations s))"
proof -
  have inv: "cm_inv s" "max_connections s = mx" "transient_budget s = budget"
    unfolding s_def using cm.reachable_inv by blast+
  note t = tables_okD [OF cm_invD(1) [OF inv(1)]]
  note ring = is_in_ring_iff [OF cbl_okD(1) [OF t(3)], of a]
  show ?thesis
    using cm_invD(2-4) [OF inv(1)] inv(2,3) t(4) [of a] is_in_ring_get [OF cm_invD(1) [OF inv(1)], of a] distinct_buckets [OF t(3)] ring
    unfolding tracked_ok_def transients_ok_def by metis
qed

lemma cleanup_view:
  fixes m :: "'k connection_manager" and now :: instant
  assumes inv: "cm_inv m"
  defines "m' \<equiv> snd (cleanup_stale_reservations now m)"
  shows "hm_has a (location_for_peer m') \<longleftrightarrow> hm_has a (location_for_peer m) \<and> has_connection_or_pending now a m"
    "hm_has a (pending_reservations m') \<longleftrightarrow> \<not> is_in_ring a m \<and> has_connection_or_pending now a m"
proof -
  note t = tables_okD [OF cm_invD(1) [OF inv]]
  note ring = is_in_ring_iff [OF cbl_okD(1) [OF t(3)], of a] is_in_ring_get [OF cm_invD(1) [OF inv], of a]
  have pend: "hm_get (pending_reservations m') a =
      (case hm_get (pending_reservations m) a of Some (l, c) \<Rightarrow> if saturating_since now c \<le> PENDING_RESERVATION_TTL then Some (l, c) else None | None \<Rightarrow> None)"
    by (simp add: m'_def cleanup_stale_reservations_def Let_def bt_get_retain [OF t(1)] split: option.split)
  have mem: "a \<in> fst ` set (pending_reservations m') \<longleftrightarrow> hm_get (pending_reservations m') a \<noteq> None"
    by (simp add: map_of_eq_None_iff)
  have loc: "hm_get (location_for_peer m') a =
      (case hm_get (location_for_peer m) a of
         Some l \<Rightarrow> if (case hm_get (connections_by_location m) l of Some cs \<Rightarrow> bucket_has a cs | None \<Rightarrow> False)
                     \<or> hm_get (pending_reservations m') a \<noteq> None then Some l else None
       | None \<Rightarrow> None)"
    using mem by (simp add: m'_def cleanup_stale_reservations_def Let_def bt_get_retain [OF t(2)] split: option.split)
  show "hm_has a (location_for_peer m') \<longleftrightarrow> hm_has a (location_for_peer m) \<and> has_connection_or_pending now a m"
    unfolding has_connection_or_pending_def hm_has_def loc pend by (auto split: option.splits)
  show "hm_has a (pending_reservations m') \<longleftrightarrow> \<not> is_in_ring a m \<and> has_connection_or_pending now a m"
    unfolding has_connection_or_pending_def hm_has_def pend using t(4) [of a] ring
    by (auto simp: hm_has_def split: option.splits)
qed

text \<open>
  C28: in any reachable state, clearing stale reservations at \<open>now\<close> keeps the recorded location of
  exactly those addresses that are connected or hold a live reservation; afterwards an address that
  is neither has no entry left in either table, so that an old entry cannot make the node refuse it
  for good, and the ring itself is untouched.
\<close>

theorem cleanup_leaves_no_phantoms:
  fixes es :: "'k cm_event list" and mth :: f64_math and mn mx budget mr :: nat and addr :: "socket_addr option"
    and loc :: rat and gw :: bool and ttl :: duration and a :: socket_addr and now :: instant
  defines "s \<equiv> foldl (cm_step mth) (init_connection_manager mn mx addr loc gw budget ttl mr) es"
  defines "s' \<equiv> snd (cleanup_stale_reservations now s)"
  shows "(hm_has a (location_for_peer s') \<longleftrightarrow> hm_has a (location_for_peer s) \<and> has_connection_or_pending now a s)
    \<and> (hm_has a (location_for_peer s') \<or> hm_has a (pending_reservations s') \<longleftrightarrow> has_connection_or_pending now a s)
    \<and> (is_in_ring a s' \<longleftrightarrow> is_in_ring a s)"
proof -
  have inv: "cm_inv s" unfolding s_def using cm.reachable_inv by blast
  have ring: "is_in_ring a s' \<longleftrightarrow> is_in_ring a s"
    by (simp add: s'_def cleanup_stale_reservations_def Let_def is_in_ring_def)
  have "is_in_ring a s \<Longrightarrow> hm_has a (location_for_peer s)"
    using is_in_ring_get [OF cm_invD(1) [OF inv], of a] by (auto simp: hm_has_def)
  then show ?thesis using cleanup_view [OF inv, of a now] ring unfolding s'_def by blast
qed

section \<open>Acceptance keeps room\<close>

lemma live_sum:
  "live_reservations now m =
    hm_sum (\<lambda>(_, created). if saturating_since now created \<le> PENDING_RESERVATION_TTL then 1 else 0) (pending_reservations m)"
proof -
  have "length (filter (\<lambda>(_, (_, created)). saturating_since now created \<le> PENDING_RESERVATION_TTL) xs) =
      hm_sum (\<lambda>(_, created). if saturating_since now created \<le> PENDING_RESERVATION_TTL then 1 else 0) xs"
    for xs :: "(socket_addr \<times> (location \<times> instant)) list"
    by (induction xs) (auto simp: hm_sum_def)
  then show ?thesis by (simp add: live_reservations_def)
qed

lemma live_put:
  assumes "bt_wf (pending_reservations m)" "pending_reservations m' = bt_put addr (loc, now) (pending_reservations m)"
  shows "live_reservations now m' \<le> live_reservations now m + 1"
  using bt_sum_put [OF assms(1), of "\<lambda>(_, created). if saturating_since now created \<le> PENDING_RESERVATION_TTL then 1 else 0" addr "(loc, now)"]
  by (auto simp: live_sum assms(2) split: option.splits if_splits)

lemma accept_decision_room: "fst (accept_decision mth draw now loc n_open n_total m) \<Longrightarrow> n_total < max_connections m"
  by (auto simp: accept_decision_def split: if_splits)

lemma record_pending_fields [simp]:
  "pending_reservations (record_pending_location addr loc m) = pending_reservations m"
  "connections_by_location (record_pending_location addr loc m) = connections_by_location m"
  "hm_has addr (location_for_peer (record_pending_location addr loc m))"
  by (auto simp: record_pending_location_def hm_has_def hm_simps split: option.split)

lemma accepted_shape:
  assumes acc: "fst (should_accept mth draw now loc addr m)" and one: "0 < connection_count m"
  shows "own_addr m \<noteq> Some addr" "\<not> hm_has addr (location_for_peer m)"
    "live_reservations now m + 1 + connection_count m < max_connections m"
    "pending_reservations (snd (should_accept mth draw now loc addr m)) = bt_put addr (loc, now) (pending_reservations m)"
    "connections_by_location (snd (should_accept mth draw now loc addr m)) = connections_by_location m"
    "hm_has addr (location_for_peer (snd (should_accept mth draw now loc addr m)))"
proof -
  let ?m1 = "m\<lparr>pending_reservations := bt_put addr (loc, now) (pending_reservations m)\<rparr>"
  let ?d = "accept_decision mth draw now loc (connection_count m) (live_reservations now m + 1 + connection_count m) ?m1"
  show known: "own_addr m \<noteq> Some addr" "\<not> hm_has addr (location_for_peer m)"
    using acc by (auto simp: should_accept_def split: if_splits)
  have r: "should_accept mth draw now loc addr m = (True, record_pending_location addr loc (snd ?d)) \<and> fst ?d"
    using acc one known by (auto simp: should_accept_def Let_def split_beta split: if_splits)
  obtain t where t: "snd ?d = ?m1\<lparr>topology_manager := t\<rparr>" using accept_decision_frame by blast
  show "live_reservations now m + 1 + connection_count m < max_connections m"
    using accept_decision_room [OF conjunct2 [OF r]] by simp
  show "pending_reservations (snd (should_accept mth draw now loc addr m)) = bt_put addr (loc, now) (pending_reservations m)"
    "connections_by_location (snd (should_accept mth draw now loc addr m)) = connections_by_location m"
    "hm_has addr (location_for_peer (snd (should_accept mth draw now loc addr m)))"
    using r t by simp_all
qed



text \<open>
  A node that has at least one connection but fewer than three (and fewer than its minimum) takes
  any peer it does not know while there is room.
\<close>

lemma bootstrap_accepts:
  assumes "own_addr m \<noteq> Some addr" "\<not> hm_has addr (location_for_peer m)" "connection_count m < KLEINBERG_FILTER_MIN_CONNECTIONS"
    "connection_count m < min_connections m" "live_reservations now m + 1 + connection_count m < max_connections m"
    "max_connections m \<le> u64_max"
  shows "fst (should_accept mth draw now loc addr m)"
  using assms by (simp add: should_accept_def accept_decision_def Let_def split_beta)

text \<open>A peer that is only pending is added even by a full node; both callers check the maximum themselves.\<close>

lemma pending_peer_passes_the_cap:
  assumes "hm_has addr (location_for_peer m)"
  shows "fst (add_connection now loc addr key was_reserved m)"
  using assms by (auto simp: add_connection_def Let_def hm_has_def)

text \<open>The identity of a peer is not updated at its own address, whatever key it presents.\<close>

lemma identity_not_updated_in_place: "update_peer_identity now addr addr key m = (False, m)"
  by (simp add: update_peer_identity_def)

section \<open>Routing\<close>

definition pick_ok :: "(location \<Rightarrow> nat \<Rightarrow> nat) \<Rightarrow> bool" where
  "pick_ok pick \<longleftrightarrow> (\<forall>loc n. 0 < n \<longrightarrow> pick loc n < n)"

lemma candidate_at_props:
  assumes pick: "pick_ok pick" and c: "candidate_at now pick requesting skip check m (loc, conns) = Some (c, ready)"
  shows "c \<in> set conns" "\<not> hm_has (peer_addr c) (transient_connections m)" "requesting \<noteq> Some (peer_addr c)"
    "\<not> skip (peer_addr c)" "ready \<longleftrightarrow> \<not> check \<or> is_peer_ready now (peer_addr c) m"
proof -
  let ?cs = "sort_key peer_addr conns"
  have ne: "?cs \<noteq> []" and c': "c = ?cs ! pick loc (length ?cs)"
    using c by (auto simp: candidate_at_def Let_def split: if_splits)
  then have "pick loc (length ?cs) < length ?cs" using pick by (metis length_greater_0_conv pick_ok_def)
  then show "c \<in> set conns" using nth_mem [of "pick loc (length ?cs)" ?cs] c' by simp
  show "\<not> hm_has (peer_addr c) (transient_connections m)" "requesting \<noteq> Some (peer_addr c)"
    "\<not> skip (peer_addr c)" "ready \<longleftrightarrow> \<not> check \<or> is_peer_ready now (peer_addr c) m"
    using c by (auto simp: candidate_at_def Let_def split: if_splits)
qed

lemma set_fallback:
  "\<exists>ready. (ready \<or> check) \<and> set (if check \<and> map fst (filter snd found) = [] \<and> map fst (filter (Not \<circ> snd) found) \<noteq> []
     then map fst (filter (Not \<circ> snd) found) else map fst (filter snd found)) = {c. (c, ready) \<in> set found}"
    (is "\<exists>ready. _ \<and> set (if ?fallback then _ else _) = _")
proof (cases ?fallback)
  case True
  have "set (map fst (filter (Not \<circ> snd) found)) = {c. (c, False) \<in> set found}" by force
  then show ?thesis unfolding if_P [OF True] using True by blast
next
  case False
  have "set (map fst (filter snd found)) = {c. (c, True) \<in> set found}" by force
  then show ?thesis unfolding if_not_P [OF False] by blast
qed

lemma routing_from:
  "\<exists>ready. (ready \<or> check) \<and> set (routing_candidates now pick requesting skip check m) =
     {c. \<exists>e \<in> set (connections_by_location m). candidate_at now pick requesting skip check m e = Some (c, ready)}"
  using set_fallback [of check "List.map_filter (candidate_at now pick requesting skip check m) (connections_by_location m)"]
  by (simp only: routing_candidates_def Let_def set_map_filter mem_Collect_eq)

text \<open>
  in any reachable state, every routing candidate is a peer connected to the ring and none is
  transient, the requester or on the skip list; and when readiness is asked for and some connection
  drawn is ready, all candidates are.
\<close>

theorem routing_candidates_sound:
  fixes es :: "'k cm_event list" and mth :: f64_math and mn mx budget mr :: nat and own :: "socket_addr option"
    and l :: rat and gw :: bool and ttl :: duration and now :: instant
  defines "s \<equiv> foldl (cm_step mth) (init_connection_manager mn mx own l gw budget ttl mr) es"
  assumes pick: "pick_ok pick" and c: "c \<in> set (routing_candidates now pick requesting skip check s)"
  shows "is_in_ring (peer_addr c) s \<and> \<not> hm_has (peer_addr c) (transient_connections s)
    \<and> requesting \<noteq> Some (peer_addr c) \<and> \<not> skip (peer_addr c)
    \<and> (\<not> check \<or> is_peer_ready now (peer_addr c) s
       \<or> (\<forall>d \<in> set (routing_candidates now pick requesting skip check s). \<not> is_peer_ready now (peer_addr d) s))"
proof -
  let ?rc = "routing_candidates now pick requesting skip check s"
  obtain ready where r: "ready \<or> check"
    "set ?rc = {c. \<exists>e \<in> set (connections_by_location s). candidate_at now pick requesting skip check s e = Some (c, ready)}"
    using routing_from [of check now pick requesting skip s] by (elim exE conjE)
  have at: "is_in_ring (peer_addr d) s \<and> \<not> hm_has (peer_addr d) (transient_connections s) \<and> requesting \<noteq> Some (peer_addr d)
      \<and> \<not> skip (peer_addr d) \<and> (ready \<longleftrightarrow> \<not> check \<or> is_peer_ready now (peer_addr d) s)" if d: "d \<in> set ?rc" for d
  proof -
    obtain loc conns where e: "(loc, conns) \<in> set (connections_by_location s)"
      "candidate_at now pick requesting skip check s (loc, conns) = Some (d, ready)"
      using d [unfolded r(2) mem_Collect_eq] by force
    have "is_in_ring (peer_addr d) s"
      unfolding is_in_ring_def list_ex_iff
      using candidate_at_props(1) [OF pick e(2)] by (intro bexI [OF _ e(1)]) (auto simp: bucket_has_image)
    then show ?thesis using candidate_at_props(2-5) [OF pick e(2)] by simp
  qed
  show ?thesis
  proof (cases ready)
    case False
    then have "\<not> is_peer_ready now (peer_addr d) s" if "d \<in> set ?rc" for d using at [OF that] by simp
    then show ?thesis using at [OF c] by simp
  qed (use at [OF c] in auto)
qed

theorem routing_candidates_sound_witness:
  "is_in_ring (V4 1 1) (foldl (cm_step linear_math) (init_connection_manager 4 8 None (- 1) False 2 9 0) [Promote_Established 1 False (V4 1 1) ()])"
proof -
  let ?s = "foldl (cm_step linear_math) (init_connection_manager 4 8 None (- 1) False 2 9 0) [Promote_Established 1 False (V4 1 1) ()]"
  let ?c = "\<lparr>pub_key = (), peer_addr = V4 1 1, connected_at = 1\<rparr>"
  have "pick_ok (\<lambda>_ _. 0)" by (simp add: pick_ok_def)
  moreover have "?c \<in> set (routing_candidates 5 (\<lambda>_ _. 0) None (\<lambda>_. False) False ?s)"
    by (simp add: promote_established_def prune_in_transit_connection_def prune_connection_def init_connection_manager_def
        connection_count_def add_connection_def push_connection_def drop_transient_def Let_def routing_candidates_def
        candidate_at_def map_filter_simps hm_has_def)
  ultimately show ?thesis
    using routing_candidates_sound [of "\<lambda>_ _. 0" ?c 5 None "\<lambda>_. False" False linear_math 4 8 None "- 1" False 2 9 0
        "[Promote_Established 1 False (V4 1 1) ()]"] by simp
qed

end
