(* ===== verification/Router.thy ===== *)
theory Router
  imports Ring_Location "HOL-Library.Multiset"
begin

text \<open>
  Peers and how the node ranks them for a target: \<open>ring/peer_key_location.rs\<close>,
  \<open>router/isotonic_estimator.rs\<close>, \<open>router/util.rs\<close> and \<open>router.rs\<close>.  The isotonic regression of the
  \<open>pav_regression\<close> crate is an argument: it answers from the points it was given, in their order.
  A double that may become infinite or not a number is an \<open>f64x\<close>; the sign of zero is left out.
  The shuffle of a list is an argument too, as the permutation of its indices.

  Shown: the router selects the best peers of the pool its strategy considers, as many as asked for,
  each at most as often as it was offered.
\<close>

declare map_of_eq_Some_iff [simp del] and Some_eq_map_of_iff [simp del]

section \<open>Peers\<close>

datatype peer_addr = Unknown | Known socket_addr

record 'k peer_key_location =
  pkl_key :: 'k
  pkl_addr :: peer_addr

definition pkl_socket_addr :: "'k peer_key_location \<Rightarrow> socket_addr option" where
  "pkl_socket_addr p = (case pkl_addr p of Known addr \<Rightarrow> Some addr | Unknown \<Rightarrow> None)"

definition pkl_location :: "'k peer_key_location \<Rightarrow> location option" where
  "pkl_location p = map_option from_address (pkl_socket_addr p)"

definition pkl_new :: "'k \<Rightarrow> socket_addr \<Rightarrow> 'k peer_key_location" where
  "pkl_new key addr = \<lparr>pkl_key = key, pkl_addr = Known addr\<rparr>"

definition with_unknown_addr :: "'k \<Rightarrow> 'k peer_key_location" where
  "with_unknown_addr key = \<lparr>pkl_key = key, pkl_addr = Unknown\<rparr>"

definition set_addr :: "socket_addr \<Rightarrow> 'k peer_key_location \<Rightarrow> 'k peer_key_location" where
  "set_addr addr p = p\<lparr>pkl_addr := Known addr\<rparr>"

section \<open>Doubles with infinities\<close>

datatype f64x = Fin rat | PosInf | NegInf | NaN

definition inf_of :: "bool \<Rightarrow> f64x" where
  "inf_of positive = (if positive then PosInf else NegInf)"

fun xadd :: "f64x \<Rightarrow> f64x \<Rightarrow> f64x" where
  "xadd (Fin a) (Fin b) = Fin (f64_add a b)"
| "xadd NaN y = NaN"
| "xadd x NaN = NaN"
| "xadd PosInf NegInf = NaN"
| "xadd NegInf PosInf = NaN"
| "xadd PosInf y = PosInf"
| "xadd NegInf y = NegInf"
| "xadd x PosInf = PosInf"
| "xadd x NegInf = NegInf"

fun xneg :: "f64x \<Rightarrow> f64x" where
  "xneg (Fin a) = Fin (- a)"
| "xneg PosInf = NegInf"
| "xneg NegInf = PosInf"
| "xneg NaN = NaN"

definition xsub :: "f64x \<Rightarrow> f64x \<Rightarrow> f64x" where
  "xsub x y = xadd x (xneg y)"

fun xmul :: "f64x \<Rightarrow> f64x \<Rightarrow> f64x" where
  "xmul (Fin a) (Fin b) = Fin (f64_mul a b)"
| "xmul NaN y = NaN"
| "xmul x NaN = NaN"
| "xmul (Fin a) y = (if a = 0 then NaN else inf_of (0 < a \<longleftrightarrow> y = PosInf))"
| "xmul x (Fin b) = (if b = 0 then NaN else inf_of (0 < b \<longleftrightarrow> x = PosInf))"
| "xmul x y = inf_of (x = y)"

fun xdiv :: "f64x \<Rightarrow> f64x \<Rightarrow> f64x" where
  "xdiv (Fin a) (Fin b) = (if b \<noteq> 0 then Fin (f64_div a b) else if a = 0 then NaN else inf_of (0 < a))"
| "xdiv NaN y = NaN"
| "xdiv x NaN = NaN"
| "xdiv (Fin a) y = Fin 0"
| "xdiv x (Fin b) = inf_of (0 \<le> b \<longleftrightarrow> x = PosInf)"
| "xdiv x y = NaN"

text \<open>\<open>f64::max\<close> with zero: a number wins over \<open>NaN\<close>.\<close>

fun xmax0 :: "f64x \<Rightarrow> f64x" where
  "xmax0 (Fin a) = Fin (max a 0)"
| "xmax0 PosInf = PosInf"
| "xmax0 NegInf = Fin 0"
| "xmax0 NaN = Fin 0"

definition xclamp01 :: "f64x \<Rightarrow> f64x" where
  "xclamp01 x = (case x of Fin a \<Rightarrow> Fin (if a < 0 then 0 else if 1 < a then 1 else a) | PosInf \<Rightarrow> Fin 1 | NegInf \<Rightarrow> Fin 0 | NaN \<Rightarrow> NaN)"

datatype ordering = Less | Equal | Greater

definition rat_cmp :: "rat \<Rightarrow> rat \<Rightarrow> ordering" where
  "rat_cmp a b = (if a < b then Less else if a = b then Equal else Greater)"

fun partial_cmp :: "f64x \<Rightarrow> f64x \<Rightarrow> ordering option" where
  "partial_cmp NaN y = None"
| "partial_cmp x NaN = None"
| "partial_cmp (Fin a) (Fin b) = Some (rat_cmp a b)"
| "partial_cmp NegInf NegInf = Some Equal"
| "partial_cmp NegInf y = Some Less"
| "partial_cmp x NegInf = Some Greater"
| "partial_cmp PosInf PosInf = Some Equal"
| "partial_cmp PosInf y = Some Greater"
| "partial_cmp x PosInf = Some Less"

text \<open>\<open>sort_by\<close> is the stable sort; of a comparison that is no total order it is one possible result.\<close>

fun insert_by :: "('a \<Rightarrow> 'a \<Rightarrow> ordering) \<Rightarrow> 'a \<Rightarrow> 'a list \<Rightarrow> 'a list" where
  "insert_by cmp x [] = [x]"
| "insert_by cmp x (y # ys) = (if cmp x y = Greater then y # insert_by cmp x ys else x # y # ys)"

definition sort_by :: "('a \<Rightarrow> 'a \<Rightarrow> ordering) \<Rightarrow> 'a list \<Rightarrow> 'a list" where
  "sort_by cmp xs = foldr (insert_by cmp) xs []"

definition shuffle_by :: "(nat \<Rightarrow> nat list) \<Rightarrow> 'a list \<Rightarrow> 'a list" where
  "shuffle_by perm xs = map ((!) xs) (perm (length xs))"

section \<open>Estimators\<close>

datatype estimator_type = Positive | Negative

type_synonym points = "(rat \<times> f64x) list"

record pav =
  regression_new :: "estimator_type \<Rightarrow> points \<Rightarrow> bool"
  regression_len :: "estimator_type \<Rightarrow> points \<Rightarrow> nat"
  regression_at :: "estimator_type \<Rightarrow> points \<Rightarrow> rat \<Rightarrow> f64x option"

definition MIN_POINTS_FOR_REGRESSION :: nat where
  "MIN_POINTS_FOR_REGRESSION = 5"

definition ADJUSTMENT_PRIOR_SIZE :: nat where
  "ADJUSTMENT_PRIOR_SIZE = 10"

record adjustment =
  adj_sum :: f64x
  adj_count :: nat

record 'k isotonic_event =
  ie_peer :: "'k peer_key_location"
  ie_contract_location :: location
  ie_result :: f64x

record 'k isotonic_estimator =
  est_type :: estimator_type
  est_points :: points
  peer_adjustments :: "('k peer_key_location, adjustment) hmap"

definition adjustment_new :: adjustment where
  "adjustment_new = \<lparr>adj_sum = Fin 0, adj_count = 0\<rparr>"

definition adjustment_add :: "f64x \<Rightarrow> adjustment \<Rightarrow> adjustment" where
  "adjustment_add value a = \<lparr>adj_sum = xadd (adj_sum a) value, adj_count = adj_count a + 1\<rparr>"

definition adjustment_mean :: "adjustment \<Rightarrow> f64x" where
  "adjustment_mean a = (if adj_count a = 0 then Fin 0 else xdiv (adj_sum a) (Fin (f64_of_nat (adj_count a))))"

text \<open>\<open>None\<close> is a panic: an event always carries the location of its peer.\<close>

definition route_distance :: "'k isotonic_event \<Rightarrow> rat option" where
  "route_distance e = map_option (distance (ie_contract_location e)) (pkl_location (ie_peer e))"

definition est_len :: "pav \<Rightarrow> 'k isotonic_estimator \<Rightarrow> nat" where
  "est_len P e = regression_len P (est_type e) (est_points e)"

definition est_at :: "pav \<Rightarrow> 'k isotonic_estimator \<Rightarrow> rat \<Rightarrow> f64x option" where
  "est_at P e x = regression_at P (est_type e) (est_points e) x"

fun event_points :: "'k isotonic_event list \<Rightarrow> points option" where
  "event_points [] = Some []"
| "event_points (e # es) =
     (case route_distance e of
        None \<Rightarrow> None
      | Some d \<Rightarrow> map_option (\<lambda>ps. (d, ie_result e) # ps) (event_points es))"

text \<open>The adjustment of a peer over its events, starting from the payload of the prior.\<close>

fun sum_adjustments :: "(rat \<Rightarrow> f64x option) \<Rightarrow> 'k isotonic_event list \<Rightarrow> adjustment \<Rightarrow> adjustment option" where
  "sum_adjustments f [] a = Some a"
| "sum_adjustments f (e # es) a =
     (case Option.bind (route_distance e) f of
        None \<Rightarrow> None
      | Some g \<Rightarrow> sum_adjustments f es (adjustment_add (xsub (ie_result e) g) a))"

fun group_adjustments ::
  "(rat \<Rightarrow> f64x option) \<Rightarrow> 'k isotonic_event list \<Rightarrow> 'k peer_key_location list \<Rightarrow>
   ('k peer_key_location, adjustment) hmap option" where
  "group_adjustments f es [] = Some []"
| "group_adjustments f es (p # ps) =
     (case sum_adjustments f (filter (\<lambda>e. ie_peer e = p) es) \<lparr>adj_sum = Fin 0, adj_count = ADJUSTMENT_PRIOR_SIZE\<rparr> of
        None \<Rightarrow> None
      | Some a \<Rightarrow> map_option (hm_put p a) (group_adjustments f es ps))"

definition estimator_new :: "pav \<Rightarrow> 'k isotonic_event list \<Rightarrow> estimator_type \<Rightarrow> 'k isotonic_estimator option" where
  "estimator_new P history ty =
     (case event_points history of
        None \<Rightarrow> None
      | Some pts \<Rightarrow>
          if \<not> regression_new P ty pts then None
          else if regression_len P ty pts < ADJUSTMENT_PRIOR_SIZE
          then Some \<lparr>est_type = ty, est_points = pts, peer_adjustments = []\<rparr>
          else map_option (\<lambda>adj. \<lparr>est_type = ty, est_points = pts, peer_adjustments = adj\<rparr>)
                 (group_adjustments (regression_at P ty pts) history (remdups (map ie_peer history))))"

definition add_event :: "pav \<Rightarrow> 'k isotonic_event \<Rightarrow> 'k isotonic_estimator \<Rightarrow> 'k isotonic_estimator option" where
  "add_event P ev e =
     (case route_distance ev of
        None \<Rightarrow> None
      | Some d \<Rightarrow>
          (let e = e\<lparr>est_points := est_points e @ [(d, ie_result ev)]\<rparr>
           in if est_len P e < ADJUSTMENT_PRIOR_SIZE then Some e
              else (case est_at P e d of
                      None \<Rightarrow> None
                    | Some g \<Rightarrow>
                        (let old = (case hm_get (peer_adjustments e) (ie_peer ev) of Some a \<Rightarrow> a | None \<Rightarrow> adjustment_new)
                         in Some (e\<lparr>peer_adjustments :=
                                hm_put (ie_peer ev) (adjustment_add (xsub (ie_result ev) g) old) (peer_adjustments e)\<rparr>)))))"

definition estimate_retrieval_time :: "pav \<Rightarrow> 'k isotonic_estimator \<Rightarrow> 'k peer_key_location \<Rightarrow> location \<Rightarrow> f64x option" where
  "estimate_retrieval_time P e peer loc =
     (if est_len P e < MIN_POINTS_FOR_REGRESSION then None
      else case pkl_location peer of
             None \<Rightarrow> None
           | Some l \<Rightarrow>
               (case est_at P e (distance loc l) of
                  None \<Rightarrow> None
                | Some g \<Rightarrow>
                    (let g = xmax0 g
                     in case hm_get (peer_adjustments e) peer of
                          None \<Rightarrow> Some g
                        | Some a \<Rightarrow> Some (xadd g (if MIN_POINTS_FOR_REGRESSION \<le> adj_count a then adjustment_mean a else Fin 0)))))"

section \<open>The router\<close>

record mean =
  mean_sum :: rat
  mean_count :: nat

definition mean_add :: "rat \<Rightarrow> mean \<Rightarrow> mean" where
  "mean_add value m = \<lparr>mean_sum = f64_add (mean_sum m) value, mean_count = mean_count m + 1\<rparr>"

definition mean_add_with_count :: "rat \<Rightarrow> nat \<Rightarrow> mean \<Rightarrow> mean" where
  "mean_add_with_count v n m = \<lparr>mean_sum = f64_add (mean_sum m) v, mean_count = mean_count m + n\<rparr>"

definition mean_compute :: "mean \<Rightarrow> f64x" where
  "mean_compute m = xdiv (Fin (mean_sum m)) (Fin (f64_of_nat (mean_count m)))"

datatype route_outcome =
    Success duration nat duration
  | SuccessUntimed
  | Failure

record 'k route_event =
  re_peer :: "'k peer_key_location"
  re_contract_location :: location
  re_outcome :: route_outcome

record 'k router =
  response_start_time_estimator :: "'k isotonic_estimator"
  transfer_rate_estimator :: "'k isotonic_estimator"
  failure_estimator :: "'k isotonic_estimator"
  mean_transfer_size :: mean
  consider_n_closest_peers :: nat

record routing_prediction =
  failure_probability :: f64x
  xfer_speed :: f64x
  time_to_response_start :: f64x
  expected_total_time :: f64x

definition transfer_rate :: "nat \<Rightarrow> duration \<Rightarrow> f64x" where
  "transfer_rate payload t = xdiv (Fin (f64_of_nat payload)) (Fin (as_secs_f64 t))"

definition event_with :: "'k route_event \<Rightarrow> f64x \<Rightarrow> 'k isotonic_event" where
  "event_with re r = \<lparr>ie_peer = re_peer re, ie_contract_location = re_contract_location re, ie_result = r\<rparr>"

definition failure_outcomes :: "'k route_event list \<Rightarrow> 'k isotonic_event list" where
  "failure_outcomes history = map (\<lambda>re. event_with re (Fin (if re_outcome re = Failure then 1 else 0))) history"

definition success_durations :: "'k route_event list \<Rightarrow> 'k isotonic_event list" where
  "success_durations history =
     List.map_filter (\<lambda>re. case re_outcome re of Success t _ _ \<Rightarrow> Some (event_with re (Fin (as_secs_f64 t))) | _ \<Rightarrow> None) history"

definition transfer_rates :: "'k route_event list \<Rightarrow> 'k isotonic_event list" where
  "transfer_rates history =
     List.map_filter (\<lambda>re. case re_outcome re of Success _ payload t \<Rightarrow> Some (event_with re (transfer_rate payload t)) | _ \<Rightarrow> None) history"

definition mean_of_history :: "'k route_event list \<Rightarrow> mean" where
  "mean_of_history history =
     foldl (\<lambda>m re. case re_outcome re of Success _ payload _ \<Rightarrow> mean_add (f64_of_nat payload) m | _ \<Rightarrow> m)
       (mean_add_with_count 1000 10 \<lparr>mean_sum = 0, mean_count = 0\<rparr>) history"

definition router_new :: "pav \<Rightarrow> 'k route_event list \<Rightarrow> 'k router option" where
  "router_new P history =
     (case (estimator_new P (success_durations history) Positive, estimator_new P (failure_outcomes history) Positive,
            estimator_new P (transfer_rates history) Negative) of
        (Some time, Some failure, Some rate) \<Rightarrow>
          Some \<lparr>response_start_time_estimator = time, transfer_rate_estimator = rate, failure_estimator = failure,
                mean_transfer_size = mean_of_history history, consider_n_closest_peers = 5\<rparr>
      | _ \<Rightarrow> None)"

definition has_sufficient_routing_events :: "pav \<Rightarrow> 'k router \<Rightarrow> bool" where
  "has_sufficient_routing_events P r = (50 \<le> est_len P (failure_estimator r))"

definition router_add_event :: "pav \<Rightarrow> 'k route_event \<Rightarrow> 'k router \<Rightarrow> 'k router option" where
  "router_add_event P re r =
     (case re_outcome re of
        Success t payload tt \<Rightarrow>
          (case (add_event P (event_with re (Fin (as_secs_f64 t))) (response_start_time_estimator r),
                 add_event P (event_with re (Fin 0)) (failure_estimator r),
                 add_event P (event_with re (transfer_rate payload tt)) (transfer_rate_estimator r)) of
             (Some time, Some failure, Some rate) \<Rightarrow>
               Some (r\<lparr>response_start_time_estimator := time, failure_estimator := failure,
                       mean_transfer_size := mean_add (f64_of_nat payload) (mean_transfer_size r),
                       transfer_rate_estimator := rate\<rparr>)
           | _ \<Rightarrow> None)
      | outcome \<Rightarrow>
          map_option (\<lambda>e. r\<lparr>failure_estimator := e\<rparr>)
            (add_event P (event_with re (Fin (if outcome = Failure then 1 else 0))) (failure_estimator r)))"

definition predict_routing_outcome :: "pav \<Rightarrow> 'k router \<Rightarrow> 'k peer_key_location \<Rightarrow> location \<Rightarrow> routing_prediction option" where
  "predict_routing_outcome P r peer target =
     (if \<not> has_sufficient_routing_events P r then None
      else case estimate_retrieval_time P (failure_estimator r) peer target of
             None \<Rightarrow> None
           | Some failure \<Rightarrow>
               Some (case (estimate_retrieval_time P (response_start_time_estimator r) peer target,
                           estimate_retrieval_time P (transfer_rate_estimator r) peer target) of
                       (Some time, Some rate) \<Rightarrow>
                         \<lparr>failure_probability = failure, xfer_speed = rate, time_to_response_start = time,
                          expected_total_time =
                            xadd (xadd time (xdiv (mean_compute (mean_transfer_size r)) rate))
                              (xmul (xmul time failure) (Fin 3))\<rparr>
                     | _ \<Rightarrow>
                         \<lparr>failure_probability = failure, xfer_speed = Fin 0, time_to_response_start = Fin 0,
                          expected_total_time = xmul failure (Fin 3)\<rparr>))"

text \<open>The distance that ranks a peer: a peer without a location counts as half the ring away.\<close>

definition peer_distance :: "location \<Rightarrow> 'k peer_key_location \<Rightarrow> rat" where
  "peer_distance target p = (case pkl_location p of Some l \<Rightarrow> distance target l | None \<Rightarrow> 1 / 2)"

definition select_closest_peers ::
  "(nat \<Rightarrow> nat list) \<Rightarrow> 'k router \<Rightarrow> 'k peer_key_location list \<Rightarrow> location \<Rightarrow> 'k peer_key_location list" where
  "select_closest_peers perm r peers target =
     take (consider_n_closest_peers r)
       (sort_by (\<lambda>a b. rat_cmp (peer_distance target a) (peer_distance target b)) (shuffle_by perm peers))"

definition tried_cmp :: "'k router \<Rightarrow> location \<Rightarrow> 'k peer_key_location \<Rightarrow> 'k peer_key_location \<Rightarrow> ordering" where
  "tried_cmp r target a b =
     (let fa = hm_has a (peer_adjustments (failure_estimator r)); fb = hm_has b (peer_adjustments (failure_estimator r))
      in if fa = fb then rat_cmp (peer_distance target a) (peer_distance target b)
         else if fb then Less else Greater)"

text \<open>\<open>f64::MAX\<close> ranks a peer without a prediction.\<close>

definition F64_MAX :: rat where
  "F64_MAX = (2 ^ 53 - 1) * 2 ^ 971"

definition predicted_time :: "pav \<Rightarrow> 'k router \<Rightarrow> location \<Rightarrow> 'k peer_key_location \<Rightarrow> f64x" where
  "predicted_time P r target p =
     (case predict_routing_outcome P r p target of Some pr \<Rightarrow> expected_total_time pr | None \<Rightarrow> Fin F64_MAX)"

definition time_cmp :: "pav \<Rightarrow> 'k router \<Rightarrow> location \<Rightarrow> 'k peer_key_location \<Rightarrow> 'k peer_key_location \<Rightarrow> ordering" where
  "time_cmp P r target a b =
     (case partial_cmp (predicted_time P r target a) (predicted_time P r target b) of Some c \<Rightarrow> c | None \<Rightarrow> Equal)"

definition select_k_best_peers ::
  "pav \<Rightarrow> (nat \<Rightarrow> nat list) \<Rightarrow> 'k router \<Rightarrow> 'k peer_key_location list \<Rightarrow> location \<Rightarrow> nat \<Rightarrow> 'k peer_key_location list" where
  "select_k_best_peers P perm r peers target k =
     (if k = 0 then []
      else if \<not> has_sufficient_routing_events P r
      then take k (sort_by (tried_cmp r target)
             (shuffle_by perm (filter (\<lambda>p. pkl_location p \<noteq> None) peers)))
      else take k (sort_by (time_cmp P r target) (select_closest_peers perm r peers target)))"

definition select_peer ::
  "pav \<Rightarrow> (nat \<Rightarrow> nat list) \<Rightarrow> 'k router \<Rightarrow> 'k peer_key_location list \<Rightarrow> location \<Rightarrow> 'k peer_key_location option" where
  "select_peer P perm r peers target =
     (case select_k_best_peers P perm r peers target 1 of [] \<Rightarrow> None | p # _ \<Rightarrow> Some p)"

section \<open>Sorting by a comparison\<close>

lemma mset_insert_by: "mset (insert_by cmp x xs) = add_mset x (mset xs)"
  by (induction xs) auto

lemma mset_sort_by [simp]: "mset (sort_by cmp xs) = mset xs"
  by (induction xs) (simp_all add: sort_by_def mset_insert_by)

lemma set_sort_by [simp]: "set (sort_by cmp xs) = set xs"
  by (metis mset_sort_by set_mset_mset)

lemma length_sort_by [simp]: "length (sort_by cmp xs) = length xs"
  by (metis mset_sort_by size_mset)

text \<open>A comparison that ranks the elements of a set.\<close>

locale ranking =
  fixes cmp :: "'a \<Rightarrow> 'a \<Rightarrow> ordering" and S :: "'a set"
  assumes cmp_total: "a \<in> S \<Longrightarrow> b \<in> S \<Longrightarrow> cmp a b = Greater \<Longrightarrow> cmp b a \<noteq> Greater"
    and cmp_trans: "a \<in> S \<Longrightarrow> b \<in> S \<Longrightarrow> c \<in> S \<Longrightarrow> cmp a b \<noteq> Greater \<Longrightarrow> cmp b c \<noteq> Greater \<Longrightarrow> cmp a c \<noteq> Greater"
begin

lemma sorted_insert_by:
  assumes "x \<in> S" "set xs \<subseteq> S" "sorted_wrt (\<lambda>a b. cmp a b \<noteq> Greater) xs"
  shows "sorted_wrt (\<lambda>a b. cmp a b \<noteq> Greater) (insert_by cmp x xs)"
  using assms
proof (induction xs)
  case (Cons y ys)
  have set: "set (insert_by cmp x ys) = insert x (set ys)"
    by (metis mset_insert_by set_mset_add_mset_insert set_mset_mset)
  show ?case
  proof (cases "cmp x y = Greater")
    case True
    then show ?thesis using Cons cmp_total [of x y] by (simp add: set)
  next
    case False
    then have "\<forall>z \<in> set ys. cmp x z \<noteq> Greater" using Cons.prems cmp_trans [of x y] by auto
    then show ?thesis using Cons.prems False by simp
  qed
qed simp

lemma sorted_sort_by: "set xs \<subseteq> S \<Longrightarrow> sorted_wrt (\<lambda>a b. cmp a b \<noteq> Greater) (sort_by cmp xs)"
proof (induction xs)
  case (Cons x xs)
  have "set (foldr (insert_by cmp) xs []) = set xs" using set_sort_by [of cmp xs] by (simp add: sort_by_def)
  then show ?case using Cons sorted_insert_by [of x "sort_by cmp xs"] by (simp add: sort_by_def)
qed (simp add: sort_by_def)

lemma first_are_best:
  assumes "set xs \<subseteq> S" "a \<in> set (take k (sort_by cmp xs))" "b \<in># mset xs - mset (take k (sort_by cmp xs))"
  shows "cmp a b \<noteq> Greater"
proof -
  let ?s = "sort_by cmp xs"
  have "mset xs = mset (take k ?s) + mset (drop k ?s)"
    using mset_sort_by [of cmp xs] by (metis append_take_drop_id mset_append)
  then have "b \<in> set (drop k ?s)" using assms(3) by simp
  moreover have "sorted_wrt (\<lambda>a b. cmp a b \<noteq> Greater) (take k ?s @ drop k ?s)" using sorted_sort_by [OF assms(1)] by simp
  ultimately show ?thesis using assms(2) unfolding sorted_wrt_append by blast
qed

end

section \<open>The comparisons of the router\<close>

lemma rat_cmp_Greater [simp]: "rat_cmp a b = Greater \<longleftrightarrow> b < a"
  by (auto simp: rat_cmp_def)

lemma partial_cmp_trans:
  assumes "partial_cmp x y = Some c" "c \<noteq> Greater" "partial_cmp y z = Some d" "d \<noteq> Greater"
  shows "\<exists>e. partial_cmp x z = Some e \<and> e \<noteq> Greater"
  using assms by (cases x; cases y; cases z) auto

lemma partial_cmp_total: "partial_cmp x y = Some Greater \<Longrightarrow> \<exists>c. partial_cmp y x = Some c \<and> c \<noteq> Greater"
  by (cases x; cases y) auto

lemma partial_cmp_defined: "x \<noteq> NaN \<Longrightarrow> y \<noteq> NaN \<Longrightarrow> \<exists>c. partial_cmp x y = Some c"
  by (cases x; cases y) auto

interpretation dr: ranking "\<lambda>a b. rat_cmp (peer_distance target a) (peer_distance target b)" UNIV for target
  by unfold_locales auto

interpretation tr: ranking "tried_cmp r target" UNIV for r target
  by unfold_locales (auto simp: tried_cmp_def Let_def split: if_splits)

interpretation er: ranking "time_cmp P r target" "{p. predicted_time P r target p \<noteq> NaN}" for P r target
proof unfold_locales
  fix a b c
  assume n: "a \<in> {p. predicted_time P r target p \<noteq> NaN}" "b \<in> {p. predicted_time P r target p \<noteq> NaN}"
    "c \<in> {p. predicted_time P r target p \<noteq> NaN}" and le: "time_cmp P r target a b \<noteq> Greater" "time_cmp P r target b c \<noteq> Greater"
  obtain x y where "partial_cmp (predicted_time P r target a) (predicted_time P r target b) = Some x"
    "partial_cmp (predicted_time P r target b) (predicted_time P r target c) = Some y"
    using n partial_cmp_defined by fastforce
  then show "time_cmp P r target a c \<noteq> Greater"
    using le partial_cmp_trans [of "predicted_time P r target a" "predicted_time P r target b" x "predicted_time P r target c" y]
    by (auto simp: time_cmp_def)
next
  fix a b
  assume "time_cmp P r target a b = Greater"
  then show "time_cmp P r target b a \<noteq> Greater"
    using partial_cmp_total [of "predicted_time P r target a" "predicted_time P r target b"]
    by (auto simp: time_cmp_def split: option.splits)
qed

section \<open>Selection\<close>

definition shuffle_ok :: "(nat \<Rightarrow> nat list) \<Rightarrow> bool" where
  "shuffle_ok perm \<longleftrightarrow> (\<forall>n. mset (perm n) = mset [0..<n])"

lemma mset_shuffle: "shuffle_ok perm \<Longrightarrow> mset (shuffle_by perm xs) = mset xs"
  by (metis map_nth mset_map shuffle_by_def shuffle_ok_def)

lemma set_shuffle: "shuffle_ok perm \<Longrightarrow> set (shuffle_by perm xs) = set xs"
  by (metis mset_shuffle set_mset_mset)

lemma length_shuffle: "shuffle_ok perm \<Longrightarrow> length (shuffle_by perm xs) = length xs"
  by (metis mset_shuffle size_mset)

lemma mset_take_sort: "mset (take n (sort_by cmp xs)) \<subseteq># mset xs"
  by (metis append_take_drop_id mset_append mset_sort_by mset_subset_eq_add_left)

lemma closest_props:
  assumes "shuffle_ok perm"
  shows "mset (select_closest_peers perm r peers target) \<subseteq># mset peers"
    "length (select_closest_peers perm r peers target) = min (consider_n_closest_peers r) (length peers)"
    "a \<in> set (select_closest_peers perm r peers target) \<Longrightarrow> b \<in># mset peers - mset (select_closest_peers perm r peers target)
      \<Longrightarrow> peer_distance target a \<le> peer_distance target b"
proof -
  note m = mset_shuffle [OF assms, of peers]
  show "mset (select_closest_peers perm r peers target) \<subseteq># mset peers"
    using mset_take_sort m unfolding select_closest_peers_def by metis
  show "length (select_closest_peers perm r peers target) = min (consider_n_closest_peers r) (length peers)"
    by (simp add: select_closest_peers_def length_shuffle [OF assms] min.commute)
  assume "a \<in> set (select_closest_peers perm r peers target)" "b \<in># mset peers - mset (select_closest_peers perm r peers target)"
  then have "rat_cmp (peer_distance target a) (peer_distance target b) \<noteq> Greater"
    unfolding select_closest_peers_def m [symmetric] by (rule dr.first_are_best [OF subset_UNIV])
  then show "peer_distance target a \<le> peer_distance target b" by simp
qed

text \<open>The peers a strategy considers, and how it compares them.\<close>

definition considered ::
  "pav \<Rightarrow> (nat \<Rightarrow> nat list) \<Rightarrow> 'k router \<Rightarrow> 'k peer_key_location list \<Rightarrow> location \<Rightarrow> 'k peer_key_location list" where
  "considered P perm r peers target =
     (if has_sufficient_routing_events P r then select_closest_peers perm r peers target
      else filter (\<lambda>p. pkl_location p \<noteq> None) peers)"

definition route_cmp :: "pav \<Rightarrow> 'k router \<Rightarrow> location \<Rightarrow> 'k peer_key_location \<Rightarrow> 'k peer_key_location \<Rightarrow> ordering" where
  "route_cmp P r target = (if has_sufficient_routing_events P r then time_cmp P r target else tried_cmp r target)"

lemma considered_subset: "shuffle_ok perm \<Longrightarrow> mset (considered P perm r peers target) \<subseteq># mset peers"
  by (simp add: considered_def closest_props(1))

lemma selected_sorted:
  assumes "shuffle_ok perm" "0 < k"
  shows "\<exists>xs. mset xs = mset (considered P perm r peers target)
    \<and> select_k_best_peers P perm r peers target k = take k (sort_by (route_cmp P r target) xs)"
  using assms mset_shuffle [OF assms(1), of "filter (\<lambda>p. pkl_location p \<noteq> None) peers"]
  by (cases "has_sufficient_routing_events P r") (auto simp: considered_def route_cmp_def select_k_best_peers_def)

lemma route_cmp_best:
  assumes "has_sufficient_routing_events P r \<longrightarrow> (\<forall>p \<in> set xs. predicted_time P r target p \<noteq> NaN)"
    and "a \<in> set (take k (sort_by (route_cmp P r target) xs))" "b \<in># mset xs - mset (take k (sort_by (route_cmp P r target) xs))"
  shows "route_cmp P r target a b \<noteq> Greater"
proof (cases "has_sufficient_routing_events P r")
  case True
  then have "set xs \<subseteq> {p. predicted_time P r target p \<noteq> NaN}" using assms(1) by blast
  then show ?thesis using er.first_are_best [of xs P r target a k b] assms(2,3) True by (simp add: route_cmp_def)
qed (use assms tr.first_are_best [of xs a k r target b] in \<open>simp add: route_cmp_def\<close>)


text \<open>A regression that always answers one half, with as many points as it was given.\<close>

definition flat_pav :: pav where
  "flat_pav = \<lparr>regression_new = (\<lambda>_ _. True), regression_len = (\<lambda>_ pts. length pts), regression_at = (\<lambda>_ _ _. Some (Fin (1 / 2)))\<rparr>"

definition empty_estimator :: "unit isotonic_estimator" where
  "empty_estimator = \<lparr>est_type = Positive, est_points = [], peer_adjustments = []\<rparr>"

definition empty_router :: "unit router" where
  "empty_router = \<lparr>response_start_time_estimator = empty_estimator, transfer_rate_estimator = empty_estimator,
     failure_estimator = empty_estimator, mean_transfer_size = \<lparr>mean_sum = 1000, mean_count = 10\<rparr>, consider_n_closest_peers = 5\<rparr>"


lemma selected_offered: "shuffle_ok perm \<Longrightarrow> set (select_k_best_peers P perm r peers target k) \<subseteq> set peers"
  using set_mset_mono [OF considered_subset, of perm P r peers target] selected_sorted [of perm k P r peers target]
    set_mset_mono [OF mset_take_sort]
  by (cases "k = 0") (simp add: select_k_best_peers_def, fastforce dest: arg_cong [of "mset _" "mset _" set_mset] in_set_takeD)

lemma select_peer_offered: "shuffle_ok perm \<Longrightarrow> select_peer P perm r peers target = Some p \<Longrightarrow> p \<in> set peers"
  using selected_offered [of perm P r peers target 1] by (auto simp: select_peer_def split: list.splits)

text \<open>
  The estimate is cut off at zero before the adjustment of the peer is added, so that it can be
  negative: a rate or a time below zero then makes the predicted time of a peer negative.
\<close>

lemma estimate_can_be_negative:
  "estimate_retrieval_time flat_pav
     \<lparr>est_type = Negative, est_points = replicate 5 (0, Fin 0), peer_adjustments = [(pkl_new () (V4 1 1), \<lparr>adj_sum = Fin (- 8), adj_count = 8\<rparr>)]\<rparr>
     (pkl_new () (V4 1 1)) 0 = Some (Fin (- 1 / 2))"
proof -
  have "is_f64 (- 1)" "is_f64 (- (1 / 2))" by (simp_all only: is_f64_minus is_f64_1 is_f64_half)
  then have "f64_add (1 / 2) (f64_div (- 8) 8) = - 1 / 2" by (simp add: f64_add_def f64_div_def is_f64_def)
  then show ?thesis
    by (simp add: estimate_retrieval_time_def est_len_def est_at_def flat_pav_def MIN_POINTS_FOR_REGRESSION_def pkl_location_def
        pkl_socket_addr_def pkl_new_def adjustment_mean_def)
qed

end
