(* ===== verification/Visited_Peers.thy ===== *)
theory Visited_Peers
  imports Ring_Location
begin

text \<open>
  The filter of visited peers that travels with a request (\<open>operations/visited_peers.rs\<close>): a Bloom
  filter of 512 bits with four indices per address, hashed under keys taken from the transaction.
  The hash function of the \<open>ahash\<close> crate is an argument.  The keys are not sent: what a peer receives
  has the keys zeroed, and \<open>with_transaction\<close> restores them.

  Shown: an address is found exactly if all its indices belong to marked addresses, so no marked
  address is ever missed; restoring the keys after the transfer gives the same filter back; and two
  transactions never share their keys.
\<close>

unbundle bit_operations_syntax

section \<open>Definitions\<close>

type_synonym transaction = "128 word"

type_synonym seeds = "64 word \<times> 64 word"

type_synonym ahash = "seeds \<Rightarrow> socket_addr \<Rightarrow> 64 word"

definition BLOOM_BITS :: nat where
  "BLOOM_BITS = 512"

definition BLOOM_BYTES :: nat where
  "BLOOM_BYTES = BLOOM_BITS div 8"

record visited_peers =
  bloom :: "byte list"
  hash_keys :: seeds

definition id_bytes :: "transaction \<Rightarrow> byte list" where
  "id_bytes tx = le_bytes 16 (unat tx)"

definition derive_hash_keys :: "byte list \<Rightarrow> seeds" where
  "derive_hash_keys bytes = (word_of_nat (of_le_bytes (take 8 bytes)), word_of_nat (of_le_bytes (take 8 (drop 8 bytes))))"

definition new_visited :: "transaction \<Rightarrow> visited_peers" where
  "new_visited tx = \<lparr>bloom = replicate BLOOM_BYTES 0, hash_keys = derive_hash_keys (id_bytes tx)\<rparr>"

definition with_transaction :: "transaction \<Rightarrow> visited_peers \<Rightarrow> visited_peers" where
  "with_transaction tx v = v\<lparr>hash_keys := derive_hash_keys (id_bytes tx)\<rparr>"

definition hash_indices :: "ahash \<Rightarrow> visited_peers \<Rightarrow> socket_addr \<Rightarrow> nat list" where
  "hash_indices H v addr =
     (let h1 = H (hash_keys v) addr;
          h2 = H (fst (hash_keys v) + 0x9e3779b97f4a7c15, snd (hash_keys v) + 0x517cc1b727220a95) addr
      in [unat h1 mod BLOOM_BITS, unat (h1 + h2) mod BLOOM_BITS,
          unat (h1 + h2 * 2) mod BLOOM_BITS, unat (h1 + h2 * 3) mod BLOOM_BITS])"

definition set_index :: "byte list \<Rightarrow> nat \<Rightarrow> byte list" where
  "set_index bs idx = bs[idx div 8 := (bs ! (idx div 8)) OR push_bit (idx mod 8) 1]"

definition mark_visited :: "ahash \<Rightarrow> socket_addr \<Rightarrow> visited_peers \<Rightarrow> visited_peers" where
  "mark_visited H addr v = v\<lparr>bloom := foldl set_index (bloom v) (hash_indices H v addr)\<rparr>"

definition probably_visited :: "ahash \<Rightarrow> visited_peers \<Rightarrow> socket_addr \<Rightarrow> bool" where
  "probably_visited H v addr =
     list_all (\<lambda>idx. (bloom v ! (idx div 8)) AND push_bit (idx mod 8) 1 \<noteq> 0) (hash_indices H v addr)"

text \<open>What the receiver of a serialised filter holds: the keys are skipped and default to zero.\<close>

definition received :: "visited_peers \<Rightarrow> visited_peers" where
  "received v = v\<lparr>hash_keys := (0, 0)\<rparr>"

section \<open>Bits of the filter\<close>

definition filter_bit :: "byte list \<Rightarrow> nat \<Rightarrow> bool" where
  "filter_bit bs i \<longleftrightarrow> bit (bs ! (i div 8)) (i mod 8)"

lemma filter_bit_set:
  assumes "i < 8 * length bs" "j < 8 * length bs"
  shows "filter_bit (set_index bs i) j \<longleftrightarrow> j = i \<or> filter_bit bs j"
proof -
  have "i div 8 < length bs" using assms by simp
  moreover have "j = i \<longleftrightarrow> j div 8 = i div 8 \<and> j mod 8 = i mod 8"
    by (metis div_mult_mod_eq)
  ultimately show ?thesis
    by (auto simp: filter_bit_def set_index_def nth_list_update bit_or_iff bit_exp_iff)
qed

lemma set_index_length [simp]: "length (set_index bs i) = length bs"
  by (simp add: set_index_def)

lemma set_indices_length [simp]: "length (foldl set_index bs is) = length bs"
  by (induction "is" arbitrary: bs) auto

lemma filter_bits_set:
  "\<forall>i \<in> set is. i < 8 * length bs \<Longrightarrow> j < 8 * length bs \<Longrightarrow>
   filter_bit (foldl set_index bs is) j \<longleftrightarrow> j \<in> set is \<or> filter_bit bs j"
  by (induction "is" arbitrary: bs) (auto simp: filter_bit_set)

lemma index_bound: "i \<in> set (hash_indices H v a) \<Longrightarrow> i < 512"
  by (auto simp: hash_indices_def Let_def BLOOM_BITS_def)

lemma indices_keys: "hash_keys v = hash_keys w \<Longrightarrow> hash_indices H v a = hash_indices H w a"
  by (simp add: hash_indices_def)

lemma probably_visited_bits: "probably_visited H v a \<longleftrightarrow> (\<forall>i \<in> set (hash_indices H v a). filter_bit (bloom v) i)"
  by (simp add: probably_visited_def filter_bit_def list_all_iff bit_iff_and_push_bit_not_eq_0)

lemma mark_fields [simp]:
  "length (bloom (mark_visited H a v)) = length (bloom v)" "hash_keys (mark_visited H a v) = hash_keys v"
  by (simp_all add: mark_visited_def)

lemma marks_fields [simp]:
  "length (bloom (foldl (\<lambda>v a. mark_visited H a v) v as)) = length (bloom v)"
  "hash_keys (foldl (\<lambda>v a. mark_visited H a v) v as) = hash_keys v"
  by (induction as arbitrary: v) auto

lemma bits_mark:
  assumes "length (bloom v) = BLOOM_BYTES" "j < 512"
  shows "filter_bit (bloom (mark_visited H a v)) j \<longleftrightarrow> j \<in> set (hash_indices H v a) \<or> filter_bit (bloom v) j"
  using assms filter_bits_set [of "hash_indices H v a" "bloom v" j] index_bound [of _ H v a]
  by (simp add: mark_visited_def BLOOM_BYTES_def BLOOM_BITS_def)

lemma bits_marks:
  assumes "length (bloom v) = BLOOM_BYTES" "j < 512"
  shows "filter_bit (bloom (foldl (\<lambda>v a. mark_visited H a v) v as)) j \<longleftrightarrow>
    (\<exists>a \<in> set as. j \<in> set (hash_indices H v a)) \<or> filter_bit (bloom v) j"
  using assms
proof (induction as arbitrary: v)
  case (Cons a as)
  have "hash_indices H (mark_visited H a v) b = hash_indices H v b" for b by (rule indices_keys) simp
  then show ?case using Cons by (auto simp: bits_mark)
qed simp

lemma mark_mono:
  assumes "length (bloom v) = BLOOM_BYTES" "probably_visited H v b"
  shows "probably_visited H (mark_visited H a v) b"
  using assms index_bound [of _ H v b] indices_keys [of "mark_visited H a v" v H b]
  by (simp add: probably_visited_bits bits_mark)

lemma marked_found:
  assumes "length (bloom v) = BLOOM_BYTES"
  shows "probably_visited H (mark_visited H a v) a"
  using assms index_bound [of _ H v a] indices_keys [of "mark_visited H a v" v H a]
  by (simp add: probably_visited_bits bits_mark)

lemma new_visited_simps [simp]:
  "length (bloom (new_visited tx)) = BLOOM_BYTES" "hash_keys (new_visited tx) = derive_hash_keys (id_bytes tx)"
  by (simp_all add: new_visited_def)

lemma new_visited_bits: "j < 512 \<Longrightarrow> \<not> filter_bit (bloom (new_visited tx)) j"
  by (simp add: filter_bit_def new_visited_def BLOOM_BYTES_def BLOOM_BITS_def)

section \<open>The filter\<close>

text \<open>
  C29: after marking any addresses in a new filter, an address is reported visited exactly if each of
  its four indices is an index of a marked address.
\<close>

theorem visited_exact:
  fixes H :: ahash and tx :: transaction and as :: "socket_addr list"
  defines "v \<equiv> foldl (\<lambda>v a. mark_visited H a v) (new_visited tx) as"
  shows "probably_visited H v a \<longleftrightarrow> set (hash_indices H v a) \<subseteq> (\<Union>b \<in> set as. set (hash_indices H v b))"
proof -
  have keys: "hash_indices H v b = hash_indices H (new_visited tx) b" for b
    by (rule indices_keys) (simp add: v_def)
  have "filter_bit (bloom v) i \<longleftrightarrow> (\<exists>b \<in> set as. i \<in> set (hash_indices H v b))" if "i < 512" for i
    using bits_marks [of "new_visited tx" i H as] new_visited_bits [OF that] that by (simp add: v_def [symmetric] keys)
  then show ?thesis using index_bound [of _ H v a] by (auto simp: probably_visited_bits subset_iff)
qed

lemma of_le_bytes_inj: "length xs = length ys \<Longrightarrow> of_le_bytes xs = of_le_bytes ys \<Longrightarrow> xs = ys"
proof (induction xs ys rule: list_induct2)
  case (Cons x xs y ys)
  have b: "unat z < 256" for z :: byte using unsigned_less [of z, where 'a = nat] by simp
  have "unat x = (unat x + 256 * of_le_bytes xs) mod 256" using b [of x] by simp
  also have "\<dots> = unat y" using Cons.prems b [of y] by simp
  finally show ?case using Cons by (simp add: word_unat_eq_iff)
qed simp

lemma of_le_bytes_bound: "of_le_bytes xs < 256 ^ length xs"
proof (induction xs)
  case (Cons x xs)
  have "unat x < 256" using unsigned_less [of x, where 'a = nat] by simp
  then show ?case using Cons by simp
qed simp

lemma derive_inj:
  assumes "length xs = 16" "length ys = 16" "derive_hash_keys xs = derive_hash_keys ys"
  shows "xs = ys"
proof -
  have one: "of_le_bytes us = of_le_bytes ws" if "length us = 8" "length ws = 8" "(word_of_nat (of_le_bytes us) :: 64 word) = word_of_nat (of_le_bytes ws)" for us ws
    using that of_le_bytes_bound [of us] of_le_bytes_bound [of ws] by (simp add: word_of_nat_eq_iff take_bit_nat_eq_self)
  have "take 8 xs = take 8 ys" "drop 8 xs = drop 8 ys"
    using assms by (auto simp: derive_hash_keys_def intro!: of_le_bytes_inj one)
  then show ?thesis by (metis append_take_drop_id)
qed

text \<open>
  two transactions have the same hash keys exactly if they are the same, and restoring the keys
  of its transaction after a transfer gives a filter back unchanged.
\<close>

theorem filter_survives_transfer:
  fixes H :: ahash and tx :: transaction and as :: "socket_addr list"
  defines "v \<equiv> foldl (\<lambda>v a. mark_visited H a v) (new_visited tx) as"
  shows "with_transaction tx (received v) = v
    \<and> (hash_keys (with_transaction tx' v) = hash_keys v \<longleftrightarrow> tx' = tx)"
proof -
  have keys: "hash_keys v = derive_hash_keys (id_bytes tx)" by (simp add: v_def)
  have "id_bytes t = id_bytes u \<Longrightarrow> t = u" for t u :: transaction
    using le_bytes_inj [of 16 "unat t" "unat u"] unsigned_less [of t, where 'a = nat] unsigned_less [of u, where 'a = nat]
    by (simp add: id_bytes_def word_unat_eq_iff)
  then have "derive_hash_keys (id_bytes tx') = derive_hash_keys (id_bytes tx) \<longleftrightarrow> tx' = tx"
    using derive_inj [of "id_bytes tx'" "id_bytes tx"] by (auto simp: id_bytes_def)
  moreover have "v\<lparr>hash_keys := hash_keys v\<rparr> = v" by simp
  ultimately show ?thesis by (simp add: with_transaction_def received_def keys)
qed

end
