(* ===== verification/Connect_Operation.thy ===== *)
theory Connect_Operation
  imports Connection_Manager Router Visited_Peers "HOL-Library.Monad_Syntax"
begin

text \<open>
  Joining the ring (\<open>operations/connect.rs\<close>).  A joiner sends a request towards a location; every
  relay forwards it to a peer no farther from the target, accepts it where none is left, or sends it
  uphill, and answers travel back hop by hop.

  A relay asks its context for its own location, whether to accept and where to forward: the record
  \<open>relay_context\<close> stands for the trait, and \<open>relay_env\<close> is its implementation over the connection
  manager and the router.  \<open>None\<close> is a panic.  A handler is one step at one instant; its random
  draws and the result of a hole punch are arguments, and so is which sends succeed: a failed send
  ends the handler and the operation is lost.
\<close>

declare map_of_eq_Some_iff [simp del] and Some_eq_map_of_iff [simp del]

section \<open>Messages and states\<close>

definition FORWARD_ATTEMPT_TIMEOUT :: duration where
  "FORWARD_ATTEMPT_TIMEOUT = secs 20"

definition RECENCY_COOLDOWN :: duration where
  "RECENCY_COOLDOWN = secs 30"

definition MIN_FORWARD_SCORE :: rat where
  "MIN_FORWARD_SCORE = f64_round (15 / 100)"

definition NEAR_TERMINUS_DISTANCE :: rat where
  "NEAR_TERMINUS_DISTANCE = f64_round (5 / 100)"

definition NEAR_TERMINUS_ACCEPT_PROB :: rat where
  "NEAR_TERMINUS_ACCEPT_PROB = f64_round (6 / 10)"

definition DEFAULT_UPHILL_BUDGET :: nat where
  "DEFAULT_UPHILL_BUDGET = 8"

record 'k connect_request =
  desired_location :: location
  joiner :: "'k peer_key_location"
  time_to_live :: nat
  visited :: visited_peers
  uphill_budget :: nat

datatype 'k connect_msg =
    Msg_Request "'k connect_request"
  | Msg_Response "'k peer_key_location"
  | Msg_ObservedAddress socket_addr
  | Msg_Rejected location
  | Msg_ConnectFailed socket_addr

record 'k joiner_state =
  target_connections :: nat
  observed_address :: "socket_addr option"
  accepted :: "'k peer_key_location list"
  last_progress :: instant
  started_without_address :: bool

record 'k relay_state =
  upstream_addr :: socket_addr
  request :: "'k connect_request"
  forwarded_to :: "'k peer_key_location option"
  forwarded_at :: "instant option"
  observed_sent :: bool
  accepted_locally :: bool
  response_forwarded :: bool

datatype 'k connect_state =
    WaitingForResponses "'k joiner_state"
  | Relaying "'k relay_state"
  | Completed

record 'k relay_actions =
  accept_response :: "'k peer_key_location option"
  expect_connection_from :: "'k peer_key_location option"
  act_forward :: "('k peer_key_location \<times> 'k connect_request) option"
  act_observed_address :: "('k peer_key_location \<times> socket_addr) option"
  act_rejected :: bool

definition no_actions :: "'k relay_actions" where
  "no_actions = \<lparr>accept_response = None, expect_connection_from = None, act_forward = None, act_observed_address = None, act_rejected = False\<rparr>"

record 'k forward_attempt =
  fa_peer :: "'k peer_key_location"
  fa_desired :: location
  sent_at :: instant

type_synonym 'k recency_table = "('k peer_key_location, instant) hmap"

type_synonym 'k attempt_table = "('k peer_key_location, 'k forward_attempt) hmap"

section \<open>Estimating forwards\<close>

text \<open>\<open>seed_key\<close> is the key pair made for the seed events.\<close>

definition forward_estimator_new :: "pav \<Rightarrow> 'k \<Rightarrow> 'k isotonic_estimator option" where
  "forward_estimator_new P seed_key =
     (let dummy = pkl_new seed_key (V4 0x7F000001 0)
      in estimator_new P
           [\<lparr>ie_peer = dummy, ie_contract_location = 0, ie_result = Fin (1 / 2)\<rparr>,
            \<lparr>ie_peer = dummy, ie_contract_location = 1 / 2, ie_result = Fin (1 / 2)\<rparr>] Negative)"

definition forward_record :: "pav \<Rightarrow> 'k peer_key_location \<Rightarrow> location \<Rightarrow> bool \<Rightarrow> 'k isotonic_estimator \<Rightarrow> 'k isotonic_estimator option" where
  "forward_record P peer desired success e =
     (if pkl_location peer = None then Some e
      else add_event P \<lparr>ie_peer = peer, ie_contract_location = desired, ie_result = Fin (if success then 1 else 0)\<rparr> e)"

definition forward_estimate :: "pav \<Rightarrow> 'k isotonic_estimator \<Rightarrow> 'k peer_key_location \<Rightarrow> location \<Rightarrow> f64x option" where
  "forward_estimate P e peer desired =
     (if pkl_location peer = None then None else map_option xclamp01 (estimate_retrieval_time P e peer desired))"

definition good_score :: "f64x \<Rightarrow> bool" where
  "good_score s = (partial_cmp s (Fin MIN_FORWARD_SCORE) \<in> {Some Equal, Some Greater})"

definition filter_low_score_peers :: "(f64x \<times> 'a) list \<Rightarrow> nat \<Rightarrow> (f64x \<times> 'a) list" where
  "filter_low_score_peers scored eligible_count =
     (if length scored + eligible_count \<le> 1 then scored
      else if 0 < length (filter (\<lambda>(s, _). good_score s) scored) \<or> 0 < eligible_count
      then filter (\<lambda>(score, _). good_score score) scored
      else scored)"

section \<open>The relay\<close>

record ('k, 's) relay_context =
  self_location :: "'k peer_key_location"
  ctx_should_accept :: "'k peer_key_location \<Rightarrow> 's \<Rightarrow> bool \<times> 's"
  ctx_select_next_hop :: "location \<Rightarrow> visited_peers \<Rightarrow> 'k recency_table \<Rightarrow> 'k isotonic_estimator \<Rightarrow> 's \<Rightarrow> 'k peer_key_location option option"
  ctx_select_uphill_hop :: "location \<Rightarrow> visited_peers \<Rightarrow> 'k recency_table \<Rightarrow> 's \<Rightarrow> 'k peer_key_location option"

definition ring_distance :: "location option \<Rightarrow> location option \<Rightarrow> rat option" where
  "ring_distance a b = (case (a, b) of (Some a, Some b) \<Rightarrow> Some (distance a b) | _ \<Rightarrow> None)"

definition forward_to_peer ::
  "'k peer_key_location \<Rightarrow> instant \<Rightarrow> 'k attempt_table \<Rightarrow> 'k relay_state \<Rightarrow>
   ('k peer_key_location \<times> 'k connect_request) \<times> 'k attempt_table \<times> 'k relay_state" where
  "forward_to_peer peer now attempts st =
     (let forward_req = (request st)\<lparr>time_to_live := time_to_live (request st) - 1\<rparr>
      in ((peer, forward_req),
          hm_put peer \<lparr>fa_peer = peer, fa_desired = desired_location forward_req, sent_at = now\<rparr> attempts,
          st\<lparr>forwarded_to := Some peer, forwarded_at := Some now, request := forward_req\<rparr>))"

text \<open>The first part of \<open>handle_request\<close>: marking this peer and upstream, filling in the joiner's address.\<close>

definition note_arrival :: "ahash \<Rightarrow> ('k, 's) relay_context \<Rightarrow> 'k relay_state \<Rightarrow> 'k relay_actions \<times> 'k relay_state" where
  "note_arrival H ctx st =
     (let v = mark_visited H (upstream_addr st) (visited (request st));
          v = (case pkl_socket_addr (self_location ctx) of Some self_addr \<Rightarrow> mark_visited H self_addr v | None \<Rightarrow> v);
          discovered = (pkl_addr (joiner (request st)) = Unknown);
          j = (if discovered then set_addr (upstream_addr st) (joiner (request st)) else joiner (request st));
          observed = (if discovered \<and> \<not> observed_sent st then Some (j, upstream_addr st) else None)
      in (no_actions\<lparr>act_observed_address := observed\<rparr>,
          st\<lparr>request := (request st)\<lparr>visited := v, joiner := j\<rparr>, observed_sent := observed_sent st \<or> discovered\<rparr>))"

definition accept_joiner :: "('k, 's) relay_context \<Rightarrow> 'k relay_actions \<Rightarrow> 'k relay_state \<Rightarrow> 'k relay_actions \<times> 'k relay_state" where
  "accept_joiner ctx actions st =
     (actions\<lparr>accept_response := Some (with_unknown_addr (pkl_key (self_location ctx))),
              expect_connection_from := Some (joiner (request st))\<rparr>,
      st\<lparr>accepted_locally := True\<rparr>)"

definition near_terminus :: "('k, 's) relay_context \<Rightarrow> rat \<Rightarrow> 'k relay_state \<Rightarrow> bool" where
  "near_terminus ctx roll st =
     (case ring_distance (pkl_location (self_location ctx)) (Some (desired_location (request st))) of
        None \<Rightarrow> False
      | Some d \<Rightarrow>
          d < NEAR_TERMINUS_DISTANCE
          \<and> roll < f64_mul NEAR_TERMINUS_ACCEPT_PROB (f64_sub 1 (f64_div d NEAR_TERMINUS_DISTANCE)))"

definition forward_and_maybe_accept ::
  "('k, 's) relay_context \<Rightarrow> rat \<Rightarrow> instant \<Rightarrow> 'k peer_key_location \<Rightarrow> 'k relay_actions \<Rightarrow> 'k attempt_table \<Rightarrow> 'k relay_state \<Rightarrow> 's \<Rightarrow>
   'k relay_actions \<times> 'k attempt_table \<times> 'k relay_state \<times> 's" where
  "forward_and_maybe_accept ctx roll now next actions attempts st s =
     (let (fwd, attempts, st) = forward_to_peer next now attempts st;
          actions = actions\<lparr>act_forward := Some fwd\<rparr>
      in if \<not> accepted_locally st \<and> near_terminus ctx roll st \<and> pkl_socket_addr (joiner (request st)) \<noteq> None
         then (let (ok, s) = ctx_should_accept ctx (joiner (request st)) s;
                   (actions, st) = (if ok then accept_joiner ctx actions st else (actions, st))
               in (actions, attempts, st, s))
         else (actions, attempts, st, s))"

definition route_uphill ::
  "('k, 's) relay_context \<Rightarrow> instant \<Rightarrow> 'k recency_table \<Rightarrow> 'k relay_actions \<Rightarrow> 'k attempt_table \<Rightarrow> 'k relay_state \<Rightarrow> 's \<Rightarrow>
   'k relay_actions \<times> 'k attempt_table \<times> 'k relay_state" where
  "route_uphill ctx now rec actions attempts st s =
     (let req = request st
      in if 0 < uphill_budget req \<and> 2 \<le> time_to_live req
         then (case ctx_select_uphill_hop ctx (desired_location req) (visited req) rec s of
                 Some uphill_peer \<Rightarrow>
                   (let ((peer, fwd_req), attempts, st) = forward_to_peer uphill_peer now attempts st;
                        fwd_req = fwd_req\<lparr>uphill_budget := uphill_budget fwd_req - 1\<rparr>;
                        st = st\<lparr>request := (request st)\<lparr>uphill_budget := uphill_budget (request st) - 1\<rparr>\<rparr>
                    in (actions\<lparr>act_forward := Some (peer, fwd_req)\<rparr>, attempts, st))
               | None \<Rightarrow> (actions\<lparr>act_rejected := True\<rparr>, attempts, st))
         else (actions\<lparr>act_rejected := True\<rparr>, attempts, st))"

definition at_terminus ::
  "('k, 's) relay_context \<Rightarrow> instant \<Rightarrow> 'k recency_table \<Rightarrow> 'k relay_actions \<Rightarrow> 'k attempt_table \<Rightarrow> 'k relay_state \<Rightarrow> 's \<Rightarrow>
   'k relay_actions \<times> 'k attempt_table \<times> 'k relay_state \<times> 's" where
  "at_terminus ctx now rec actions attempts st s =
     (if accepted_locally st \<or> forwarded_to st \<noteq> None then (actions, attempts, st, s)
      else
        (let (ok, s) = (if pkl_socket_addr (joiner (request st)) = None then (False, s)
                        else ctx_should_accept ctx (joiner (request st)) s)
         in if ok
            then (let (actions, st) = accept_joiner ctx actions st in (actions, attempts, st, s))
            else (let (actions, attempts, st) = route_uphill ctx now rec actions attempts st s
                  in (actions, attempts, st, s))))"

definition relay_handle_request ::
  "ahash \<Rightarrow> ('k, 's) relay_context \<Rightarrow> rat \<Rightarrow> instant \<Rightarrow> 'k recency_table \<Rightarrow> 'k isotonic_estimator \<Rightarrow> 'k attempt_table \<Rightarrow>
   'k relay_state \<Rightarrow> 's \<Rightarrow> ('k relay_actions \<times> 'k attempt_table \<times> 'k relay_state \<times> 's) option" where
  "relay_handle_request H ctx roll now rec estimator attempts st s =
     (let (actions, st) = note_arrival H ctx st;
          can_forward = (forwarded_to st = None \<and> 0 < time_to_live (request st))
      in do {
           next_hop \<leftarrow> (if can_forward
                        then ctx_select_next_hop ctx (desired_location (request st)) (visited (request st)) rec estimator s
                        else Some None);
           Some (case next_hop of
                   Some next \<Rightarrow> forward_and_maybe_accept ctx roll now next actions attempts st s
                 | None \<Rightarrow> at_terminus ctx now rec actions attempts st s)
         })"

section \<open>The context of a node\<close>

record 'k relay_node =
  node_key :: 'k
  node_router :: "'k router"
  blocked_addresses :: "socket_addr set option"

text \<open>The draws of one handler: of the routing candidates, of the router's shuffle, of the acceptance.\<close>

record relay_draws =
  draw_next :: "location \<Rightarrow> nat \<Rightarrow> nat"
  draw_uphill :: "location \<Rightarrow> nat \<Rightarrow> nat"
  draw_perm :: "nat \<Rightarrow> nat list"
  draw_accept :: rat
  draw_roll :: rat
  draw_jitter :: "nat \<Rightarrow> rat"
  draw_location :: location

definition own_peer :: "'k relay_node \<Rightarrow> 'k connection_manager \<Rightarrow> 'k peer_key_location" where
  "own_peer n m = (case own_addr m of Some addr \<Rightarrow> pkl_new (node_key n) addr | None \<Rightarrow> with_unknown_addr (node_key n))"

definition env_should_accept ::
  "f64_math \<Rightarrow> relay_draws \<Rightarrow> instant \<Rightarrow> 'k relay_node \<Rightarrow> 'k peer_key_location \<Rightarrow> 'k connection_manager \<Rightarrow> bool \<times> 'k connection_manager" where
  "env_should_accept mth d now n j m =
     (case pkl_socket_addr j of
        None \<Rightarrow> (False, m)
      | Some addr \<Rightarrow>
          (if (case blocked_addresses n of Some blocked \<Rightarrow> addr \<in> blocked | None \<Rightarrow> False) then (False, m)
           else should_accept mth (draw_accept d) now (from_address addr) addr m))"

definition skip_list_with_self :: "ahash \<Rightarrow> visited_peers \<Rightarrow> socket_addr option \<Rightarrow> socket_addr list \<Rightarrow> socket_addr \<Rightarrow> bool" where
  "skip_list_with_self H v self_addr excluded target =
     (self_addr = Some target \<or> target \<in> set excluded \<or> probably_visited H v target)"

definition connect_candidates ::
  "ahash \<Rightarrow> instant \<Rightarrow> (location \<Rightarrow> nat \<Rightarrow> nat) \<Rightarrow> 'k peer_key_location \<Rightarrow> visited_peers \<Rightarrow> 'k connection_manager \<Rightarrow> 'k peer_key_location list" where
  "connect_candidates H now pick self v m =
     (let excluded = compute_connect_excluded_peers now (connection_count m) (connect_excluded_peers m)
      in map (\<lambda>c. pkl_new (pub_key c) (peer_addr c))
           (routing_candidates now pick None (skip_list_with_self H v (pkl_socket_addr self) excluded) False m))"

definition recently_used :: "instant \<Rightarrow> 'k recency_table \<Rightarrow> 'k peer_key_location \<Rightarrow> bool" where
  "recently_used now rec cand =
     (case hm_get rec cand of Some ts \<Rightarrow> saturating_since now ts < RECENCY_COOLDOWN | None \<Rightarrow> False)"

definition farther_than_self :: "'k peer_key_location \<Rightarrow> location \<Rightarrow> 'k peer_key_location \<Rightarrow> bool" where
  "farther_than_self self desired cand =
     (case (pkl_location cand, pkl_location self) of
        (Some cl, Some sl) \<Rightarrow> distance sl desired < distance cl desired
      | _ \<Rightarrow> False)"

definition scored_of ::
  "pav \<Rightarrow> 'k isotonic_estimator \<Rightarrow> location \<Rightarrow> 'k peer_key_location list \<Rightarrow> (f64x \<times> 'k peer_key_location) list \<times> 'k peer_key_location list" where
  "scored_of P e desired cands =
     (List.map_filter (\<lambda>c. map_option (\<lambda>s. (s, c)) (forward_estimate P e c desired)) cands,
      filter (\<lambda>c. forward_estimate P e c desired = None) cands)"

text \<open>\<open>max_by\<close> keeps the last of the maximal elements; comparing with \<open>NaN\<close> panics.\<close>

fun max_score :: "f64x \<Rightarrow> f64x list \<Rightarrow> f64x option" where
  "max_score acc [] = Some acc"
| "max_score acc (x # xs) =
     (case partial_cmp acc x of
        None \<Rightarrow> None
      | Some Greater \<Rightarrow> max_score acc xs
      | Some _ \<Rightarrow> max_score x xs)"

definition F64_EPSILON :: rat where
  "F64_EPSILON = 1 / 2 ^ 52"

fun same_score :: "f64x \<Rightarrow> f64x \<Rightarrow> bool" where
  "same_score (Fin a) (Fin b) = (\<bar>f64_sub a b\<bar> < F64_EPSILON)"
| "same_score x y = False"

definition env_select_next_hop ::
  "pav \<Rightarrow> ahash \<Rightarrow> relay_draws \<Rightarrow> instant \<Rightarrow> 'k relay_node \<Rightarrow> 'k peer_key_location \<Rightarrow> location \<Rightarrow> visited_peers \<Rightarrow>
   'k recency_table \<Rightarrow> 'k isotonic_estimator \<Rightarrow> 'k connection_manager \<Rightarrow> 'k peer_key_location option option" where
  "env_select_next_hop P H d now n self desired v rec e m =
     (let cands = filter (\<lambda>c. \<not> recently_used now rec c \<and> \<not> farther_than_self self desired c)
                    (connect_candidates H now (draw_next d) self v m);
          (scored, eligible) = scored_of P e desired cands;
          scored = filter_low_score_peers scored (length eligible);
          by_distance = (if eligible = [] then None else select_peer P (draw_perm d) (node_router n) eligible desired)
      in case scored of
           [] \<Rightarrow> Some by_distance
         | (s0, _) # rest \<Rightarrow>
             do {
               best_score \<leftarrow> max_score s0 (map fst rest);
               let best = map snd (filter (\<lambda>(s, _). same_score s best_score) scored);
               Some (if best \<noteq> [] then select_peer P (draw_perm d) (node_router n) best desired else by_distance)
             })"

definition env_select_uphill_hop ::
  "pav \<Rightarrow> ahash \<Rightarrow> relay_draws \<Rightarrow> instant \<Rightarrow> 'k relay_node \<Rightarrow> 'k peer_key_location \<Rightarrow> location \<Rightarrow> visited_peers \<Rightarrow>
   'k recency_table \<Rightarrow> 'k connection_manager \<Rightarrow> 'k peer_key_location option" where
  "env_select_uphill_hop P H d now n self desired v rec m =
     (let eligible = filter (\<lambda>c. \<not> recently_used now rec c) (connect_candidates H now (draw_uphill d) self v m);
          close_threshold = f64_mul NEAR_TERMINUS_DISTANCE 2;
          is_close = (\<lambda>c. case pkl_location c of Some l \<Rightarrow> distance l desired < close_threshold | None \<Rightarrow> False);
          (close, far) = partition is_close eligible
      in if eligible = [] then None
         else if close \<noteq> [] then select_peer P (draw_perm d) (node_router n) close desired
         else select_peer P (draw_perm d) (node_router n) far desired)"

definition relay_env ::
  "pav \<Rightarrow> ahash \<Rightarrow> f64_math \<Rightarrow> relay_draws \<Rightarrow> instant \<Rightarrow> 'k relay_node \<Rightarrow> 'k connection_manager \<Rightarrow> ('k, 'k connection_manager) relay_context" where
  "relay_env P H mth d now n m =
     (let self = own_peer n m
      in \<lparr>self_location = self, ctx_should_accept = env_should_accept mth d now n,
          ctx_select_next_hop = env_select_next_hop P H d now n self, ctx_select_uphill_hop = env_select_uphill_hop P H d now n self\<rparr>)"

section \<open>The operation\<close>

record 'k connect_op =
  op_id :: transaction
  op_state :: "'k connect_state option"
  first_hop :: "'k peer_key_location option"
  op_desired_location :: "location option"
  recency :: "'k recency_table"
  forward_attempts :: "'k attempt_table"

record 'k node_state =
  manager :: "'k connection_manager"
  forward_estimator :: "'k isotonic_estimator"
  gateway_backoff :: "socket_addr tracked_backoff"
  connection_backoff :: "nat tracked_backoff"

datatype 'k effect =
    Send socket_addr "'k connect_msg"
  | ExpectPeerConnection socket_addr
  | ConnectPeer "'k peer_key_location"

definition new_joiner :: "instant \<Rightarrow> transaction \<Rightarrow> location \<Rightarrow> nat \<Rightarrow> socket_addr option \<Rightarrow> 'k peer_key_location option \<Rightarrow> 'k connect_op" where
  "new_joiner now tx desired target observed gateway =
     \<lparr>op_id = tx,
      op_state = Some (WaitingForResponses
        \<lparr>target_connections = target, observed_address = observed, accepted = [], last_progress = now,
         started_without_address = (observed = None)\<rparr>),
      first_hop = gateway, op_desired_location = Some desired, recency = [], forward_attempts = []\<rparr>"

definition fresh_relay :: "socket_addr \<Rightarrow> 'k connect_request \<Rightarrow> 'k relay_state" where
  "fresh_relay upstream req =
     \<lparr>upstream_addr = upstream, request = req, forwarded_to = None, forwarded_at = None, observed_sent = False,
      accepted_locally = False, response_forwarded = False\<rparr>"

definition new_relay :: "transaction \<Rightarrow> socket_addr \<Rightarrow> 'k connect_request \<Rightarrow> 'k connect_op" where
  "new_relay tx upstream req =
     (let req = req\<lparr>visited := with_transaction tx (visited req), uphill_budget := min (uphill_budget req) DEFAULT_UPHILL_BUDGET\<rparr>
      in \<lparr>op_id = tx, op_state = Some (Relaying (fresh_relay upstream req)), first_hop = None, op_desired_location = None,
          recency = [], forward_attempts = []\<rparr>)"

definition initiate_join_request ::
  "ahash \<Rightarrow> instant \<Rightarrow> transaction \<Rightarrow> 'k peer_key_location \<Rightarrow> 'k peer_key_location \<Rightarrow> location \<Rightarrow> nat \<Rightarrow> nat \<Rightarrow> socket_addr list \<Rightarrow>
   'k connect_op \<times> 'k connect_msg" where
  "initiate_join_request H now tx own target desired ttl n_target exclude_addrs =
     (let mark = (\<lambda>a v. case a of Some addr \<Rightarrow> mark_visited H addr v | None \<Rightarrow> v);
          v = mark (pkl_socket_addr target) (mark (pkl_socket_addr own) (new_visited tx));
          v = foldl (\<lambda>v a. mark_visited H a v) v exclude_addrs;
          req = \<lparr>desired_location = desired, joiner = with_unknown_addr (pkl_key own), time_to_live = ttl, visited = v,
                 uphill_budget = DEFAULT_UPHILL_BUDGET\<rparr>
      in (new_joiner now tx desired n_target (pkl_socket_addr own) (Some target), Msg_Request req))"

record 'k joiner_acceptance =
  new_acceptor :: "'k peer_key_location option"
  satisfied :: bool
  assigned_location :: bool

definition register_acceptance :: "'k peer_key_location \<Rightarrow> instant \<Rightarrow> 'k joiner_state \<Rightarrow> 'k joiner_acceptance \<times> 'k joiner_state" where
  "register_acceptance acceptor now j =
     (let is_new = acceptor \<notin> set (accepted j);
          j = (if is_new then j\<lparr>accepted := acceptor # accepted j, last_progress := now\<rparr> else j)
      in (\<lparr>new_acceptor = (if is_new then Some acceptor else None), satisfied = (target_connections j \<le> length (accepted j)),
           assigned_location = (is_new \<and> length (accepted j) = 1)\<rparr>, j))"

definition handle_response :: "'k peer_key_location \<Rightarrow> instant \<Rightarrow> 'k connect_op \<Rightarrow> ('k joiner_acceptance \<times> 'k connect_op) option" where
  "handle_response acceptor now op =
     (case op_state op of
        Some (WaitingForResponses j) \<Rightarrow>
          (let (result, j) = register_acceptance acceptor now j;
               op = op\<lparr>op_state := Some (if satisfied result then Completed else WaitingForResponses j),
                       recency := (case new_acceptor result of Some p \<Rightarrow> hm_del p (recency op) | None \<Rightarrow> recency op)\<rparr>
           in Some (result, op))
      | _ \<Rightarrow> None)"

definition handle_observed_address :: "socket_addr \<Rightarrow> instant \<Rightarrow> 'k connect_op \<Rightarrow> 'k connect_op" where
  "handle_observed_address address now op =
     (case op_state op of
        Some (WaitingForResponses j) \<Rightarrow>
          op\<lparr>op_state := Some (WaitingForResponses (j\<lparr>observed_address := Some address, last_progress := now\<rparr>))\<rparr>
      | _ \<Rightarrow> op)"

section \<open>Handlers\<close>

definition record_forward_outcome ::
  "pav \<Rightarrow> 'k peer_key_location \<Rightarrow> location \<Rightarrow> bool \<Rightarrow> 'k connect_op \<times> 'k node_state \<Rightarrow> ('k connect_op \<times> 'k node_state) option" where
  "record_forward_outcome P peer desired success = (\<lambda>(op, ns).
     do {
       e \<leftarrow> forward_record P peer desired success (forward_estimator ns);
       Some (op\<lparr>forward_attempts := hm_del peer (forward_attempts op)\<rparr>, ns\<lparr>forward_estimator := e\<rparr>)
     })"

definition expire_one ::
  "pav \<Rightarrow> 'k peer_key_location \<times> location \<Rightarrow> 'k connect_op \<times> 'k node_state \<Rightarrow> ('k connect_op \<times> 'k node_state) option" where
  "expire_one P x = (\<lambda>(op, ns).
     case hm_get (forward_attempts op) (fst x) of
       None \<Rightarrow> Some (op, ns)
     | Some attempt \<Rightarrow>
         record_forward_outcome P (fa_peer attempt) (snd x) False
           (op\<lparr>forward_attempts := hm_del (fst x) (forward_attempts op)\<rparr>, ns))"

definition expire_forward_attempts ::
  "pav \<Rightarrow> instant \<Rightarrow> ('k :: linorder) connect_op \<times> 'k node_state \<Rightarrow> ('k connect_op \<times> 'k node_state) option" where
  "expire_forward_attempts P now = (\<lambda>(op, ns).
     let expired = map (\<lambda>(peer, a). (peer, fa_desired a))
           (filter (\<lambda>(_, a). FORWARD_ATTEMPT_TIMEOUT \<le> saturating_since now (sent_at a)) (forward_attempts op))
     in foldl (\<lambda>r x. Option.bind r (expire_one P x)) (Some (op, ns)) (sort_key (\<lambda>x. pkl_key (fst x)) expired))"

text \<open>A relay runs its part of the handler on the connection manager of the node.\<close>

definition run_relay ::
  "pav \<Rightarrow> ahash \<Rightarrow> f64_math \<Rightarrow> relay_draws \<Rightarrow> instant \<Rightarrow> 'k relay_node \<Rightarrow> 'k isotonic_estimator \<Rightarrow> 'k relay_state \<Rightarrow>
   'k connect_op \<Rightarrow> 'k node_state \<Rightarrow> ('k relay_actions \<times> 'k connect_op \<times> 'k node_state) option" where
  "run_relay P H mth d now n estimator st op ns =
     do {
       (actions, attempts, st, m) \<leftarrow> relay_handle_request H (relay_env P H mth d now n (manager ns)) (draw_roll d) now
                                    (recency op) estimator (forward_attempts op) st (manager ns);
       Some (actions, op\<lparr>op_state := Some (Relaying st), forward_attempts := attempts\<rparr>, ns\<lparr>manager := m\<rparr>)
     }"

definition op_handle_request ::
  "pav \<Rightarrow> ahash \<Rightarrow> f64_math \<Rightarrow> relay_draws \<Rightarrow> instant \<Rightarrow> ('k :: linorder) relay_node \<Rightarrow> socket_addr \<Rightarrow> 'k connect_request \<Rightarrow>
   'k isotonic_estimator \<Rightarrow> 'k connect_op \<Rightarrow> 'k node_state \<Rightarrow> ('k relay_actions \<times> 'k connect_op \<times> 'k node_state) option" where
  "op_handle_request P H mth d now n upstream req estimator op ns =
     do {
       (op, ns) \<leftarrow> expire_forward_attempts P now (op, ns);
       let st = (case op_state op of Some (Relaying st) \<Rightarrow> st | _ \<Rightarrow> fresh_relay upstream req);
       run_relay P H mth d now n estimator (st\<lparr>upstream_addr := upstream, request := req\<rparr>) op ns
     }"

type_synonym 'k outcome = "'k effect list \<times> 'k connect_op option \<times> 'k node_state"

definition send_ok :: "(socket_addr \<Rightarrow> bool) \<Rightarrow> 'k effect \<Rightarrow> bool" where
  "send_ok link e = (case e of Send addr _ \<Rightarrow> link addr | _ \<Rightarrow> True)"

text \<open>The effects up to the first failed send, which loses the operation.\<close>

definition perform :: "(socket_addr \<Rightarrow> bool) \<Rightarrow> 'k effect list \<Rightarrow> 'k connect_op \<Rightarrow> 'k node_state \<Rightarrow> 'k outcome" where
  "perform link es op ns = (if list_all (send_ok link) es then (es, Some op, ns) else (takeWhile (send_ok link) es, None, ns))"

definition expect_effects :: "'k peer_key_location option \<Rightarrow> 'k effect list" where
  "expect_effects p =
     (case p of
        Some peer \<Rightarrow> (case pkl_socket_addr peer of Some addr \<Rightarrow> [ExpectPeerConnection addr, ConnectPeer peer] | None \<Rightarrow> [])
      | None \<Rightarrow> [])"

definition forward_effects :: "('k peer_key_location \<times> 'k connect_request) option \<Rightarrow> 'k effect list" where
  "forward_effects f =
     (case f of
        Some (next, req) \<Rightarrow> (case pkl_socket_addr next of Some addr \<Rightarrow> [Send addr (Msg_Request req)] | None \<Rightarrow> [])
      | None \<Rightarrow> [])"

definition note_forward :: "instant \<Rightarrow> ('k peer_key_location \<times> 'k connect_request) option \<Rightarrow> 'k connect_op \<Rightarrow> 'k connect_op" where
  "note_forward now f op = (case f of Some (next, _) \<Rightarrow> op\<lparr>recency := hm_put next now (recency op)\<rparr> | None \<Rightarrow> op)"

definition answer_request ::
  "(socket_addr \<Rightarrow> bool) \<Rightarrow> instant \<Rightarrow> socket_addr \<Rightarrow> location \<Rightarrow> 'k relay_actions \<Rightarrow> 'k connect_op \<Rightarrow> 'k node_state \<Rightarrow> 'k outcome" where
  "answer_request link now upstream desired actions op ns =
     (let op = note_forward now (act_forward actions) op;
          first = (case act_observed_address actions of Some (_, addr) \<Rightarrow> [Send upstream (Msg_ObservedAddress addr)] | None \<Rightarrow> [])
                  @ expect_effects (expect_connection_from actions) @ forward_effects (act_forward actions)
      in if act_rejected actions
         then perform link (first @ [Send upstream (Msg_Rejected desired)]) (op\<lparr>op_state := Some Completed\<rparr>) ns
         else perform link
                (first @ (case accept_response actions of Some a \<Rightarrow> [Send upstream (Msg_Response a)] | None \<Rightarrow> [])) op ns)"

definition process_request ::
  "pav \<Rightarrow> ahash \<Rightarrow> f64_math \<Rightarrow> relay_draws \<Rightarrow> (socket_addr \<Rightarrow> bool) \<Rightarrow> instant \<Rightarrow> ('k :: linorder) relay_node \<Rightarrow> socket_addr option \<Rightarrow>
   'k connect_request \<Rightarrow> 'k connect_op \<Rightarrow> 'k node_state \<Rightarrow> 'k outcome option" where
  "process_request P H mth d link now n source payload op ns =
     (case source of
        None \<Rightarrow> Some ([], None, ns)
      | Some upstream \<Rightarrow>
          (let (admitted, m) = try_admit_connect (manager ns)
           in if \<not> admitted
              then Some (perform link [Send upstream (Msg_Rejected (desired_location payload))] (op\<lparr>op_state := Some Completed\<rparr>) ns)
              else
                do {
                  (actions, op, ns) \<leftarrow>
                    op_handle_request P H mth d now n upstream payload (forward_estimator ns) op (ns\<lparr>manager := m\<rparr>);
                  Some (answer_request link now upstream (desired_location payload) actions op
                          (ns\<lparr>manager := drop_admission_guard (manager ns)\<rparr>))
                }))"

definition next_hop_addr :: "'k connect_op \<Rightarrow> socket_addr option" where
  "next_hop_addr op = Option.bind (first_hop op) pkl_socket_addr"

definition fill_acceptor :: "socket_addr option \<Rightarrow> 'k peer_key_location \<Rightarrow> 'k peer_key_location" where
  "fill_acceptor source acceptor =
     (case (pkl_addr acceptor, source) of (Unknown, Some addr) \<Rightarrow> set_addr addr acceptor | _ \<Rightarrow> acceptor)"

definition joiner_completed :: "'k connect_op \<Rightarrow> 'k node_state \<Rightarrow> 'k connect_op \<times> 'k node_state" where
  "joiner_completed op ns =
     (op\<lparr>op_state := Some Completed\<rparr>,
      ns\<lparr>manager := (manager ns)\<lparr>connect_jitter_failures := reset_connect_jitter_failures (connect_jitter_failures (manager ns))\<rparr>,
         gateway_backoff := (case next_hop_addr op of Some gw \<Rightarrow> record_success gw (gateway_backoff ns) | None \<Rightarrow> gateway_backoff ns),
         connection_backoff :=
           (case op_desired_location op of Some l \<Rightarrow> conn_record_success l (connection_backoff ns) | None \<Rightarrow> connection_backoff ns)\<rparr>)"

text \<open>A failed hole punch: the acceptor is taken back, if the operation still waits.\<close>

definition punch_failed :: "'k peer_key_location \<Rightarrow> 'k joiner_acceptance \<Rightarrow> 'k connect_op \<Rightarrow> 'k joiner_acceptance \<times> 'k connect_op" where
  "punch_failed peer acceptance op =
     (case op_state op of
        Some (WaitingForResponses j) \<Rightarrow>
          (let j = j\<lparr>accepted := filter (\<lambda>p. p \<noteq> peer) (accepted j)\<rparr>
           in (acceptance\<lparr>satisfied := (target_connections j \<le> length (accepted j))\<rparr>,
               op\<lparr>op_state := Some (WaitingForResponses j)\<rparr>))
      | _ \<Rightarrow> (acceptance, op))"

definition joiner_response ::
  "(socket_addr \<Rightarrow> bool) \<Rightarrow> bool \<Rightarrow> instant \<Rightarrow> 'k peer_key_location \<Rightarrow> 'k connect_op \<Rightarrow> 'k node_state \<Rightarrow> 'k outcome" where
  "joiner_response link punch_ok now acceptor op ns =
     (case handle_response acceptor now op of
        None \<Rightarrow> ([], Some op, ns)
      | Some (acceptance, op) \<Rightarrow>
          (let finish = (\<lambda>es acceptance op ns.
                 if satisfied acceptance
                 then (let (op, ns) = joiner_completed op ns in (es, Some op, ns))
                 else (es, Some op, ns))
           in case new_acceptor acceptance of
                None \<Rightarrow> finish [] acceptance op ns
              | Some peer \<Rightarrow>
                  (let es = (case pkl_socket_addr peer of Some addr \<Rightarrow> [ExpectPeerConnection addr] | None \<Rightarrow> []) @ [ConnectPeer peer]
                   in if punch_ok
                      then finish es acceptance op
                             (case pkl_socket_addr peer of
                                Some addr \<Rightarrow>
                                  ns\<lparr>manager := (manager ns)\<lparr>connect_excluded_peers := clear_connect_exclusion addr (connect_excluded_peers (manager ns))\<rparr>\<rparr>
                              | None \<Rightarrow> ns)
                      else
                        (let (acceptance, op) = punch_failed peer acceptance op
                         in case (pkl_socket_addr peer, next_hop_addr op) of
                              (Some failed, Some gw) \<Rightarrow>
                                if link gw then finish (es @ [Send gw (Msg_ConnectFailed failed)]) acceptance op ns
                                else (es, None, ns)
                            | _ \<Rightarrow> finish es acceptance op ns))))"

definition relay_response ::
  "pav \<Rightarrow> (socket_addr \<Rightarrow> bool) \<Rightarrow> 'k peer_key_location \<Rightarrow> 'k relay_state \<Rightarrow> 'k connect_op \<Rightarrow> 'k node_state \<Rightarrow> 'k outcome option" where
  "relay_response P link acceptor st op ns =
     do {
       (op, ns) \<leftarrow> (case forwarded_to st of
                     Some fwd \<Rightarrow> record_forward_outcome P fwd (desired_location (request st)) True (op, ns)
                   | None \<Rightarrow> Some (op, ns));
       Some (perform link [Send (upstream_addr st) (Msg_Response acceptor)]
               (op\<lparr>op_state := Some (Relaying (st\<lparr>response_forwarded := True\<rparr>))\<rparr>) ns)
     }"

definition process_response ::
  "pav \<Rightarrow> (socket_addr \<Rightarrow> bool) \<Rightarrow> bool \<Rightarrow> instant \<Rightarrow> socket_addr option \<Rightarrow> 'k peer_key_location \<Rightarrow> 'k connect_op \<Rightarrow> 'k node_state \<Rightarrow>
   'k outcome option" where
  "process_response P link punch_ok now source acceptor op ns =
     (let acceptor = fill_acceptor source acceptor
      in case op_state op of
           Some (WaitingForResponses _) \<Rightarrow> Some (joiner_response link punch_ok now acceptor op ns)
         | Some (Relaying st) \<Rightarrow> relay_response P link acceptor st op ns
         | _ \<Rightarrow> Some ([], Some op, ns))"

definition learn_own_address :: "socket_addr \<Rightarrow> 'k node_state \<Rightarrow> 'k node_state" where
  "learn_own_address address ns =
     ns\<lparr>manager := update_location (Some (from_address address)) (set_own_addr address (manager ns))\<rparr>"

text \<open>What a relay does with the actions of a second attempt.\<close>

definition retry_effects :: "socket_addr \<Rightarrow> 'k connect_msg \<Rightarrow> 'k relay_actions \<Rightarrow> 'k effect list" where
  "retry_effects upstream give_up actions =
     (case act_forward actions of
        Some f \<Rightarrow> forward_effects (Some f)
      | None \<Rightarrow>
          (case accept_response actions of
             Some a \<Rightarrow> [Send upstream (Msg_Response a)]
           | None \<Rightarrow> [Send upstream give_up]))"

definition process_rejected ::
  "pav \<Rightarrow> ahash \<Rightarrow> f64_math \<Rightarrow> relay_draws \<Rightarrow> (socket_addr \<Rightarrow> bool) \<Rightarrow> instant \<Rightarrow> 'k relay_node \<Rightarrow> location \<Rightarrow>
   'k connect_op \<Rightarrow> 'k node_state \<Rightarrow> 'k outcome option" where
  "process_rejected P H mth d link now n desired op ns =
     (case op_state op of
        Some (WaitingForResponses _) \<Rightarrow>
          (let ns = ns\<lparr>connection_backoff := record_failure_with_reason desired Rejected (\<lambda>_. now) (draw_jitter d) (connection_backoff ns),
                       gateway_backoff := (case next_hop_addr op of
                          Some gw \<Rightarrow> peer_record_failure gw now (draw_jitter d 0) (gateway_backoff ns)
                        | None \<Rightarrow> gateway_backoff ns)\<rparr>
           in Some ([], Some (op\<lparr>op_state := Some Completed\<rparr>), ns))
      | Some (Relaying st) \<Rightarrow>
          do {
            (op, ns) \<leftarrow> (case forwarded_to st of
                          Some fwd \<Rightarrow> record_forward_outcome P fwd desired False (op, ns)
                        | None \<Rightarrow> Some (op, ns));
            (actions, op, ns) \<leftarrow> run_relay P H mth d now n (forward_estimator ns) (st\<lparr>forwarded_to := None, forwarded_at := None\<rparr>) op ns;
            Some (perform link (retry_effects (upstream_addr st) (Msg_Rejected desired) actions) (note_forward now (act_forward actions) op) ns)
          }
      | _ \<Rightarrow> Some ([], Some op, ns))"

definition exclude_acceptor :: "socket_addr \<Rightarrow> instant \<Rightarrow> 'k node_state \<Rightarrow> 'k node_state" where
  "exclude_acceptor addr now ns =
     ns\<lparr>manager := (manager ns)\<lparr>connect_excluded_peers :=
        snd (record_connect_acceptor_failure addr now (connect_excluded_peers (manager ns)))\<rparr>\<rparr>"

definition process_connect_failed ::
  "pav \<Rightarrow> ahash \<Rightarrow> f64_math \<Rightarrow> relay_draws \<Rightarrow> (socket_addr \<Rightarrow> bool) \<Rightarrow> instant \<Rightarrow> 'k relay_node \<Rightarrow> socket_addr \<Rightarrow>
   'k connect_op \<Rightarrow> 'k node_state \<Rightarrow> 'k outcome option" where
  "process_connect_failed P H mth d link now n failed op ns =
     (case op_state op of
        Some (Relaying st) \<Rightarrow>
          (let ns = exclude_acceptor failed now ns
           in case (if response_forwarded st then Option.bind (forwarded_to st) pkl_socket_addr else None) of
                Some fwd_addr \<Rightarrow>
                  Some (perform link [Send fwd_addr (Msg_ConnectFailed failed)]
                          (op\<lparr>op_state := Some (Relaying (st\<lparr>response_forwarded := False\<rparr>))\<rparr>) ns)
              | None \<Rightarrow>
                  do {
                    (op, ns) \<leftarrow> (case forwarded_to st of
                                  Some fwd \<Rightarrow> record_forward_outcome P fwd (desired_location (request st)) False (op, ns)
                                | None \<Rightarrow> Some (op, ns));
                    (actions, op, ns) \<leftarrow> run_relay P H mth d now n (forward_estimator ns)
                       (st\<lparr>request := (request st)\<lparr>visited := mark_visited H failed (visited (request st))\<rparr>, forwarded_to := None,
                           forwarded_at := None, response_forwarded := False\<rparr>) op ns;
                    Some (perform link (retry_effects (upstream_addr st) (Msg_ConnectFailed failed) actions)
                            (note_forward now (act_forward actions) op) ns)
                  })
      | Some (WaitingForResponses _) \<Rightarrow>
          (let l = (case op_desired_location op of Some l \<Rightarrow> l | None \<Rightarrow> draw_location d)
           in Some ([], Some (op\<lparr>op_state := Some Completed\<rparr>),
                    ns\<lparr>connection_backoff := record_failure_with_reason l Rejected (\<lambda>_. now) (draw_jitter d) (connection_backoff ns)\<rparr>))
      | _ \<Rightarrow> Some ([], Some op, ns))"

definition process_message ::
  "pav \<Rightarrow> ahash \<Rightarrow> f64_math \<Rightarrow> relay_draws \<Rightarrow> (socket_addr \<Rightarrow> bool) \<Rightarrow> bool \<Rightarrow> instant \<Rightarrow> ('k :: linorder) relay_node \<Rightarrow>
   socket_addr option \<Rightarrow> 'k connect_msg \<Rightarrow> 'k connect_op \<Rightarrow> 'k node_state \<Rightarrow> 'k outcome option" where
  "process_message P H mth d link punch_ok now n source msg op ns =
     (case msg of
        Msg_Request payload \<Rightarrow> process_request P H mth d link now n source payload op ns
      | Msg_Response acceptor \<Rightarrow> process_response P link punch_ok now source acceptor op ns
      | Msg_ObservedAddress address \<Rightarrow> Some ([], Some (handle_observed_address address now op), learn_own_address address ns)
      | Msg_Rejected desired \<Rightarrow> process_rejected P H mth d link now n desired op ns
      | Msg_ConnectFailed failed \<Rightarrow> process_connect_failed P H mth d link now n failed op ns)"

text \<open>
  What the operation manager knows of a transaction: nothing, a stored operation, or that it has
  finished.  A message is processed with the stored operation, or with a new one for a request.
\<close>

datatype 'k op_slot = Absent | Stored "'k connect_op" | Finished

definition load_or_init ::
  "transaction \<Rightarrow> socket_addr option \<Rightarrow> 'k connect_msg \<Rightarrow> 'k op_slot \<Rightarrow> 'k node_state \<Rightarrow> 'k connect_op option \<times> 'k node_state" where
  "load_or_init tx source msg slot ns =
     (case slot of
        Stored op \<Rightarrow> (Some op, ns)
      | Absent \<Rightarrow>
          (case (msg, source) of
             (Msg_Request payload, Some upstream) \<Rightarrow> (Some (new_relay tx upstream payload), ns)
           | (Msg_ObservedAddress address, _) \<Rightarrow> (None, learn_own_address address ns)
           | _ \<Rightarrow> (None, ns))
      | Finished \<Rightarrow>
          (case msg of
             Msg_ObservedAddress address \<Rightarrow> (None, learn_own_address address ns)
           | _ \<Rightarrow> (None, ns)))"

definition slot_of :: "'k connect_op option \<Rightarrow> 'k op_slot" where
  "slot_of op =
     (case op of
        Some op \<Rightarrow> (case op_state op of None \<Rightarrow> Finished | Some Completed \<Rightarrow> Finished | Some _ \<Rightarrow> Stored op)
      | None \<Rightarrow> Absent)"

text \<open>A panic of the handler leaves the operation popped.\<close>

definition handle_connect_message ::
  "pav \<Rightarrow> ahash \<Rightarrow> f64_math \<Rightarrow> relay_draws \<Rightarrow> (socket_addr \<Rightarrow> bool) \<Rightarrow> bool \<Rightarrow> instant \<Rightarrow> ('k :: linorder) relay_node \<Rightarrow> transaction \<Rightarrow>
   socket_addr option \<Rightarrow> 'k connect_msg \<Rightarrow> 'k op_slot \<Rightarrow> 'k node_state \<Rightarrow> 'k effect list \<times> 'k op_slot \<times> 'k node_state" where
  "handle_connect_message P H mth d link punch_ok now n tx source msg slot ns =
     (case load_or_init tx source msg slot ns of
        (None, ns) \<Rightarrow> ([], slot, ns)
      | (Some op, ns) \<Rightarrow>
          (case process_message P H mth d link punch_ok now n source msg op ns of
             None \<Rightarrow> ([], Absent, ns)
           | Some (es, op, ns) \<Rightarrow> (es, slot_of op, ns)))"

section \<open>What a relay does with a request\<close>

lemma note_arrival_simps [simp]:
  "time_to_live (request (snd (note_arrival H ctx st))) = time_to_live (request st)"
  "uphill_budget (request (snd (note_arrival H ctx st))) = uphill_budget (request st)"
  "desired_location (request (snd (note_arrival H ctx st))) = desired_location (request st)"
  "forwarded_to (snd (note_arrival H ctx st)) = forwarded_to st"
  "accepted_locally (snd (note_arrival H ctx st)) = accepted_locally st"
  "upstream_addr (snd (note_arrival H ctx st)) = upstream_addr st"
  "accept_response (fst (note_arrival H ctx st)) = None"
  "expect_connection_from (fst (note_arrival H ctx st)) = None"
  "act_forward (fst (note_arrival H ctx st)) = None"
  "act_rejected (fst (note_arrival H ctx st)) = False"
  by (simp_all add: note_arrival_def Let_def no_actions_def)

lemma note_arrival_joiner: "pkl_socket_addr (joiner (request (snd (note_arrival H ctx st)))) \<noteq> None"
  by (cases "pkl_addr (joiner (request st))") (auto simp: note_arrival_def Let_def set_addr_def pkl_socket_addr_def)

text \<open>The four outcomes of a request at a relay.\<close>

lemma relay_cases:
  assumes r: "relay_handle_request H ctx roll now rec e attempts st s = Some (actions, attempts', st', s')"
  obtains
    (forwarded) nxt where "forwarded_to st = None" "0 < time_to_live (request st)"
      "ctx_select_next_hop ctx (desired_location (request st)) (visited (request (snd (note_arrival H ctx st)))) rec e s = Some (Some nxt)"
      "(actions, attempts', st', s') = forward_and_maybe_accept ctx roll now nxt (fst (note_arrival H ctx st)) attempts (snd (note_arrival H ctx st)) s"
  | (terminus) "(actions, attempts', st', s') = at_terminus ctx now rec (fst (note_arrival H ctx st)) attempts (snd (note_arrival H ctx st)) s"
proof -
  let ?st = "snd (note_arrival H ctx st)"
  show thesis
  proof (cases "forwarded_to st = None \<and> 0 < time_to_live (request st)")
    case True
    then obtain next_hop where n: "ctx_select_next_hop ctx (desired_location (request st)) (visited (request ?st)) rec e s = Some next_hop"
      using r by (auto simp: relay_handle_request_def split_beta Let_def bind_eq_Some_conv)
    show thesis
    proof (cases next_hop)
      case None
      then show thesis using r n True terminus by (simp add: relay_handle_request_def split_beta Let_def)
    next
      case (Some p)
      then show thesis using r n True forwarded [of p] by (simp add: relay_handle_request_def split_beta Let_def)
    qed
  next
    case False
    then show thesis using r terminus by (auto simp: relay_handle_request_def split_beta Let_def)
  qed
qed

lemma forward_branch:
  assumes "(actions', attempts', st', s') = forward_and_maybe_accept ctx roll now nxt actions attempts st s"
    and "accept_response actions = None" "expect_connection_from actions = None"
  defines "req \<equiv> (request st)\<lparr>time_to_live := time_to_live (request st) - 1\<rparr>"
  shows "act_forward actions' = Some (nxt, req)" "request st' = req" "act_rejected actions' = act_rejected actions"
    "upstream_addr st' = upstream_addr st"
    "accept_response actions' \<noteq> None \<Longrightarrow> \<not> accepted_locally st \<and> accepted_locally st' \<and> ctx_should_accept ctx (joiner (request st)) s = (True, s')
      \<and> expect_connection_from actions' = Some (joiner (request st))"
    "accepted_locally st \<Longrightarrow> accepted_locally st'" "s' = s \<or> s' = snd (ctx_should_accept ctx (joiner (request st)) s)"
  using assms(1-3)
  by (auto simp: forward_and_maybe_accept_def forward_to_peer_def accept_joiner_def Let_def split_beta req_def prod_eq_iff split: if_splits)

lemma terminus_branch:
  assumes "(actions', attempts', st', s') = at_terminus ctx now rec actions attempts st s"
    and "accept_response actions = None" "expect_connection_from actions = None" "act_forward actions = None" "act_rejected actions = False"
  shows "act_forward actions' = Some (p, req) \<Longrightarrow>
      2 \<le> time_to_live (request st) \<and> 0 < uphill_budget (request st) \<and> request st' = req
      \<and> ctx_select_uphill_hop ctx (desired_location (request st)) (visited (request st)) rec s' = Some p
      \<and> req = (request st)\<lparr>time_to_live := time_to_live (request st) - 1, uphill_budget := uphill_budget (request st) - 1\<rparr>"
    "act_forward actions' = None \<Longrightarrow> request st' = request st"
    "act_rejected actions' \<Longrightarrow> act_forward actions' = None \<and> accept_response actions' = None"
    "upstream_addr st' = upstream_addr st"
    "accept_response actions' \<noteq> None \<Longrightarrow> \<not> accepted_locally st \<and> accepted_locally st' \<and> ctx_should_accept ctx (joiner (request st)) s = (True, s')
      \<and> expect_connection_from actions' = Some (joiner (request st)) \<and> act_forward actions' = None"
    "accepted_locally st \<Longrightarrow> accepted_locally st'" "s' = s \<or> s' = snd (ctx_should_accept ctx (joiner (request st)) s)"
  using assms
  by (auto simp: at_terminus_def route_uphill_def forward_to_peer_def accept_joiner_def Let_def split_beta prod_eq_iff split: if_splits option.splits)

lemma relay_ttl:
  assumes r: "relay_handle_request H ctx roll now rec e attempts st s = Some (actions, attempts', st', s')"
  shows "case act_forward actions of
      Some (p, req) \<Rightarrow> 0 < time_to_live (request st) \<and> time_to_live req = time_to_live (request st) - 1
        \<and> time_to_live (request st') = time_to_live (request st) - 1
    | None \<Rightarrow> time_to_live (request st') = time_to_live (request st)"
  using r
proof (cases rule: relay_cases)
  case (forwarded nxt)
  then show ?thesis using forward_branch(1,2) [OF forwarded(4)] by simp
next
  case terminus
  then show ?thesis using terminus_branch(1,2) [OF terminus] by (auto split: option.split)
qed

end
