(* ===== verification/Connect_Network.thy ===== *)
theory Connect_Network
  imports Connect_Operation
begin

text \<open>
  A CONNECT transaction in a network of relays: every node handles its messages as in
  \<open>operations/connect.rs\<close>, and messages are delivered in any order, lost, or made up.
\<close>

declare map_of_eq_Some_iff [simp del] and Some_eq_map_of_iff [simp del]

section \<open>A bound on the requests of a transaction\<close>

text \<open>
  A request with \<open>t\<close> hops left and a relay that holds one with \<open>t\<close> hops left can still cause
  \<open>2\<^sup>t\<close> and \<open>2\<^sup>t - 1\<close> arrivals of requests.
\<close>

fun msg_weight :: "'k connect_msg \<Rightarrow> nat" where
  "msg_weight (Msg_Request req) = 2 ^ time_to_live req"
| "msg_weight _ = 0"

fun is_request :: "'k connect_msg \<Rightarrow> bool" where
  "is_request (Msg_Request _) = True"
| "is_request _ = False"

fun effect_weight :: "'k effect \<Rightarrow> nat" where
  "effect_weight (Send _ msg) = msg_weight msg"
| "effect_weight _ = 0"

definition effects_weight :: "'k effect list \<Rightarrow> nat" where
  "effects_weight es = sum_list (map effect_weight es)"

definition op_weight :: "'k connect_op \<Rightarrow> nat" where
  "op_weight op = (case op_state op of Some (Relaying st) \<Rightarrow> 2 ^ time_to_live (request st) - 1 | _ \<Rightarrow> 0)"

definition slot_weight :: "'k op_slot \<Rightarrow> nat" where
  "slot_weight slot = (case slot of Stored op \<Rightarrow> op_weight op | _ \<Rightarrow> 0)"

definition opt_weight :: "'k connect_op option \<Rightarrow> nat" where
  "opt_weight op = (case op of Some op \<Rightarrow> op_weight op | None \<Rightarrow> 0)"

lemma slot_of_weight: "slot_weight (slot_of op) \<le> opt_weight op"
  by (auto simp: slot_weight_def slot_of_def opt_weight_def op_weight_def split: option.split connect_state.split)

lemma weight_append [simp]: "effects_weight (xs @ ys) = effects_weight xs + effects_weight ys"
  by (simp add: effects_weight_def)

lemma weight_small [simp]:
  "effects_weight [] = 0" "effects_weight (Send a msg # es) = msg_weight msg + effects_weight es"
  "effects_weight (ExpectPeerConnection a # es) = effects_weight es" "effects_weight (ConnectPeer p # es) = effects_weight es"
  by (simp_all add: effects_weight_def)

lemma takeWhile_weight: "effects_weight (takeWhile P es) \<le> effects_weight es"
  by (induction es) (auto simp: effects_weight_def)

lemma perform_weight:
  assumes "perform link es op ns = (es', op', ns')"
  shows "effects_weight es' + opt_weight op' \<le> effects_weight es + op_weight op"
  using assms takeWhile_weight [of "send_ok link" es] by (auto simp: perform_def opt_weight_def split: if_splits)

lemma expect_weight [simp]: "effects_weight (expect_effects p) = 0"
  by (simp add: expect_effects_def split: option.split)

lemma forward_weight: "effects_weight (forward_effects f) \<le> (case f of Some (_, req) \<Rightarrow> 2 ^ time_to_live req | None \<Rightarrow> 0)"
  by (auto simp: forward_effects_def split: option.split)

lemma note_forward_weight [simp]: "op_weight (note_forward now f op) = op_weight op"
  by (simp add: note_forward_def op_weight_def split: option.split)

lemma run_relay_weight:
  assumes "run_relay P H mth d now n e st op ns = Some (actions, op', ns')"
  shows "effects_weight (forward_effects (act_forward actions)) + op_weight op' \<le> 2 ^ time_to_live (request st) - 1"
proof -
  obtain attempts st' m where r: "relay_handle_request H (relay_env P H mth d now n (manager ns)) (draw_roll d) now (recency op) e
      (forward_attempts op) st (manager ns) = Some (actions, attempts, st', m)" and op': "op_state op' = Some (Relaying st')"
    using assms by (auto simp: run_relay_def bind_eq_Some_conv)
  have w: "op_weight op' = 2 ^ time_to_live (request st') - 1" by (simp add: op_weight_def op')
  show ?thesis
  proof (cases "act_forward actions")
    case None
    then show ?thesis using relay_ttl [OF r] forward_weight [of "act_forward actions"] by (simp add: w)
  next
    case (Some f)
    obtain p req where f: "f = (p, req)" by fastforce
    obtain t where t: "time_to_live (request st) = Suc t" "time_to_live req = t" "time_to_live (request st') = t"
      using relay_ttl [OF r] by (cases "time_to_live (request st)") (auto simp: Some f)
    have "1 \<le> (2 :: nat) ^ t" by simp
    then show ?thesis using forward_weight [of "act_forward actions"] unfolding w Some f t option.case prod.case by simp
  qed
qed

lemma record_outcome_state:
  "record_forward_outcome P p l ok (op, ns) = Some (op', ns') \<Longrightarrow> op_state op' = op_state op"
  by (auto simp: record_forward_outcome_def bind_eq_Some_conv)

lemma completed_weight [simp]: "op_weight (op\<lparr>op_state := Some Completed\<rparr>) = 0"
  by (simp add: op_weight_def)

lemma answer_weight:
  assumes "answer_request link now upstream desired actions op ns = (es, op', ns')"
  shows "effects_weight es + opt_weight op' \<le> effects_weight (forward_effects (act_forward actions)) + op_weight op"
  using assms by (auto simp: answer_request_def Let_def split: if_splits option.splits dest!: perform_weight)

lemma process_request_weight:
  assumes "process_request P H mth d link now n source payload op ns = Some (es, op', ns')"
  shows "effects_weight es + opt_weight op' + 1 \<le> 2 ^ time_to_live payload"
proof (cases source)
  case None
  then show ?thesis using assms by (simp add: process_request_def opt_weight_def)
next
  case (Some upstream)
  have pos: "1 \<le> (2 :: nat) ^ time_to_live payload" by simp
  show ?thesis
  proof (cases "fst (try_admit_connect (manager ns))")
    case False
    then have "perform link [Send upstream (Msg_Rejected (desired_location payload))] (op\<lparr>op_state := Some Completed\<rparr>) ns = (es, op', ns')"
      using assms by (simp add: process_request_def Some split_beta Let_def)
    from perform_weight [OF this] show ?thesis using pos by simp
  next
    case True
    then obtain actions op1 ns1 ns2 where h: "op_handle_request P H mth d now n upstream payload (forward_estimator ns) op
          (ns\<lparr>manager := snd (try_admit_connect (manager ns))\<rparr>) = Some (actions, op1, ns1)"
      and res: "answer_request link now upstream (desired_location payload) actions op1 ns2 = (es, op', ns')"
      using assms by (auto simp: process_request_def Some split_beta Let_def bind_eq_Some_conv)
    obtain st op2 ns2 where "run_relay P H mth d now n (forward_estimator ns) (st\<lparr>upstream_addr := upstream, request := payload\<rparr>) op2 ns2
        = Some (actions, op1, ns1)"
      using h by (auto simp: op_handle_request_def bind_eq_Some_conv Let_def)
    from run_relay_weight [OF this]
    have "effects_weight (forward_effects (act_forward actions)) + op_weight op1 \<le> 2 ^ time_to_live payload - 1" by simp
    then show ?thesis using answer_weight [OF res] pos by linarith
  qed
qed

lemma retry_weight:
  "effects_weight (retry_effects upstream give_up actions) \<le> effects_weight (forward_effects (act_forward actions)) + msg_weight give_up"
  by (simp add: retry_effects_def split: option.split)

lemma retried_weight:
  assumes "run_relay P H mth d now n e st op ns = Some (actions, op1, ns1)"
    and "perform link (retry_effects up give_up actions) (note_forward now (act_forward actions) op1) ns1 = (es, op', ns')"
    and "msg_weight give_up = 0" "time_to_live (request st) = t"
  shows "effects_weight es + opt_weight op' \<le> 2 ^ t - 1"
  using run_relay_weight [OF assms(1)] perform_weight [OF assms(2)] retry_weight [of up give_up actions] assms(3,4) by simp

lemma joiner_completed_weight [simp]: "op_weight (fst (joiner_completed op ns)) = 0"
  by (simp add: joiner_completed_def)

lemma process_response_weight:
  assumes "process_response P link ok now source acceptor op ns = Some (es, op', ns')"
  shows "effects_weight es + opt_weight op' \<le> op_weight op"
proof (cases "op_state op")
  case None
  then show ?thesis using assms by (auto simp: process_response_def opt_weight_def)
next
  case (Some state)
  show ?thesis
  proof (cases state)
    case (WaitingForResponses j)
    then have r: "joiner_response link ok now (fill_acceptor source acceptor) op ns = (es, op', ns')"
      using assms Some by (simp add: process_response_def)
    obtain acceptance op1 where h: "handle_response (fill_acceptor source acceptor) now op = Some (acceptance, op1)"
      and w1: "op_weight op1 = 0"
      using Some WaitingForResponses by (auto simp: handle_response_def register_acceptance_def Let_def op_weight_def)
    have pf: "op_weight (snd (punch_failed p a op1)) = 0" for p a
      using w1 by (auto simp: punch_failed_def op_weight_def Let_def split: option.splits connect_state.splits)
    show ?thesis
      using r w1 pf
      by (auto simp: joiner_response_def h Let_def split_beta opt_weight_def split: option.splits if_splits)
  next
    case (Relaying st)
    then obtain op1 ns1 where "perform link [Send (upstream_addr st) (Msg_Response (fill_acceptor source acceptor))]
        (op1\<lparr>op_state := Some (Relaying (st\<lparr>response_forwarded := True\<rparr>))\<rparr>) ns1 = (es, op', ns')"
      using assms Some by (auto simp: process_response_def relay_response_def Let_def bind_eq_Some_conv split: option.splits)
    from perform_weight [OF this] show ?thesis by (simp add: op_weight_def Some Relaying)
  qed (use assms Some in \<open>auto simp: process_response_def opt_weight_def\<close>)
qed

lemma process_rejected_weight:
  assumes "process_rejected P H mth d link now n desired op ns = Some (es, op', ns')"
  shows "effects_weight es + opt_weight op' \<le> op_weight op"
proof (cases "op_state op")
  case None
  then show ?thesis using assms by (auto simp: process_rejected_def opt_weight_def)
next
  case (Some state)
  show ?thesis
  proof (cases state)
    case (Relaying st)
    then obtain op0 ns0 actions op1 ns1
      where "run_relay P H mth d now n (forward_estimator ns0) (st\<lparr>forwarded_to := None, forwarded_at := None\<rparr>) op0 ns0 = Some (actions, op1, ns1)"
        "perform link (retry_effects (upstream_addr st) (Msg_Rejected desired) actions) (note_forward now (act_forward actions) op1) ns1 = (es, op', ns')"
      using assms Some by (auto simp: process_rejected_def bind_eq_Some_conv)
    from retried_weight [OF this, of "time_to_live (request st)"] show ?thesis by (simp add: op_weight_def Some Relaying)
  qed (use assms Some in \<open>auto simp: process_rejected_def opt_weight_def op_weight_def Let_def\<close>)
qed

lemma process_failed_weight:
  assumes "process_connect_failed P H mth d link now n failed op ns = Some (es, op', ns')"
  shows "effects_weight es + opt_weight op' \<le> op_weight op"
proof (cases "op_state op")
  case None
  then show ?thesis using assms by (auto simp: process_connect_failed_def opt_weight_def)
next
  case (Some state)
  show ?thesis
  proof (cases state)
    case (Relaying st)
    have w: "op_weight op = 2 ^ time_to_live (request st) - 1" by (simp add: op_weight_def Some Relaying)
    show ?thesis
    proof (cases "if response_forwarded st then Option.bind (forwarded_to st) pkl_socket_addr else None")
      case None
      then obtain op0 ns0 actions op1 ns1
        where "run_relay P H mth d now n (forward_estimator ns0)
            (st\<lparr>request := (request st)\<lparr>visited := mark_visited H failed (visited (request st))\<rparr>, forwarded_to := None,
                           forwarded_at := None, response_forwarded := False\<rparr>) op0 ns0 = Some (actions, op1, ns1)"
          "perform link (retry_effects (upstream_addr st) (Msg_ConnectFailed failed) actions) (note_forward now (act_forward actions) op1) ns1 = (es, op', ns')"
        using assms by (auto simp: process_connect_failed_def Some Relaying Let_def bind_eq_Some_conv simp del: if_split_asm)
      from retried_weight [OF this, of "time_to_live (request st)"] show ?thesis by (simp add: w)
    next
      case (Some addr)
      then obtain ns1 where "perform link [Send addr (Msg_ConnectFailed failed)]
          (op\<lparr>op_state := Some (Relaying (st\<lparr>response_forwarded := False\<rparr>))\<rparr>) ns1 = (es, op', ns')"
        using assms by (simp add: process_connect_failed_def \<open>op_state op = Some state\<close> Relaying Let_def)
      from perform_weight [OF this] show ?thesis unfolding w by (simp add: op_weight_def)
    qed
  qed (use assms Some in \<open>auto simp: process_connect_failed_def opt_weight_def op_weight_def Let_def\<close>)
qed

lemma observed_weight [simp]: "op_weight (handle_observed_address a now op) = op_weight op"
  by (simp add: handle_observed_address_def op_weight_def split: option.split connect_state.split)

lemma handle_weight:
  assumes "handle_connect_message P H mth d link ok now n tx source msg slot ns = (es, slot', ns')"
  shows "effects_weight es + slot_weight slot' + (if is_request msg then 1 else 0) \<le> msg_weight msg + slot_weight slot"
proof (cases "fst (load_or_init tx source msg slot ns)")
  case None
  then have "es = []" "slot' = slot" using assms by (auto simp: handle_connect_message_def split_beta)
  then show ?thesis by (cases msg) auto
next
  case (Some op)
  let ?ns = "snd (load_or_init tx source msg slot ns)"
  have pos: "is_request msg \<Longrightarrow> 1 \<le> msg_weight msg" by (cases msg) auto
  have st: "\<not> is_request msg \<Longrightarrow> slot = Stored op"
    using Some by (auto simp: load_or_init_def split: op_slot.splits connect_msg.splits option.splits)
  show ?thesis
  proof (cases "process_message P H mth d link ok now n source msg op ?ns")
    case None
    then have "es = []" "slot' = Absent" using assms Some by (auto simp: handle_connect_message_def split_beta)
    then show ?thesis using pos by (auto simp: slot_weight_def)
  next
    case (Some r)
    obtain es' op' ns1 where r: "r = (es', op', ns1)" by (cases r)
    have o: "es = es'" "slot' = slot_of op'"
      using assms Some \<open>fst _ = Some op\<close> by (auto simp: handle_connect_message_def split_beta r)
    have pm: "process_message P H mth d link ok now n source msg op ?ns = Some (es', op', ns1)" using Some r by simp
    have "effects_weight es' + opt_weight op' + (if is_request msg then 1 else 0) \<le> (if is_request msg then msg_weight msg else op_weight op)"
    proof (cases msg)
      case (Msg_Request req)
      then show ?thesis using process_request_weight [of P H mth d link now n source req op ?ns es' op' ns1] pm by (simp add: process_message_def)
    next
      case (Msg_Response p)
      then show ?thesis using process_response_weight [of P link ok now source p op ?ns es' op' ns1] pm by (simp add: process_message_def)
    next
      case (Msg_ObservedAddress a)
      then have "es' = []" "op' = Some (handle_observed_address a now op)" using pm by (simp_all add: process_message_def)
      then show ?thesis using Msg_ObservedAddress by (simp add: opt_weight_def)
    next
      case (Msg_Rejected l)
      then show ?thesis using process_rejected_weight [of P H mth d link now n l op ?ns es' op' ns1] pm by (simp add: process_message_def)
    next
      case (Msg_ConnectFailed a)
      then show ?thesis using process_failed_weight [of P H mth d link now n a op ?ns es' op' ns1] pm by (simp add: process_message_def)
    qed
    moreover have "\<not> is_request msg \<Longrightarrow> op_weight op = slot_weight slot" using st by (simp add: slot_weight_def)
    ultimately show ?thesis using slot_of_weight [of op'] unfolding o by (auto split: if_splits)
  qed
qed

section \<open>The network\<close>

text \<open>
  The operations and nodes by address, and the messages on their way with sender and receiver.  The
  keys of the filter of a request do not travel.
\<close>

record 'k connect_net =
  slots :: "(socket_addr, 'k op_slot) hmap"
  nodes :: "socket_addr \<Rightarrow> 'k node_state"
  wire :: "(socket_addr \<times> socket_addr \<times> 'k connect_msg) list"

datatype 'k net_event =
    Deliver nat relay_draws "socket_addr \<Rightarrow> bool" bool instant
  | Lose nat
  | Make_Up socket_addr socket_addr "'k connect_msg"
  | Forget socket_addr
  | Manage socket_addr "'k cm_event"

definition slot_at :: "socket_addr \<Rightarrow> 'k connect_net \<Rightarrow> 'k op_slot" where
  "slot_at a s = (case hm_get (slots s) a of Some slot \<Rightarrow> slot | None \<Rightarrow> Absent)"

fun transferred :: "'k connect_msg \<Rightarrow> 'k connect_msg" where
  "transferred (Msg_Request req) = Msg_Request (req\<lparr>visited := received (visited req)\<rparr>)"
| "transferred msg = msg"

fun sent_by :: "socket_addr \<Rightarrow> 'k effect list \<Rightarrow> (socket_addr \<times> socket_addr \<times> 'k connect_msg) list" where
  "sent_by src [] = []"
| "sent_by src (Send dst msg # es) = (src, dst, msg) # sent_by src es"
| "sent_by src (_ # es) = sent_by src es"

definition remove_nth :: "nat \<Rightarrow> 'a list \<Rightarrow> 'a list" where
  "remove_nth i xs = take i xs @ drop (Suc i) xs"

fun net_step ::
  "pav \<Rightarrow> ahash \<Rightarrow> f64_math \<Rightarrow> (socket_addr \<Rightarrow> ('k :: linorder) relay_node) \<Rightarrow> transaction \<Rightarrow> 'k connect_net \<Rightarrow> 'k net_event \<Rightarrow> 'k connect_net" where
  "net_step P H mth env tx s (Deliver i d link punch_ok now) =
     (if i < length (wire s)
      then (let (src, dst, msg) = wire s ! i;
                (es, slot, ns) = handle_connect_message P H mth d link punch_ok now (env dst) tx (Some src) (transferred msg)
                                   (slot_at dst s) (nodes s dst)
            in s\<lparr>slots := hm_put dst slot (slots s), nodes := (nodes s)(dst := ns),
                 wire := remove_nth i (wire s) @ sent_by dst es\<rparr>)
      else s)"
| "net_step P H mth env tx s (Lose i) = s\<lparr>wire := remove_nth i (wire s)\<rparr>"
| "net_step P H mth env tx s (Make_Up src dst msg) = (if is_request msg then s else s\<lparr>wire := wire s @ [(src, dst, msg)]\<rparr>)"
| "net_step P H mth env tx s (Forget a) = s\<lparr>slots := hm_del a (slots s)\<rparr>"
| "net_step P H mth env tx s (Manage a e) =
     s\<lparr>nodes := (nodes s)(a := (nodes s a)\<lparr>manager := cm_step mth (manager (nodes s a)) e\<rparr>)\<rparr>"

fun requests_arriving :: "'k connect_net \<Rightarrow> 'k net_event \<Rightarrow> nat" where
  "requests_arriving s (Deliver i _ _ _ _) = (if i < length (wire s) \<and> is_request (snd (snd (wire s ! i))) then 1 else 0)"
| "requests_arriving s _ = 0"

definition wire_weight :: "(socket_addr \<times> socket_addr \<times> 'k connect_msg) list \<Rightarrow> nat" where
  "wire_weight w = sum_list (map (\<lambda>(_, _, msg). msg_weight msg) w)"

definition net_weight :: "'k connect_net \<Rightarrow> nat" where
  "net_weight s = wire_weight (wire s) + hm_sum slot_weight (slots s)"

lemma wire_weight_simps [simp]:
  "wire_weight [] = 0" "wire_weight (x # xs) = msg_weight (snd (snd x)) + wire_weight xs" "wire_weight (xs @ ys) = wire_weight xs + wire_weight ys"
  by (simp_all add: wire_weight_def split_beta)

lemma sent_by_weight [simp]: "wire_weight (sent_by src es) = effects_weight es"
  by (induction src es rule: sent_by.induct) simp_all

lemma remove_nth_weight: "i < length w \<Longrightarrow> wire_weight (remove_nth i w) + msg_weight (snd (snd (w ! i))) = wire_weight w"
  using arg_cong [OF id_take_nth_drop, of i w wire_weight] by (simp add: remove_nth_def del: id_take_nth_drop)

lemma remove_nth_le: "wire_weight (remove_nth i w) \<le> wire_weight w"
  using remove_nth_weight [of i w] by (cases "i < length w") (auto simp: remove_nth_def)

lemma transferred_simps [simp]: "msg_weight (transferred msg) = msg_weight msg" "is_request (transferred msg) = is_request msg"
  by (cases msg; simp)+

lemma put_weight:
  assumes "hm_wf (slots s)"
  shows "hm_sum slot_weight (hm_put a slot (slots s)) + slot_weight (slot_at a s) = hm_sum slot_weight (slots s) + slot_weight slot"
  using hm_sum_put [OF assms, of slot_weight a slot] by (simp add: slot_at_def slot_weight_def [of Absent] split: option.splits)

lemma net_step_weight:
  assumes wf: "hm_wf (slots s)"
  shows "requests_arriving s e + net_weight (net_step P H mth env tx s e) \<le> net_weight s"
proof (cases e)
  case (Deliver i d link ok now)
  show ?thesis
  proof (cases "i < length (wire s)")
    case True
    obtain src dst msg where m: "wire s ! i = (src, dst, msg)" by (cases "wire s ! i")
    obtain es slot ns where h: "handle_connect_message P H mth d link ok now (env dst) tx (Some src) (transferred msg)
        (slot_at dst s) (nodes s dst) = (es, slot, ns)" by (cases "handle_connect_message P H mth d link ok now (env dst) tx (Some src)
        (transferred msg) (slot_at dst s) (nodes s dst)")
    show ?thesis
      using handle_weight [OF h] remove_nth_weight [OF True] put_weight [OF wf, of dst slot]
      by (simp add: Deliver True m h net_weight_def)
  qed (simp add: Deliver)
next
  case (Lose i)
  then show ?thesis using remove_nth_le [of i "wire s"] by (simp add: net_weight_def)
next
  case (Make_Up src dst msg)
  then show ?thesis by (cases msg) (simp_all add: net_weight_def)
next
  case (Forget a)
  then show ?thesis using hm_sum_del [OF wf, of slot_weight a] by (simp add: net_weight_def)
qed (simp add: net_weight_def)

lemma net_step_wf: "hm_wf (slots s) \<Longrightarrow> hm_wf (slots (net_step P H mth env tx s e))"
  by (cases e) (auto simp: Let_def split_beta)

interpretation cb: potential_machine "net_step P H mth env tx" "\<lambda>s. hm_wf (slots s)" requests_arriving net_weight "\<lambda>_. 0"
  for P H mth env tx
  by unfold_locales (simp_all add: net_step_wf net_step_weight)

text \<open>A joiner at \<open>own\<close> has sent its request to \<open>target\<close>; no other node knows of the transaction.\<close>

definition join_net ::
  "ahash \<Rightarrow> instant \<Rightarrow> transaction \<Rightarrow> 'k \<Rightarrow> socket_addr \<Rightarrow> 'k peer_key_location \<Rightarrow> socket_addr \<Rightarrow> location \<Rightarrow> nat \<Rightarrow> nat \<Rightarrow>
   socket_addr list \<Rightarrow> (socket_addr \<Rightarrow> 'k node_state) \<Rightarrow> 'k connect_net" where
  "join_net H now tx key own target gw desired ttl n_target exclude ns =
     (let (op, msg) = initiate_join_request H now tx (pkl_new key own) target desired ttl n_target exclude
      in \<lparr>slots = [(own, Stored op)], nodes = ns, wire = [(own, gw, msg)]\<rparr>)"

lemma wire_requests: "length (filter (\<lambda>(_, _, msg). is_request msg) w) \<le> wire_weight w"
proof (induction w)
  case (Cons x w)
  obtain src dst msg where x: "x = (src, dst, msg)" by (cases x)
  have "is_request msg \<Longrightarrow> 1 \<le> msg_weight msg" by (cases msg) auto
  then show ?case using Cons by (auto simp: x)
qed simp

text \<open>
  C4: whatever the network does, a join started with \<open>ttl\<close> hops makes at most \<open>2 ^ ttl\<close> requests
  arrive, counting those still on their way: with any relays, choices, orders of delivery, losses,
  failed sends, forgotten operations, and with rejections, failures and answers made up at will.
\<close>

theorem connect_requests_bounded:
  fixes P :: pav and H :: ahash and mth :: f64_math and env :: "socket_addr \<Rightarrow> ('k :: linorder) relay_node" and tx :: transaction
    and now :: instant and key :: 'k and own gw :: socket_addr and target :: "'k peer_key_location" and desired :: location
    and ttl n_target :: nat and exclude :: "socket_addr list" and ns :: "socket_addr \<Rightarrow> 'k node_state" and es :: "'k net_event list"
  defines "s0 \<equiv> join_net H now tx key own target gw desired ttl n_target exclude ns"
  shows "run_cost (net_step P H mth env tx) requests_arriving s0 es
    + length (filter (\<lambda>(_, _, msg). is_request msg) (wire (foldl (net_step P H mth env tx) s0 es))) \<le> 2 ^ ttl"
proof -
  have wf: "hm_wf (slots s0)" by (simp add: s0_def join_net_def split_beta)
  have w: "net_weight s0 = 2 ^ ttl"
    by (simp add: s0_def join_net_def initiate_join_request_def new_joiner_def net_weight_def hm_sum_def slot_weight_def op_weight_def
        split_beta Let_def)
  show ?thesis
    using cb.cost_bounded [OF wf, of P H mth env tx es] wire_requests [of "wire (foldl (net_step P H mth env tx) s0 es)"]
    unfolding w by (simp add: net_weight_def)
qed

section \<open>The connection managers of the network\<close>

text \<open>The handlers act on the manager of their node through its operations only.\<close>

definition managed :: "f64_math \<Rightarrow> 'k connection_manager \<Rightarrow> 'k connection_manager \<Rightarrow> bool" where
  "managed mth m m' \<longleftrightarrow> (\<exists>evs. m' = foldl (cm_step mth) m evs)"

lemma managed_refl [simp, intro]: "managed mth m m"
  unfolding managed_def by (rule exI [of _ "[]"]) simp

lemma managed_step: "m' = cm_step mth m e \<Longrightarrow> managed mth m m'"
  unfolding managed_def by (rule exI [of _ "[e]"]) simp

lemma managed_trans: "managed mth m m' \<Longrightarrow> managed mth m' m'' \<Longrightarrow> managed mth m m''"
  unfolding managed_def by (metis foldl_append)

lemma env_accept_managed: "managed mth m (snd (env_should_accept mth d now n j m))"
proof (cases "pkl_socket_addr j")
  case (Some addr)
  have "managed mth m (snd (should_accept mth (draw_accept d) now (from_address addr) addr m))"
    by (rule managed_step [where e = "Should_Accept (draw_accept d) now (from_address addr) addr"]) simp
  then show ?thesis by (simp add: env_should_accept_def Some)
qed (simp add: env_should_accept_def)

lemma relay_managed:
  assumes "relay_handle_request H (relay_env P H mth d now n m0) roll now rec e attempts st m = Some (actions, attempts', st', m')"
  shows "managed mth m m'"
proof -
  have acc: "ctx_should_accept (relay_env P H mth d now n m0) = env_should_accept mth d now n" by (simp add: relay_env_def Let_def)
  obtain j where "m' = m \<or> m' = snd (env_should_accept mth d now n j m)"
    using assms
  proof (cases rule: relay_cases)
    case (forwarded nxt)
    from forward_branch(7) [OF forwarded(4)] show ?thesis using that by (auto simp: acc)
  next
    case terminus
    from terminus_branch(7) [OF terminus] show ?thesis using that by (auto simp: acc)
  qed
  then show ?thesis using env_accept_managed [of mth m d now n j] by auto
qed

lemma run_relay_managed: "run_relay P H mth d now n e st op ns = Some (actions, op', ns') \<Longrightarrow> managed mth (manager ns) (manager ns')"
  by (auto simp: run_relay_def bind_eq_Some_conv dest: relay_managed)

lemma outcome_manager: "record_forward_outcome P p l ok (op, ns) = Some (op', ns') \<Longrightarrow> manager ns' = manager ns"
  by (auto simp: record_forward_outcome_def bind_eq_Some_conv)

lemma expire_one_manager: "expire_one P x (op, ns) = Some (op', ns') \<Longrightarrow> manager ns' = manager ns"
  by (auto simp: expire_one_def dest: outcome_manager split: option.splits)

lemma foldl_bind_None: "foldl (\<lambda>r x. Option.bind r (f x)) None xs = None"
  by (induction xs) auto

lemma expire_all_manager:
  "foldl (\<lambda>r x. Option.bind r (expire_one P x)) (Some (op, ns)) xs = Some (op', ns') \<Longrightarrow> manager ns' = manager ns"
proof (induction xs arbitrary: op ns)
  case (Cons x xs)
  obtain op1 ns1 where r: "expire_one P x (op, ns) = Some (op1, ns1)"
    using Cons.prems by (cases "expire_one P x (op, ns)") (auto simp: foldl_bind_None)
  then show ?case using Cons expire_one_manager [OF r] by simp
qed simp

lemma expire_manager: "expire_forward_attempts P now (op, ns) = Some (op', ns') \<Longrightarrow> manager ns' = manager ns"
  unfolding expire_forward_attempts_def Let_def case_prod_conv by (rule expire_all_manager)

lemma perform_manager: "perform link es op ns = (es', op', ns') \<Longrightarrow> ns' = ns"
  by (auto simp: perform_def split: if_splits)

lemma request_managed:
  assumes "process_request P H mth d link now n source payload op ns = Some (es, op', ns')"
  shows "managed mth (manager ns) (manager ns')"
proof (cases source)
  case (Some upstream)
  show ?thesis
  proof (cases "fst (try_admit_connect (manager ns))")
    case False
    then have "ns' = ns" using assms by (auto simp: process_request_def Some split_beta Let_def dest: perform_manager)
    then show ?thesis by simp
  next
    case True
    let ?m1 = "snd (try_admit_connect (manager ns))"
    obtain actions op1 ns1 where h: "op_handle_request P H mth d now n upstream payload (forward_estimator ns) op (ns\<lparr>manager := ?m1\<rparr>) = Some (actions, op1, ns1)"
      and m': "manager ns' = drop_admission_guard (manager ns1)"
      using assms True
      by (auto simp: process_request_def Some split_beta Let_def bind_eq_Some_conv answer_request_def split: if_splits dest!: perform_manager)
    have "managed mth ?m1 (manager ns1)"
      using h by (auto simp: op_handle_request_def bind_eq_Some_conv Let_def dest!: expire_manager run_relay_managed)
    moreover have "managed mth (manager ns) ?m1" by (rule managed_step [where e = Admit_Connect]) simp
    moreover have "managed mth (manager ns1) (manager ns')" by (rule managed_step [where e = Drop_Admission]) (simp add: m')
    ultimately show ?thesis using managed_trans by blast
  qed
qed (use assms in \<open>simp add: process_request_def\<close>)

lemma completed_managed: "managed mth (manager ns) (manager (snd (joiner_completed op ns)))"
  by (rule managed_step [where e = Jitter_Reset]) (simp add: joiner_completed_def)

lemma exclusion_managed:
  "managed mth m (m\<lparr>connect_excluded_peers := clear_connect_exclusion addr (connect_excluded_peers m)\<rparr>)"
  by (rule managed_step [where e = "Clear_Exclusion addr"]) simp

lemma completed_after: "managed mth m (manager ns) \<Longrightarrow> managed mth m (manager (snd (joiner_completed op ns)))"
  by (rule managed_trans [OF _ completed_managed])

lemma joiner_managed:
  assumes "joiner_response link ok now acceptor op ns = (es, op', ns')"
  shows "managed mth (manager ns) (manager ns')"
  using assms
  by (auto simp: joiner_response_def Let_def split_beta split: option.splits if_splits intro!: completed_after exclusion_managed)

lemma exclude_managed: "managed mth (manager ns) (manager (exclude_acceptor addr now ns))"
  by (rule managed_step [where e = "Acceptor_Failure addr now"]) (simp add: exclude_acceptor_def)

lemma learn_managed: "managed mth (manager ns) (manager (learn_own_address addr ns))"
  by (rule managed_trans [OF managed_step [where e = "Set_Own_Addr addr"] managed_step [where e = "Update_Location (Some (from_address addr))"]])
    (simp_all add: learn_own_address_def)

lemma optional_outcome_manager:
  "(case f of Some fwd \<Rightarrow> record_forward_outcome P fwd l ok (op, ns) | None \<Rightarrow> Some (op, ns)) = Some (op', ns') \<Longrightarrow> manager ns' = manager ns"
  by (auto split: option.splits dest: outcome_manager)

lemma response_managed:
  assumes "process_response P link ok now source acceptor op ns = Some (es, op', ns')"
  shows "managed mth (manager ns) (manager ns')"
  using assms
  by (auto simp: process_response_def Let_def relay_response_def bind_eq_Some_conv split: option.splits connect_state.splits
      dest!: joiner_managed [where mth = mth] perform_manager outcome_manager)

lemma rejected_managed:
  assumes "process_rejected P H mth d link now n desired op ns = Some (es, op', ns')"
  shows "managed mth (manager ns) (manager ns')"
proof (cases "\<exists>st. op_state op = Some (Relaying st)")
  case True
  then obtain st where st: "op_state op = Some (Relaying st)" by blast
  obtain op0 ns0 actions op1 where "manager ns0 = manager ns"
    "run_relay P H mth d now n (forward_estimator ns0) (st\<lparr>forwarded_to := None, forwarded_at := None\<rparr>) op0 ns0 = Some (actions, op1, ns')"
    using assms by (auto simp: process_rejected_def st bind_eq_Some_conv dest!: optional_outcome_manager perform_manager)
  then show ?thesis using run_relay_managed by metis
qed (use assms in \<open>auto simp: process_rejected_def Let_def split: option.splits connect_state.splits\<close>)

lemma failed_managed:
  assumes "process_connect_failed P H mth d link now n failed op ns = Some (es, op', ns')"
  shows "managed mth (manager ns) (manager ns')"
proof (cases "\<exists>st. op_state op = Some (Relaying st)")
  case True
  then obtain st where st: "op_state op = Some (Relaying st)" by blast
  let ?ns = "exclude_acceptor failed now ns"
  have "managed mth (manager ?ns) (manager ns')"
  proof (cases "if response_forwarded st then Option.bind (forwarded_to st) pkl_socket_addr else None")
    case None
    obtain op0 ns0 actions op1 st' where "manager ns0 = manager ?ns"
      "run_relay P H mth d now n (forward_estimator ns0) st' op0 ns0 = Some (actions, op1, ns')"
      using assms
      by (simp add: process_connect_failed_def st Let_def None)
        (auto simp: bind_eq_Some_conv dest!: optional_outcome_manager perform_manager)
    then show ?thesis using run_relay_managed by metis
  next
    case (Some addr)
    then have "ns' = ?ns" using assms by (simp add: process_connect_failed_def st Let_def Some) (auto dest: perform_manager)
    then show ?thesis by simp
  qed
  then show ?thesis using exclude_managed managed_trans by blast
qed (use assms in \<open>auto simp: process_connect_failed_def Let_def split: option.splits connect_state.splits\<close>)

lemma message_managed:
  assumes "process_message P H mth d link ok now n source msg op ns = Some (es, op', ns')"
  shows "managed mth (manager ns) (manager ns')"
  using assms
  by (cases msg) (auto simp: process_message_def learn_managed dest: request_managed response_managed [where mth = mth] rejected_managed failed_managed)

lemma load_managed: "managed mth (manager ns) (manager (snd (load_or_init tx source msg slot ns)))"
  by (auto simp: load_or_init_def learn_managed split: op_slot.split connect_msg.split option.split)

lemma handle_managed:
  assumes "handle_connect_message P H mth d link ok now n tx source msg slot ns = (es, slot', ns')"
  shows "managed mth (manager ns) (manager ns')"
proof -
  let ?l = "load_or_init tx source msg slot ns"
  have "managed mth (manager (snd ?l)) (manager ns')"
    using assms by (auto simp: handle_connect_message_def split_beta dest: message_managed split: option.splits)
  then show ?thesis using load_managed managed_trans by blast
qed

lemma net_managed: "managed mth (manager (nodes s a)) (manager (nodes (net_step P H mth env tx s e) a))"
proof (cases e)
  case (Deliver i d link ok now)
  obtain src dst msg where m: "wire s ! i = (src, dst, msg)" by (cases "wire s ! i")
  obtain es slot ns where h: "handle_connect_message P H mth d link ok now (env dst) tx (Some src) (transferred msg)
      (slot_at dst s) (nodes s dst) = (es, slot, ns)"
    by (cases "handle_connect_message P H mth d link ok now (env dst) tx (Some src) (transferred msg) (slot_at dst s) (nodes s dst)")
  show ?thesis using handle_managed [OF h] by (simp add: Deliver m h)
next
  case (Manage b ev)
  then show ?thesis using managed_step [of _ mth "manager (nodes s b)" ev] by simp
qed simp_all

lemma run_managed: "managed mth (manager (nodes s a)) (manager (nodes (foldl (net_step P H mth env tx) s es) a))"
  by (induction es arbitrary: s) (auto intro: managed_trans [OF net_managed])


text \<open>Two small nodes, one of which joins through the other.\<close>

definition sample_estimator :: "nat isotonic_estimator" where
  "sample_estimator = \<lparr>est_type = Negative, est_points = [], peer_adjustments = []\<rparr>"

definition sample_router :: "nat router" where
  "sample_router = \<lparr>response_start_time_estimator = sample_estimator, transfer_rate_estimator = sample_estimator,
     failure_estimator = sample_estimator, mean_transfer_size = \<lparr>mean_sum = 1000, mean_count = 10\<rparr>, consider_n_closest_peers = 5\<rparr>"

definition sample_env :: "socket_addr \<Rightarrow> nat relay_node" where
  "sample_env _ = \<lparr>node_key = 1, node_router = sample_router, blocked_addresses = None\<rparr>"

definition sample_net :: "nat connect_net" where
  "sample_net = join_net (\<lambda>_ _. 0) 0 7 0 (V4 1 1) (pkl_new 1 (V4 2 2)) (V4 2 2) 0 10 1 []
     (\<lambda>_. \<lparr>manager = init_connection_manager 1 2 None (- 1) False 2 9 0, forward_estimator = sample_estimator,
           gateway_backoff = new_peer_connection_backoff None, connection_backoff = new_connection_backoff\<rparr>)"


end
