(* ===== verification/Connect_Routing.thy ===== *)
theory Connect_Routing
  imports Connect_Network
begin

text \<open>
  Where a relay of the CONNECT operation (\<open>operations/connect.rs\<close>) sends a request on: the contract of
  the trait \<open>RelayContext\<close> as a locale, its interpretation on the context of a node (\<open>RelayEnv\<close>), and
  the requests a node sends whatever message it handles.  The last section has the lemmas behind three
  oddities of the handlers.
\<close>

section \<open>The contract of a relay's context\<close>

text \<open>
  \<open>offered v s p\<close>: the context may name the peer \<open>p\<close> in the state \<open>s\<close> when the visited filter is \<open>v\<close>;
  \<open>honest\<close>: the random draws behind its choices are in range.
\<close>

locale relay_routing =
  fixes ctx :: "('k, 's) relay_context"
    and offered :: "visited_peers \<Rightarrow> 's \<Rightarrow> 'k peer_key_location \<Rightarrow> bool"
    and honest :: bool
  assumes next_offered: "honest \<Longrightarrow> ctx_select_next_hop ctx l v rec e s = Some (Some p) \<Longrightarrow> offered v s p \<and> \<not> farther_than_self (self_location ctx) l p"
    and uphill_offered: "honest \<Longrightarrow> ctx_select_uphill_hop ctx l v rec s = Some p \<Longrightarrow> offered v s p"
    and accept_keeps: "offered v (snd (ctx_should_accept ctx j s)) p \<longleftrightarrow> offered v s p"
begin

lemma forward_offered:
  assumes honest and r: "relay_handle_request H ctx roll now rec e attempts st s = Some (actions, attempts', st', s')"
    and f: "act_forward actions = Some (p, req)"
  shows "offered (visited req) s p \<and> request st' = req \<and> upstream_addr st' = upstream_addr st
    \<and> visited req = visited (request (snd (note_arrival H ctx st))) \<and> desired_location req = desired_location (request st)
    \<and> (\<not> farther_than_self (self_location ctx) (desired_location req) p \<or> uphill_budget req < uphill_budget (request st))"
  using r
proof (cases rule: relay_cases)
  case (forwarded nxt)
  then show ?thesis
    using forward_branch(1,2,4) [OF forwarded(4)] next_offered [OF assms(1) forwarded(3)] f by auto
next
  case terminus
  have u: "ctx_select_uphill_hop ctx (desired_location (request st)) (visited (request (snd (note_arrival H ctx st)))) rec s' = Some p"
    "0 < uphill_budget (request st)" "request st' = req" "upstream_addr st' = upstream_addr st"
    "req = (request (snd (note_arrival H ctx st)))\<lparr>time_to_live := time_to_live (request st) - 1, uphill_budget := uphill_budget (request st) - 1\<rparr>"
    using terminus_branch(1,4) [OF terminus] f by auto
  have "offered (visited (request (snd (note_arrival H ctx st)))) s p"
    using uphill_offered [OF assms(1) u(1)] terminus_branch(7) [OF terminus] by (auto simp: accept_keeps)
  then show ?thesis using u by simp
qed

end

section \<open>The context of a node\<close>

definition draws_ok :: "relay_draws \<Rightarrow> bool" where
  "draws_ok d \<longleftrightarrow> pick_ok (draw_next d) \<and> pick_ok (draw_uphill d) \<and> shuffle_ok (draw_perm d)"

definition ring_peer ::
  "ahash \<Rightarrow> instant \<Rightarrow> 'k peer_key_location \<Rightarrow> visited_peers \<Rightarrow> 'k connection_manager \<Rightarrow> 'k peer_key_location \<Rightarrow> bool" where
  "ring_peer H now self v m p \<longleftrightarrow>
     (\<exists>addr. pkl_socket_addr p = Some addr \<and> is_in_ring addr m \<and> \<not> hm_has addr (transient_connections m)
        \<and> \<not> probably_visited H v addr \<and> pkl_socket_addr self \<noteq> Some addr
        \<and> addr \<notin> set (compute_connect_excluded_peers now (connection_count m) (connect_excluded_peers m)))"

lemma connect_candidate:
  assumes pick: "pick_ok pick" and p: "p \<in> set (connect_candidates H now pick self v m)"
  shows "ring_peer H now self v m p"
proof -
  let ?skip = "skip_list_with_self H v (pkl_socket_addr self) (compute_connect_excluded_peers now (connection_count m) (connect_excluded_peers m))"
  obtain c where c: "c \<in> set (routing_candidates now pick None ?skip False m)" "p = pkl_new (pub_key c) (peer_addr c)"
    using p by (auto simp: connect_candidates_def Let_def)
  obtain e ready where e: "e \<in> set (connections_by_location m)" "candidate_at now pick None ?skip False m e = Some (c, ready)"
    using routing_from [of False now pick None ?skip m] c(1) by auto
  obtain loc conns where lc: "e = (loc, conns)" by (cases e)
  note props = candidate_at_props [OF pick e(2) [unfolded lc]]
  have "is_in_ring (peer_addr c) m"
    unfolding is_in_ring_def list_ex_iff
    using props(1) by (intro bexI [OF _ e(1)]) (auto simp: bucket_has_image lc)
  then show ?thesis using props(2,4) c(2) by (simp add: ring_peer_def skip_list_with_self_def pkl_new_def pkl_socket_addr_def)
qed

lemma filter_low_subset: "set (filter_low_score_peers xs k) \<subseteq> set xs"
  by (auto simp: filter_low_score_peers_def)

lemma scored_subset:
  "snd ` set (fst (scored_of P e l cands)) \<subseteq> set cands" "set (snd (scored_of P e l cands)) \<subseteq> set cands"
  by (auto simp: scored_of_def set_map_filter)

lemma best_or_eligible:
  assumes "(case scored of
        [] \<Rightarrow> Some (if eligible = [] then None else sel eligible)
      | sc # rest \<Rightarrow>
          Option.bind (max_score (fst sc) (map fst rest))
            (\<lambda>b. Some (if map snd (filter (\<lambda>x. same_score (fst x) b) scored) \<noteq> [] then sel (map snd (filter (\<lambda>x. same_score (fst x) b) scored))
                       else if eligible = [] then None else sel eligible))) = Some (Some p)"
  obtains ps where "sel ps = Some p" "set ps \<subseteq> snd ` set scored \<or> set ps \<subseteq> set eligible"
proof (cases scored)
  case Nil
  then show thesis using assms that [of eligible] by (auto split: if_splits)
next
  case (Cons sc rest)
  then obtain b where "(if map snd (filter (\<lambda>x. same_score (fst x) b) scored) \<noteq> [] then sel (map snd (filter (\<lambda>x. same_score (fst x) b) scored))
      else if eligible = [] then None else sel eligible) = Some p"
    using assms by (cases "max_score (fst sc) (map fst rest)") auto
  then show thesis
    using that [of eligible] that [of "map snd (filter (\<lambda>x. same_score (fst x) b) scored)"] by (fastforce split: if_splits)
qed

lemma next_hop_candidate:
  assumes perm: "shuffle_ok (draw_perm d)" and s: "env_select_next_hop P H d now n self l v rec e m = Some (Some p)"
  shows "p \<in> set (connect_candidates H now (draw_next d) self v m)" "\<not> farther_than_self self l p"
proof -
  let ?cands = "filter (\<lambda>c. \<not> recently_used now rec c \<and> \<not> farther_than_self self l c) (connect_candidates H now (draw_next d) self v m)"
  let ?scored = "filter_low_score_peers (fst (scored_of P e l ?cands)) (length (snd (scored_of P e l ?cands)))"
  let ?eligible = "snd (scored_of P e l ?cands)"
  obtain ps where ps: "select_peer P (draw_perm d) (node_router n) ps l = Some p" "set ps \<subseteq> snd ` set ?scored \<or> set ps \<subseteq> set ?eligible"
    using s unfolding env_select_next_hop_def Let_def split_beta by (rule best_or_eligible)
  have "p \<in> set ?cands"
    using select_peer_offered [OF perm ps(1)] ps(2) filter_low_subset [of "fst (scored_of P e l ?cands)"] scored_subset [of P e l ?cands] by blast
  then show "p \<in> set (connect_candidates H now (draw_next d) self v m)" "\<not> farther_than_self self l p" by simp_all
qed

lemma uphill_candidate:
  assumes perm: "shuffle_ok (draw_perm d)" and s: "env_select_uphill_hop P H d now n self l v rec m = Some p"
  shows "p \<in> set (connect_candidates H now (draw_uphill d) self v m)"
proof -
  let ?el = "filter (\<lambda>c. \<not> recently_used now rec c) (connect_candidates H now (draw_uphill d) self v m)"
  obtain Q where "select_peer P (draw_perm d) (node_router n) (filter Q ?el) l = Some p"
    using s unfolding env_select_uphill_hop_def Let_def partition_filter_conv split_beta fst_conv snd_conv
    by (auto split: if_splits simp: comp_def simp del: filter_filter)
  then show ?thesis using select_peer_offered [OF perm] by fastforce
qed

lemma accept_frame:
  "connections_by_location (snd (should_accept mth draw now loc addr m)) = connections_by_location m"
  "transient_connections (snd (should_accept mth draw now loc addr m)) = transient_connections m"
  "connect_excluded_peers (snd (should_accept mth draw now loc addr m)) = connect_excluded_peers m"
  using accept_decision_frame [of mth draw now loc "connection_count m"
      "live_reservations now m + 1 + connection_count m" "m\<lparr>pending_reservations := bt_put addr (loc, now) (pending_reservations m)\<rparr>"]
  by (auto simp: should_accept_def Let_def split_beta record_pending_location_def split: option.split)

lemma env_accept_frame:
  "connections_by_location (snd (env_should_accept mth d now n j m)) = connections_by_location m"
  "transient_connections (snd (env_should_accept mth d now n j m)) = transient_connections m"
  "connect_excluded_peers (snd (env_should_accept mth d now n j m)) = connect_excluded_peers m"
  by (simp_all add: env_should_accept_def accept_frame split: option.split)

lemma ring_peer_cong:
  assumes "connections_by_location m' = connections_by_location m" "transient_connections m' = transient_connections m"
    "connect_excluded_peers m' = connect_excluded_peers m"
  shows "ring_peer H now self v m' p \<longleftrightarrow> ring_peer H now self v m p"
  by (simp add: ring_peer_def is_in_ring_def connection_count_def assms)

lemma relay_env_simps [simp]:
  "self_location (relay_env P H mth d now n m) = own_peer n m"
  "ctx_should_accept (relay_env P H mth d now n m) = env_should_accept mth d now n"
  "ctx_select_next_hop (relay_env P H mth d now n m) = env_select_next_hop P H d now n (own_peer n m)"
  "ctx_select_uphill_hop (relay_env P H mth d now n m) = env_select_uphill_hop P H d now n (own_peer n m)"
  by (simp_all add: relay_env_def Let_def)

text \<open>
  The context of a node meets the contract: with honest random draws it names only peers of the ring
  that are not transient, excluded, marked as visited or the node itself.
\<close>

interpretation re: relay_routing "relay_env P H mth d now n m" "ring_peer H now (own_peer n m)" "draws_ok d" for P H mth d now n m
proof unfold_locales
  fix l v rec e s p
  assume "draws_ok d"
  then have d: "pick_ok (draw_next d)" "pick_ok (draw_uphill d)" "shuffle_ok (draw_perm d)" by (simp_all add: draws_ok_def)
  show "ring_peer H now (own_peer n m) v s p \<and> \<not> farther_than_self (self_location (relay_env P H mth d now n m)) l p"
    if "ctx_select_next_hop (relay_env P H mth d now n m) l v rec e s = Some (Some p)"
    using that connect_candidate [OF d(1) next_hop_candidate(1) [OF d(3), of P H now n]] next_hop_candidate(2) [OF d(3), of P H now n] by simp
  show "ring_peer H now (own_peer n m) v s p" if "ctx_select_uphill_hop (relay_env P H mth d now n m) l v rec s = Some p"
    using that connect_candidate [OF d(2) uphill_candidate [OF d(3), of P H now n]] by simp
qed (simp only: relay_env_simps, rule ring_peer_cong [OF env_accept_frame])

section \<open>The requests a node sends\<close>

definition full_filter :: "visited_peers \<Rightarrow> bool" where
  "full_filter v \<longleftrightarrow> length (bloom v) = BLOOM_BYTES"

lemma arrival_marks_upstream:
  "full_filter (visited (request st)) \<Longrightarrow> probably_visited H (visited (request (snd (note_arrival H ctx st)))) (upstream_addr st)"
  by (auto simp: note_arrival_def Let_def full_filter_def marked_found mark_mono split: option.split)

text \<open>A request that may go from the node with connection manager \<open>m\<close> to \<open>addr\<close>.\<close>

definition sound_target :: "ahash \<Rightarrow> 'k connection_manager \<Rightarrow> 'k connect_request \<Rightarrow> socket_addr \<Rightarrow> bool" where
  "sound_target H m req addr \<longleftrightarrow>
     is_in_ring addr m \<and> \<not> hm_has addr (transient_connections m) \<and> own_addr m \<noteq> Some addr \<and> \<not> probably_visited H (visited req) addr"

lemma run_relay_forward:
  assumes d: "draws_ok d" and full: "full_filter (visited (request st))"
    and r: "run_relay P H mth d now n e st op ns = Some (actions, op', ns')" and f: "act_forward actions = Some (p, req)"
  obtains addr st' where "pkl_socket_addr p = Some addr" "sound_target H (manager ns) req addr" "op_state op' = Some (Relaying st')"
    "request st' = req" "upstream_addr st' = upstream_addr st" "upstream_addr st' \<noteq> addr"
proof -
  obtain attempts st' m where h: "relay_handle_request H (relay_env P H mth d now n (manager ns)) (draw_roll d) now
      (recency op) e (forward_attempts op) st (manager ns) = Some (actions, attempts, st', m)" "op_state op' = Some (Relaying st')"
    using r by (auto simp: run_relay_def bind_eq_Some_conv)
  note o = re.forward_offered [OF d h(1) f]
  obtain addr where a: "pkl_socket_addr p = Some addr" "sound_target H (manager ns) req addr"
    using o by (auto simp: ring_peer_def sound_target_def own_peer_def pkl_new_def pkl_socket_addr_def split: option.splits)
  have "probably_visited H (visited req) (upstream_addr st)" using o arrival_marks_upstream [OF full] by simp
  then have "upstream_addr st \<noteq> addr" using a(2) by (auto simp: sound_target_def)
  then show thesis using that [OF a h(2)] o by simp
qed

definition sound_sends :: "ahash \<Rightarrow> 'k connection_manager \<Rightarrow> 'k effect list \<Rightarrow> 'k connect_op option \<Rightarrow> bool" where
  "sound_sends H m es op' \<longleftrightarrow>
     (\<forall>addr req. Send addr (Msg_Request req) \<in> set es \<longrightarrow>
        sound_target H m req addr
        \<and> (\<forall>op. op' = Some op \<longrightarrow> (\<exists>st. op_state op = Some (Relaying st) \<and> request st = req \<and> upstream_addr st \<noteq> addr)))"

lemma perform_sends: "perform link es op ns = (es', op', ns') \<Longrightarrow> set es' \<subseteq> set es \<and> (op' = None \<or> op' = Some op)"
  by (auto simp: perform_def split: if_splits dest: set_takeWhileD)

lemma no_requests: "(\<And>addr req. Send addr (Msg_Request req) \<notin> set es) \<Longrightarrow> sound_sends H m es op"
  by (simp add: sound_sends_def)

lemma note_forward_state [simp]: "op_state (note_forward now f op) = op_state op"
  by (simp add: note_forward_def split: option.split)

lemma forward_request: "Send addr (Msg_Request req) \<in> set (forward_effects f) \<Longrightarrow> \<exists>p. f = Some (p, req) \<and> pkl_socket_addr p = Some addr"
  by (auto simp: forward_effects_def split: option.splits)

lemma relay_sends:
  assumes d: "draws_ok d" and full: "full_filter (visited (request st))"
    and r: "run_relay P H mth d now n e st op ns = Some (actions, op1, ns1)"
    and es: "perform link es1 (note_forward now (act_forward actions) op1) ns2 = (es, op', ns')"
    and sub: "\<And>addr req. Send addr (Msg_Request req) \<in> set es1 \<Longrightarrow> Send addr (Msg_Request req) \<in> set (forward_effects (act_forward actions))"
  shows "sound_sends H (manager ns) es op'"
  unfolding sound_sends_def
proof (intro allI impI)
  fix addr req
  assume "Send addr (Msg_Request req) \<in> set es"
  then obtain p where p: "act_forward actions = Some (p, req)" "pkl_socket_addr p = Some addr"
    using forward_request [OF sub] perform_sends [OF es] by blast
  obtain st' where "sound_target H (manager ns) req addr" "op_state op1 = Some (Relaying st')" "request st' = req" "upstream_addr st' \<noteq> addr"
    using run_relay_forward [OF d full r p(1)] p(2) by (metis option.inject)
  then show "sound_target H (manager ns) req addr
      \<and> (\<forall>op. op' = Some op \<longrightarrow> (\<exists>st. op_state op = Some (Relaying st) \<and> request st = req \<and> upstream_addr st \<noteq> addr))"
    using perform_sends [OF es] by auto
qed

lemma retry_requests:
  "\<not> is_request give_up \<Longrightarrow> Send addr (Msg_Request req) \<in> set (retry_effects up give_up actions) \<Longrightarrow>
   Send addr (Msg_Request req) \<in> set (forward_effects (act_forward actions))"
  by (auto simp: retry_effects_def split: option.splits)

lemma retried_sends:
  assumes "draws_ok d" "full_filter (visited (request st))" "run_relay P H mth d now n e st op ns = Some (actions, op1, ns1)"
    "perform link (retry_effects up give_up actions) (note_forward now (act_forward actions) op1) ns2 = (es, op', ns')" "\<not> is_request give_up"
  shows "sound_sends H (manager ns) es op'"
  by (rule relay_sends [OF assms(1-4)]) (rule retry_requests [OF assms(5)])

lemma sound_sends_cong:
  assumes "sound_sends H m es op" "connections_by_location m' = connections_by_location m"
    "transient_connections m' = transient_connections m" "own_addr m' = own_addr m"
  shows "sound_sends H m' es op"
  using assms by (simp add: sound_sends_def sound_target_def is_in_ring_def)

lemma rejected_sends:
  assumes d: "draws_ok d" and full: "\<And>st. op_state op = Some (Relaying st) \<Longrightarrow> full_filter (visited (request st))"
    and r: "process_rejected P H mth d link now n desired op ns = Some (es, op', ns')"
  shows "sound_sends H (manager ns) es op'"
proof (cases "\<exists>st. op_state op = Some (Relaying st)")
  case True
  then obtain st where st: "op_state op = Some (Relaying st)" by blast
  obtain op0 ns0 actions op1 ns1 where "manager ns0 = manager ns"
    and rr: "run_relay P H mth d now n (forward_estimator ns0) (st\<lparr>forwarded_to := None, forwarded_at := None\<rparr>) op0 ns0 = Some (actions, op1, ns1)"
    and pf: "perform link (retry_effects (upstream_addr st) (Msg_Rejected desired) actions) (note_forward now (act_forward actions) op1) ns1 = (es, op', ns')"
    using r by (auto simp: process_rejected_def st bind_eq_Some_conv dest!: optional_outcome_manager)
  then show ?thesis using retried_sends [OF d _ rr pf] full [OF st] by simp
qed (use r in \<open>auto simp: process_rejected_def Let_def intro!: no_requests split: option.splits connect_state.splits\<close>)

lemma failed_sends:
  assumes d: "draws_ok d" and full: "\<And>st. op_state op = Some (Relaying st) \<Longrightarrow> full_filter (visited (request st))"
    and r: "process_connect_failed P H mth d link now n failed op ns = Some (es, op', ns')"
  shows "sound_sends H (manager ns) es op'"
proof (cases "\<exists>st. op_state op = Some (Relaying st)")
  case True
  then obtain st where st: "op_state op = Some (Relaying st)" by blast
  show ?thesis
  proof (cases "if response_forwarded st then Option.bind (forwarded_to st) pkl_socket_addr else None")
    case None
    let ?st = "st\<lparr>request := (request st)\<lparr>visited := mark_visited H failed (visited (request st))\<rparr>, forwarded_to := None,
      forwarded_at := None, response_forwarded := False\<rparr>"
    obtain op0 ns0 actions op1 ns1 where m: "manager ns0 = manager (exclude_acceptor failed now ns)"
      and rr: "run_relay P H mth d now n (forward_estimator ns0) ?st op0 ns0 = Some (actions, op1, ns1)"
      and pf: "perform link (retry_effects (upstream_addr st) (Msg_ConnectFailed failed) actions) (note_forward now (act_forward actions) op1) ns1 = (es, op', ns')"
      using r by (simp add: process_connect_failed_def st Let_def None) (auto simp: bind_eq_Some_conv dest!: optional_outcome_manager)
    have "sound_sends H (manager ns0) es op'" using retried_sends [OF d _ rr pf] full [OF st] by (simp add: full_filter_def)
    then show ?thesis by (rule sound_sends_cong) (simp_all add: m exclude_acceptor_def)
  next
    case (Some fwd)
    then have "set es \<subseteq> {Send fwd (Msg_ConnectFailed failed)}"
      using r by (simp add: process_connect_failed_def st Let_def Some) (drule perform_sends, simp)
    then show ?thesis by (intro no_requests) auto
  qed
qed (use r in \<open>auto simp: process_connect_failed_def Let_def intro!: no_requests split: option.splits connect_state.splits\<close>)

lemma rejected_no_forward:
  assumes "relay_handle_request H ctx roll now rec e attempts st s = Some (actions, attempts', st', s')" "act_rejected actions"
  shows "act_forward actions = None"
  using assms(1)
proof (cases rule: relay_cases)
  case (forwarded nxt)
  then show ?thesis using forward_branch(3) [OF forwarded(4)] assms(2) by simp
next
  case terminus
  then show ?thesis using terminus_branch(3) [OF terminus] assms(2) by simp
qed

lemma expect_no_request: "Send addr msg \<notin> set (expect_effects p)"
  by (simp add: expect_effects_def split: option.split)

lemma handled_by_relay:
  assumes "op_handle_request P H mth d now n up payload e op ns = Some (actions, op1, ns1)"
  obtains op0 ns0 st where "manager ns0 = manager ns" "request st = payload" "run_relay P H mth d now n e st op0 ns0 = Some (actions, op1, ns1)"
proof -
  obtain op0 ns0 where x: "expire_forward_attempts P now (op, ns) = Some (op0, ns0)"
    using assms by (auto simp: op_handle_request_def bind_eq_Some_conv)
  let ?st = "(case op_state op0 of Some (Relaying st) \<Rightarrow> st | _ \<Rightarrow> fresh_relay up payload)\<lparr>upstream_addr := up, request := payload\<rparr>"
  have "run_relay P H mth d now n e ?st op0 ns0 = Some (actions, op1, ns1)" using assms by (simp add: op_handle_request_def x Let_def)
  then show thesis by (rule that [OF expire_manager [OF x], rotated]) simp
qed

lemma request_sends:
  assumes d: "draws_ok d" and full: "full_filter (visited payload)"
    and r: "process_request P H mth d link now n source payload op ns = Some (es, op', ns')"
  shows "sound_sends H (manager ns) es op'"
proof (cases source)
  case (Some up)
  show ?thesis
  proof (cases "fst (try_admit_connect (manager ns))")
    case False
    then have "set es \<subseteq> {Send up (Msg_Rejected (desired_location payload))}"
      using r by (simp add: process_request_def Some split_beta Let_def) (drule perform_sends, simp)
    then show ?thesis by (intro no_requests) auto
  next
    case True
    let ?m1 = "snd (try_admit_connect (manager ns))"
    obtain actions op1 ns1 where h: "op_handle_request P H mth d now n up payload (forward_estimator ns) op (ns\<lparr>manager := ?m1\<rparr>) = Some (actions, op1, ns1)"
      and a: "answer_request link now up (desired_location payload) actions op1 (ns1\<lparr>manager := drop_admission_guard (manager ns1)\<rparr>) = (es, op', ns')"
      using r True by (auto simp: process_request_def Some split_beta Let_def bind_eq_Some_conv)
    obtain op0 ns0 st where m0: "manager ns0 = ?m1" and st: "request st = payload"
      and rr: "run_relay P H mth d now n (forward_estimator ns) st op0 ns0 = Some (actions, op1, ns1)"
      by (rule handled_by_relay [OF h]) simp
    have "sound_sends H (manager ns0) es op'"
    proof (cases "act_rejected actions")
      case True
      then have "act_forward actions = None" using rr by (auto simp: run_relay_def bind_eq_Some_conv dest: rejected_no_forward)
      then show ?thesis
        using a True by (intro no_requests) (auto simp: answer_request_def Let_def expect_no_request forward_effects_def split: option.splits dest!: perform_sends)
    next
      case False
      show ?thesis
        by (rule relay_sends [OF d _ rr a [unfolded answer_request_def Let_def if_not_P [OF False]]])
          (auto simp: st full expect_no_request split: option.splits)
    qed
    then show ?thesis by (rule sound_sends_cong) (auto simp: m0 try_admit_connect_def split: if_splits)
  qed
qed (use r in \<open>auto simp: process_request_def intro: no_requests\<close>)

lemma response_sends:
  assumes "process_response P link ok now source acceptor op ns = Some (es, op', ns')"
  shows "sound_sends H m es op'"
proof (rule no_requests)
  fix addr req
  show "Send addr (Msg_Request req) \<notin> set es"
    using assms
    by (auto simp: process_response_def Let_def relay_response_def joiner_response_def split_beta bind_eq_Some_conv
        split: option.splits connect_state.splits if_splits dest!: perform_sends)
qed

definition full_filters :: "'k connect_msg \<Rightarrow> 'k connect_op \<Rightarrow> bool" where
  "full_filters msg op \<longleftrightarrow>
     (case msg of Msg_Request payload \<Rightarrow> full_filter (visited payload) | _ \<Rightarrow> True)
     \<and> (case op_state op of Some (Relaying st) \<Rightarrow> full_filter (visited (request st)) | _ \<Rightarrow> True)"


text \<open>A relay with one neighbour, and a request that reaches it.\<close>

definition sample_hash :: ahash where
  "sample_hash keys a = (case a of V4 ip _ \<Rightarrow> ucast ip | _ \<Rightarrow> 0)"

definition sample_draws :: relay_draws where
  "sample_draws = \<lparr>draw_next = (\<lambda>_ _. 0), draw_uphill = (\<lambda>_ _. 0), draw_perm = (\<lambda>n. [0..<n]), draw_accept = 0, draw_roll = 0,
     draw_jitter = (\<lambda>_. 0), draw_location = 0\<rparr>"

definition sample_relay :: "nat \<Rightarrow> nat node_state" where
  "sample_relay running = \<lparr>manager = (init_connection_manager 1 2 None (- 1) False 2 9 0)
       \<lparr>connections_by_location := [(0, [\<lparr>pub_key = 5, peer_addr = V4 1 1, connected_at = 0\<rparr>])], connect_in_flight := running\<rparr>,
     forward_estimator = sample_estimator, gateway_backoff = new_peer_connection_backoff None, connection_backoff = new_connection_backoff\<rparr>"

definition sample_request :: "nat connect_request" where
  "sample_request = \<lparr>desired_location = 0, joiner = with_unknown_addr 9, time_to_live = 3, visited = received (new_visited 7), uphill_budget = 8\<rparr>"


lemma pkl_known [simp]:
  "pkl_socket_addr (pkl_new k a) = Some a" "pkl_socket_addr (with_unknown_addr k) = None"
  "pkl_location (pkl_new k a) = Some (from_address a)" "pkl_location (with_unknown_addr k) = None"
  by (simp_all add: pkl_socket_addr_def pkl_new_def with_unknown_addr_def pkl_location_def)

abbreviation sample_visited :: visited_peers where
  "sample_visited \<equiv> mark_visited sample_hash (V4 3 3) (received (new_visited 7))"

lemma sample_filter: "\<not> probably_visited sample_hash sample_visited (V4 1 1)"
proof -
  have len: "length (bloom (received (new_visited 7))) = BLOOM_BYTES" by (simp add: received_def)
  have "\<not> filter_bit (bloom sample_visited) 2"
    using bits_mark [OF len, of 2] new_visited_bits [of 2 7]
    by (simp add: hash_indices_def Let_def sample_hash_def BLOOM_BITS_def received_def)
  moreover have "2 \<in> set (hash_indices sample_hash sample_visited (V4 1 1))"
    by (simp add: hash_indices_def Let_def sample_hash_def BLOOM_BITS_def)
  ultimately show ?thesis unfolding probably_visited_bits by blast
qed

lemma sample_candidates:
  "connect_candidates sample_hash 10 (draw_next sample_draws) (with_unknown_addr k) sample_visited (manager (sample_relay c)) = [pkl_new 5 (V4 1 1)]"
proof -
  have "candidate_at 10 (\<lambda>_ _. 0) None (skip_list_with_self sample_hash sample_visited None []) False (manager (sample_relay c))
      (0, [\<lparr>pub_key = 5, peer_addr = V4 1 1, connected_at = 0\<rparr>]) = Some (\<lparr>pub_key = 5, peer_addr = V4 1 1, connected_at = 0\<rparr>, True)"
    using sample_filter by (simp add: candidate_at_def skip_list_with_self_def sample_relay_def init_connection_manager_def hm_has_def)
  then show ?thesis
    by (auto simp: connect_candidates_def routing_candidates_def List.map_filter_def sample_relay_def init_connection_manager_def
      sample_draws_def compute_connect_excluded_peers_def Let_def)
qed

lemma sample_select:
  "select_peer flat_pav (draw_perm sample_draws) (node_router (sample_env a)) [pkl_new k addr] l = Some (pkl_new k addr)"
  by (simp add: select_peer_def select_k_best_peers_def sample_env_def sample_router_def sample_estimator_def has_sufficient_routing_events_def
    est_len_def flat_pav_def shuffle_by_def sort_by_def sample_draws_def)

lemma sample_unscored: "forward_estimate flat_pav sample_estimator p l = None"
  by (simp add: forward_estimate_def estimate_retrieval_time_def sample_estimator_def est_len_def flat_pav_def MIN_POINTS_FOR_REGRESSION_def split: option.split)

lemma sample_next:
  "env_select_next_hop flat_pav sample_hash sample_draws 10 (sample_env a) (with_unknown_addr k) 0 sample_visited [] sample_estimator (manager (sample_relay c))
   = Some (Some (pkl_new 5 (V4 1 1)))"
  by (simp add: env_select_next_hop_def sample_candidates recently_used_def farther_than_self_def scored_of_def filter_low_score_peers_def
      sample_select sample_unscored List.map_filter_def Let_def)



lemma relay_forwards:
  assumes "ctx_select_next_hop ctx (desired_location (request st)) (visited (request (snd (note_arrival H ctx st)))) rec e s = Some (Some nxt)"
    "forwarded_to st = None" "0 < time_to_live (request st)"
  obtains actions attempts' st' s' req
  where "relay_handle_request H ctx roll now rec e attempts st s = Some (actions, attempts', st', s')"
    "act_forward actions = Some (nxt, req)" "\<not> act_rejected actions"
proof -
  let ?r = "forward_and_maybe_accept ctx roll now nxt (fst (note_arrival H ctx st)) attempts (snd (note_arrival H ctx st)) s"
  obtain actions attempts' st' s' where r: "(actions, attempts', st', s') = ?r" by (metis prod_cases4)
  have "relay_handle_request H ctx roll now rec e attempts st s = Some (actions, attempts', st', s')"
    using assms by (simp add: r relay_handle_request_def split_beta Let_def)
  then show thesis using that forward_branch(1,3) [OF r] by simp
qed

lemma sample_relayed:
  assumes "recency op = []"
  obtains actions op' ns' req
  where "run_relay flat_pav sample_hash linear_math sample_draws 10 (sample_env a) sample_estimator
     (fresh_relay (V4 3 3) sample_request) op (sample_relay c) = Some (actions, op', ns')"
     "act_forward actions = Some (pkl_new 5 (V4 1 1), req)" "\<not> act_rejected actions"
proof -
  let ?ctx = "relay_env flat_pav sample_hash linear_math sample_draws 10 (sample_env a) (manager (sample_relay c))"
  let ?st = "fresh_relay (V4 3 3) sample_request"
  have own: "own_peer (sample_env a) (manager (sample_relay c)) = with_unknown_addr 1"
    by (simp add: own_peer_def sample_relay_def init_connection_manager_def sample_env_def)
  have "visited (request (snd (note_arrival sample_hash ?ctx ?st))) = sample_visited"
    by (simp add: note_arrival_def own fresh_relay_def sample_request_def Let_def)
  then have "ctx_select_next_hop ?ctx (desired_location (request ?st)) (visited (request (snd (note_arrival sample_hash ?ctx ?st)))) (recency op)
      sample_estimator (manager (sample_relay c)) = Some (Some (pkl_new 5 (V4 1 1)))"
    using sample_next [of a 1 c] by (simp add: own assms fresh_relay_def sample_request_def)
  then obtain actions attempts st' m req where
    "relay_handle_request sample_hash ?ctx (draw_roll sample_draws) 10 (recency op) sample_estimator (forward_attempts op) ?st (manager (sample_relay c))
       = Some (actions, attempts, st', m)" "act_forward actions = Some (pkl_new 5 (V4 1 1), req)" "\<not> act_rejected actions"
    by (rule relay_forwards) (simp_all add: fresh_relay_def sample_request_def)
  then show thesis using that by (simp add: run_relay_def)
qed
lemma perform_all: "perform (\<lambda>_. True) es op ns = (es, Some op, ns)"
proof -
  have "list_all (send_ok (\<lambda>_. True)) es" by (simp add: list_all_iff send_ok_def split: effect.split)
  then show ?thesis by (simp add: perform_def)
qed


section \<open>Oddities of the handlers\<close>

text \<open>
  A new relay restores the hash keys of the filter and clamps the uphill budget, but the handler then
  stores the request as it was received: both are without effect.
\<close>

lemma restored_request_overwritten:
  "op_handle_request P H mth d now n up req e (new_relay tx up req) ns
   = op_handle_request P H mth d now n up req e ((new_relay tx up req)\<lparr>op_state := Some (Relaying (fresh_relay up req))\<rparr>) ns"
  by (simp add: op_handle_request_def expire_forward_attempts_def new_relay_def fresh_relay_def run_relay_def Let_def)

text \<open>A retry that forwards the request drops the acceptance it may have made, and no retry expects a connection.\<close>

lemma retry_drops_acceptance:
  "act_forward actions = Some f \<Longrightarrow> retry_effects up give_up (actions\<lparr>accept_response := Some a, expect_connection_from := j\<rparr>) = forward_effects (Some f)"
  "ExpectPeerConnection addr \<notin> set (retry_effects up give_up actions)"
  by (simp_all add: retry_effects_def forward_effects_def split: option.split)

text \<open>If the acceptance that reaches the target fails its hole punch, the operation completes as if it had succeeded.\<close>

lemma failed_punch_completes:
  assumes "op_state op = Some (WaitingForResponses j)" "acceptor \<notin> set (accepted j)" "target_connections j \<le> Suc (length (accepted j))"
    and "\<And>a. link a"
  shows "\<exists>es op' ns'. joiner_response link False now acceptor op ns = (es, Some op', ns') \<and> op_state op' = Some Completed
    \<and> connection_backoff ns' = (case op_desired_location op of Some l \<Rightarrow> conn_record_success l (connection_backoff ns) | None \<Rightarrow> connection_backoff ns)"
  using assms
  by (simp add: joiner_response_def handle_response_def register_acceptance_def punch_failed_def joiner_completed_def split_beta Let_def
      split: option.split)

end
