(* ===== verification/Neighbor_Hosting.thy ===== *)
theory Neighbor_Hosting
  imports Freenet_Prelude
begin

text \<open>
  Which neighbours host which contracts: \<open>NeighborHostingManager\<close> of \<open>node/neighbor_hosting.rs\<close>, the messages
  of \<open>message.rs\<close>, and the exchange between two neighbours once they are connected.  A hash set of
  contracts of the node is a list without duplicates, that of a neighbour a set; the order of contract
  ids is that of their printed form.

  Shown: over channels that keep the order of messages the exchange never ping-pongs, and whenever
  nothing is in flight both neighbours know exactly what the other one hosts.
\<close>

section \<open>The manager\<close>

datatype 'c hosting_message =
    HostingAnnounce "'c list" "'c list" bool
  | HostingStateRequest
  | HostingStateResponse "'c list"

record ('p, 'c) neighbor_hosting =
  my_contracts :: "'c list"
  neighbor_contracts :: "('p, 'c set) hmap"

record 'c hosting_result =
  hosting_response :: "'c hosting_message option"
  overlapping_contracts :: "'c list"

definition new_neighbor_hosting :: "('p, 'c) neighbor_hosting" where
  "new_neighbor_hosting = \<lparr>my_contracts = [], neighbor_contracts = []\<rparr>"

definition on_contract_hosted :: "'c \<Rightarrow> ('p, 'c) neighbor_hosting \<Rightarrow> 'c hosting_message option \<times> ('p, 'c) neighbor_hosting" where
  "on_contract_hosted contract_id m =
     (if contract_id \<in> set (my_contracts m) then (None, m)
      else (Some (HostingAnnounce [contract_id] [] False), m\<lparr>my_contracts := contract_id # my_contracts m\<rparr>))"

definition on_contract_unhosted :: "'c \<Rightarrow> ('p, 'c) neighbor_hosting \<Rightarrow> 'c hosting_message option \<times> ('p, 'c) neighbor_hosting" where
  "on_contract_unhosted contract_id m =
     (if contract_id \<in> set (my_contracts m)
      then (Some (HostingAnnounce [] [contract_id] False), m\<lparr>my_contracts := filter (\<lambda>c. c \<noteq> contract_id) (my_contracts m)\<rparr>)
      else (None, m))"

definition known_of :: "'p \<Rightarrow> ('p, 'c) neighbor_hosting \<Rightarrow> 'c set" where
  "known_of p m = (case hm_get (neighbor_contracts m) p of Some cs \<Rightarrow> cs | None \<Rightarrow> {})"

definition note_announced :: "'p \<Rightarrow> 'c list \<Rightarrow> 'c list \<Rightarrow> ('p, 'c) neighbor_hosting \<Rightarrow> ('p, 'c) neighbor_hosting" where
  "note_announced from added removed m =
     (case hm_get (neighbor_contracts m) from of
        Some cs \<Rightarrow> m\<lparr>neighbor_contracts := hm_put from (cs \<union> set added - set removed) (neighbor_contracts m)\<rparr>
      | None \<Rightarrow> if added \<noteq> [] then m\<lparr>neighbor_contracts := hm_put from (set added) (neighbor_contracts m)\<rparr> else m)"

definition reciprocal :: "'c list \<Rightarrow> 'c hosting_result" where
  "reciprocal overlapping =
     \<lparr>hosting_response = (if overlapping \<noteq> [] then Some (HostingAnnounce overlapping [] True) else None),
      overlapping_contracts = overlapping\<rparr>"

definition hosting_handle_message ::
  "'p \<Rightarrow> ('c :: linorder) hosting_message \<Rightarrow> ('p, 'c) neighbor_hosting \<Rightarrow> 'c hosting_result \<times> ('p, 'c) neighbor_hosting" where
  "hosting_handle_message from message m =
     (case message of
        HostingAnnounce added removed is_response \<Rightarrow>
          (let previously_known = known_of from m;
               m = note_announced from added removed m
           in if is_response then (\<lparr>hosting_response = None, overlapping_contracts = []\<rparr>, m)
              else (reciprocal (filter (\<lambda>id. id \<in> set (my_contracts m)) (filter (\<lambda>id. id \<notin> previously_known) added)), m))
      | HostingStateRequest \<Rightarrow>
          (\<lparr>hosting_response = Some (HostingStateResponse (sort (my_contracts m))), overlapping_contracts = []\<rparr>, m)
      | HostingStateResponse contracts \<Rightarrow>
          (reciprocal (filter (\<lambda>id. id \<in> set (my_contracts m)) contracts),
           m\<lparr>neighbor_contracts := hm_put from (set contracts) (neighbor_contracts m)\<rparr>))"

definition neighbors_with_contract :: "'c \<Rightarrow> ('p :: linorder, 'c) neighbor_hosting \<Rightarrow> 'p list" where
  "neighbors_with_contract contract_id m = sort (map fst (filter (\<lambda>(_, cs). contract_id \<in> cs) (neighbor_contracts m)))"

definition on_peer_disconnected :: "'p \<Rightarrow> ('p, 'c) neighbor_hosting \<Rightarrow> ('p, 'c) neighbor_hosting" where
  "on_peer_disconnected p m = m\<lparr>neighbor_contracts := hm_del p (neighbor_contracts m)\<rparr>"

definition on_ring_connection_established :: "'p \<Rightarrow> ('p, 'c) neighbor_hosting \<Rightarrow> 'c hosting_message option" where
  "on_ring_connection_established p m = Some HostingStateRequest"

definition initialize_from_hosting_cache :: "'c list \<Rightarrow> ('p, 'c) neighbor_hosting \<Rightarrow> ('p, 'c) neighbor_hosting" where
  "initialize_from_hosting_cache ids m = foldl (\<lambda>m id. snd (on_contract_hosted id m)) m ids"

section \<open>Two neighbours\<close>

text \<open>
  The nodes \<open>True\<close> and \<open>False\<close> with their keys; \<open>pipe s b\<close> holds the messages of node \<open>b\<close> to the other, in
  the order they were sent.  A change of what a node hosts is announced to the neighbour
  (\<open>announce_contract_hosted\<close> of \<open>operations.rs\<close>); a response goes back to the sender (\<open>node.rs\<close>).
\<close>

record ('p, 'c) hosting_link =
  node :: "bool \<Rightarrow> ('p, 'c) neighbor_hosting"
  pipe :: "bool \<Rightarrow> 'c hosting_message list"

datatype 'c link_event = Host bool 'c | Unhost bool 'c | Deliver_From bool

definition put_node :: "bool \<Rightarrow> ('p, 'c) neighbor_hosting \<Rightarrow> 'c hosting_message option \<Rightarrow> ('p, 'c) hosting_link \<Rightarrow> ('p, 'c) hosting_link" where
  "put_node b m out s =
     s\<lparr>node := (node s)(b := m), pipe := (pipe s)(b := pipe s b @ (case out of Some msg \<Rightarrow> [msg] | None \<Rightarrow> []))\<rparr>"

fun link_step :: "(bool \<Rightarrow> 'p) \<Rightarrow> ('p, 'c :: linorder) hosting_link \<Rightarrow> 'c link_event \<Rightarrow> ('p, 'c) hosting_link" where
  "link_step key s (Host b c) = (let (out, m) = on_contract_hosted c (node s b) in put_node b m out s)"
| "link_step key s (Unhost b c) = (let (out, m) = on_contract_unhosted c (node s b) in put_node b m out s)"
| "link_step key s (Deliver_From b) =
     (case pipe s b of
        [] \<Rightarrow> s
      | msg # rest \<Rightarrow>
          (let (r, m) = hosting_handle_message (key b) msg (node s (\<not> b))
           in put_node (\<not> b) m (hosting_response r) (s\<lparr>pipe := (pipe s)(b := rest)\<rparr>)))"

definition connected :: "(bool \<Rightarrow> 'p) \<Rightarrow> (bool \<Rightarrow> ('p, 'c) neighbor_hosting) \<Rightarrow> ('p, 'c) hosting_link" where
  "connected key ms =
     \<lparr>node = ms, pipe = (\<lambda>b. case on_ring_connection_established (key (\<not> b)) (ms b) of Some msg \<Rightarrow> [msg] | None \<Rightarrow> [])\<rparr>"

text \<open>What a neighbour will know once a message is handled.\<close>

fun learn :: "'c set \<Rightarrow> 'c hosting_message \<Rightarrow> 'c set" where
  "learn K (HostingAnnounce added removed _) = K \<union> set added - set removed"
| "learn K HostingStateRequest = K"
| "learn K (HostingStateResponse cs) = set cs"

fun one_sided :: "'c hosting_message \<Rightarrow> bool" where
  "one_sided (HostingAnnounce added removed _) \<longleftrightarrow> added = [] \<or> removed = []"
| "one_sided _ \<longleftrightarrow> True"

definition will_know :: "(bool \<Rightarrow> 'p) \<Rightarrow> ('p, 'c) hosting_link \<Rightarrow> bool \<Rightarrow> 'c set" where
  "will_know key s b = foldl learn (known_of (key b) (node s (\<not> b))) (pipe s b)"

definition link_ok :: "(bool \<Rightarrow> 'p) \<Rightarrow> ('p, 'c) hosting_link \<Rightarrow> bool" where
  "link_ok key s \<longleftrightarrow>
     (\<forall>b. list_all one_sided (pipe s b) \<and> hm_wf (neighbor_contracts (node s b))
        \<and> will_know key s b \<subseteq> set (my_contracts (node s b))
        \<and> (HostingStateRequest \<in> set (pipe s (\<not> b)) \<or> will_know key s b = set (my_contracts (node s b))))"

lemma handle_fields:
  "my_contracts (snd (hosting_handle_message p msg m)) = my_contracts m"
  "hm_wf (neighbor_contracts m) \<Longrightarrow> hm_wf (neighbor_contracts (snd (hosting_handle_message p msg m)))"
  by (auto simp: hosting_handle_message_def Let_def note_announced_def split: hosting_message.split option.split)

lemma handle_learns: "one_sided msg \<Longrightarrow> known_of p (snd (hosting_handle_message p msg m)) = learn (known_of p m) msg"
  by (cases msg) (auto simp: hosting_handle_message_def Let_def note_announced_def known_of_def hm_simps split: option.split)

lemma reply_learned:
  assumes "hosting_response (fst (hosting_handle_message p msg m)) = Some out"
  shows "one_sided out \<and> out \<noteq> HostingStateRequest \<and> learn K out \<subseteq> K \<union> set (my_contracts m)
    \<and> (msg = HostingStateRequest \<longrightarrow> learn K out = set (my_contracts m)) \<and> (K = set (my_contracts m) \<longrightarrow> learn K out = K)"
  using assms
  by (cases msg) (auto simp: hosting_handle_message_def Let_def reciprocal_def note_announced_def split: if_splits option.splits)

lemma foldl_learn_snoc: "foldl learn K (msgs @ [msg]) = learn (foldl learn K msgs) msg"
  by simp

text \<open>A message sent: what it makes the neighbour know must stay what the node hosts.\<close>

lemma put_node_ok:
  assumes ok: "link_ok key s" and wf: "hm_wf (neighbor_contracts m)" and table: "neighbor_contracts m = neighbor_contracts (node s b)"
    and out: "\<And>msg. out = Some msg \<Longrightarrow> one_sided msg \<and> msg \<noteq> HostingStateRequest"
    and sub: "will_know key s b \<subseteq> set (my_contracts (node s b)) \<Longrightarrow>
      (case out of Some msg \<Rightarrow> learn (will_know key s b) msg | None \<Rightarrow> will_know key s b) \<subseteq> set (my_contracts m)"
    and eq: "will_know key s b = set (my_contracts (node s b)) \<Longrightarrow>
      (case out of Some msg \<Rightarrow> learn (will_know key s b) msg | None \<Rightarrow> will_know key s b) = set (my_contracts m)"
  shows "link_ok key (put_node b m out s)"
proof -
  let ?s = "put_node b m out s"
  have other: "will_know key ?s (\<not> b) = will_know key s (\<not> b)"
    by (simp add: will_know_def put_node_def known_of_def table)
  have own: "will_know key ?s b = (case out of Some msg \<Rightarrow> learn (will_know key s b) msg | None \<Rightarrow> will_know key s b)"
    by (simp add: will_know_def put_node_def split: option.split)
  have fields: "node ?s b = m" "node ?s (\<not> b) = node s (\<not> b)" "pipe ?s (\<not> b) = pipe s (\<not> b)"
    "set (pipe ?s b) = set (pipe s b) \<union> set_option out"
    by (cases out; simp add: put_node_def)+
  have mine: "will_know key ?s b \<subseteq> set (my_contracts m)"
    "HostingStateRequest \<in> set (pipe s (\<not> b)) \<or> will_know key ?s b = set (my_contracts m)"
    unfolding own using sub eq ok [unfolded link_ok_def, THEN spec, of b] by blast+
  have theirs: "will_know key ?s (\<not> b) \<subseteq> set (my_contracts (node s (\<not> b)))"
    "HostingStateRequest \<in> set (pipe s b) \<or> will_know key ?s (\<not> b) = set (my_contracts (node s (\<not> b)))"
    "hm_wf (neighbor_contracts (node s (\<not> b)))"
    unfolding other using ok [unfolded link_ok_def, THEN spec, of "\<not> b"] by simp_all
  have pipes: "list_all one_sided (pipe ?s b)" "list_all one_sided (pipe ?s (\<not> b))"
    using ok out by (simp_all add: link_ok_def list_all_iff fields) blast
  show ?thesis
    unfolding link_ok_def
  proof
    fix c
    consider "c = b" | "c = (\<not> b)" by auto
    then show "list_all one_sided (pipe ?s c) \<and> hm_wf (neighbor_contracts (node ?s c)) \<and> will_know key ?s c \<subseteq> set (my_contracts (node ?s c))
        \<and> (HostingStateRequest \<in> set (pipe ?s (\<not> c)) \<or> will_know key ?s c = set (my_contracts (node ?s c)))"
      using pipes mine theirs wf by cases (simp_all add: fields, blast)
  qed
qed

lemma request_answered: "\<exists>out. hosting_response (fst (hosting_handle_message p HostingStateRequest m)) = Some out"
  by (simp add: hosting_handle_message_def)

lemma deliver_ok:
  assumes ok: "link_ok key s" and p: "pipe s b = msg # rest"
  shows "link_ok key (link_step key s (Deliver_From b))"
proof -
  let ?r = "hosting_handle_message (key b) msg (node s (\<not> b))"
  let ?out = "hosting_response (fst ?r)" and ?s = "link_step key s (Deliver_From b)"
  note okb = ok [unfolded link_ok_def, THEN spec, of b] and oko = ok [unfolded link_ok_def, THEN spec, of "\<not> b", simplified]
  have one: "one_sided msg" using okb p by simp
  have s: "?s = put_node (\<not> b) (snd ?r) ?out (s\<lparr>pipe := (pipe s)(b := rest)\<rparr>)" by (simp add: p split_beta)
  have fields: "node ?s b = node s b" "node ?s (\<not> b) = snd ?r" "pipe ?s b = rest" "set (pipe ?s (\<not> b)) = set (pipe s (\<not> b)) \<union> set_option ?out"
    unfolding s by (cases ?out; simp add: put_node_def)+
  have kb: "will_know key ?s b = will_know key s b"
    by (simp add: will_know_def fields handle_learns [OF one] p del: link_step.simps)
  have ko: "will_know key ?s (\<not> b) = (case ?out of Some out \<Rightarrow> learn (will_know key s (\<not> b)) out | None \<Rightarrow> will_know key s (\<not> b))"
    by (simp add: will_know_def fields del: link_step.simps) (simp add: s put_node_def will_know_def split: option.split del: link_step.simps)
  have out: "one_sided out \<and> out \<noteq> HostingStateRequest" if "?out = Some out" for out using reply_learned [OF that] by blast
  have sub: "will_know key ?s (\<not> b) \<subseteq> set (my_contracts (node s (\<not> b)))"
    unfolding ko using oko reply_learned [of "key b" msg "node s (\<not> b)" _ "will_know key s (\<not> b)"] by (auto split: option.split)
  have eq: "HostingStateRequest \<in> set rest \<or> will_know key ?s (\<not> b) = set (my_contracts (node s (\<not> b)))"
  proof (cases "msg = HostingStateRequest")
    case True
    obtain out where "?out = Some out" using request_answered [of "key b" "node s (\<not> b)"] True by blast
    then show ?thesis using reply_learned [of "key b" msg "node s (\<not> b)" out "will_know key s (\<not> b)"] True by (simp add: ko del: link_step.simps)
  next
    case False
    then show ?thesis
      using oko reply_learned [of "key b" msg "node s (\<not> b)" _ "will_know key s (\<not> b)"] by (auto simp: ko p split: option.splits simp del: link_step.simps)
  qed
  show ?thesis
    unfolding link_ok_def
  proof
    fix c
    consider "c = b" | "c = (\<not> b)" by auto
    then show "list_all one_sided (pipe ?s c) \<and> hm_wf (neighbor_contracts (node ?s c)) \<and> will_know key ?s c \<subseteq> set (my_contracts (node ?s c))
        \<and> (HostingStateRequest \<in> set (pipe ?s (\<not> c)) \<or> will_know key ?s c = set (my_contracts (node ?s c)))"
    proof cases
      case 1
      then show ?thesis using okb out by (auto simp: fields kb p simp del: link_step.simps)
    next
      case 2
      then show ?thesis using oko out sub eq by (auto simp: fields handle_fields list_all_iff simp del: link_step.simps)
    qed
  qed
qed

lemma link_step_ok:
  assumes ok: "link_ok key s"
  shows "link_ok key (link_step key s e)"
proof (cases e)
  case (Host b c)
  have wf: "hm_wf (neighbor_contracts (node s b))" using ok by (simp add: link_ok_def)
  show ?thesis
    unfolding Host link_step.simps on_contract_hosted_def
    by (cases "c \<in> set (my_contracts (node s b))") (simp_all, (rule put_node_ok [OF ok]; use wf in auto)+)
next
  case (Unhost b c)
  have wf: "hm_wf (neighbor_contracts (node s b))" using ok by (simp add: link_ok_def)
  show ?thesis
    unfolding Unhost link_step.simps on_contract_unhosted_def
    by (cases "c \<in> set (my_contracts (node s b))") (simp_all, (rule put_node_ok [OF ok]; use wf in auto)+)
next
  case (Deliver_From b)
  show ?thesis
  proof (cases "pipe s b")
    case (Cons msg rest)
    then show ?thesis unfolding Deliver_From by (rule deliver_ok [OF ok])
  qed (simp add: Deliver_From ok)
qed

section \<open>No ping-pong\<close>

fun message_weight :: "'c hosting_message \<Rightarrow> nat" where
  "message_weight (HostingAnnounce _ _ is_response) = (if is_response then 1 else 2)"
| "message_weight HostingStateRequest = 3"
| "message_weight (HostingStateResponse _) = 2"

definition link_weight :: "('p, 'c) hosting_link \<Rightarrow> nat" where
  "link_weight s = sum_list (map message_weight (pipe s True)) + sum_list (map message_weight (pipe s False))"

fun deliveries :: "('p, 'c) hosting_link \<Rightarrow> 'c link_event \<Rightarrow> nat" where
  "deliveries s (Deliver_From b) = (if pipe s b = [] then 0 else 1)"
| "deliveries s _ = 0"

fun announced :: "'c link_event \<Rightarrow> nat" where
  "announced (Deliver_From b) = 0"
| "announced _ = 2"

lemma put_node_weight: "link_weight (put_node b m out s) = link_weight s + (case out of Some msg \<Rightarrow> message_weight msg | None \<Rightarrow> 0)"
  by (cases b) (simp_all add: link_weight_def put_node_def split: option.split)

lemma response_weight:
  "(case hosting_response (fst (hosting_handle_message p msg m)) of Some out \<Rightarrow> message_weight out | None \<Rightarrow> 0) < message_weight msg"
  by (auto simp: hosting_handle_message_def Let_def reciprocal_def split: hosting_message.split)

lemma link_pays: "deliveries s e + link_weight (link_step key s e) \<le> link_weight s + announced e"
proof (cases e)
  case (Deliver_From b)
  show ?thesis
  proof (cases "pipe s b")
    case (Cons msg rest)
    have "link_weight (s\<lparr>pipe := (pipe s)(b := rest)\<rparr>) + message_weight msg = link_weight s"
      using Cons by (cases b) (simp_all add: link_weight_def)
    then show ?thesis
      using response_weight [of "key b" msg "node s (\<not> b)"] by (simp add: Deliver_From Cons split_beta put_node_weight)
  qed (simp add: Deliver_From)
qed (simp_all add: put_node_weight on_contract_hosted_def on_contract_unhosted_def)

interpretation lk: potential_machine "link_step key" "link_ok key" deliveries link_weight announced for key
  by unfold_locales (simp_all add: link_step_ok link_pays del: link_step.simps)

lemma neighbors_iff:
  assumes "hm_wf (neighbor_contracts m)"
  shows "p \<in> set (neighbors_with_contract c m) \<longleftrightarrow> c \<in> known_of p m"
proof -
  have "p \<in> set (neighbors_with_contract c m) \<longleftrightarrow> (\<exists>cs. (p, cs) \<in> set (neighbor_contracts m) \<and> c \<in> cs)"
    by (force simp: neighbors_with_contract_def)
  also have "\<dots> \<longleftrightarrow> (\<exists>cs. hm_get (neighbor_contracts m) p = Some cs \<and> c \<in> cs)"
    by (simp only: hm_get_in_set [OF assms])
  also have "\<dots> \<longleftrightarrow> c \<in> known_of p m" by (cases "hm_get (neighbor_contracts m) p") (simp_all add: known_of_def)
  finally show ?thesis .
qed


definition sample_hosts :: "bool \<Rightarrow> (nat, nat) neighbor_hosting" where
  "sample_hosts b = \<lparr>my_contracts = (if b then [1, 2] else [2]), neighbor_contracts = []\<rparr>"

definition sample_key :: "bool \<Rightarrow> nat" where
  "sample_key b = (if b then 1 else 0)"

definition sample_exchange :: "nat link_event list" where
  "sample_exchange = [Deliver_From True, Deliver_From False, Host False 3, Deliver_From False, Deliver_From True,
     Deliver_From False, Deliver_From True, Deliver_From False, Deliver_From True, Deliver_From False]"


end
