(* ===== verification/Broadcast_Queue.thy ===== *)
theory Broadcast_Queue
  imports Freenet_Prelude
begin

text \<open>
  \<open>BroadcastQueue\<close> of \<open>node/network_bridge/broadcast_queue.rs\<close>: the queue of state changes to send to peers,
  one entry per contract and peer, and the worker that drains it into two pools of concurrent streams.
  The worker and the streams it spawns are one machine: it takes the oldest entry, waits for a permit of
  the pool that the entry's size selects, and the permit is released when the stream ends.

  Shown: the queue implements a bounded list of the newest states in the order of their first arrival,
  for every sequence of calls; at most twelve small and two large streams run.  But the recorded size of
  an entry is that of its first state, so large states can run in the pool of the small ones.
\<close>

section \<open>The queue\<close>

definition DEFAULT_SMALL_PAYLOAD_CONCURRENCY :: nat where
  "DEFAULT_SMALL_PAYLOAD_CONCURRENCY = 12"

definition DEFAULT_LARGE_PAYLOAD_CONCURRENCY :: nat where
  "DEFAULT_LARGE_PAYLOAD_CONCURRENCY = 2"

definition PAYLOAD_SIZE_THRESHOLD :: nat where
  "PAYLOAD_SIZE_THRESHOLD = 64 * 1024"

definition DEFAULT_MAX_QUEUE_DEPTH :: nat where
  "DEFAULT_MAX_QUEUE_DEPTH = 256"

type_synonym ('k, 'p) dedupe_key = "'k \<times> 'p"

record ('k, 'p) broadcast_entry =
  entry_key :: 'k
  entry_target :: 'p
  new_state :: "byte list"
  payload_size :: nat

record ('k, 'p) queue_state =
  queue_order :: "('k, 'p) dedupe_key list"
  entries :: "(('k, 'p) dedupe_key, ('k, 'p) broadcast_entry) hmap"

definition new_queue :: "('k, 'p) queue_state" where
  "new_queue = \<lparr>queue_order = [], entries = []\<rparr>"

fun pop_keys ::
  "('k, 'p) dedupe_key list \<Rightarrow> (('k, 'p) dedupe_key, ('k, 'p) broadcast_entry) hmap \<Rightarrow>
   ('k, 'p) broadcast_entry option \<times> ('k, 'p) queue_state" where
  "pop_keys [] es = (None, \<lparr>queue_order = [], entries = es\<rparr>)"
| "pop_keys (key # keys) es =
     (case hm_get es key of
        Some entry \<Rightarrow> (Some entry, \<lparr>queue_order = keys, entries = hm_del key es\<rparr>)
      | None \<Rightarrow> pop_keys keys es)"

definition pop_front :: "('k, 'p) queue_state \<Rightarrow> ('k, 'p) broadcast_entry option \<times> ('k, 'p) queue_state" where
  "pop_front q = pop_keys (queue_order q) (entries q)"

lemma pop_keys_shrinks: "pop_keys keys es = (Some e, q) \<Longrightarrow> length (queue_order q) < length keys"
  by (induction keys es rule: pop_keys.induct) (auto split: option.splits)

function evict_oldest :: "nat \<Rightarrow> ('k, 'p) queue_state \<Rightarrow> ('k, 'p) queue_state" where
  "evict_oldest depth q =
     (if depth \<le> length (entries q)
      then (case pop_front q of (Some _, q) \<Rightarrow> evict_oldest depth q | (None, q) \<Rightarrow> q)
      else q)"
  by pat_completeness auto
termination
  by (relation "measure (\<lambda>(_, q). length (queue_order q))") (auto simp: pop_front_def dest: pop_keys_shrinks [OF sym])

declare evict_oldest.simps [simp del]

definition enqueue :: "nat \<Rightarrow> 'k \<Rightarrow> 'p \<Rightarrow> byte list \<Rightarrow> ('k, 'p) queue_state \<Rightarrow> ('k, 'p) queue_state" where
  "enqueue max_queue_depth key target state q =
     (let dedup_key = (key, target)
      in case hm_get (entries q) dedup_key of
           Some existing \<Rightarrow> q\<lparr>entries := hm_put dedup_key (existing\<lparr>new_state := state\<rparr>) (entries q)\<rparr>
         | None \<Rightarrow>
             (let q = evict_oldest max_queue_depth q
              in \<lparr>queue_order = queue_order q @ [dedup_key],
                  entries = hm_put dedup_key
                    \<lparr>entry_key = key, entry_target = target, new_state = state, payload_size = length state\<rparr> (entries q)\<rparr>))"

section \<open>The worker\<close>

record ('k, 'p) broadcaster =
  queue :: "('k, 'p) queue_state"
  waiting_for_permit :: "('k, 'p) broadcast_entry option"
  small_streams :: "('k, 'p) broadcast_entry list"
  large_streams :: "('k, 'p) broadcast_entry list"

definition new_broadcaster :: "('k, 'p) broadcaster" where
  "new_broadcaster = \<lparr>queue = new_queue, waiting_for_permit = None, small_streams = [], large_streams = []\<rparr>"

datatype ('k, 'p) broadcast_event =
    Enqueue 'k 'p "byte list"
  | Take_Entry
  | Start_Stream
  | Small_Done nat
  | Large_Done nat

definition start_stream :: "('k, 'p) broadcaster \<Rightarrow> ('k, 'p) broadcaster" where
  "start_stream b =
     (case waiting_for_permit b of
        None \<Rightarrow> b
      | Some entry \<Rightarrow>
          if payload_size entry < PAYLOAD_SIZE_THRESHOLD
          then (if length (small_streams b) < DEFAULT_SMALL_PAYLOAD_CONCURRENCY
                then b\<lparr>waiting_for_permit := None, small_streams := entry # small_streams b\<rparr> else b)
          else (if length (large_streams b) < DEFAULT_LARGE_PAYLOAD_CONCURRENCY
                then b\<lparr>waiting_for_permit := None, large_streams := entry # large_streams b\<rparr> else b))"

fun broadcast_step :: "('k, 'p) broadcaster \<Rightarrow> ('k, 'p) broadcast_event \<Rightarrow> ('k, 'p) broadcaster" where
  "broadcast_step b (Enqueue key target state) = b\<lparr>queue := enqueue DEFAULT_MAX_QUEUE_DEPTH key target state (queue b)\<rparr>"
| "broadcast_step b Take_Entry =
     (if waiting_for_permit b = None
      then (let (entry, q) = pop_front (queue b) in b\<lparr>waiting_for_permit := entry, queue := q\<rparr>) else b)"
| "broadcast_step b Start_Stream = start_stream b"
| "broadcast_step b (Small_Done i) = b\<lparr>small_streams := take i (small_streams b) @ drop (Suc i) (small_streams b)\<rparr>"
| "broadcast_step b (Large_Done i) = b\<lparr>large_streams := take i (large_streams b) @ drop (Suc i) (large_streams b)\<rparr>"

section \<open>The queue as a list of newest states\<close>

definition content :: "('k, 'p) broadcast_entry \<Rightarrow> ('k, 'p) dedupe_key \<times> byte list" where
  "content e = ((entry_key e, entry_target e), new_state e)"

definition queue_view :: "('k, 'p) queue_state \<Rightarrow> (('k, 'p) dedupe_key \<times> byte list) list" where
  "queue_view q = map (\<lambda>k. content (the (hm_get (entries q) k))) (queue_order q)"

definition newest_enqueue :: "nat \<Rightarrow> 'a \<Rightarrow> 'b \<Rightarrow> ('a \<times> 'b) list \<Rightarrow> ('a \<times> 'b) list" where
  "newest_enqueue depth k v xs =
     (if k \<in> fst ` set xs then map (\<lambda>(j, w). if j = k then (k, v) else (j, w)) xs
      else drop (Suc (length xs) - depth) xs @ [(k, v)])"

definition newest_pop :: "'a list \<Rightarrow> 'a option \<times> 'a list" where
  "newest_pop xs = (case xs of [] \<Rightarrow> (None, []) | x # xs \<Rightarrow> (Some x, xs))"

definition queue_ok :: "('k, 'p) queue_state \<Rightarrow> bool" where
  "queue_ok q \<longleftrightarrow> distinct (queue_order q) \<and> hm_wf (entries q) \<and> set (hm_keys (entries q)) = set (queue_order q)
     \<and> (\<forall>k e. hm_get (entries q) k = Some e \<longrightarrow> (entry_key e, entry_target e) = k)"

lemma queue_ok_get: "queue_ok q \<Longrightarrow> k \<in> set (queue_order q) \<Longrightarrow> \<exists>e. hm_get (entries q) k = Some e \<and> (entry_key e, entry_target e) = k"
  by (metis hm_has_def hm_has_iff not_None_eq queue_ok_def)

lemma view_keys:
  assumes "queue_ok q"
  shows "map fst (queue_view q) = queue_order q"
proof -
  have "fst (content (the (hm_get (entries q) k))) = k" if "k \<in> set (queue_order q)" for k
    using queue_ok_get [OF assms that] by (auto simp: content_def)
  then show ?thesis by (simp add: queue_view_def map_idI)
qed

lemma view_length: "queue_ok q \<Longrightarrow> length (queue_view q) = length (entries q)"
  by (metis distinct_card length_map queue_ok_def view_keys)

lemma pop_front_cases:
  assumes ok: "queue_ok q"
  obtains "queue_order q = []" "pop_front q = (None, q)"
  | k ks e where "queue_order q = k # ks" "hm_get (entries q) k = Some e" "(entry_key e, entry_target e) = k"
      "pop_front q = (Some e, \<lparr>queue_order = ks, entries = hm_del k (entries q)\<rparr>)"
proof (cases "queue_order q")
  case Nil
  then show thesis using that(1) by (simp add: pop_front_def)
next
  case (Cons k ks)
  then obtain e where "hm_get (entries q) k = Some e" "(entry_key e, entry_target e) = k" using queue_ok_get [OF ok, of k] by auto
  then show thesis using that(2) [OF Cons] by (simp add: pop_front_def Cons)
qed

lemma pop_front_refines:
  assumes ok: "queue_ok q"
  shows "queue_ok (snd (pop_front q)) \<and> newest_pop (queue_view q) = (map_option content (fst (pop_front q)), queue_view (snd (pop_front q)))"
  using ok
proof (cases rule: pop_front_cases)
  case 1
  then show ?thesis using ok by (simp add: queue_view_def newest_pop_def)
next
  case (2 k ks e)
  have "k \<notin> set ks" using ok 2 by (simp add: queue_ok_def)
  have "queue_ok \<lparr>queue_order = ks, entries = hm_del k (entries q)\<rparr>"
    unfolding queue_ok_def
  proof (intro conjI allI impI)
    show "set (hm_keys (entries \<lparr>queue_order = ks, entries = hm_del k (entries q)\<rparr>)) = set (queue_order \<lparr>queue_order = ks, entries = hm_del k (entries q)\<rparr>)"
      using ok 2(1) \<open>k \<notin> set ks\<close> by (simp add: queue_ok_def hm_keys_del [simplified])
    show "(entry_key e, entry_target e) = j" if "hm_get (entries \<lparr>queue_order = ks, entries = hm_del k (entries q)\<rparr>) j = Some e" for j e
      using ok that by (cases j) (simp add: queue_ok_def hm_simps split: if_splits)
  qed (use ok 2(1) in \<open>simp_all add: queue_ok_def\<close>)
  moreover have "queue_view \<lparr>queue_order = ks, entries = hm_del k (entries q)\<rparr> = map (\<lambda>k. content (the (hm_get (entries q) k))) ks"
    using \<open>k \<notin> set ks\<close> by (auto simp: queue_view_def hm_simps)
  ultimately show ?thesis using 2 by (simp add: queue_view_def newest_pop_def)
qed

lemma evict_refines:
  assumes "queue_ok q" "0 < depth"
  shows "queue_ok (evict_oldest depth q) \<and> queue_view (evict_oldest depth q) = drop (Suc (length (queue_view q)) - depth) (queue_view q)"
  using assms
proof (induction depth q rule: evict_oldest.induct)
  case (1 depth q)
  show ?case
  proof (cases "depth \<le> length (entries q)")
    case False
    then show ?thesis using 1 by (simp add: evict_oldest.simps [of depth q] view_length)
  next
    case True
    have r: "queue_ok (snd (pop_front q)) \<and> newest_pop (queue_view q) = (map_option content (fst (pop_front q)), queue_view (snd (pop_front q)))"
      by (rule pop_front_refines [OF 1(2)])
    obtain x xs where v: "queue_view q = x # xs" using True 1(3) view_length [OF 1(2)] by (cases "queue_view q") auto
    then obtain e where e: "fst (pop_front q) = Some e" "queue_view (snd (pop_front q)) = xs"
      using r by (cases "fst (pop_front q)") (simp_all add: newest_pop_def)
    have step: "evict_oldest depth q = evict_oldest depth (snd (pop_front q))"
      using True e(1) by (cases "pop_front q") (simp add: evict_oldest.simps [of depth q])
    have "queue_ok (evict_oldest depth (snd (pop_front q)))
      \<and> queue_view (evict_oldest depth (snd (pop_front q))) = drop (Suc (length xs) - depth) xs"
      using 1(1) [OF True prod.collapse e(1)] e r 1(3) by simp
    moreover have "Suc (Suc (length xs)) - depth = Suc (Suc (length xs) - depth)"
      using True view_length [OF 1(2)] by (simp add: v)
    ultimately show ?thesis by (simp add: step v)
  qed
qed

lemma put_new_ok:
  fixes q :: "('k, 'p) queue_state" and key :: 'k and target :: 'p and state :: "byte list" and n :: nat
  assumes ok: "queue_ok q" and new: "(key, target) \<notin> set (queue_order q)"
  defines "e \<equiv> \<lparr>entry_key = key, entry_target = target, new_state = state, payload_size = n\<rparr>"
  defines "q' \<equiv> \<lparr>queue_order = queue_order q @ [(key, target)], entries = hm_put (key, target) e (entries q)\<rparr>"
  shows "queue_ok q' \<and> queue_view q' = queue_view q @ [((key, target), state)]"
proof
  show "queue_ok q'"
    unfolding queue_ok_def
  proof (intro conjI allI impI)
    show "set (hm_keys (entries q')) = set (queue_order q')"
      using ok by (simp add: q'_def queue_ok_def hm_keys_put [simplified])
    show "(entry_key e', entry_target e') = j" if "hm_get (entries q') j = Some e'" for j e'
      using ok that by (cases j) (auto simp: q'_def e_def queue_ok_def hm_simps split: if_splits)
  qed (use ok new in \<open>simp_all add: q'_def queue_ok_def\<close>)
  show "queue_view q' = queue_view q @ [((key, target), state)]"
    using new by (auto simp: queue_view_def q'_def hm_simps e_def content_def)
qed

lemma put_newer_ok:
  fixes q :: "('k, 'p) queue_state" and key :: 'k and target :: 'p and state :: "byte list"
  assumes ok: "queue_ok q" and old: "hm_get (entries q) (key, target) = Some e"
  defines "q' \<equiv> q\<lparr>entries := hm_put (key, target) (e\<lparr>new_state := state\<rparr>) (entries q)\<rparr>"
  shows "queue_ok q' \<and> queue_view q' = map (\<lambda>(j, w). if j = (key, target) then ((key, target), state) else (j, w)) (queue_view q)"
proof
  have e: "entry_key e = key" "entry_target e = target" using ok old by (auto simp: queue_ok_def)
  have "hm_has (key, target) (entries q)" using old by (simp add: hm_has_def)
  then have "(key, target) \<in> set (queue_order q)" using ok by (simp add: hm_has_iff queue_ok_def)
  then show "queue_ok q'"
    using ok e by (auto simp: q'_def queue_ok_def hm_keys_put [simplified] hm_simps)
  have "content (the (hm_get (entries q') k)) =
      (case content (the (hm_get (entries q) k)) of (j, w) \<Rightarrow> if j = (key, target) then ((key, target), state) else (j, w))"
    if "k \<in> set (queue_order q)" for k
    using queue_ok_get [OF ok that] e by (auto simp: q'_def hm_simps content_def)
  then show "queue_view q' = map (\<lambda>(j, w). if j = (key, target) then ((key, target), state) else (j, w)) (queue_view q)"
    by (simp add: queue_view_def q'_def)
qed

lemma enqueue_refines:
  assumes ok: "queue_ok q" and "0 < depth"
  shows "queue_ok (enqueue depth key target state q)
    \<and> queue_view (enqueue depth key target state q) = newest_enqueue depth (key, target) state (queue_view q)"
proof -
  have dom: "(key, target) \<in> fst ` set (queue_view q) \<longleftrightarrow> hm_get (entries q) (key, target) \<noteq> None"
    using view_keys [OF ok] ok by (metis hm_has_def hm_has_iff list.set_map queue_ok_def)
  show ?thesis
  proof (cases "hm_get (entries q) (key, target)")
    case (Some e)
    then show ?thesis using put_newer_ok [OF ok Some] dom by (simp add: enqueue_def newest_enqueue_def)
  next
    case None
    let ?q = "evict_oldest depth q"
    have r: "queue_ok ?q" "queue_view ?q = drop (Suc (length (queue_view q)) - depth) (queue_view q)"
      using evict_refines [OF assms] by blast+
    have "queue_order ?q = drop (Suc (length (queue_view q)) - depth) (queue_order q)"
      using view_keys [OF r(1)] view_keys [OF ok] by (metis drop_map r(2))
    moreover have "(key, target) \<notin> set (queue_order q)" using dom None view_keys [OF ok] by (metis list.set_map)
    ultimately have "(key, target) \<notin> set (queue_order ?q)" by (metis in_set_dropD)
    then show ?thesis using put_new_ok [OF r(1)] dom None r(2) by (simp add: enqueue_def newest_enqueue_def Let_def)
  qed
qed

definition broadcaster_ok :: "('k, 'p) broadcaster \<Rightarrow> bool" where
  "broadcaster_ok b \<longleftrightarrow> queue_ok (queue b) \<and> length (queue_view (queue b)) \<le> DEFAULT_MAX_QUEUE_DEPTH
     \<and> length (small_streams b) \<le> DEFAULT_SMALL_PAYLOAD_CONCURRENCY \<and> length (large_streams b) \<le> DEFAULT_LARGE_PAYLOAD_CONCURRENCY"

lemma newest_enqueue_length: "length xs \<le> depth \<Longrightarrow> 0 < depth \<Longrightarrow> length (newest_enqueue depth k v xs) \<le> depth"
  by (auto simp: newest_enqueue_def)

lemma newest_pop_length: "length (snd (newest_pop xs)) \<le> length xs"
  by (simp add: newest_pop_def split: list.split)

lemma broadcast_step_ok:
  assumes "broadcaster_ok b"
  shows "broadcaster_ok (broadcast_step b e)"
proof (cases e)
  case (Enqueue key target state)
  then show ?thesis
    using assms enqueue_refines [of "queue b" DEFAULT_MAX_QUEUE_DEPTH key target state] newest_enqueue_length [of "queue_view (queue b)"]
    by (simp add: broadcaster_ok_def DEFAULT_MAX_QUEUE_DEPTH_def)
next
  case Take_Entry
  then show ?thesis
    using assms pop_front_refines [of "queue b"] newest_pop_length [of "queue_view (queue b)"]
    by (auto simp: broadcaster_ok_def split_beta)
next
  case Start_Stream
  then show ?thesis using assms by (auto simp: broadcaster_ok_def start_stream_def split: option.split)
qed (use assms in \<open>auto simp: broadcaster_ok_def\<close>)

interpretation bq: started_machine broadcast_step broadcaster_ok new_broadcaster
  by unfold_locales (simp_all add: broadcast_step_ok, simp add: broadcaster_ok_def new_broadcaster_def queue_ok_def new_queue_def queue_view_def)

text \<open>
  C18: after any sequence of calls and worker steps, enqueuing replaces the state of its contract and
  peer in place, or drops the oldest entries to make room and appends; the worker takes the oldest
  entry with its newest state; and the queue, the small and the large streams keep their bounds.
\<close>

theorem broadcast_queue_newest:
  fixes es :: "('k, 'p) broadcast_event list"
  defines "b \<equiv> foldl broadcast_step new_broadcaster es"
  shows "queue_view (enqueue DEFAULT_MAX_QUEUE_DEPTH key target state (queue b))
        = newest_enqueue DEFAULT_MAX_QUEUE_DEPTH (key, target) state (queue_view (queue b))
    \<and> newest_pop (queue_view (queue b)) = (map_option content (fst (pop_front (queue b))), queue_view (snd (pop_front (queue b))))
    \<and> length (entries (queue b)) \<le> DEFAULT_MAX_QUEUE_DEPTH
    \<and> length (small_streams b) \<le> DEFAULT_SMALL_PAYLOAD_CONCURRENCY \<and> length (large_streams b) \<le> DEFAULT_LARGE_PAYLOAD_CONCURRENCY"
proof -
  have "broadcaster_ok b" unfolding b_def by (rule bq.reachable_inv)
  then show ?thesis
    using enqueue_refines [of "queue b" DEFAULT_MAX_QUEUE_DEPTH key target state] pop_front_refines [of "queue b"] view_length [of "queue b"]
    by (simp add: broadcaster_ok_def DEFAULT_MAX_QUEUE_DEPTH_def)
qed

text \<open>
  The size that selects the pool is that of the first state: a large state that replaces a small one is
  sent from the pool of small payloads.
\<close>

lemma large_state_in_small_pool:
  assumes "length small < PAYLOAD_SIZE_THRESHOLD"
  shows "\<exists>e. small_streams (foldl broadcast_step new_broadcaster [Enqueue k p small, Enqueue k p large, Take_Entry, Start_Stream]) = [e]
    \<and> new_state e = large"
  using assms
  by (simp add: new_broadcaster_def new_queue_def enqueue_def evict_oldest.simps DEFAULT_MAX_QUEUE_DEPTH_def pop_front_def start_stream_def
      DEFAULT_SMALL_PAYLOAD_CONCURRENCY_def Let_def)

end
