(* ===== verification/Access_Control.thy ===== *)
theory Access_Control
  imports Freenet_Prelude
begin

text \<open>
  Who may do what: roles and permissions (\<open>authz/policy.rs\<close>, \<open>authz/context.rs\<close>), API keys and the chain of
  providers (\<open>auth.rs\<close>, \<open>auth/api_key.rs\<close>, \<open>auth/provider.rs\<close>), and the security state that the HTTP middleware
  asks (\<open>auth/middleware.rs\<close>).  The base-58 encoding and the hash of a secret are the arguments \<open>encode\<close> and
  \<open>hash\<close>; the random bytes of a new key are part of the event that makes it; a header is its text, if it
  has one.

  Shown: with enforcement on, a permission is granted exactly to the secrets of keys that were made with
  a role that has it and were not revoked since, and to nothing else.
\<close>

section \<open>Policy\<close>

datatype permission = Read | Write | Execute | Subscribe | Publish | Admin_Permission

datatype resource_type = Contract_Resource | Delegate_Resource | Network_Resource | Admin_Resource

datatype role = Admin | User | ReadOnly | Custom string

type_synonym role_permissions = "(resource_type \<times> permission) set"

definition allows :: "resource_type \<Rightarrow> permission \<Rightarrow> role_permissions \<Rightarrow> bool" where
  "allows resource permission grants \<longleftrightarrow> (resource, permission) \<in> grants"

definition default_admin_permissions :: role_permissions where
  "default_admin_permissions =
     set (List.product [Contract_Resource, Delegate_Resource, Network_Resource, Admin_Resource]
            [Read, Write, Execute, Subscribe, Publish, Admin_Permission])"

definition default_user_permissions :: role_permissions where
  "default_user_permissions =
     {(Contract_Resource, Read), (Contract_Resource, Write), (Contract_Resource, Subscribe), (Contract_Resource, Publish),
      (Delegate_Resource, Read), (Delegate_Resource, Execute), (Network_Resource, Read)}"

definition default_readonly_permissions :: role_permissions where
  "default_readonly_permissions =
     {(Contract_Resource, Read), (Contract_Resource, Subscribe), (Delegate_Resource, Read), (Network_Resource, Read)}"

record access_policy =
  custom_roles :: "(string, role_permissions) hmap"

definition new_policy :: access_policy where
  "new_policy = \<lparr>custom_roles = []\<rparr>"

definition permissions_for :: "access_policy \<Rightarrow> role \<Rightarrow> role_permissions" where
  "permissions_for policy r =
     (case r of
        Admin \<Rightarrow> default_admin_permissions
      | User \<Rightarrow> default_user_permissions
      | ReadOnly \<Rightarrow> default_readonly_permissions
      | Custom name \<Rightarrow> (case hm_get (custom_roles policy) name of Some g \<Rightarrow> g | None \<Rightarrow> default_readonly_permissions))"

definition register_custom_role :: "string \<Rightarrow> (resource_type \<times> permission) list \<Rightarrow> access_policy \<Rightarrow> access_policy" where
  "register_custom_role name grants policy = policy\<lparr>custom_roles := hm_put name (set grants) (custom_roles policy)\<rparr>"

definition check :: "access_policy \<Rightarrow> role list \<Rightarrow> resource_type \<Rightarrow> permission \<Rightarrow> bool" where
  "check policy roles resource permission = list_ex (\<lambda>r. allows resource permission (permissions_for policy r)) roles"

section \<open>API keys\<close>

record api_key =
  key_id :: string
  key_name :: string
  key_hash :: "byte list"
  key_roles :: "role list"
  enabled :: bool

type_synonym api_key_store = "(byte list, api_key) hmap"

definition generate ::
  "(byte list \<Rightarrow> string) \<Rightarrow> (string \<Rightarrow> byte list) \<Rightarrow> byte list \<Rightarrow> byte list \<Rightarrow> string \<Rightarrow> role list \<Rightarrow> api_key \<times> string" where
  "generate encode hash secret_bytes id_bytes name roles =
     (let secret = encode secret_bytes
      in (\<lparr>key_id = encode id_bytes, key_name = name, key_hash = hash secret, key_roles = roles, enabled = True\<rparr>, secret))"

definition create_key ::
  "(byte list \<Rightarrow> string) \<Rightarrow> (string \<Rightarrow> byte list) \<Rightarrow> byte list \<Rightarrow> byte list \<Rightarrow> string \<Rightarrow> role list \<Rightarrow> api_key_store \<Rightarrow>
   (api_key \<times> string) \<times> api_key_store" where
  "create_key encode hash secret_bytes id_bytes name roles store =
     (let (key, secret) = generate encode hash secret_bytes id_bytes name roles
      in ((key, secret), hm_put (key_hash key) key store))"

definition verify :: "(string \<Rightarrow> byte list) \<Rightarrow> string \<Rightarrow> api_key_store \<Rightarrow> api_key option" where
  "verify hash secret store =
     (case hm_get store (hash secret) of Some k \<Rightarrow> if enabled k then Some k else None | None \<Rightarrow> None)"

fun revoke :: "string \<Rightarrow> api_key_store \<Rightarrow> bool \<times> api_key_store" where
  "revoke kid [] = (False, [])"
| "revoke kid ((h, k) # store) =
     (if key_id k = kid then (True, (h, k\<lparr>enabled := False\<rparr>) # store)
      else (let (found, store) = revoke kid store in (found, (h, k) # store)))"

definition list_keys :: "api_key_store \<Rightarrow> api_key list" where
  "list_keys store = map snd store"

section \<open>Authentication\<close>

type_synonym client_id = nat

datatype client_identity = Anonymous client_id | Key_Identity string string | Bearer string string

datatype credential = LegacyToken string | Key_Credential string | BearerToken string | No_Credential

datatype auth_error = NoCredentials | InvalidCredentials | Expired | ProviderUnavailable

record auth_provider =
  supports :: "credential \<Rightarrow> bool"
  provider_authenticate :: "credential \<Rightarrow> auth_error + client_identity"

definition api_key_provider :: "(string \<Rightarrow> byte list) \<Rightarrow> api_key_store \<Rightarrow> auth_provider" where
  "api_key_provider hash store =
     \<lparr>supports = (\<lambda>c. case c of Key_Credential _ \<Rightarrow> True | _ \<Rightarrow> False),
      provider_authenticate = (\<lambda>c. case c of
          Key_Credential secret \<Rightarrow>
            (case verify hash secret store of
               Some key \<Rightarrow> Inr (Key_Identity (key_id key) (key_name key))
             | None \<Rightarrow> Inl InvalidCredentials)
        | _ \<Rightarrow> Inl NoCredentials)\<rparr>"

fun try_providers :: "auth_provider list \<Rightarrow> credential \<Rightarrow> (auth_error + client_identity) option" where
  "try_providers [] c = None"
| "try_providers (p # ps) c =
     (if supports p c
      then (case provider_authenticate p c of
              Inr identity \<Rightarrow> Some (Inr identity)
            | Inl NoCredentials \<Rightarrow> try_providers ps c
            | Inl e \<Rightarrow> Some (Inl e))
      else try_providers ps c)"

definition chain_authenticate :: "auth_provider list \<Rightarrow> bool \<Rightarrow> credential \<Rightarrow> client_id \<Rightarrow> auth_error + client_identity" where
  "chain_authenticate providers permissive c client =
     (if c = No_Credential then (if permissive then Inr (Anonymous client) else Inl NoCredentials)
      else (case try_providers providers c of
              Some r \<Rightarrow> r
            | None \<Rightarrow> if permissive then Inr (Anonymous client) else Inl InvalidCredentials))"

record security_context =
  identity :: client_identity
  context_client :: client_id
  roles :: "role list"
  policy :: access_policy

definition permissive_context :: "client_id \<Rightarrow> security_context" where
  "permissive_context client = \<lparr>identity = Anonymous client, context_client = client, roles = [User], policy = new_policy\<rparr>"

definition has_permission :: "security_context \<Rightarrow> resource_type \<Rightarrow> permission \<Rightarrow> bool" where
  "has_permission ctx resource permission = check (policy ctx) (roles ctx) resource permission"

definition is_admin :: "security_context \<Rightarrow> bool" where
  "is_admin ctx = list_ex (\<lambda>r. r = Admin) (roles ctx)"

definition require_permission :: "security_context \<Rightarrow> resource_type \<Rightarrow> permission \<Rightarrow> (client_identity \<times> role list) + unit" where
  "require_permission ctx resource permission =
     (if has_permission ctx resource permission then Inr () else Inl (identity ctx, roles ctx))"

text \<open>The providers share the store with the state that lists the keys.\<close>

record security_state =
  permissive :: bool
  api_keys :: api_key_store
  state_policy :: access_policy

definition new_security_state :: "bool \<Rightarrow> api_key_store \<Rightarrow> security_state" where
  "new_security_state perm store = \<lparr>permissive = perm, api_keys = store, state_policy = new_policy\<rparr>"

definition resolve_roles :: "security_state \<Rightarrow> client_identity \<Rightarrow> role list" where
  "resolve_roles st i =
     (case i of
        Key_Identity kid _ \<Rightarrow>
          (case find (\<lambda>k. key_id k = kid) (list_keys (api_keys st)) of Some k \<Rightarrow> key_roles k | None \<Rightarrow> [User])
      | _ \<Rightarrow> [User])"

definition state_authenticate :: "(string \<Rightarrow> byte list) \<Rightarrow> security_state \<Rightarrow> credential \<Rightarrow> client_id \<Rightarrow> security_context" where
  "state_authenticate hash st c client =
     (case chain_authenticate [api_key_provider hash (api_keys st)] (permissive st) c client of
        Inr i \<Rightarrow> \<lparr>identity = i, context_client = client, roles = resolve_roles st i, policy = state_policy st\<rparr>
      | Inl _ \<Rightarrow> \<lparr>identity = Anonymous client, context_client = client, roles = [], policy = state_policy st\<rparr>)"

section \<open>The middleware\<close>

definition is_blank :: "char \<Rightarrow> bool" where
  "is_blank c \<longleftrightarrow> c = CHR '' '' \<or> c = CHR 0x09"

definition trim :: "string \<Rightarrow> string" where
  "trim s = rev (dropWhile is_blank (rev (dropWhile is_blank s)))"

definition extract_credential :: "string option \<Rightarrow> string option \<Rightarrow> credential" where
  "extract_credential authorization x_api_key =
     (case authorization of
        Some v \<Rightarrow>
          if take 7 v = ''Bearer '' then BearerToken (trim (drop 7 v))
          else (case x_api_key of Some key \<Rightarrow> Key_Credential key | None \<Rightarrow> No_Credential)
      | None \<Rightarrow> (case x_api_key of Some key \<Rightarrow> Key_Credential key | None \<Rightarrow> No_Credential))"

definition security_middleware ::
  "(string \<Rightarrow> byte list) \<Rightarrow> security_state option \<Rightarrow> string option \<Rightarrow> string option \<Rightarrow> client_id \<Rightarrow> security_context" where
  "security_middleware hash st authorization x_api_key client =
     (case st of
        Some st \<Rightarrow> state_authenticate hash st (extract_credential authorization x_api_key) client
      | None \<Rightarrow> permissive_context client)"

definition require_admin :: "security_context \<Rightarrow> 'r \<Rightarrow> nat + 'r" where
  "require_admin ctx response = (if \<not> is_admin ctx then Inl 403 else Inr response)"

section \<open>The life of a key\<close>

text \<open>A key event: creation with its random bytes, name and roles, or revocation of a key id.\<close>

datatype key_event = Create "byte list" "byte list" string "role list" | Revoke string

fun store_step :: "(byte list \<Rightarrow> string) \<Rightarrow> (string \<Rightarrow> byte list) \<Rightarrow> api_key_store \<Rightarrow> key_event \<Rightarrow> api_key_store" where
  "store_step encode hash store (Create sb ib name rs) = snd (create_key encode hash sb ib name rs store)"
| "store_step encode hash store (Revoke kid) = snd (revoke kid store)"

text \<open>
  The keys made so far by their secrets, in the order of their making; a key is enabled unless its id is
  revoked later.
\<close>

fun issued :: "(byte list \<Rightarrow> string) \<Rightarrow> (string \<Rightarrow> byte list) \<Rightarrow> key_event list \<Rightarrow> (string \<times> api_key) list" where
  "issued encode hash [] = []"
| "issued encode hash (Create sb ib name rs # es) =
     (encode sb, \<lparr>key_id = encode ib, key_name = name, key_hash = hash (encode sb), key_roles = rs, enabled = (Revoke (encode ib) \<notin> set es)\<rparr>)
     # issued encode hash es"
| "issued encode hash (Revoke kid # es) = issued encode hash es"

text \<open>No two keys have the same id, no two of the secrets in question the same hash.\<close>

definition secrets_of :: "credential \<Rightarrow> string set" where
  "secrets_of c = (case c of Key_Credential secret \<Rightarrow> {secret} | _ \<Rightarrow> {})"

definition no_collisions :: "(byte list \<Rightarrow> string) \<Rightarrow> (string \<Rightarrow> byte list) \<Rightarrow> credential \<Rightarrow> key_event list \<Rightarrow> bool" where
  "no_collisions encode hash c es \<longleftrightarrow>
     distinct (map fst (issued encode hash es)) \<and> distinct (map (key_id \<circ> snd) (issued encode hash es))
     \<and> inj_on hash (secrets_of c \<union> fst ` set (issued encode hash es))"

definition hashed :: "(string \<Rightarrow> byte list) \<Rightarrow> (string \<times> api_key) list \<Rightarrow> api_key_store" where
  "hashed hash ks = map (\<lambda>(s, k). (hash s, k)) ks"

lemma issued_create:
  "issued encode hash (es @ [Create sb ib name rs]) = issued encode hash es
     @ [(encode sb, \<lparr>key_id = encode ib, key_name = name, key_hash = hash (encode sb), key_roles = rs, enabled = True\<rparr>)]"
  by (induction encode hash es rule: issued.induct) auto

lemma issued_revoke:
  "issued encode hash (es @ [Revoke kid]) = map (\<lambda>(s, k). (s, if key_id k = kid then k\<lparr>enabled := False\<rparr> else k)) (issued encode hash es)"
  by (induction encode hash es rule: issued.induct) auto

lemma revoke_hashed:
  "distinct (map (key_id \<circ> snd) ks) \<Longrightarrow>
   snd (revoke kid (hashed hash ks)) = hashed hash (map (\<lambda>(s, k). (s, if key_id k = kid then k\<lparr>enabled := False\<rparr> else k)) ks)"
proof (induction ks)
  case (Cons x ks)
  obtain s k where x: "x = (s, k)" by (cases x)
  show ?case
  proof (cases "key_id k = kid")
    case True
    then have "map (\<lambda>(s, k). (s, if key_id k = kid then k\<lparr>enabled := False\<rparr> else k)) ks = ks"
      using Cons.prems by (intro map_idI) (force simp: x)
    then show ?thesis using True by (simp add: x hashed_def)
  qed (use Cons in \<open>simp add: x hashed_def split_beta\<close>)
qed (simp add: hashed_def)

lemma put_new: "h \<notin> set (hm_keys m) \<Longrightarrow> hm_put h k m = m @ [(h, k)]"
  by (induction m) auto

lemma hashed_keys: "hm_keys (hashed hash ks) = map hash (map fst ks)"
  by (simp add: hashed_def split_beta comp_def)

lemma store_issued:
  assumes "distinct (map fst (issued encode hash es))" "distinct (map (key_id \<circ> snd) (issued encode hash es))"
    "inj_on hash (fst ` set (issued encode hash es))"
  shows "foldl (store_step encode hash) [] es = hashed hash (issued encode hash es)"
  using assms
proof (induction es rule: rev_induct)
  case Nil
  then show ?case by (simp add: hashed_def)
next
  case (snoc e es)
  show ?case
  proof (cases e)
    case (Create sb ib name rs)
    have IH: "foldl (store_step encode hash) [] es = hashed hash (issued encode hash es)"
      by (rule snoc.IH) (use snoc.prems in \<open>auto simp: Create issued_create intro: inj_on_subset\<close>)
    have "hash (encode sb) \<notin> hash ` fst ` set (issued encode hash es)"
      using snoc.prems(1,3) by (auto simp: Create issued_create inj_on_def)
    then have "hash (encode sb) \<notin> set (hm_keys (hashed hash (issued encode hash es)))" by (simp add: hashed_keys [simplified] image_image)
    then show ?thesis by (simp add: Create IH create_key_def generate_def issued_create put_new Let_def) (simp add: hashed_def)
  next
    case (Revoke kid)
    have keys: "map fst (issued encode hash (es @ [e])) = map fst (issued encode hash es)"
      "map (key_id \<circ> snd) (issued encode hash (es @ [e])) = map (key_id \<circ> snd) (issued encode hash es)"
      by (auto simp: Revoke issued_revoke)
    have IH: "foldl (store_step encode hash) [] es = hashed hash (issued encode hash es)"
      by (rule snoc.IH) (use snoc.prems keys in \<open>metis list.set_map\<close>)+
    have "distinct (map (key_id \<circ> snd) (issued encode hash es))" using snoc.prems(2) by (simp only: keys)
    from revoke_hashed [OF this] show ?thesis by (simp add: Revoke IH issued_revoke)
  qed
qed

lemma hashed_get:
  assumes "distinct (map fst ks)" "inj_on hash (insert secret (fst ` set ks))"
  shows "hm_get (hashed hash ks) (hash secret) = Some k \<longleftrightarrow> (secret, k) \<in> set ks"
proof -
  have "inj_on hash (fst ` set ks)" using assms(2) by (rule inj_on_subset) auto
  then have "distinct (map hash (map fst ks))" using assms(1) by (simp only: distinct_map set_map simp_thms)
  then have "hm_wf (hashed hash ks)" by (simp only: hashed_keys)
  moreover have "(hash secret, k) \<in> set (hashed hash ks) \<longleftrightarrow> (secret, k) \<in> set ks"
    using assms(2) by (force simp: hashed_def inj_on_def)
  ultimately show ?thesis by (simp add: hm_get_in_set)
qed

lemma find_key_roles:
  assumes "distinct (map (key_id \<circ> snd) ks)" "(s, k) \<in> set ks"
  shows "find (\<lambda>j. key_id j = key_id k) (list_keys (hashed hash ks)) = Some k"
  using assms
proof (induction ks)
  case (Cons x ks)
  obtain s' j where x: "x = (s', j)" by (cases x)
  show ?case
  proof (cases "(s, k) \<in> set ks")
    case True
    then have "key_id j \<noteq> key_id k" using Cons.prems(1) by (force simp: x)
    then show ?thesis using Cons True by (simp add: x list_keys_def hashed_def)
  next
    case False
    then show ?thesis using Cons.prems(2) by (simp add: x list_keys_def hashed_def)
  qed
qed simp

lemma key_context:
  fixes encode :: "byte list \<Rightarrow> string" and hash :: "string \<Rightarrow> byte list" and perm :: bool and pol :: access_policy
  assumes c: "no_collisions encode hash (Key_Credential secret) es"
  defines "st \<equiv> \<lparr>permissive = perm, api_keys = foldl (store_step encode hash) [] es, state_policy = pol\<rparr>"
  shows "(secret, k) \<in> set (issued encode hash es) \<Longrightarrow> enabled k \<Longrightarrow>
      roles (state_authenticate hash st (Key_Credential secret) client) = key_roles k"
    "\<nexists>k. (secret, k) \<in> set (issued encode hash es) \<and> enabled k \<Longrightarrow> roles (state_authenticate hash st (Key_Credential secret) client) = []"
proof -
  let ?ks = "issued encode hash es"
  have d: "distinct (map fst ?ks)" "distinct (map (key_id \<circ> snd) ?ks)" "inj_on hash (insert secret (fst ` set ?ks))"
    using c by (simp_all add: no_collisions_def secrets_of_def)
  have st: "api_keys st = hashed hash ?ks"
    using store_issued [OF d(1,2)] inj_on_subset [OF d(3)] by (simp add: st_def subset_insertI)
  have get: "verify hash secret (api_keys st) = Some k \<longleftrightarrow> (secret, k) \<in> set ?ks \<and> enabled k" for k
    using hashed_get [OF d(1,3), of k] by (auto simp: verify_def st split: option.splits)
  show "roles (state_authenticate hash st (Key_Credential secret) client) = key_roles k" if k: "(secret, k) \<in> set ?ks" "enabled k"
  proof -
    have "verify hash secret (hashed hash ?ks) = Some k" using get k by (simp add: st)
    then show ?thesis
      using find_key_roles [OF d(2) k(1)] by (simp add: state_authenticate_def chain_authenticate_def api_key_provider_def resolve_roles_def st)
  qed
  show "roles (state_authenticate hash st (Key_Credential secret) client) = []" if "\<nexists>k. (secret, k) \<in> set ?ks \<and> enabled k"
  proof -
    have "verify hash secret (api_keys st) = None" using get that by (metis not_None_eq)
    then show ?thesis by (simp add: state_authenticate_def chain_authenticate_def api_key_provider_def)
  qed
qed

text \<open>
  C16: with enforcement on and whatever keys were made and revoked before, a request has a permission
  exactly if it presents the secret of a key that was not revoked since it was made and has a role with
  that permission; a request without a key, with a bearer token or a legacy token has none.  The
  hypotheses are that drawn secrets and key ids do not repeat and that no two of the secrets have the
  same hash.
\<close>

theorem api_keys_exact:
  fixes encode :: "byte list \<Rightarrow> string" and hash :: "string \<Rightarrow> byte list" and es :: "key_event list" and pol :: access_policy
  assumes "no_collisions encode hash c es"
  defines "st \<equiv> \<lparr>permissive = False, api_keys = foldl (store_step encode hash) [] es, state_policy = pol\<rparr>"
  shows "has_permission (state_authenticate hash st c client) resource permission \<longleftrightarrow>
    (\<exists>secret k. c = Key_Credential secret \<and> (secret, k) \<in> set (issued encode hash es) \<and> enabled k
       \<and> check pol (key_roles k) resource permission)"
proof -
  have pol: "policy (state_authenticate hash st c client) = pol"
    by (simp add: state_authenticate_def st_def split: sum.split)
  show ?thesis
  proof (cases c)
    case (Key_Credential secret)
    note ctx = key_context [OF assms(1) [unfolded Key_Credential], where perm = False and pol = pol and client = client, folded st_def]
    show ?thesis
    proof (cases "\<exists>k. (secret, k) \<in> set (issued encode hash es) \<and> enabled k")
      case True
      then show ?thesis using ctx(1) pol unfolding has_permission_def Key_Credential by (metis credential.inject(2))
    next
      case False
      then show ?thesis using ctx(2) by (auto simp: has_permission_def Key_Credential check_def)
    qed
  qed (auto simp: has_permission_def state_authenticate_def chain_authenticate_def api_key_provider_def st_def check_def)
qed

theorem api_keys_exact_witness:
  "has_permission (state_authenticate (map (\<lambda>c. word_of_nat (of_char c)))
     \<lparr>permissive = False, api_keys = foldl (store_step (map (\<lambda>b. char_of (unat b))) (map (\<lambda>c. word_of_nat (of_char c)))) []
        [Create [97] [98] ''main'' [User], Create [99] [100] ''old'' [Admin], Revoke ''d''], state_policy = new_policy\<rparr>
     (Key_Credential ''a'') 1) Contract_Resource Publish"
proof -
  let ?encode = "map (\<lambda>b :: byte. char_of (unat b) :: char)" and ?hash = "map (\<lambda>c. word_of_nat (of_char c) :: byte)"
  let ?es = "[Create [97] [98] ''main'' [User], Create [99] [100] ''old'' [Admin], Revoke ''d'']"
  have i: "issued ?encode ?hash ?es =
      [(''a'', \<lparr>key_id = ''b'', key_name = ''main'', key_hash = [97], key_roles = [User], enabled = True\<rparr>),
       (''c'', \<lparr>key_id = ''d'', key_name = ''old'', key_hash = [99], key_roles = [Admin], enabled = False\<rparr>)]"
    by code_simp
  have "?hash ''a'' = [97]" "?hash ''c'' = [99]" by code_simp+
  then have "inj_on ?hash {''a'', ''c''}" by (auto simp: inj_on_def)
  moreover have "distinct [''a'', ''c'']" "distinct [''b'', ''d'']" by code_simp+
  ultimately have "no_collisions ?encode ?hash (Key_Credential ''a'') ?es"
    unfolding no_collisions_def i secrets_of_def by (simp add: insert_commute del: inj_on_insert)
  from api_keys_exact [OF this, of new_policy 1 Contract_Resource Publish] show ?thesis
    unfolding i by (simp add: check_def allows_def permissions_for_def default_user_permissions_def)
qed

text \<open>
  In the permissive mode, where a request without credentials has the permissions of a user, one with an
  unknown or revoked key has none.
\<close>

lemma unknown_key_in_permissive_mode:
  "has_permission (state_authenticate hash (new_security_state True []) No_Credential client) Contract_Resource Write"
  "\<not> has_permission (state_authenticate hash (new_security_state True []) (Key_Credential secret) client) resource permission"
  by (simp_all add: has_permission_def state_authenticate_def chain_authenticate_def api_key_provider_def new_security_state_def verify_def
      resolve_roles_def check_def allows_def permissions_for_def default_user_permissions_def)

end
