(* ===== verification/Congestion_Interface.thy ===== *)
theory Congestion_Interface
  imports F64
begin

text \<open>
  What the senders rely on in a congestion controller (trait \<open>CongestionControl\<close> of
  \<open>transport/congestion_control.rs\<close>): every operation changes the bytes in flight by what was sent and
  acknowledged, and by nothing else.  The atomic counter wraps on the way up and saturates at zero on
  the way down.

  Shown, for every controller that keeps this contract: as long as acknowledgements are for bytes in
  flight, the counter is the difference of what was sent and acknowledged.

  The theory also holds what the controllers share: casts, and the rings of fixed size in which the
  adaptive ones keep their last samples.
\<close>

section \<open>Casts\<close>

definition as_u64 :: "nat \<Rightarrow> nat" where
  "as_u64 n = n mod (u64_max + 1)"

lemma as_u64_le [simp]: "as_u64 n \<le> u64_max"
  by (simp add: as_u64_def u64_max_def)

lemma as_u64_exact [simp]: "n \<le> u64_max \<Longrightarrow> as_u64 n = n"
  by (simp add: as_u64_def)

text \<open>\<open>(n as f64 * gain) as u64\<close>.\<close>

definition scaled :: "nat \<Rightarrow> rat \<Rightarrow> nat" where
  "scaled n gain = f64_to_u64 (f64_mul (f64_of_nat n) gain)"

lemma scaled_0 [simp]: "scaled 0 gain = 0"
  by (simp add: scaled_def f64_of_nat_def f64_mul_def f64_to_u64_def)

section \<open>Rings of the last samples\<close>

definition last_samples :: "nat \<Rightarrow> 'a list \<Rightarrow> 'a list" where
  "last_samples n us = drop (length us - n) us"

text \<open>Slot \<open>k mod n\<close> of the ring holds sample \<open>k\<close> of the last \<open>n\<close>; the other slots are still empty.\<close>

definition ring_ok :: "nat \<Rightarrow> 'a \<Rightarrow> 'a list \<Rightarrow> 'a list \<Rightarrow> bool" where
  "ring_ok n vacant us xs \<longleftrightarrow>
     length xs = n \<and> (\<forall>k < length us. length us \<le> k + n \<longrightarrow> xs ! (k mod n) = us ! k)
     \<and> (\<forall>i < n. xs ! i = vacant \<or> (\<exists>k < length us. length us \<le> k + n \<and> i = k mod n \<and> xs ! i = us ! k))"

lemma ring_new: "ring_ok n vacant [] (replicate n vacant)"
  by (simp add: ring_ok_def)

lemma near_mod: "(k :: nat) < m \<Longrightarrow> m < k + n \<Longrightarrow> k mod n \<noteq> m mod n"
proof
  assume a: "k < m" "m < k + n" "k mod n = m mod n"
  then have "n dvd m - k" by (metis less_imp_le mod_eq_dvd_iff_nat)
  then show False using a by (auto dest!: dvd_imp_le)
qed

lemma ring_put:
  assumes ok: "ring_ok n vacant us xs" and "0 < n"
  shows "ring_ok n vacant (us @ [u]) (xs[length us mod n := u])"
proof -
  let ?m = "length us" and ?xs = "xs[length us mod n := u]"
  have len: "length xs = n" using ok by (simp add: ring_ok_def)
  have slot: "?xs ! i = (if i = ?m mod n then u else xs ! i)" if "i < n" for i
    using that len by (simp add: nth_list_update)
  have 1: "?xs ! (k mod n) = (us @ [u]) ! k" if k: "k < Suc ?m" "Suc ?m \<le> k + n" for k
  proof (cases "k = ?m")
    case False
    then have "k < ?m" "?m \<le> k + n" "k mod n \<noteq> ?m mod n" using k near_mod [of k ?m n] by auto
    then show ?thesis using ok \<open>0 < n\<close> by (simp add: slot nth_append ring_ok_def)
  qed (simp add: slot \<open>0 < n\<close>)
  have 2: "?xs ! i = vacant \<or> (\<exists>k < Suc ?m. Suc ?m \<le> k + n \<and> i = k mod n \<and> ?xs ! i = (us @ [u]) ! k)" if i: "i < n" for i
  proof (cases "i = ?m mod n")
    case True
    then show ?thesis using i by (intro disjI2 exI [of _ ?m]) (simp add: slot)
  next
    case ne: False
    have s: "?xs ! i = xs ! i" using ne by (simp add: slot i)
    from ok i consider "xs ! i = vacant" | k where "k < ?m" "?m \<le> k + n" "i = k mod n" "xs ! i = us ! k"
      by (auto simp: ring_ok_def)
    then show ?thesis
    proof cases
      case (2 k)
      then have "?m \<noteq> k + n" using ne by auto
      then show ?thesis using 2 s by (intro disjI2 exI [of _ k]) (simp add: nth_append)
    qed (simp add: s)
  qed
  show ?thesis using len 1 2 by (simp add: ring_ok_def)
qed

lemma in_last_samples: "x \<in> set (last_samples n us) \<longleftrightarrow> (\<exists>k < length us. length us \<le> k + n \<and> us ! k = x)"
proof
  assume "x \<in> set (last_samples n us)"
  then obtain j where "j < length us - (length us - n)" "us ! (length us - n + j) = x"
    by (auto simp: last_samples_def in_set_conv_nth)
  then show "\<exists>k < length us. length us \<le> k + n \<and> us ! k = x" by (intro exI [of _ "length us - n + j"]) auto
next
  assume "\<exists>k < length us. length us \<le> k + n \<and> us ! k = x"
  then obtain k where "k < length us" "length us \<le> k + n" "us ! k = x" by auto
  then show "x \<in> set (last_samples n us)" unfolding last_samples_def in_set_conv_nth by (intro exI [of _ "k - (length us - n)"]) auto
qed

lemma ring_set:
  assumes "ring_ok n vacant us xs" "x \<noteq> vacant" "0 < n"
  shows "x \<in> set xs \<longleftrightarrow> x \<in> set (last_samples n us)"
proof
  assume "x \<in> set xs"
  then obtain i where "i < length xs" "xs ! i = x" by (auto simp: in_set_conv_nth)
  then show "x \<in> set (last_samples n us)" using assms(1,2) unfolding in_last_samples ring_ok_def by metis
next
  assume "x \<in> set (last_samples n us)"
  then obtain k where "k < length us" "length us \<le> k + n" "us ! k = x" by (auto simp: in_last_samples)
  then have "xs ! (k mod n) = x" using assms(1) by (simp add: ring_ok_def)
  moreover have "k mod n < length xs" using assms(1,3) by (simp add: ring_ok_def)
  ultimately show "x \<in> set xs" by (metis nth_mem)
qed

section \<open>The bytes in flight\<close>

locale flight_accounting =
  fixes step :: "'s \<Rightarrow> 'e \<Rightarrow> 's" and flight :: "'s \<Rightarrow> nat" and sent acked :: "'e \<Rightarrow> nat"
  assumes flight_step: "flight s \<le> u64_max \<Longrightarrow> flight (step s e) = wrap_add (flight s) (sent e) - acked e"
begin

lemma flight_fits: "flight s \<le> u64_max \<Longrightarrow> flight (step s e) \<le> u64_max"
  by (rule le_trans [of _ "wrap_add (flight s) (sent e)"]) (simp_all add: flight_step wrap_add_def u64_max_def)

lemma flight_run:
  "flight s \<le> u64_max \<Longrightarrow> flight (foldl step s es) = foldl (\<lambda>f e. wrap_add f (sent e) - acked e) (flight s) es"
proof (induction es arbitrary: s)
  case (Cons e es)
  then show ?case using flight_fits [of s e] by (simp add: flight_step [OF Cons.prems, symmetric])
qed simp

end

text \<open>Every acknowledgement is for bytes in flight, and the counter does not wrap.\<close>

fun acks_covered :: "('e \<Rightarrow> nat) \<Rightarrow> ('e \<Rightarrow> nat) \<Rightarrow> nat \<Rightarrow> 'e list \<Rightarrow> bool" where
  "acks_covered sent acked f [] \<longleftrightarrow> True"
| "acks_covered sent acked f (e # es) \<longleftrightarrow>
     f + sent e \<le> u64_max \<and> acked e \<le> f + sent e \<and> acks_covered sent acked (f + sent e - acked e) es"

context flight_accounting
begin

lemma flight_exact:
  "flight s \<le> u64_max \<Longrightarrow> acks_covered sent acked (flight s) es \<Longrightarrow>
   flight (foldl step s es) + sum_list (map acked es) = flight s + sum_list (map sent es)"
proof (induction es arbitrary: s)
  case (Cons e es)
  then have f: "flight (step s e) = flight s + sent e - acked e" by (simp add: flight_step)
  have "flight (foldl step (step s e) es) + sum_list (map acked es) = flight (step s e) + sum_list (map sent es)"
    by (rule Cons.IH) (use Cons.prems f flight_fits [of s e] in simp_all)
  moreover have "acked e \<le> flight s + sent e" using Cons.prems(2) by simp
  ultimately show ?case using f by simp
qed simp

end

end
