(* ===== verification/Fixed_Rate.thy ===== *)
theory Fixed_Rate
  imports Congestion_Interface
begin

text \<open>
  \<open>FixedRateController\<close> of \<open>transport/fixed_rate/controller.rs\<close>, the controller a node uses by default: a
  constant rate, a counter of the bytes in flight, and a pause after a loss or a timeout that caps the
  window at the bytes in flight until the next acknowledgement.

  Shown: whatever happened before, a sender may send exactly when nothing was lost since the last
  acknowledgement.
\<close>

definition DEFAULT_RATE_BYTES_PER_SEC :: nat where
  "DEFAULT_RATE_BYTES_PER_SEC = 1250000"

record fixed_rate_config =
  rate_bytes_per_sec :: nat

definition default_fixed_rate_config :: fixed_rate_config where
  "default_fixed_rate_config = \<lparr>rate_bytes_per_sec = DEFAULT_RATE_BYTES_PER_SEC\<rparr>"

definition fixed_rate_from_mbps :: "nat \<Rightarrow> fixed_rate_config" where
  "fixed_rate_from_mbps mbps = \<lparr>rate_bytes_per_sec = (mbps * 1000000) mod (u64_max + 1) div 8\<rparr>"

record fixed_rate =
  fixed_rate_bytes :: nat
  fixed_flight :: nat
  loss_pause :: bool

definition new_fixed_rate :: "fixed_rate_config \<Rightarrow> fixed_rate" where
  "new_fixed_rate config = \<lparr>fixed_rate_bytes = rate_bytes_per_sec config, fixed_flight = 0, loss_pause = False\<rparr>"

definition fixed_on_send :: "nat \<Rightarrow> fixed_rate \<Rightarrow> fixed_rate" where
  "fixed_on_send bytes c = c\<lparr>fixed_flight := wrap_add (fixed_flight c) bytes\<rparr>"

definition fixed_on_ack_without_rtt :: "nat \<Rightarrow> fixed_rate \<Rightarrow> fixed_rate" where
  "fixed_on_ack_without_rtt bytes_acked c = c\<lparr>loss_pause := False, fixed_flight := fixed_flight c - bytes_acked\<rparr>"

definition fixed_on_ack :: "duration \<Rightarrow> nat \<Rightarrow> fixed_rate \<Rightarrow> fixed_rate" where
  "fixed_on_ack rtt_sample bytes_acked c = fixed_on_ack_without_rtt bytes_acked c"

definition fixed_on_loss :: "fixed_rate \<Rightarrow> fixed_rate" where
  "fixed_on_loss c = c\<lparr>loss_pause := True\<rparr>"

definition fixed_on_timeout :: "fixed_rate \<Rightarrow> fixed_rate" where
  "fixed_on_timeout c = c\<lparr>loss_pause := True\<rparr>"

definition fixed_current_cwnd :: "fixed_rate \<Rightarrow> nat" where
  "fixed_current_cwnd c = (if loss_pause c then fixed_flight c else u64_max div 2)"

definition fixed_current_rate :: "duration \<Rightarrow> fixed_rate \<Rightarrow> nat" where
  "fixed_current_rate rtt c = fixed_rate_bytes c"

section \<open>Every sequence of calls\<close>

datatype fixed_event =
    Fixed_Send nat
  | Fixed_Ack duration nat
  | Fixed_Ack_Without_Rtt nat
  | Fixed_Loss
  | Fixed_Timeout

fun fixed_step :: "fixed_rate \<Rightarrow> fixed_event \<Rightarrow> fixed_rate" where
  "fixed_step c (Fixed_Send bytes) = fixed_on_send bytes c"
| "fixed_step c (Fixed_Ack rtt bytes) = fixed_on_ack rtt bytes c"
| "fixed_step c (Fixed_Ack_Without_Rtt bytes) = fixed_on_ack_without_rtt bytes c"
| "fixed_step c Fixed_Loss = fixed_on_loss c"
| "fixed_step c Fixed_Timeout = fixed_on_timeout c"

fun fixed_sent :: "fixed_event \<Rightarrow> nat" where
  "fixed_sent (Fixed_Send bytes) = bytes"
| "fixed_sent _ = 0"

fun fixed_acked :: "fixed_event \<Rightarrow> nat" where
  "fixed_acked (Fixed_Ack _ bytes) = bytes"
| "fixed_acked (Fixed_Ack_Without_Rtt bytes) = bytes"
| "fixed_acked _ = 0"

fun is_fixed_ack :: "fixed_event \<Rightarrow> bool" where
  "is_fixed_ack (Fixed_Ack _ _) \<longleftrightarrow> True"
| "is_fixed_ack (Fixed_Ack_Without_Rtt _) \<longleftrightarrow> True"
| "is_fixed_ack _ \<longleftrightarrow> False"

text \<open>The calls since the last acknowledgement, the newest first.\<close>

definition since_last_ack :: "fixed_event list \<Rightarrow> fixed_event list" where
  "since_last_ack es = takeWhile (\<lambda>e. \<not> is_fixed_ack e) (rev es)"

lemmas fixed_ops = fixed_on_send_def fixed_on_ack_def fixed_on_ack_without_rtt_def fixed_on_loss_def fixed_on_timeout_def

interpretation fx: flight_accounting fixed_step fixed_flight fixed_sent fixed_acked
proof
  show "fixed_flight (fixed_step s e) = wrap_add (fixed_flight s) (fixed_sent e) - fixed_acked e" if "fixed_flight s \<le> u64_max" for s e
    using that by (cases e) (simp_all add: fixed_ops)
qed

lemma pause_exact:
  "loss_pause (foldl fixed_step (new_fixed_rate config) es)
     = list_ex (\<lambda>e. e = Fixed_Loss \<or> e = Fixed_Timeout) (since_last_ack es)"
proof (induction es rule: rev_induct)
  case (snoc e es)
  then show ?case by (cases e) (simp_all add: fixed_ops since_last_ack_def)
qed (simp add: since_last_ack_def new_fixed_rate_def)

text \<open>
  C20: after any calls whose acknowledgements are for bytes in flight, the sender's test
  \<open>flightsize + packet <= cwnd\<close> lets a packet through exactly if nothing was lost and no timeout fired since
  the last acknowledgement, up to the bound of half the address space; and the bytes in flight are those
  sent and not acknowledged.
\<close>

theorem fixed_rate_gate:
  fixes config :: fixed_rate_config and es :: "fixed_event list"
  defines "c \<equiv> foldl fixed_step (new_fixed_rate config) es"
  assumes "acks_covered fixed_sent fixed_acked 0 es" "0 < packet"
  shows "fixed_flight c = sum_list (map fixed_sent es) - sum_list (map fixed_acked es)
    \<and> (fixed_flight c + packet \<le> fixed_current_cwnd c \<longleftrightarrow>
         \<not> list_ex (\<lambda>e. e = Fixed_Loss \<or> e = Fixed_Timeout) (since_last_ack es)
         \<and> fixed_flight c + packet \<le> u64_max div 2)"
proof -
  have z: "fixed_flight (new_fixed_rate config) = 0" by (simp add: new_fixed_rate_def)
  have "fixed_flight c = sum_list (map fixed_sent es) - sum_list (map fixed_acked es)"
    using fx.flight_exact [of "new_fixed_rate config" es] assms(2) by (simp add: c_def z)
  then show ?thesis using assms(3) pause_exact [of config es] by (auto simp: fixed_current_cwnd_def c_def [symmetric])
qed

definition sample_calls :: "fixed_event list" where
  "sample_calls = [Fixed_Send 1000, Fixed_Send 500, Fixed_Loss, Fixed_Ack 50 1000, Fixed_Send 200]"

theorem fixed_rate_gate_witness:
  "fixed_flight (foldl fixed_step (new_fixed_rate default_fixed_rate_config) sample_calls) + 1424
     \<le> fixed_current_cwnd (foldl fixed_step (new_fixed_rate default_fixed_rate_config) sample_calls)"
proof -
  have "acks_covered fixed_sent fixed_acked 0 sample_calls" by (simp add: sample_calls_def u64_max_def)
  from fixed_rate_gate [OF this, of 1424 default_fixed_rate_config] show ?thesis
    by (auto simp: sample_calls_def since_last_ack_def u64_max_def)
qed

text \<open>A pause with nothing in flight closes the window: no acknowledgement is left that could open it.\<close>

lemma pause_without_flight: "fixed_current_cwnd (fixed_on_timeout (new_fixed_rate config)) = 0"
  by (simp add: fixed_current_cwnd_def fixed_on_timeout_def new_fixed_rate_def)

end
