(* ===== verification/Bbr_Estimators.thy ===== *)
theory Bbr_Estimators
  imports Packet_Data Congestion_Interface
begin

text \<open>
  The estimators of the BBR congestion controller: the bandwidth filter (\<open>transport/bbr/bandwidth.rs\<close>), the
  tracker of the least round-trip time (\<open>transport/bbr/rtt.rs\<close>) and the sampler of the delivery rate
  (\<open>transport/bbr/delivery_rate.rs\<close>), with the constants of \<open>transport/bbr/config.rs\<close>.  Atomic cells are
  fields of records, counters wrap at 64 bits, times are nanoseconds since the controller was made.

  Shown: the bandwidth filter gives the greatest of the last ten samples that are inside its window;
  the least round-trip time never expires at the moment it was updated.
\<close>

definition BW_FILTER_SIZE :: nat where
  "BW_FILTER_SIZE = 10"

definition MIN_RTT_FILTER_WINDOW :: duration where
  "MIN_RTT_FILTER_WINDOW = secs 10"

definition PROBE_RTT_INTERVAL :: duration where
  "PROBE_RTT_INTERVAL = secs 5"

definition PROBE_RTT_DURATION :: duration where
  "PROBE_RTT_DURATION = millis 200"

section \<open>The bandwidth filter\<close>

record bandwidth_filter =
  samples :: "nat list"
  timestamps :: "nat list"
  write_idx :: nat
  window_nanos :: nat

definition new_bandwidth_filter :: "duration \<Rightarrow> bandwidth_filter" where
  "new_bandwidth_filter window =
     \<lparr>samples = replicate BW_FILTER_SIZE 0, timestamps = replicate BW_FILTER_SIZE 0, write_idx = 0, window_nanos = as_u64 window\<rparr>"

definition filter_update :: "nat \<Rightarrow> nat \<Rightarrow> bandwidth_filter \<Rightarrow> bandwidth_filter" where
  "filter_update bw now_nanos f =
     (let idx = write_idx f mod BW_FILTER_SIZE
      in f\<lparr>write_idx := wrap_add (write_idx f) 1, samples := (samples f)[idx := bw], timestamps := (timestamps f)[idx := now_nanos]\<rparr>)"

definition max_bw :: "nat \<Rightarrow> bandwidth_filter \<Rightarrow> nat" where
  "max_bw now_nanos f =
     (let cutoff = now_nanos - window_nanos f
      in foldl (\<lambda>m (timestamp, bw). if cutoff \<le> timestamp then max m bw else m) 0 (zip (timestamps f) (samples f)))"

definition filter_reset :: "bandwidth_filter \<Rightarrow> bandwidth_filter" where
  "filter_reset f = f\<lparr>samples := replicate BW_FILTER_SIZE 0, timestamps := replicate BW_FILTER_SIZE 0, write_idx := 0\<rparr>"

definition has_samples :: "nat \<Rightarrow> bandwidth_filter \<Rightarrow> bool" where
  "has_samples now_nanos f =
     (let cutoff = now_nanos - window_nanos f in list_ex (\<lambda>timestamp. cutoff \<le> timestamp \<and> 0 < timestamp) (timestamps f))"

section \<open>The least round-trip time\<close>

record rtt_tracker =
  min_rtt_nanos :: nat
  min_rtt_stamp_nanos :: nat
  last_probe_rtt_nanos :: nat
  next_probe_rtt_nanos :: nat
  probe_rtt_entry_nanos :: nat
  probe_rtt_round_done :: bool
  filter_window_nanos :: nat
  probe_interval_nanos :: nat
  probe_duration_nanos :: nat

definition rtt_with_params :: "duration \<Rightarrow> duration \<Rightarrow> duration \<Rightarrow> rtt_tracker" where
  "rtt_with_params filter_window probe_interval probe_duration =
     \<lparr>min_rtt_nanos = u64_max, min_rtt_stamp_nanos = 0, last_probe_rtt_nanos = 0, next_probe_rtt_nanos = 0,
      probe_rtt_entry_nanos = 0, probe_rtt_round_done = False, filter_window_nanos = as_u64 filter_window,
      probe_interval_nanos = as_u64 probe_interval, probe_duration_nanos = as_u64 probe_duration\<rparr>"

definition new_rtt_tracker :: rtt_tracker where
  "new_rtt_tracker = rtt_with_params MIN_RTT_FILTER_WINDOW PROBE_RTT_INTERVAL PROBE_RTT_DURATION"

definition rtt_update :: "duration \<Rightarrow> nat \<Rightarrow> rtt_tracker \<Rightarrow> bool \<times> rtt_tracker" where
  "rtt_update rtt now_nanos r =
     (let rtt_nanos = as_u64 rtt;
          expired = filter_window_nanos r < now_nanos - min_rtt_stamp_nanos r
      in if rtt_nanos < min_rtt_nanos r \<or> expired
         then (True, r\<lparr>min_rtt_nanos := rtt_nanos, min_rtt_stamp_nanos := now_nanos\<rparr>)
         else (False, r))"

definition min_rtt :: "rtt_tracker \<Rightarrow> duration option" where
  "min_rtt r = (if min_rtt_nanos r = u64_max then None else Some (min_rtt_nanos r))"

definition is_expired :: "nat \<Rightarrow> rtt_tracker \<Rightarrow> bool" where
  "is_expired now_nanos r \<longleftrightarrow> filter_window_nanos r < now_nanos - min_rtt_stamp_nanos r"

definition should_enter_probe_rtt :: "nat \<Rightarrow> rtt_tracker \<Rightarrow> bool" where
  "should_enter_probe_rtt now_nanos r \<longleftrightarrow>
     is_expired now_nanos r \<or> (0 < next_probe_rtt_nanos r \<and> next_probe_rtt_nanos r \<le> now_nanos)"

definition rtt_enter_probe_rtt :: "nat \<Rightarrow> rtt_tracker \<Rightarrow> rtt_tracker" where
  "rtt_enter_probe_rtt now_nanos r = r\<lparr>probe_rtt_entry_nanos := now_nanos, probe_rtt_round_done := False\<rparr>"

definition mark_probe_rtt_round_done :: "rtt_tracker \<Rightarrow> rtt_tracker" where
  "mark_probe_rtt_round_done r = r\<lparr>probe_rtt_round_done := True\<rparr>"

definition should_exit_probe_rtt :: "nat \<Rightarrow> rtt_tracker \<Rightarrow> bool" where
  "should_exit_probe_rtt now_nanos r \<longleftrightarrow>
     probe_duration_nanos r \<le> now_nanos - probe_rtt_entry_nanos r \<and> probe_rtt_round_done r"

definition saturating_add_signed :: "nat \<Rightarrow> int \<Rightarrow> nat" where
  "saturating_add_signed a i = min (nat (int a + i)) u64_max"

definition rtt_exit_probe_rtt :: "nat \<Rightarrow> int \<Rightarrow> rtt_tracker \<Rightarrow> rtt_tracker" where
  "rtt_exit_probe_rtt now_nanos jitter_nanos r =
     r\<lparr>last_probe_rtt_nanos := now_nanos,
       next_probe_rtt_nanos := saturating_add_signed (sat_add now_nanos (probe_interval_nanos r)) jitter_nanos\<rparr>"

section \<open>The delivery rate\<close>

record delivery_rate_token =
  token_delivered :: nat
  sent_time_nanos :: nat
  token_sent :: nat
  token_app_limited :: bool
  token_first_sent_delivered :: nat
  token_first_sent_time_nanos :: nat

record delivery_rate_sample =
  delivery_rate :: nat
  sample_app_limited :: bool
  sample_delivered :: nat
  interval_nanos :: nat
  sample_rtt :: duration
  sample_lost :: nat

definition IDLE_RESET_THRESHOLD_NANOS :: nat where
  "IDLE_RESET_THRESHOLD_NANOS = 500000000"

record delivery_sampler =
  delivered :: nat
  sent :: nat
  lost :: nat
  first_sent_time_nanos :: nat
  first_sent_delivered :: nat
  last_send_time_nanos :: nat
  app_limited :: bool
  round_count :: nat
  sampler_round_start_delivered :: nat

definition new_sampler :: delivery_sampler where
  "new_sampler =
     \<lparr>delivered = 0, sent = 0, lost = 0, first_sent_time_nanos = 0, first_sent_delivered = 0, last_send_time_nanos = 0,
      app_limited = False, round_count = 0, sampler_round_start_delivered = 0\<rparr>"

definition sampler_on_send :: "nat \<Rightarrow> nat \<Rightarrow> nat \<Rightarrow> delivery_sampler \<Rightarrow> delivery_rate_token \<times> delivery_sampler" where
  "sampler_on_send bytes now_nanos inflight s =
     (let sent_before = sent s;
          s = s\<lparr>sent := wrap_add sent_before bytes\<rparr>;
          is_truly_idle = (inflight = 0 \<and> IDLE_RESET_THRESHOLD_NANOS < now_nanos - last_send_time_nanos s);
          should_reset = (is_truly_idle \<or> first_sent_time_nanos s = 0);
          s = (if should_reset then s\<lparr>first_sent_delivered := delivered s, first_sent_time_nanos := now_nanos\<rparr> else s);
          s = s\<lparr>last_send_time_nanos := now_nanos\<rparr>
      in (\<lparr>token_delivered = delivered s, sent_time_nanos = now_nanos, token_sent = wrap_add sent_before bytes,
           token_app_limited = app_limited s, token_first_sent_delivered = first_sent_delivered s,
           token_first_sent_time_nanos = first_sent_time_nanos s\<rparr>, s))"

definition capped_rate :: "nat \<Rightarrow> nat \<Rightarrow> nat \<Rightarrow> nat" where
  "capped_rate delivered_bytes bytes_sent_since_token interval =
     (let rate = (if 0 < delivered_bytes then as_u64 (delivered_bytes * 1000000000 div interval) else 0)
      in if delivered_bytes div 2 \<le> bytes_sent_since_token
         then min rate (as_u64 (bytes_sent_since_token * 1000000000 div interval))
         else rate)"

definition count_round :: "nat \<Rightarrow> delivery_sampler \<Rightarrow> delivery_sampler" where
  "count_round delivered_now s =
     (if sampler_round_start_delivered s < delivered_now
      then s\<lparr>round_count := wrap_add (round_count s) 1, sampler_round_start_delivered := delivered_now\<rparr> else s)"

definition sampler_on_ack ::
  "delivery_rate_token \<Rightarrow> nat \<Rightarrow> nat \<Rightarrow> delivery_sampler \<Rightarrow> delivery_rate_sample option \<times> delivery_sampler" where
  "sampler_on_ack token bytes_acked now_nanos s =
     (let delivered_now = wrap_add (delivered s) bytes_acked;
          s = s\<lparr>delivered := delivered_now\<rparr>;
          send_elapsed = now_nanos - token_first_sent_time_nanos token;
          ack_elapsed = now_nanos - sent_time_nanos token;
          interval = max send_elapsed ack_elapsed
      in if interval = 0 then (None, s)
         else
           (let delivered_bytes = delivered_now - token_first_sent_delivered token;
                bytes_sent_since_token = sent s - token_sent token
            in (Some \<lparr>delivery_rate = capped_rate delivered_bytes bytes_sent_since_token interval,
                      sample_app_limited = token_app_limited token, sample_delivered = delivered_bytes, interval_nanos = interval,
                      sample_rtt = now_nanos - sent_time_nanos token, sample_lost = 0\<rparr>,
                count_round delivered_now s)))"

definition sampler_on_loss :: "nat \<Rightarrow> delivery_sampler \<Rightarrow> delivery_sampler" where
  "sampler_on_loss bytes_lost s = s\<lparr>lost := wrap_add (lost s) bytes_lost\<rparr>"

definition sampler_set_app_limited :: "bool \<Rightarrow> delivery_sampler \<Rightarrow> delivery_sampler" where
  "sampler_set_app_limited b s = s\<lparr>app_limited := b\<rparr>"

definition sampler_reset :: "delivery_sampler \<Rightarrow> delivery_sampler" where
  "sampler_reset s = new_sampler"

section \<open>The filter is the greatest recent sample\<close>

definition run_filter :: "duration \<Rightarrow> (nat \<times> nat) list \<Rightarrow> bandwidth_filter" where
  "run_filter window us = foldl (\<lambda>f (bw, t). filter_update bw t f) (new_bandwidth_filter window) us"

definition filter_ok :: "(nat \<times> nat) list \<Rightarrow> bandwidth_filter \<Rightarrow> bool" where
  "filter_ok us f \<longleftrightarrow>
     length (samples f) = length (timestamps f) \<and> write_idx f = length us \<and> ring_ok 10 (0, 0) us (zip (samples f) (timestamps f))"

lemma update_ok:
  assumes "filter_ok us f" "length us < u64_max"
  shows "filter_ok (us @ [(bw, t)]) (filter_update bw t f)"
proof -
  have "ring_ok 10 (0, 0) (us @ [(bw, t)]) ((zip (samples f) (timestamps f))[length us mod 10 := (bw, t)])"
    using assms by (intro ring_put) (simp_all add: filter_ok_def)
  then show ?thesis using assms by (simp add: filter_ok_def filter_update_def BW_FILTER_SIZE_def Let_def update_zip)
qed

lemma run_filter_ok: "length us \<le> u64_max \<Longrightarrow> filter_ok us (run_filter window us) \<and> window_nanos (run_filter window us) = as_u64 window"
proof (induction us rule: rev_induct)
  case (snoc u us)
  obtain bw t where u: "u = (bw, t)" by (cases u)
  have r: "run_filter window (us @ [u]) = filter_update bw t (run_filter window us)" by (simp add: run_filter_def u)
  have "filter_ok us (run_filter window us)" "window_nanos (run_filter window us) = as_u64 window" "length us < u64_max"
    using snoc by simp_all
  moreover have "window_nanos (filter_update bw t f) = window_nanos f" for f by (simp add: filter_update_def Let_def)
  ultimately show ?case using update_ok [of us "run_filter window us" bw t] by (simp only: r) (simp add: u)
next
  case Nil
  have "zip (replicate 10 0) (replicate 10 0) = replicate 10 (0 :: nat, 0 :: nat)" by (simp add: zip_replicate)
  then show ?case using ring_new [of 10 "(0 :: nat, 0 :: nat)"]
    by (simp add: run_filter_def new_bandwidth_filter_def filter_ok_def BW_FILTER_SIZE_def)
qed

lemma foldl_window_max:
  "foldl (\<lambda>m (t, bw). if c \<le> t then max m bw else m) m xs = Max (insert (m :: nat) {bw. \<exists>t. (t :: nat, bw) \<in> set xs \<and> c \<le> t})"
proof (induction xs arbitrary: m)
  case (Cons x xs)
  obtain t bw where x: "x = (t, bw)" by (cases x)
  let ?S = "{bw. \<exists>t. (t, bw) \<in> set xs \<and> c \<le> t}"
  have fin: "finite ?S" by (rule finite_subset [of _ "snd ` set xs"]) force+
  show ?case
  proof (cases "c \<le> t")
    case True
    then have "{bw. \<exists>t. (t, bw) \<in> set (x # xs) \<and> c \<le> t} = insert bw ?S" by (auto simp: x)
    then show ?thesis using True fin Cons.IH [of "max m bw"] by (cases "?S = {}") (simp_all add: x Max_insert max.assoc)
  next
    case False
    then have "{bw. \<exists>t. (t, bw) \<in> set (x # xs) \<and> c \<le> t} = ?S" by (auto simp: x)
    then show ?thesis using False Cons.IH [of m] by (simp add: x)
  qed
qed simp

lemma max_bw_filter:
  assumes "filter_ok us f"
  shows "max_bw now f = Max (insert 0 {bw. \<exists>t. (bw, t) \<in> set (last_samples 10 us) \<and> now - window_nanos f \<le> t})"
proof -
  let ?c = "now - window_nanos f"
  have "(t, x) \<in> set (zip (timestamps f) (samples f)) \<longleftrightarrow> (x, t) \<in> set (zip (samples f) (timestamps f))" for t x
    using assms by (auto simp: filter_ok_def set_zip)
  then have "(t, x) \<in> set (zip (timestamps f) (samples f)) \<longleftrightarrow> (x, t) \<in> set (last_samples 10 us)" if "x \<noteq> 0" for t x
    using assms that ring_set [of 10 "(0, 0)" us "zip (samples f) (timestamps f)" "(x, t)"] by (simp add: filter_ok_def)
  then have "x \<in> insert 0 {bw. \<exists>t. (t, bw) \<in> set (zip (timestamps f) (samples f)) \<and> ?c \<le> t}
      \<longleftrightarrow> x \<in> insert 0 {bw. \<exists>t. (bw, t) \<in> set (last_samples 10 us) \<and> ?c \<le> t}" for x
    by (cases "x = 0") simp_all
  then have "insert 0 {bw. \<exists>t. (t, bw) \<in> set (zip (timestamps f) (samples f)) \<and> ?c \<le> t}
      = insert 0 {bw. \<exists>t. (bw, t) \<in> set (last_samples 10 us) \<and> ?c \<le> t}" by (rule set_eqI)
  then show ?thesis by (simp add: max_bw_def foldl_window_max)
qed

text \<open>
  C22: after any fewer than 2^64 samples the bandwidth filter returns the greatest of the last ten samples
  that are not older than its window, and 0 if there is none.
\<close>

theorem bandwidth_filter_exact:
  assumes "length us \<le> u64_max" "window \<le> u64_max"
  shows "max_bw now (run_filter window us) = Max (insert 0 {bw. \<exists>t. (bw, t) \<in> set (last_samples 10 us) \<and> now - window \<le> t})"
  using run_filter_ok [OF assms(1), of window] max_bw_filter [of us "run_filter window us" now] assms(2) by simp

theorem bandwidth_filter_exact_witness:
  "max_bw 8 (run_filter 5 [(100, 1), (500, 2), (300, 3)]) = 300"
proof -
  let ?us = "[(100, 1), (500, 2), (300, 3)] :: (nat \<times> nat) list"
  have "length ?us \<le> u64_max" "(5 :: nat) \<le> u64_max" by (simp_all add: u64_max_def)
  from bandwidth_filter_exact [OF this, of 8]
  have "max_bw 8 (run_filter 5 ?us) = Max (insert 0 {bw. \<exists>t. (bw, t) \<in> set (last_samples 10 ?us) \<and> 8 - 5 \<le> t})" .
  also have "{bw. \<exists>t. (bw, t) \<in> set (last_samples 10 ?us) \<and> 8 - 5 \<le> t} = {300}"
    by (auto simp: last_samples_def)
  finally show ?thesis by simp
qed

text \<open>
  A filter that is full forgets a sample that is still inside the window: ten later samples hide it.
\<close>

lemma filter_forgets_inside_window: "max_bw 20 (run_filter (secs 10) ((1000, 1) # replicate 10 (7, 2))) = 7"
proof -
  let ?us = "(1000, 1) # replicate 10 (7, 2) :: (nat \<times> nat) list"
  have "length ?us \<le> u64_max" by (simp add: u64_max_def)
  from run_filter_ok [OF this] have "filter_ok ?us (run_filter (secs 10) ?us)" "window_nanos (run_filter (secs 10) ?us) = secs 10"
    by (simp_all add: as_u64_def secs_def u64_max_def)
  from max_bw_filter [OF this(1), of 20] this(2)
  have "max_bw 20 (run_filter (secs 10) ?us) = Max (insert 0 {bw. \<exists>t. (bw, t) \<in> set (last_samples 10 ?us) \<and> 20 - secs 10 \<le> t})"
    by simp
  also have "{bw. \<exists>t. (bw, t) \<in> set (last_samples 10 ?us) \<and> 20 - secs 10 \<le> t} = {7}"
    by (auto simp: last_samples_def secs_def)
  finally show ?thesis by simp
qed

text \<open>A sample replaces an expired minimum, so right after an update the minimum is never expired.\<close>

lemma fresh_after_update: "\<not> is_expired now (snd (rtt_update rtt now r))"
  by (simp add: is_expired_def rtt_update_def Let_def)

lemma update_keeps_schedule [simp]: "next_probe_rtt_nanos (snd (rtt_update rtt now r)) = next_probe_rtt_nanos r"
  by (simp add: rtt_update_def Let_def)

text \<open>Every acknowledgement of new bytes starts a round, whether or not a round trip has passed.\<close>

lemma every_ack_is_a_round:
  assumes "sampler_round_start_delivered s \<le> delivered s" "0 < bytes" "delivered s + bytes \<le> u64_max" "round_count s < u64_max"
    "sent_time_nanos token < now"
  shows "round_count (snd (sampler_on_ack token bytes now s)) = round_count s + 1"
  using assms by (simp add: sampler_on_ack_def count_round_def Let_def)

end
