(* ===== verification/Bbr.thy ===== *)
theory Bbr
  imports Bbr_Estimators Congestion_Interface
begin

text \<open>
  The BBR congestion controller: \<open>BbrController\<close> of \<open>transport/bbr/controller.rs\<close> with its states
  (\<open>transport/bbr/state.rs\<close>) and constants (\<open>transport/bbr/config.rs\<close>).  Each reading of the time source is an
  argument: an acknowledgement reads it up to four times.  Gains are doubles, products with them are
  rounded as \<open>f64\<close> and cast back with saturation.

  Shown: every acknowledgement keeps the window between its bounds, the pacing rate above its floor and
  the state on the documented transitions; a loss caps the window until a timeout; and the phase that
  measures the round-trip time is never entered.
\<close>

section \<open>Constants and states\<close>

definition BBR_MSS :: nat where
  "BBR_MSS = MAX_DATA_SIZE"

definition STARTUP_PACING_GAIN :: rat where
  "STARTUP_PACING_GAIN = f64_round (277 / 100)"

definition DEFAULT_STARTUP_MIN_PACING_RATE :: nat where
  "DEFAULT_STARTUP_MIN_PACING_RATE = 25000000"

definition STARTUP_CWND_GAIN :: rat where
  "STARTUP_CWND_GAIN = 2"

definition DRAIN_PACING_GAIN :: rat where
  "DRAIN_PACING_GAIN = f64_round (36 / 100)"

definition PROBE_BW_UP_PACING_GAIN :: rat where
  "PROBE_BW_UP_PACING_GAIN = 5 / 4"

definition PROBE_BW_DOWN_PACING_GAIN :: rat where
  "PROBE_BW_DOWN_PACING_GAIN = f64_round (9 / 10)"

definition PROBE_BW_CRUISE_PACING_GAIN :: rat where
  "PROBE_BW_CRUISE_PACING_GAIN = 1"

definition PROBE_RTT_CWND_GAIN :: rat where
  "PROBE_RTT_CWND_GAIN = 1 / 2"

definition PROBE_RTT_MIN_CWND :: nat where
  "PROBE_RTT_MIN_CWND = 4 * BBR_MSS"

definition PROBE_BW_CWND_GAIN :: rat where
  "PROBE_BW_CWND_GAIN = 2"

definition STARTUP_FULL_BW_ROUNDS :: nat where
  "STARTUP_FULL_BW_ROUNDS = 3"

definition STARTUP_FULL_BW_THRESHOLD :: rat where
  "STARTUP_FULL_BW_THRESHOLD = 5 / 4"

definition STARTUP_LOSS_THRESHOLD :: rat where
  "STARTUP_LOSS_THRESHOLD = f64_round (2 / 100)"

definition BETA :: rat where
  "BETA = f64_round (7 / 10)"

definition PROBE_BW_CRUISE_ROUNDS_MIN :: nat where
  "PROBE_BW_CRUISE_ROUNDS_MIN = 6"

definition PROBE_BW_DOWN_ROUNDS :: nat where
  "PROBE_BW_DOWN_ROUNDS = 1"

definition PROBE_BW_REFILL_ROUNDS :: nat where
  "PROBE_BW_REFILL_ROUNDS = 1"

definition PROBE_BW_UP_ROUNDS :: nat where
  "PROBE_BW_UP_ROUNDS = 1"

record bbr_config =
  initial_cwnd :: nat
  min_cwnd :: nat
  max_cwnd :: nat
  enable_probe_rtt :: bool
  probe_rtt_jitter :: duration
  startup_min_pacing_rate :: nat

definition default_bbr_config :: bbr_config where
  "default_bbr_config =
     \<lparr>initial_cwnd = 10 * BBR_MSS, min_cwnd = 4 * BBR_MSS, max_cwnd = 1000000000, enable_probe_rtt = True,
      probe_rtt_jitter = millis 2500, startup_min_pacing_rate = DEFAULT_STARTUP_MIN_PACING_RATE\<rparr>"

datatype bbr_state = Startup | Drain | ProbeBW | ProbeRTT

datatype probe_bw_phase = Down | Cruise | Refill | Up

text \<open>The atomic cells hold the states as bytes; loading what was stored gives it back.\<close>

fun bbr_state_u8 :: "bbr_state \<Rightarrow> nat" where
  "bbr_state_u8 Startup = 0"
| "bbr_state_u8 Drain = 1"
| "bbr_state_u8 ProbeBW = 2"
| "bbr_state_u8 ProbeRTT = 3"

definition bbr_state_from_u8 :: "nat \<Rightarrow> bbr_state option" where
  "bbr_state_from_u8 v =
     (if v = 0 then Some Startup else if v = 1 then Some Drain else if v = 2 then Some ProbeBW
      else if v = 3 then Some ProbeRTT else None)"

definition load_bbr_state :: "nat \<Rightarrow> bbr_state" where
  "load_bbr_state v = (case bbr_state_from_u8 v of Some s \<Rightarrow> s | None \<Rightarrow> ProbeBW)"

lemma load_stored_state: "load_bbr_state (bbr_state_u8 s) = s"
  by (cases s) (simp_all add: load_bbr_state_def bbr_state_from_u8_def)

fun next_phase :: "probe_bw_phase \<Rightarrow> probe_bw_phase" where
  "next_phase Down = Cruise"
| "next_phase Cruise = Refill"
| "next_phase Refill = Up"
| "next_phase Up = Down"

fun phase_pacing_gain :: "probe_bw_phase \<Rightarrow> rat" where
  "phase_pacing_gain Down = PROBE_BW_DOWN_PACING_GAIN"
| "phase_pacing_gain Cruise = PROBE_BW_CRUISE_PACING_GAIN"
| "phase_pacing_gain Refill = PROBE_BW_CRUISE_PACING_GAIN"
| "phase_pacing_gain Up = PROBE_BW_UP_PACING_GAIN"

section \<open>The controller\<close>

record bbr =
  config :: bbr_config
  bw_filter :: bandwidth_filter
  bw_hi :: nat
  bw_lo :: nat
  rtts :: rtt_tracker
  state :: bbr_state
  phase :: probe_bw_phase
  bbr_cwnd :: nat
  bbr_flight :: nat
  inflight_hi :: nat
  inflight_lo :: nat
  pacing_rate :: nat
  sampler :: delivery_sampler
  full_bw_count :: nat
  full_bw :: nat
  probe_bw_phase_start_round :: nat
  cruise_rounds :: nat
  round_start_lost :: nat
  round_start_delivered :: nat
  last_round_for_loss :: nat
  probe_rtt_rounds :: nat
  timeouts :: nat
  max_bdp_seen :: nat
  epoch_nanos :: nat

definition new_bbr :: "bbr_config \<Rightarrow> nat \<Rightarrow> bbr" where
  "new_bbr conf reading =
     \<lparr>config = conf, bw_filter = new_bandwidth_filter MIN_RTT_FILTER_WINDOW, bw_hi = u64_max, bw_lo = 0, rtts = new_rtt_tracker,
      state = Startup, phase = Cruise, bbr_cwnd = initial_cwnd conf, bbr_flight = 0, inflight_hi = u64_max, inflight_lo = 0,
      pacing_rate = 1000000, sampler = new_sampler, full_bw_count = 0, full_bw = 0, probe_bw_phase_start_round = 0,
      cruise_rounds = 0, round_start_lost = 0, round_start_delivered = 0, last_round_for_loss = 0, probe_rtt_rounds = 0,
      timeouts = 0, max_bdp_seen = 0, epoch_nanos = reading\<rparr>"

definition now_nanos :: "nat \<Rightarrow> bbr \<Rightarrow> nat" where
  "now_nanos reading c = reading - epoch_nanos c"

definition compute_bdp :: "nat \<Rightarrow> bbr \<Rightarrow> nat" where
  "compute_bdp reading c =
     (let bw = max_bw (now_nanos reading c) (bw_filter c); rtt = min_rtt_nanos (rtts c)
      in if bw = 0 \<or> rtt = u64_max then initial_cwnd (config c)
         else max (as_u64 (bw * rtt div 1000000000)) (min_cwnd (config c)))"

definition compute_probe_rtt_cwnd :: "nat \<Rightarrow> bbr \<Rightarrow> nat" where
  "compute_probe_rtt_cwnd reading c = max (scaled (compute_bdp reading c) PROBE_RTT_CWND_GAIN) PROBE_RTT_MIN_CWND"

definition current_pacing_gain :: "bbr \<Rightarrow> rat" where
  "current_pacing_gain c =
     (case state c of
        Startup \<Rightarrow> STARTUP_PACING_GAIN
      | Drain \<Rightarrow> DRAIN_PACING_GAIN
      | ProbeBW \<Rightarrow> phase_pacing_gain (phase c)
      | ProbeRTT \<Rightarrow> 1)"

definition current_cwnd_gain :: "bbr \<Rightarrow> rat" where
  "current_cwnd_gain c =
     (case state c of
        Startup \<Rightarrow> STARTUP_CWND_GAIN
      | Drain \<Rightarrow> STARTUP_CWND_GAIN
      | ProbeBW \<Rightarrow> PROBE_BW_CWND_GAIN
      | ProbeRTT \<Rightarrow> PROBE_RTT_CWND_GAIN)"

subsection \<open>The state machine\<close>

definition update_startup :: "nat \<Rightarrow> bbr \<Rightarrow> bbr" where
  "update_startup now c =
     (let bw = max_bw now (bw_filter c);
          c = (if scaled (full_bw c) STARTUP_FULL_BW_THRESHOLD \<le> bw
               then c\<lparr>full_bw := bw, full_bw_count := 0\<rparr>
               else c\<lparr>full_bw_count := as_u32 (full_bw_count c + 1)\<rparr>)
      in if STARTUP_FULL_BW_ROUNDS \<le> full_bw_count c then c\<lparr>state := Drain\<rparr> else c)"

definition start_probe_bw :: "bbr \<Rightarrow> bbr" where
  "start_probe_bw c =
     c\<lparr>state := ProbeBW, phase := Cruise, probe_bw_phase_start_round := round_count (sampler c), cruise_rounds := 0\<rparr>"

definition update_drain :: "nat \<Rightarrow> bbr \<Rightarrow> bbr" where
  "update_drain reading c = (if bbr_flight c \<le> compute_bdp reading c then start_probe_bw c else c)"

definition enter_probe_rtt :: "nat \<Rightarrow> bbr \<Rightarrow> bbr" where
  "enter_probe_rtt now c =
     c\<lparr>state := ProbeRTT, rtts := rtt_enter_probe_rtt now (rtts c), probe_rtt_rounds := wrap_add (probe_rtt_rounds c) 1\<rparr>"

definition exit_probe_rtt :: "nat \<Rightarrow> bbr \<Rightarrow> bbr" where
  "exit_probe_rtt now c = start_probe_bw (c\<lparr>rtts := rtt_exit_probe_rtt now 0 (rtts c)\<rparr>)"

definition advance_probe_bw_phase :: "nat \<Rightarrow> bbr \<Rightarrow> bbr" where
  "advance_probe_bw_phase rounds c = c\<lparr>phase := next_phase (phase c), probe_bw_phase_start_round := rounds\<rparr>"

definition update_probe_bw :: "nat \<Rightarrow> bbr \<Rightarrow> bbr" where
  "update_probe_bw now c =
     (if enable_probe_rtt (config c) \<and> should_enter_probe_rtt now (rtts c) then enter_probe_rtt now c
      else
        (let rounds = round_count (sampler c); rounds_in_phase = rounds - probe_bw_phase_start_round c
         in case phase c of
              Down \<Rightarrow> if PROBE_BW_DOWN_ROUNDS \<le> rounds_in_phase then advance_probe_bw_phase rounds c else c
            | Cruise \<Rightarrow>
                (let c = c\<lparr>cruise_rounds := as_u32 (cruise_rounds c + 1)\<rparr>
                 in if PROBE_BW_CRUISE_ROUNDS_MIN \<le> cruise_rounds c then advance_probe_bw_phase rounds c else c)
            | Refill \<Rightarrow> if PROBE_BW_REFILL_ROUNDS \<le> rounds_in_phase then advance_probe_bw_phase rounds c else c
            | Up \<Rightarrow>
                if PROBE_BW_UP_ROUNDS \<le> rounds_in_phase
                then (advance_probe_bw_phase rounds c)\<lparr>cruise_rounds := 0\<rparr> else c))"

definition update_probe_rtt :: "nat \<Rightarrow> nat \<Rightarrow> bbr \<Rightarrow> bbr" where
  "update_probe_rtt now reading c =
     (let c = (if bbr_flight c \<le> compute_probe_rtt_cwnd reading c then c\<lparr>rtts := mark_probe_rtt_round_done (rtts c)\<rparr> else c)
      in if should_exit_probe_rtt now (rtts c) then exit_probe_rtt now c else c)"

definition update_state :: "nat \<Rightarrow> nat \<Rightarrow> bbr \<Rightarrow> bbr" where
  "update_state now reading c =
     (case state c of
        Startup \<Rightarrow> update_startup now c
      | Drain \<Rightarrow> update_drain reading c
      | ProbeBW \<Rightarrow> update_probe_bw now c
      | ProbeRTT \<Rightarrow> update_probe_rtt now reading c)"

subsection \<open>Window and pacing rate\<close>

definition startup_floor :: "bbr \<Rightarrow> nat \<Rightarrow> nat" where
  "startup_floor c target =
     (if state c = Startup \<and> min_rtt_nanos (rtts c) \<noteq> u64_max
      then max target (scaled (as_u64 (startup_min_pacing_rate (config c) * min_rtt_nanos (rtts c) div 1000000000)) (current_cwnd_gain c))
      else target)"

definition update_model :: "nat \<Rightarrow> nat \<Rightarrow> bbr \<Rightarrow> bbr" where
  "update_model reading_bdp reading_bw c =
     (let bdp = compute_bdp reading_bdp c;
          target = startup_floor c (scaled bdp (current_cwnd_gain c));
          target = (if inflight_hi c < u64_max then min target (inflight_hi c) else target);
          target = min (max target (min_cwnd (config c))) (max_cwnd (config c));
          effective_bw = min (max_bw (now_nanos reading_bw c) (bw_filter c)) (bw_hi c);
          rate = scaled effective_bw (current_pacing_gain c);
          rate = (if state c = Startup then max rate (startup_min_pacing_rate (config c)) else rate)
      in c\<lparr>max_bdp_seen := max (max_bdp_seen c) bdp, bbr_cwnd := target, pacing_rate := max rate 1\<rparr>)"

subsection \<open>Events\<close>

definition INITIAL_PACING_RATE :: nat where
  "INITIAL_PACING_RATE = 1000000"

definition bbr_on_send :: "nat \<Rightarrow> nat \<Rightarrow> bbr \<Rightarrow> delivery_rate_token \<times> bbr" where
  "bbr_on_send bytes reading c =
     (let now = now_nanos reading c;
          inflight = bbr_flight c;
          c = c\<lparr>bbr_flight := wrap_add inflight bytes\<rparr>;
          c = (if \<not> has_samples now (bw_filter c) \<and> pacing_rate c < INITIAL_PACING_RATE
               then c\<lparr>pacing_rate := INITIAL_PACING_RATE\<rparr> else c);
          (token, s) = sampler_on_send bytes now inflight (sampler_set_app_limited False (sampler c))
      in (token, c\<lparr>sampler := s\<rparr>))"

definition bbr_set_app_limited :: "bool \<Rightarrow> bbr \<Rightarrow> bbr" where
  "bbr_set_app_limited b c = c\<lparr>sampler := sampler_set_app_limited b (sampler c)\<rparr>"

definition MIN_BYTES_FOR_BW_SAMPLE :: nat where
  "MIN_BYTES_FOR_BW_SAMPLE = 100"

text \<open>The readings of the time source of one acknowledgement, in their order.\<close>

record ack_clock =
  at_ack :: nat
  at_state :: nat
  at_bdp :: nat
  at_rate :: nat

definition ack_delivery_rate :: "duration \<Rightarrow> nat \<Rightarrow> delivery_rate_token option \<Rightarrow> nat \<Rightarrow> delivery_sampler \<Rightarrow> nat option \<times> delivery_sampler" where
  "ack_delivery_rate rtt_sample bytes_acked token now s =
     (case token of
        Some token \<Rightarrow> (let (sample, s) = sampler_on_ack token bytes_acked now s in (map_option delivery_rate sample, s))
      | None \<Rightarrow>
          (let rtt_nanos = as_u64 rtt_sample
           in (if 0 < rtt_nanos then Some (as_u64 (bytes_acked * 1000000000 div rtt_nanos)) else None, s)))"

definition note_rate :: "nat option \<Rightarrow> nat \<Rightarrow> nat \<Rightarrow> bbr \<Rightarrow> bbr" where
  "note_rate rate bytes_acked now c =
     (case rate of
        Some rate \<Rightarrow>
          if MIN_BYTES_FOR_BW_SAMPLE \<le> bytes_acked \<and> \<not> app_limited (sampler c)
          then c\<lparr>bw_filter := filter_update rate now (bw_filter c)\<rparr> else c
      | None \<Rightarrow> c)"

definition bbr_on_ack_with_token :: "duration \<Rightarrow> nat \<Rightarrow> delivery_rate_token option \<Rightarrow> ack_clock \<Rightarrow> bbr \<Rightarrow> bbr" where
  "bbr_on_ack_with_token rtt_sample bytes_acked token clock c =
     (let now = now_nanos (at_ack clock) c;
          c = c\<lparr>bbr_flight := bbr_flight c - min bytes_acked (bbr_flight c)\<rparr>;
          c = c\<lparr>rtts := snd (rtt_update rtt_sample now (rtts c))\<rparr>;
          (rate, s) = ack_delivery_rate rtt_sample bytes_acked token now (sampler c);
          c = note_rate rate bytes_acked now (c\<lparr>sampler := s\<rparr>);
          c = update_state now (at_state clock) c
      in update_model (at_bdp clock) (at_rate clock) c)"

definition bbr_on_ack :: "duration \<Rightarrow> nat \<Rightarrow> ack_clock \<Rightarrow> bbr \<Rightarrow> bbr" where
  "bbr_on_ack rtt_sample bytes_acked clock c = bbr_on_ack_with_token rtt_sample bytes_acked None clock c"

definition bbr_on_ack_without_rtt :: "nat \<Rightarrow> ack_clock \<Rightarrow> bbr \<Rightarrow> bbr" where
  "bbr_on_ack_without_rtt bytes_acked clock c =
     bbr_on_ack (case min_rtt (rtts c) of Some r \<Rightarrow> r | None \<Rightarrow> millis 100) bytes_acked clock c"

definition start_loss_round :: "bbr \<Rightarrow> bbr" where
  "start_loss_round c =
     (if last_round_for_loss c < round_count (sampler c)
      then c\<lparr>round_start_delivered := delivered (sampler c), round_start_lost := lost (sampler c),
             last_round_for_loss := round_count (sampler c)\<rparr>
      else c)"

definition startup_loss :: "bbr \<Rightarrow> bbr" where
  "startup_loss c =
     (let c = start_loss_round c;
          round_delivered = delivered (sampler c) - round_start_delivered c;
          round_lost = lost (sampler c) - round_start_lost c
      in if (0 < round_delivered \<or> 0 < round_lost)
            \<and> STARTUP_LOSS_THRESHOLD < f64_div (f64_of_nat round_lost) (f64_of_nat (wrap_add round_delivered round_lost))
         then c\<lparr>state := Drain\<rparr> else c)"

definition bbr_on_loss :: "nat \<Rightarrow> nat \<Rightarrow> bbr \<Rightarrow> bbr" where
  "bbr_on_loss bytes_lost reading c =
     (let c = c\<lparr>sampler := sampler_on_loss bytes_lost (sampler c)\<rparr>;
          c = (if state c = Startup then startup_loss c else c);
          c = c\<lparr>inflight_hi := min (inflight_hi c) (bbr_flight c)\<rparr>
      in c\<lparr>bw_hi := min (bw_hi c) (scaled (max_bw (now_nanos reading c) (bw_filter c)) BETA)\<rparr>)"

definition bbr_on_timeout :: "bbr \<Rightarrow> bbr" where
  "bbr_on_timeout c =
     c\<lparr>timeouts := wrap_add (timeouts c) 1, state := Startup, full_bw_count := 0, full_bw := 0,
       bbr_cwnd := max (max_bdp_seen c div 4) (initial_cwnd (config c)), inflight_hi := u64_max, inflight_lo := 0,
       bw_hi := u64_max, bw_lo := 0\<rparr>"

datatype bbr_event =
    Bbr_Send nat nat
  | Bbr_App_Limited bool
  | Bbr_Ack duration nat "delivery_rate_token option" ack_clock
  | Bbr_Ack_Without_Rtt nat ack_clock
  | Bbr_Loss nat nat
  | Bbr_Timeout

fun bbr_step :: "bbr \<Rightarrow> bbr_event \<Rightarrow> bbr" where
  "bbr_step c (Bbr_Send bytes reading) = snd (bbr_on_send bytes reading c)"
| "bbr_step c (Bbr_App_Limited b) = bbr_set_app_limited b c"
| "bbr_step c (Bbr_Ack rtt bytes token clock) = bbr_on_ack_with_token rtt bytes token clock c"
| "bbr_step c (Bbr_Ack_Without_Rtt bytes clock) = bbr_on_ack_without_rtt bytes clock c"
| "bbr_step c (Bbr_Loss bytes reading) = bbr_on_loss bytes reading c"
| "bbr_step c Bbr_Timeout = bbr_on_timeout c"

section \<open>What the state machine leaves alone\<close>

lemmas bbr_moves = update_startup_def update_drain_def update_probe_bw_def update_probe_rtt_def start_probe_bw_def
  enter_probe_rtt_def exit_probe_rtt_def advance_probe_bw_phase_def

definition same_window :: "bbr \<Rightarrow> bbr \<Rightarrow> bool" where
  "same_window c c' \<longleftrightarrow> config c' = config c \<and> bbr_flight c' = bbr_flight c \<and> inflight_hi c' = inflight_hi c"

lemma same_window_refl [simp]: "same_window c c"
  by (simp add: same_window_def)

lemma startup_same [simp]: "same_window c (update_startup now c)"
  by (simp add: same_window_def update_startup_def Let_def)

lemma drain_same [simp]: "same_window c (update_drain r c)"
  by (simp add: same_window_def update_drain_def start_probe_bw_def)

lemma probe_bw_same [simp]: "same_window c (update_probe_bw now c)"
  by (cases "phase c") (simp_all add: same_window_def update_probe_bw_def enter_probe_rtt_def advance_probe_bw_phase_def Let_def)

lemma probe_rtt_same [simp]: "same_window c (update_probe_rtt now r c)"
  by (simp add: same_window_def update_probe_rtt_def exit_probe_rtt_def start_probe_bw_def Let_def)

lemma state_same: "same_window c (update_state now r c)"
  by (cases "state c") (simp_all add: update_state_def)

lemma note_rate_same: "same_window c (note_rate rate bytes now c)"
  by (simp add: same_window_def note_rate_def split: option.split)

text \<open>An acknowledgement: the controller that the model update sees, and the update itself.\<close>

definition before_model :: "duration \<Rightarrow> nat \<Rightarrow> delivery_rate_token option \<Rightarrow> ack_clock \<Rightarrow> bbr \<Rightarrow> bbr" where
  "before_model rtt_sample bytes_acked token clock c =
     (let now = now_nanos (at_ack clock) c; (rate, s) = ack_delivery_rate rtt_sample bytes_acked token now (sampler c)
      in note_rate rate bytes_acked now
           (c\<lparr>bbr_flight := bbr_flight c - bytes_acked, rtts := snd (rtt_update rtt_sample now (rtts c)), sampler := s\<rparr>))"

lemma ack_split:
  "bbr_on_ack_with_token rtt bytes token clock c =
     update_model (at_bdp clock) (at_rate clock)
       (update_state (now_nanos (at_ack clock) c) (at_state clock) (before_model rtt bytes token clock c))"
proof -
  have "bbr_flight c - min bytes (bbr_flight c) = bbr_flight c - bytes" by simp
  then show ?thesis by (simp add: bbr_on_ack_with_token_def before_model_def Let_def split_beta)
qed

lemma before_model_fields:
  "config (before_model rtt bytes token clock c) = config c"
  "bbr_flight (before_model rtt bytes token clock c) = bbr_flight c - bytes"
  "inflight_hi (before_model rtt bytes token clock c) = inflight_hi c"
  "state (before_model rtt bytes token clock c) = state c"
  "rtts (before_model rtt bytes token clock c) = snd (rtt_update rtt (now_nanos (at_ack clock) c) (rtts c))"
  by (simp_all add: before_model_def note_rate_def Let_def split_beta split: option.split)

lemma model_fields:
  "config (update_model r1 r2 c) = config c" "bbr_flight (update_model r1 r2 c) = bbr_flight c"
  "inflight_hi (update_model r1 r2 c) = inflight_hi c" "state (update_model r1 r2 c) = state c" "rtts (update_model r1 r2 c) = rtts c"
  by (simp_all add: update_model_def Let_def)

lemma ack_fields:
  "config (bbr_on_ack_with_token rtt bytes token clock c) = config c"
  "bbr_flight (bbr_on_ack_with_token rtt bytes token clock c) = bbr_flight c - bytes"
  "inflight_hi (bbr_on_ack_with_token rtt bytes token clock c) = inflight_hi c"
  using state_same [of "before_model rtt bytes token clock c"]
  by (simp_all add: ack_split model_fields same_window_def before_model_fields)

lemma timeout_fields: "config (bbr_on_timeout c) = config c" "bbr_flight (bbr_on_timeout c) = bbr_flight c"
  by (simp_all add: bbr_on_timeout_def)

lemma start_loss_round_fields [simp]:
  "config (start_loss_round c) = config c" "bbr_flight (start_loss_round c) = bbr_flight c"
  "inflight_hi (start_loss_round c) = inflight_hi c" "rtts (start_loss_round c) = rtts c" "state (start_loss_round c) = state c"
  "bw_filter (start_loss_round c) = bw_filter c" "epoch_nanos (start_loss_round c) = epoch_nanos c"
  "probe_rtt_rounds (start_loss_round c) = probe_rtt_rounds c"
  by (simp_all add: start_loss_round_def)

lemma startup_loss_fields [simp]:
  "config (startup_loss c) = config c" "bbr_flight (startup_loss c) = bbr_flight c"
  "inflight_hi (startup_loss c) = inflight_hi c" "rtts (startup_loss c) = rtts c"
  "bw_filter (startup_loss c) = bw_filter c" "epoch_nanos (startup_loss c) = epoch_nanos c"
  "probe_rtt_rounds (startup_loss c) = probe_rtt_rounds c" "state c \<noteq> ProbeRTT \<Longrightarrow> state (startup_loss c) \<noteq> ProbeRTT"
  by (simp_all add: startup_loss_def Let_def)

lemma loss_fields:
  "config (bbr_on_loss bytes r c) = config c" "bbr_flight (bbr_on_loss bytes r c) = bbr_flight c"
  "inflight_hi (bbr_on_loss bytes r c) = min (inflight_hi c) (bbr_flight c)"
  by (simp_all add: bbr_on_loss_def Let_def)

lemma send_fields:
  "config (snd (bbr_on_send bytes r c)) = config c" "bbr_flight (snd (bbr_on_send bytes r c)) = wrap_add (bbr_flight c) bytes"
  "inflight_hi (snd (bbr_on_send bytes r c)) = inflight_hi c" "state (snd (bbr_on_send bytes r c)) = state c"
  "rtts (snd (bbr_on_send bytes r c)) = rtts c"
  by (simp_all add: bbr_on_send_def Let_def split_beta)

section \<open>The bytes in flight\<close>

fun bbr_sent :: "bbr_event \<Rightarrow> nat" where
  "bbr_sent (Bbr_Send bytes _) = bytes"
| "bbr_sent _ = 0"

fun bbr_acked :: "bbr_event \<Rightarrow> nat" where
  "bbr_acked (Bbr_Ack _ bytes _ _) = bytes"
| "bbr_acked (Bbr_Ack_Without_Rtt bytes _) = bytes"
| "bbr_acked _ = 0"

interpretation bb: flight_accounting bbr_step bbr_flight bbr_sent bbr_acked
proof
  show "bbr_flight (bbr_step c e) = wrap_add (bbr_flight c) (bbr_sent e) - bbr_acked e" if "bbr_flight c \<le> u64_max" for c e
    using that
    by (cases e) (simp_all add: send_fields ack_fields loss_fields timeout_fields bbr_set_app_limited_def bbr_on_ack_without_rtt_def bbr_on_ack_def)
qed

section \<open>One acknowledgement\<close>

definition documented_moves :: "(bbr_state \<times> bbr_state) set" where
  "documented_moves = Id \<union> {(Startup, Drain), (Drain, ProbeBW), (ProbeBW, ProbeRTT), (ProbeRTT, ProbeBW)}"

lemma update_state_moves: "(state c, state (update_state now r c)) \<in> documented_moves"
  by (cases "state c"; cases "phase c") (simp_all add: documented_moves_def update_state_def bbr_moves Let_def)

lemma model_window:
  "bbr_cwnd (update_model r1 r2 c) \<le> max_cwnd (config c)"
  "min (min_cwnd (config c)) (max_cwnd (config c)) \<le> bbr_cwnd (update_model r1 r2 c)"
  "bbr_cwnd (update_model r1 r2 c) \<le> max (inflight_hi c) (min_cwnd (config c)) \<or> u64_max \<le> inflight_hi c"
  "(if state c = Startup then max 1 (startup_min_pacing_rate (config c)) else 1) \<le> pacing_rate (update_model r1 r2 c)"
  by (auto simp: update_model_def Let_def)

text \<open>
  C14: whatever the state, an acknowledgement leaves the window between the configured bounds, the pacing
  rate at least 1 and in Startup at least the configured rate, the bytes in flight reduced by those
  acknowledged, and the state on one of the documented transitions.
\<close>

theorem bbr_ack_sound:
  fixes c :: bbr and rtt :: duration and bytes :: nat and token :: "delivery_rate_token option" and clock :: ack_clock
  defines "c' \<equiv> bbr_on_ack_with_token rtt bytes token clock c"
  shows "min (min_cwnd (config c)) (max_cwnd (config c)) \<le> bbr_cwnd c' \<and> bbr_cwnd c' \<le> max_cwnd (config c)
    \<and> (if state c' = Startup then max 1 (startup_min_pacing_rate (config c)) else 1) \<le> pacing_rate c'
    \<and> bbr_flight c' = bbr_flight c - bytes \<and> (state c, state c') \<in> documented_moves"
proof -
  let ?b = "before_model rtt bytes token clock c" and ?now = "now_nanos (at_ack clock) c"
  let ?u = "update_state ?now (at_state clock) ?b"
  have c': "c' = update_model (at_bdp clock) (at_rate clock) ?u" by (simp add: c'_def ack_split)
  have cfg: "config ?u = config c" using state_same [of ?b] by (simp add: same_window_def before_model_fields)
  note w = model_window [where ?r1.0 = "at_bdp clock" and ?r2.0 = "at_rate clock" and c = ?u, unfolded cfg, folded c']
  have "state c' = state ?u" by (simp add: c' model_fields)
  moreover have "(state c, state ?u) \<in> documented_moves" using update_state_moves [of ?b] by (simp add: before_model_fields)
  moreover have "bbr_flight c' = bbr_flight c - bytes" by (simp add: c'_def ack_fields)
  ultimately show ?thesis using w(1,2,4) by simp
qed

section \<open>ProbeRTT is never entered\<close>

text \<open>
  Each acknowledgement first updates the least round-trip time, which replaces an expired one, and only
  then asks whether it is expired; the scheduled time is set only on leaving ProbeRTT.
\<close>

definition never_probed :: "bbr \<Rightarrow> bool" where
  "never_probed c \<longleftrightarrow> state c \<noteq> ProbeRTT \<and> next_probe_rtt_nanos (rtts c) = 0 \<and> probe_rtt_rounds c = 0"

lemma update_state_never_probed:
  assumes "never_probed c" "\<not> is_expired now (rtts c)"
  shows "never_probed (update_state now r c)"
proof (cases "state c")
  case ProbeBW
  have "\<not> should_enter_probe_rtt now (rtts c)" using assms by (simp add: should_enter_probe_rtt_def never_probed_def)
  then show ?thesis using assms(1) ProbeBW
    by (cases "phase c") (simp_all add: never_probed_def update_state_def update_probe_bw_def advance_probe_bw_phase_def Let_def)
qed (use assms(1) in \<open>simp_all add: never_probed_def update_state_def update_startup_def update_drain_def start_probe_bw_def Let_def\<close>)

lemma ack_never_probed: "never_probed c \<Longrightarrow> never_probed (bbr_on_ack_with_token rtt bytes token clock c)"
proof -
  let ?b = "before_model rtt bytes token clock c" and ?now = "now_nanos (at_ack clock) c"
  assume "never_probed c"
  then have "never_probed ?b"
    by (simp add: never_probed_def before_model_fields) (simp add: before_model_def note_rate_def Let_def split_beta split: option.split)
  then have "never_probed (update_state ?now (at_state clock) ?b)"
    by (rule update_state_never_probed) (simp add: before_model_fields fresh_after_update)
  then show ?thesis by (simp add: ack_split never_probed_def model_fields) (simp add: update_model_def Let_def)
qed

lemma step_never_probed: "never_probed c \<Longrightarrow> never_probed (bbr_step c e)"
proof (cases e)
  case (Bbr_Send bytes r)
  assume "never_probed c"
  moreover have "probe_rtt_rounds (snd (bbr_on_send bytes r c)) = probe_rtt_rounds c" by (simp add: bbr_on_send_def Let_def split_beta)
  ultimately show ?thesis by (simp add: Bbr_Send never_probed_def send_fields)
qed (simp_all add: ack_never_probed bbr_on_ack_without_rtt_def bbr_on_ack_def,
     simp_all add: never_probed_def bbr_set_app_limited_def bbr_on_loss_def bbr_on_timeout_def Let_def)

interpretation bp: started_machine bbr_step never_probed "new_bbr conf reading" for conf reading
proof
  show "never_probed (bbr_step c e)" if "never_probed c" for c e using that by (rule step_never_probed)
  show "never_probed (new_bbr conf reading)"
    by (simp add: never_probed_def new_bbr_def new_rtt_tracker_def rtt_with_params_def)
qed

text \<open>
  C23: with every configuration and after every sequence of events, tokens and readings of the clock
  included, the controller is not in ProbeRTT and never was.
\<close>

theorem probe_rtt_unreachable:
  "state (foldl bbr_step (new_bbr conf reading) es) \<noteq> ProbeRTT \<and> probe_rtt_rounds (foldl bbr_step (new_bbr conf reading) es) = 0"
  using bp.reachable_inv [of conf reading es] by (simp add: never_probed_def)

section \<open>A loss caps the window until a timeout\<close>

definition capped :: "nat \<Rightarrow> bbr \<Rightarrow> bool" where
  "capped f c \<longleftrightarrow> inflight_hi c \<le> f"

lemma step_capped: "capped f c \<Longrightarrow> e \<noteq> Bbr_Timeout \<Longrightarrow> capped f (bbr_step c e) \<and> config (bbr_step c e) = config c"
  by (cases e) (simp_all add: capped_def ack_fields send_fields loss_fields bbr_on_ack_without_rtt_def bbr_on_ack_def bbr_set_app_limited_def)

lemma run_capped:
  "capped f c \<Longrightarrow> Bbr_Timeout \<notin> set es \<Longrightarrow> capped f (foldl bbr_step c es) \<and> config (foldl bbr_step c es) = config c"
proof (induction es rule: rev_induct)
  case (snoc e es)
  then have "e \<noteq> Bbr_Timeout" by auto
  then show ?case using snoc step_capped [of f "foldl bbr_step c es" e] by simp
qed simp

text \<open>
  after a loss, however the bandwidth grows, every acknowledgement sets a window of at most the bytes
  that were in flight at the loss, or the least window, until a timeout.
\<close>

theorem loss_caps_window:
  assumes "bbr_flight c < u64_max" "Bbr_Timeout \<notin> set es"
  shows "bbr_cwnd (bbr_on_ack_with_token rtt bytes token clock (foldl bbr_step (bbr_on_loss lost_bytes reading c) es))
    \<le> max (bbr_flight c) (min_cwnd (config c))"
proof -
  let ?c = "foldl bbr_step (bbr_on_loss lost_bytes reading c) es"
  let ?b = "before_model rtt bytes token clock ?c"
  let ?u = "update_state (now_nanos (at_ack clock) ?c) (at_state clock) ?b"
  have "capped (bbr_flight c) (bbr_on_loss lost_bytes reading c)" by (simp add: capped_def loss_fields)
  from run_capped [OF this assms(2)] have "inflight_hi ?c \<le> bbr_flight c" "config ?c = config c" by (simp_all add: capped_def loss_fields)
  then have "inflight_hi ?u \<le> bbr_flight c" "config ?u = config c"
    using state_same [of ?b] by (simp_all add: same_window_def before_model_fields)
  then show ?thesis using model_window(3) [of "at_bdp clock" "at_rate clock" ?u] assms(1) unfolding ack_split by (auto simp: max_def split: if_splits)
qed

theorem loss_caps_window_witness:
  "bbr_cwnd (bbr_on_ack_with_token 5 7000 None \<lparr>at_ack = 9, at_state = 9, at_bdp = 9, at_rate = 9\<rparr>
     (foldl bbr_step (bbr_on_loss 1424 2 (new_bbr default_bbr_config 0)) [Bbr_Send 7000 3])) \<le> max 0 (min_cwnd default_bbr_config)"
proof -
  have z: "bbr_flight (new_bbr default_bbr_config 0) = 0" "config (new_bbr default_bbr_config 0) = default_bbr_config"
    by (simp_all add: new_bbr_def)
  have "bbr_flight (new_bbr default_bbr_config 0) < u64_max" by (simp add: z u64_max_def)
  moreover have "Bbr_Timeout \<notin> set [Bbr_Send 7000 3]" by simp
  ultimately have ok: "bbr_flight (new_bbr default_bbr_config 0) < u64_max" "Bbr_Timeout \<notin> set [Bbr_Send 7000 3]" by simp_all
  from loss_caps_window [OF ok, where rtt = 5 and bytes = 7000 and token = None and lost_bytes = 1424 and reading = 2
      and clock = "\<lparr>at_ack = 9, at_state = 9, at_bdp = 9, at_rate = 9\<rparr>"]
  show ?thesis by (simp only: z)
qed

section \<open>Where the controller stalls\<close>

text \<open>
  A loss before the first bandwidth sample sets the bound on the bandwidth to 0: outside Startup the
  pacing rate of every later acknowledgement is 1 byte per second, until a timeout.
\<close>

lemma loss_without_samples:
  assumes "max_bw (now_nanos reading c) (bw_filter c) = 0"
  shows "bw_hi (bbr_on_loss bytes reading c) = 0"
  using assms by (simp add: bbr_on_loss_def Let_def now_nanos_def)

lemma no_bandwidth_no_pacing:
  assumes "bw_hi c = 0" "state c \<noteq> Startup"
  shows "pacing_rate (update_model r1 r2 c) = 1"
  using assms by (simp add: update_model_def Let_def)

text \<open>Bandwidth that stops growing is counted by acknowledgements, not by round trips.\<close>

lemma plateau_counts_acks:
  assumes "state c = Startup" "full_bw_count c < 2" "max_bw now (bw_filter c) < scaled (full_bw c) STARTUP_FULL_BW_THRESHOLD"
  shows "full_bw_count (update_state now r c) = full_bw_count c + 1 \<and> state (update_state now r c) = Startup"
  using assms by (simp add: update_state_def update_startup_def Let_def STARTUP_FULL_BW_ROUNDS_def u32_max_def)

lemma plateau_exits:
  assumes "state c = Startup" "full_bw_count c = 2" "max_bw now (bw_filter c) < scaled (full_bw c) STARTUP_FULL_BW_THRESHOLD"
  shows "state (update_state now r c) = Drain"
  using assms by (simp add: update_state_def update_startup_def Let_def STARTUP_FULL_BW_ROUNDS_def u32_max_def)

text \<open>The window after a timeout is not held below the configured maximum.\<close>

lemma timeout_exceeds_maximum:
  "max_cwnd (config c) < max_bdp_seen c div 4 \<Longrightarrow> max_cwnd (config (bbr_on_timeout c)) < bbr_cwnd (bbr_on_timeout c)"
  by (simp add: bbr_on_timeout_def)

end
