(* ===== verification/Ledbat.thy ===== *)
theory Ledbat
  imports Packet_Data Congestion_Interface
begin

text \<open>
  The LEDBAT++ congestion controller: \<open>LedbatController\<close> of \<open>transport/ledbat/controller.rs\<close>, its states
  (\<open>transport/ledbat/state.rs\<close>), the delay filter and the history of the base delay (\<open>transport/ledbat/atomic.rs\<close>)
  and the constants (\<open>transport/ledbat/config.rs\<close>).  The calls are a sequence, as the module asks of its users,
  so every compare-exchange succeeds; each reading of the time source is an argument and not before the
  epoch; products of durations and sums of windows stay far below 64 bits.

  Shown: the delay filter is the least of the last four samples; the window stays between its bounds for
  every sequence of events; after a timeout no periodic slowdown is ever started again.
\<close>

section \<open>Constants, configuration, states\<close>

definition LEDBAT_MSS :: nat where
  "LEDBAT_MSS = MAX_DATA_SIZE"

definition TARGET :: duration where
  "TARGET = millis 60"

definition MAX_GAIN_DIVISOR :: nat where
  "MAX_GAIN_DIVISOR = 16"

definition BASE_HISTORY_SIZE :: nat where
  "BASE_HISTORY_SIZE = 10"

definition DELAY_FILTER_SIZE :: nat where
  "DELAY_FILTER_SIZE = 4"

definition DEFAULT_SSTHRESH :: nat where
  "DEFAULT_SSTHRESH = 1048576"

definition SLOWDOWN_INTERVAL_MULTIPLIER :: nat where
  "SLOWDOWN_INTERVAL_MULTIPLIER = 9"

definition SLOWDOWN_DELAY_RTTS :: nat where
  "SLOWDOWN_DELAY_RTTS = 2"

definition SLOWDOWN_FREEZE_RTTS :: nat where
  "SLOWDOWN_FREEZE_RTTS = 2"

definition SLOWDOWN_REDUCTION_FACTOR :: nat where
  "SLOWDOWN_REDUCTION_FACTOR = 4"

definition PATH_CHANGE_RTT_THRESHOLD :: rat where
  "PATH_CHANGE_RTT_THRESHOLD = 3 / 2"

definition RTT_SCALING_BYTES_PER_MS :: nat where
  "RTT_SCALING_BYTES_PER_MS = 1024"

definition EMPTY_DELAY_NANOS :: nat where
  "EMPTY_DELAY_NANOS = u64_max"

record ledbat_config =
  conf_initial_cwnd :: nat
  conf_min_cwnd :: nat
  conf_max_cwnd :: nat
  conf_ssthresh :: nat
  enable_slow_start :: bool
  conf_delay_exit_threshold :: rat
  randomize_ssthresh :: bool
  conf_enable_periodic_slowdown :: bool
  conf_min_ssthresh :: "nat option"

definition default_ledbat_config :: ledbat_config where
  "default_ledbat_config =
     \<lparr>conf_initial_cwnd = 38000, conf_min_cwnd = 2848, conf_max_cwnd = 1000000000, conf_ssthresh = DEFAULT_SSTHRESH,
      enable_slow_start = True, conf_delay_exit_threshold = 3 / 4, randomize_ssthresh = True,
      conf_enable_periodic_slowdown = True, conf_min_ssthresh = None\<rparr>"

datatype congestion_state = SlowStart | CongestionAvoidance | WaitingForSlowdown | InSlowdown | Frozen | RampingUp

fun congestion_state_u8 :: "congestion_state \<Rightarrow> nat" where
  "congestion_state_u8 SlowStart = 0"
| "congestion_state_u8 CongestionAvoidance = 1"
| "congestion_state_u8 WaitingForSlowdown = 2"
| "congestion_state_u8 InSlowdown = 3"
| "congestion_state_u8 Frozen = 4"
| "congestion_state_u8 RampingUp = 5"

definition congestion_state_from_u8 :: "nat \<Rightarrow> congestion_state option" where
  "congestion_state_from_u8 v =
     (if v = 0 then Some SlowStart else if v = 1 then Some CongestionAvoidance else if v = 2 then Some WaitingForSlowdown
      else if v = 3 then Some InSlowdown else if v = 4 then Some Frozen else if v = 5 then Some RampingUp else None)"

definition load_congestion_state :: "nat \<Rightarrow> congestion_state" where
  "load_congestion_state v = (case congestion_state_from_u8 v of Some s \<Rightarrow> s | None \<Rightarrow> CongestionAvoidance)"

lemma load_stored_congestion_state: "load_congestion_state (congestion_state_u8 s) = s"
  by (cases s) (simp_all add: load_congestion_state_def congestion_state_from_u8_def)

section \<open>Delays\<close>

record delay_filter =
  delay_samples :: "nat list"
  write_index :: nat
  sample_count :: nat

definition new_delay_filter :: delay_filter where
  "new_delay_filter = \<lparr>delay_samples = replicate DELAY_FILTER_SIZE EMPTY_DELAY_NANOS, write_index = 0, sample_count = 0\<rparr>"

definition add_sample :: "duration \<Rightarrow> delay_filter \<Rightarrow> delay_filter" where
  "add_sample rtt f =
     f\<lparr>write_index := wrap_add (write_index f) 1,
       delay_samples := (delay_samples f)[write_index f mod DELAY_FILTER_SIZE := as_u64 rtt],
       sample_count := (if sample_count f < DELAY_FILTER_SIZE then sample_count f + 1 else sample_count f)\<rparr>"

definition least_delay :: "nat list \<Rightarrow> nat" where
  "least_delay slots = foldl (\<lambda>m nanos. if nanos \<noteq> EMPTY_DELAY_NANOS \<and> nanos < m then nanos else m) u64_max slots"

definition filtered_delay :: "delay_filter \<Rightarrow> duration option" where
  "filtered_delay f = (if least_delay (delay_samples f) = u64_max then None else Some (least_delay (delay_samples f)))"

definition filter_is_ready :: "delay_filter \<Rightarrow> bool" where
  "filter_is_ready f \<longleftrightarrow> 2 \<le> sample_count f"

record base_delay_history =
  buckets :: "nat list"
  bucket_count :: nat
  bucket_write_index :: nat
  current_minute_min :: nat
  current_minute_start_nanos :: nat
  history_epoch_nanos :: nat

definition new_base_delay_history :: "nat \<Rightarrow> base_delay_history" where
  "new_base_delay_history reading =
     \<lparr>buckets = replicate BASE_HISTORY_SIZE EMPTY_DELAY_NANOS, bucket_count = 0, bucket_write_index = 0,
      current_minute_min = EMPTY_DELAY_NANOS, current_minute_start_nanos = 0, history_epoch_nanos = reading\<rparr>"

definition update_current_min :: "nat \<Rightarrow> base_delay_history \<Rightarrow> base_delay_history" where
  "update_current_min rtt_nanos h = (if rtt_nanos < current_minute_min h then h\<lparr>current_minute_min := rtt_nanos\<rparr> else h)"

definition roll_over :: "nat \<Rightarrow> base_delay_history \<Rightarrow> base_delay_history" where
  "roll_over now h =
     (let old_min = current_minute_min h;
          h = h\<lparr>current_minute_start_nanos := now, current_minute_min := EMPTY_DELAY_NANOS\<rparr>
      in if old_min \<noteq> EMPTY_DELAY_NANOS
         then h\<lparr>bucket_write_index := wrap_add (bucket_write_index h) 1,
                buckets := (buckets h)[bucket_write_index h mod BASE_HISTORY_SIZE := old_min],
                bucket_count := (if bucket_count h < BASE_HISTORY_SIZE then bucket_count h + 1 else bucket_count h)\<rparr>
         else h)"

definition update_history :: "duration \<Rightarrow> nat \<Rightarrow> base_delay_history \<Rightarrow> base_delay_history" where
  "update_history rtt_sample reading h =
     (let now = reading - history_epoch_nanos h
      in if 60000000000 \<le> now - current_minute_start_nanos h then update_current_min (as_u64 rtt_sample) (roll_over now h)
         else update_current_min (as_u64 rtt_sample) h)"

definition history_base_delay :: "base_delay_history \<Rightarrow> duration" where
  "history_base_delay h =
     (let historical_min = least_delay (buckets h); current_min = current_minute_min h
      in if historical_min \<noteq> u64_max \<and> current_min \<noteq> EMPTY_DELAY_NANOS then min historical_min current_min
         else if historical_min \<noteq> u64_max then historical_min
         else if current_min \<noteq> EMPTY_DELAY_NANOS then current_min
         else 10000000)"

section \<open>The controller\<close>

record ledbat =
  led_cwnd :: nat
  led_flight :: nat
  delays :: delay_filter
  history :: base_delay_history
  queuing_delay_nanos :: nat
  last_update_nanos :: nat
  led_epoch_nanos :: nat
  bytes_acked_since_update :: nat
  ssthresh :: nat
  led_state :: congestion_state
  slowdown_phase_start_nanos :: nat
  slowdown_rtt_count :: nat
  last_slowdown_duration_nanos :: nat
  next_slowdown_time_nanos :: nat
  pre_slowdown_cwnd :: nat
  initial_slow_start_completed :: bool
  target_delay :: duration
  allowed_increase_packets :: nat
  led_min_cwnd :: nat
  led_max_cwnd :: nat
  delay_exit_threshold :: rat
  enable_periodic_slowdown :: bool
  min_ssthresh :: "nat option"
  initial_ssthresh :: nat
  slow_start_exit_cwnd :: nat
  slow_start_exit_base_delay_nanos :: nat
  total_increases :: nat
  total_decreases :: nat
  total_losses :: nat
  min_cwnd_events :: nat
  slow_start_exits :: nat
  periodic_slowdowns :: nat
  led_peak_cwnd :: nat
  total_timeouts :: nat

definition jittered_ssthresh :: "ledbat_config \<Rightarrow> nat \<Rightarrow> nat" where
  "jittered_ssthresh conf random_byte =
     (if randomize_ssthresh conf
      then scaled (conf_ssthresh conf) (f64_add (f64_round (8 / 10)) (f64_div (f64_of_nat random_byte) 100))
      else conf_ssthresh conf)"

text \<open>The constructor panics on a configuration that is out of order; \<open>r2\<close> is the reading of the history.\<close>

definition new_ledbat :: "ledbat_config \<Rightarrow> nat \<Rightarrow> nat \<Rightarrow> nat \<Rightarrow> ledbat option" where
  "new_ledbat conf random_byte r1 r2 =
     (if conf_min_cwnd conf \<le> conf_initial_cwnd conf \<and> conf_initial_cwnd conf \<le> conf_max_cwnd conf
         \<and> 0 \<le> conf_delay_exit_threshold conf \<and> conf_delay_exit_threshold conf \<le> 1
      then Some
        \<lparr>led_cwnd = conf_initial_cwnd conf, led_flight = 0, delays = new_delay_filter, history = new_base_delay_history r2,
         queuing_delay_nanos = 0, last_update_nanos = 0, led_epoch_nanos = r1, bytes_acked_since_update = 0,
         ssthresh = jittered_ssthresh conf random_byte,
         led_state = (if enable_slow_start conf then SlowStart else CongestionAvoidance),
         slowdown_phase_start_nanos = 0, slowdown_rtt_count = 0, last_slowdown_duration_nanos = 0,
         next_slowdown_time_nanos = u64_max, pre_slowdown_cwnd = 0, initial_slow_start_completed = False,
         target_delay = TARGET, allowed_increase_packets = 2, led_min_cwnd = conf_min_cwnd conf, led_max_cwnd = conf_max_cwnd conf,
         delay_exit_threshold = conf_delay_exit_threshold conf, enable_periodic_slowdown = conf_enable_periodic_slowdown conf,
         min_ssthresh = conf_min_ssthresh conf, initial_ssthresh = jittered_ssthresh conf random_byte,
         slow_start_exit_cwnd = 0, slow_start_exit_base_delay_nanos = 0, total_increases = 0, total_decreases = 0,
         total_losses = 0, min_cwnd_events = 0, slow_start_exits = 0, periodic_slowdowns = 0,
         led_peak_cwnd = conf_initial_cwnd conf, total_timeouts = 0\<rparr>
      else None)"

definition store_cwnd :: "nat \<Rightarrow> ledbat \<Rightarrow> ledbat" where
  "store_cwnd new_cwnd c =
     c\<lparr>led_cwnd := new_cwnd, led_peak_cwnd := (if led_peak_cwnd c < new_cwnd then new_cwnd else led_peak_cwnd c)\<rparr>"

definition as_millis :: "duration \<Rightarrow> nat" where
  "as_millis d = d div 1000000"

definition calculate_dynamic_gain :: "duration \<Rightarrow> ledbat \<Rightarrow> rat" where
  "calculate_dynamic_gain base_delay c =
     (let base_ms = f64_of_nat (as_millis base_delay); target_ms = f64_of_nat (as_millis (target_delay c))
      in if base_ms \<le> 0 then f64_div 1 (f64_of_nat MAX_GAIN_DIVISOR)
         else
           (let divisor = min (nat \<lceil>f64_div (f64_mul 2 target_ms) base_ms\<rceil>) u32_max
            in f64_div 1 (f64_of_nat (min (max divisor 1) MAX_GAIN_DIVISOR))))"

definition has_path_changed :: "nat \<Rightarrow> ledbat \<Rightarrow> bool" where
  "has_path_changed exit_base_delay c =
     (let current = as_u64 (history_base_delay (history c))
      in if exit_base_delay = 0 \<or> current = 0 then False
         else PATH_CHANGE_RTT_THRESHOLD <
           (if exit_base_delay < current then f64_div (f64_of_nat current) (f64_of_nat exit_base_delay)
            else f64_div (f64_of_nat exit_base_delay) (f64_of_nat current)))"

definition calculate_adaptive_floor :: "ledbat \<Rightarrow> nat" where
  "calculate_adaptive_floor c =
     (let spec_floor = led_min_cwnd c * 2;
          slow_start_exit = slow_start_exit_cwnd c;
          path_changed = has_path_changed (slow_start_exit_base_delay_nanos c) c
      in case min_ssthresh c of
           Some explicit_min \<Rightarrow>
             (let base_delay_ms = as_millis (history_base_delay (history c));
                  adaptive =
                    (if 0 < slow_start_exit \<and> \<not> path_changed then min slow_start_exit explicit_min
                     else if 0 < base_delay_ms then min (base_delay_ms * RTT_SCALING_BYTES_PER_MS) explicit_min
                     else explicit_min)
              in max (max adaptive explicit_min) spec_floor)
         | None \<Rightarrow>
             if 0 < slow_start_exit \<and> \<not> path_changed then max (min slow_start_exit (initial_ssthresh c)) spec_floor
             else spec_floor)"

subsection \<open>Slow start and the periodic slowdown\<close>

definition delay_threshold :: "ledbat \<Rightarrow> duration" where
  "delay_threshold c = from_secs_f64 (f64_mul (as_secs_f64 (target_delay c)) (delay_exit_threshold c))"

definition leave_slow_start :: "duration \<Rightarrow> nat \<Rightarrow> ledbat \<Rightarrow> ledbat" where
  "leave_slow_start base_delay reading c =
     (let c = c\<lparr>slow_start_exits := wrap_add (slow_start_exits c) 1, slow_start_exit_cwnd := led_cwnd c,
                slow_start_exit_base_delay_nanos := as_u64 base_delay,
                led_cwnd := min (max (scaled (led_cwnd c) (f64_round (9 / 10))) (led_min_cwnd c)) (led_max_cwnd c)\<rparr>
      in if enable_periodic_slowdown c \<and> \<not> initial_slow_start_completed c
         then c\<lparr>initial_slow_start_completed := True,
                next_slowdown_time_nanos := (reading - led_epoch_nanos c) + as_u64 base_delay * SLOWDOWN_DELAY_RTTS,
                led_state := WaitingForSlowdown\<rparr>
         else c\<lparr>led_state := CongestionAvoidance\<rparr>)"

definition handle_slow_start :: "nat \<Rightarrow> duration \<Rightarrow> duration \<Rightarrow> nat \<Rightarrow> ledbat \<Rightarrow> ledbat" where
  "handle_slow_start bytes_acked queuing_delay base_delay reading c =
     (if led_state c \<noteq> SlowStart then c
      else if ssthresh c \<le> led_cwnd c \<or> delay_threshold c < queuing_delay then leave_slow_start base_delay reading c
      else store_cwnd (min (led_cwnd c + bytes_acked) (led_max_cwnd c)) c)"

definition start_slowdown :: "nat \<Rightarrow> duration \<Rightarrow> ledbat \<Rightarrow> bool \<times> ledbat" where
  "start_slowdown now base_delay c =
     (if led_cwnd c \<le> led_min_cwnd c * SLOWDOWN_REDUCTION_FACTOR
      then (False, c\<lparr>next_slowdown_time_nanos :=
                       now + as_u64 base_delay * SLOWDOWN_FREEZE_RTTS * SLOWDOWN_INTERVAL_MULTIPLIER * 2\<rparr>)
      else
        (True, c\<lparr>ssthresh := max (led_cwnd c) (calculate_adaptive_floor c), pre_slowdown_cwnd := led_cwnd c,
                 led_cwnd := max (led_cwnd c div SLOWDOWN_REDUCTION_FACTOR) (led_min_cwnd c), led_state := InSlowdown,
                 slowdown_phase_start_nanos := now, periodic_slowdowns := wrap_add (periodic_slowdowns c) 1\<rparr>))"

definition complete_slowdown :: "nat \<Rightarrow> duration \<Rightarrow> ledbat \<Rightarrow> ledbat" where
  "complete_slowdown now base_delay c =
     (let slowdown_duration = now - slowdown_phase_start_nanos c;
          next_interval = slowdown_duration * SLOWDOWN_INTERVAL_MULTIPLIER;
          min_interval = as_u64 base_delay * SLOWDOWN_FREEZE_RTTS * SLOWDOWN_INTERVAL_MULTIPLIER
      in c\<lparr>last_slowdown_duration_nanos := slowdown_duration,
           next_slowdown_time_nanos := now + max next_interval min_interval, led_state := CongestionAvoidance\<rparr>)"

definition handle_frozen :: "nat \<Rightarrow> duration \<Rightarrow> ledbat \<Rightarrow> ledbat" where
  "handle_frozen now base_delay c =
     (if as_u64 base_delay * SLOWDOWN_FREEZE_RTTS \<le> now - slowdown_phase_start_nanos c then c\<lparr>led_state := RampingUp\<rparr>
      else c\<lparr>led_cwnd := max (pre_slowdown_cwnd c div SLOWDOWN_REDUCTION_FACTOR) (led_min_cwnd c)\<rparr>)"

definition handle_ramping_up :: "nat \<Rightarrow> duration \<Rightarrow> duration \<Rightarrow> nat \<Rightarrow> ledbat \<Rightarrow> ledbat" where
  "handle_ramping_up bytes_acked queuing_delay base_delay now c =
     (let target_cwnd = pre_slowdown_cwnd c
      in if target_cwnd \<le> led_cwnd c then complete_slowdown now base_delay c
         else if target_cwnd * 17 \<le> led_cwnd c * 20 \<and> target_delay c < queuing_delay then complete_slowdown now base_delay c
         else store_cwnd (min (min (led_cwnd c + bytes_acked) target_cwnd) (led_max_cwnd c)) c)"

definition handle_congestion_state :: "nat \<Rightarrow> duration \<Rightarrow> duration \<Rightarrow> nat \<Rightarrow> ledbat \<Rightarrow> bool \<times> ledbat" where
  "handle_congestion_state bytes_acked queuing_delay base_delay reading c =
     (let now = reading - led_epoch_nanos c
      in case led_state c of
           CongestionAvoidance \<Rightarrow>
             if next_slowdown_time_nanos c \<le> now \<and> next_slowdown_time_nanos c \<noteq> u64_max then start_slowdown now base_delay c
             else (False, c)
         | WaitingForSlowdown \<Rightarrow>
             if next_slowdown_time_nanos c \<le> now
             then (let (started, c) = start_slowdown now base_delay c
                   in if started then (True, c) else (False, c\<lparr>led_state := CongestionAvoidance\<rparr>))
             else (True, c)
         | InSlowdown \<Rightarrow> (True, c\<lparr>led_state := Frozen, slowdown_rtt_count := 0, slowdown_phase_start_nanos := now\<rparr>)
         | Frozen \<Rightarrow> (True, handle_frozen now base_delay c)
         | RampingUp \<Rightarrow> (True, handle_ramping_up bytes_acked queuing_delay base_delay now c)
         | SlowStart \<Rightarrow> (False, c))"

subsection \<open>Congestion avoidance\<close>

definition off_target_ms :: "duration \<Rightarrow> ledbat \<Rightarrow> rat" where
  "off_target_ms queuing_delay c =
     (if queuing_delay < target_delay c then f64_of_nat (as_millis (target_delay c - queuing_delay))
      else - f64_of_nat (as_millis (queuing_delay - target_delay c)))"

definition window_change :: "nat \<Rightarrow> duration \<Rightarrow> duration \<Rightarrow> ledbat \<Rightarrow> rat" where
  "window_change bytes_acked queuing_delay base_delay c =
     (let cwnd_change =
            f64_div (f64_mul (f64_mul (f64_mul (calculate_dynamic_gain base_delay c)
                (f64_div (off_target_ms queuing_delay c) (f64_of_nat (as_millis (target_delay c)))))
                (f64_of_nat bytes_acked)) (f64_of_nat LEDBAT_MSS)) (f64_of_nat (led_cwnd c));
          max_decrease = - f64_div (f64_of_nat (led_cwnd c)) 2
      in if cwnd_change < max_decrease then max_decrease else cwnd_change)"

definition count_change :: "rat \<Rightarrow> ledbat \<Rightarrow> ledbat" where
  "count_change change c =
     (if 0 < change then c\<lparr>total_increases := wrap_add (total_increases c) 1\<rparr>
      else if change < 0 then c\<lparr>total_decreases := wrap_add (total_decreases c) 1\<rparr> else c)"

definition avoidance_window :: "rat \<Rightarrow> nat \<Rightarrow> ledbat \<Rightarrow> nat" where
  "avoidance_window change pre_ack_flightsize c =
     (let basic_cap = wrap_add pre_ack_flightsize (allowed_increase_packets c * LEDBAT_MSS);
          max_allowed_cwnd = (if 0 \<le> change then max basic_cap (ssthresh c) else basic_cap);
          new_cwnd = min (f64_add (f64_of_nat (led_cwnd c)) change) (f64_of_nat max_allowed_cwnd)
      in f64_to_u64 (min (max new_cwnd (f64_of_nat (led_min_cwnd c))) (f64_of_nat (led_max_cwnd c))))"

definition count_min_cwnd :: "nat \<Rightarrow> nat \<Rightarrow> ledbat \<Rightarrow> ledbat" where
  "count_min_cwnd new_cwnd current_cwnd c =
     (if new_cwnd = led_min_cwnd c \<and> led_min_cwnd c < current_cwnd
      then c\<lparr>min_cwnd_events := wrap_add (min_cwnd_events c) 1\<rparr> else c)"

definition congestion_avoidance :: "nat \<Rightarrow> duration \<Rightarrow> duration \<Rightarrow> nat \<Rightarrow> ledbat \<Rightarrow> ledbat" where
  "congestion_avoidance bytes_acked queuing_delay base_delay pre_ack_flightsize c =
     (let change = window_change bytes_acked queuing_delay base_delay c;
          new_cwnd = avoidance_window change pre_ack_flightsize c
      in store_cwnd new_cwnd (count_min_cwnd new_cwnd (led_cwnd c) (count_change change c)))"

subsection \<open>Events\<close>

definition ledbat_on_send :: "nat \<Rightarrow> ledbat \<Rightarrow> ledbat" where
  "ledbat_on_send bytes c = c\<lparr>led_flight := wrap_add (led_flight c) bytes\<rparr>"

record ledbat_clock =
  at_history :: nat
  at_update :: nat
  at_phase :: nat

definition note_ack :: "duration \<Rightarrow> nat \<Rightarrow> nat \<Rightarrow> ledbat \<Rightarrow> ledbat" where
  "note_ack rtt_sample bytes_acked reading c =
     c\<lparr>led_flight := led_flight c - bytes_acked,
       bytes_acked_since_update := wrap_add (bytes_acked_since_update c) bytes_acked,
       history := update_history rtt_sample reading (history c), delays := add_sample rtt_sample (delays c)\<rparr>"

definition dispatch :: "nat \<Rightarrow> duration \<Rightarrow> duration \<Rightarrow> nat \<Rightarrow> nat \<Rightarrow> ledbat \<Rightarrow> ledbat" where
  "dispatch bytes_acked queuing_delay base_delay pre_ack_flightsize reading c =
     (if led_state c = SlowStart then handle_slow_start bytes_acked queuing_delay base_delay reading c
      else
        (let (handled, c) =
           (if led_state c = CongestionAvoidance \<and> \<not> enable_periodic_slowdown c then (False, c)
            else handle_congestion_state bytes_acked queuing_delay base_delay reading c)
         in if handled then c else congestion_avoidance bytes_acked queuing_delay base_delay pre_ack_flightsize c))"

definition ledbat_on_ack :: "duration \<Rightarrow> nat \<Rightarrow> ledbat_clock \<Rightarrow> ledbat \<Rightarrow> ledbat" where
  "ledbat_on_ack rtt_sample bytes_acked clock c =
     (let pre_ack_flightsize = led_flight c;
          c = note_ack rtt_sample bytes_acked (at_history clock) c
      in if \<not> filter_is_ready (delays c) then c
         else
           (let filtered_rtt = (case filtered_delay (delays c) of Some d \<Rightarrow> d | None \<Rightarrow> rtt_sample);
                base_delay = history_base_delay (history c);
                queuing_delay = filtered_rtt - base_delay;
                c = c\<lparr>queuing_delay_nanos := as_u64 queuing_delay\<rparr>;
                now = at_update clock - led_epoch_nanos c
            in if now - last_update_nanos c < as_u64 base_delay then c
               else
                 (let c = c\<lparr>last_update_nanos := now\<rparr>;
                      bytes_acked_total = bytes_acked_since_update c;
                      c = c\<lparr>bytes_acked_since_update := 0\<rparr>
                  in if bytes_acked_total = 0 then c
                     else dispatch bytes_acked_total queuing_delay base_delay pre_ack_flightsize (at_phase clock) c)))"

definition ledbat_on_ack_without_rtt :: "nat \<Rightarrow> ledbat \<Rightarrow> ledbat" where
  "ledbat_on_ack_without_rtt bytes_acked c = c\<lparr>led_flight := led_flight c - bytes_acked\<rparr>"

definition ledbat_on_loss :: "ledbat \<Rightarrow> ledbat" where
  "ledbat_on_loss c =
     (let c = c\<lparr>total_losses := wrap_add (total_losses c) 1\<rparr>;
          c = (if led_state c = SlowStart
               then c\<lparr>led_state := CongestionAvoidance, slow_start_exits := wrap_add (slow_start_exits c) 1\<rparr> else c)
      in c\<lparr>led_cwnd := max (led_cwnd c div 2) (led_min_cwnd c)\<rparr>)"

definition ledbat_on_timeout :: "ledbat \<Rightarrow> ledbat" where
  "ledbat_on_timeout c =
     (let c = c\<lparr>total_losses := wrap_add (total_losses c) 1, total_timeouts := wrap_add (total_timeouts c) 1\<rparr>;
          floor = calculate_adaptive_floor c
      in c\<lparr>led_cwnd := max LEDBAT_MSS (max (floor div 4) (led_min_cwnd c)), ssthresh := max (led_cwnd c div 2) floor,
           led_state := SlowStart, next_slowdown_time_nanos := u64_max\<rparr>)"

definition ledbat_current_rate :: "duration \<Rightarrow> ledbat \<Rightarrow> nat" where
  "ledbat_current_rate rtt c = f64_to_u64 (f64_div (f64_of_nat (led_cwnd c)) (as_secs_f64 (max rtt (millis 1))))"

datatype ledbat_event =
    Ledbat_Send nat
  | Ledbat_Ack duration nat ledbat_clock
  | Ledbat_Ack_Without_Rtt nat
  | Ledbat_Loss
  | Ledbat_Timeout

fun ledbat_step :: "ledbat \<Rightarrow> ledbat_event \<Rightarrow> ledbat" where
  "ledbat_step c (Ledbat_Send bytes) = ledbat_on_send bytes c"
| "ledbat_step c (Ledbat_Ack rtt bytes clock) = ledbat_on_ack rtt bytes clock c"
| "ledbat_step c (Ledbat_Ack_Without_Rtt bytes) = ledbat_on_ack_without_rtt bytes c"
| "ledbat_step c Ledbat_Loss = ledbat_on_loss c"
| "ledbat_step c Ledbat_Timeout = ledbat_on_timeout c"

section \<open>The delay filter\<close>

lemma least_delay_fold:
  "foldl (\<lambda>m nanos. if nanos \<noteq> EMPTY_DELAY_NANOS \<and> nanos < m then nanos else m) m xs = Min (insert m (set xs - {EMPTY_DELAY_NANOS}))"
proof (induction xs arbitrary: m)
  case (Cons x xs)
  let ?S = "set xs - {EMPTY_DELAY_NANOS}"
  show ?case
  proof (cases "x = EMPTY_DELAY_NANOS")
    case False
    then have "set (x # xs) - {EMPTY_DELAY_NANOS} = insert x ?S" by auto
    moreover have "Min (insert m (insert x T)) = Min (insert (min x m) T)" if "finite T" for T
      using that by (cases "T = {}") (simp_all add: min.assoc min.left_commute min.commute)
    moreover have "(if x < m then x else m) = min x m" by (simp add: min_def)
    ultimately show ?thesis using False Cons.IH [of "min x m"] by simp
  qed (simp add: Cons.IH)
qed simp

definition delay_filter_ok :: "nat list \<Rightarrow> delay_filter \<Rightarrow> bool" where
  "delay_filter_ok rs f \<longleftrightarrow> write_index f = length rs \<and> ring_ok 4 EMPTY_DELAY_NANOS rs (delay_samples f)"

lemma run_delay_filter:
  "length rs \<le> u64_max \<Longrightarrow> \<forall>r \<in> set rs. r < u64_max \<Longrightarrow> delay_filter_ok rs (foldl (\<lambda>f r. add_sample r f) new_delay_filter rs)"
proof (induction rs rule: rev_induct)
  case (snoc r rs)
  then show ?case using ring_put [of 4 EMPTY_DELAY_NANOS rs _ r] by (simp add: delay_filter_ok_def add_sample_def DELAY_FILTER_SIZE_def)
qed (simp add: delay_filter_ok_def new_delay_filter_def ring_new DELAY_FILTER_SIZE_def)

lemma delay_filter_exact:
  assumes "length rs \<le> u64_max" "\<forall>r \<in> set rs. r < u64_max" "rs \<noteq> []"
  shows "filtered_delay (foldl (\<lambda>f r. add_sample r f) new_delay_filter rs) = Some (Min (set (last_samples 4 rs)))"
proof -
  let ?f = "foldl (\<lambda>f r. add_sample r f) new_delay_filter rs" and ?L = "set (last_samples 4 rs)"
  have ok: "ring_ok 4 EMPTY_DELAY_NANOS rs (delay_samples ?f)" using run_delay_filter [OF assms(1,2)] by (simp add: delay_filter_ok_def)
  have sub: "\<forall>r \<in> ?L. r < u64_max" using assms(2) by (auto simp: last_samples_def dest: in_set_dropD)
  have ne: "?L \<noteq> {}" using assms(3) by (cases rs) (simp_all add: last_samples_def)
  have "set (delay_samples ?f) - {EMPTY_DELAY_NANOS} = ?L"
    using ring_set [OF ok] sub by (auto simp: EMPTY_DELAY_NANOS_def)
  then have "least_delay (delay_samples ?f) = Min (insert u64_max ?L)" by (simp only: least_delay_def least_delay_fold)
  also have "\<dots> = min u64_max (Min ?L)" using ne by (intro Min_insert) simp
  finally have "least_delay (delay_samples ?f) = Min ?L" "Min ?L < u64_max" using sub Min_in [OF _ ne] by (auto simp: min_def)
  then show ?thesis by (simp add: filtered_delay_def)
qed

section \<open>The bytes in flight\<close>

fun ledbat_sent :: "ledbat_event \<Rightarrow> nat" where
  "ledbat_sent (Ledbat_Send bytes) = bytes"
| "ledbat_sent _ = 0"

fun ledbat_acked :: "ledbat_event \<Rightarrow> nat" where
  "ledbat_acked (Ledbat_Ack _ bytes _) = bytes"
| "ledbat_acked (Ledbat_Ack_Without_Rtt bytes) = bytes"
| "ledbat_acked _ = 0"

lemma store_cwnd_flight [simp]: "led_flight (store_cwnd w c) = led_flight c"
  by (simp add: store_cwnd_def)

lemma slow_start_flight [simp]: "led_flight (handle_slow_start b q d r c) = led_flight c"
  by (simp add: handle_slow_start_def leave_slow_start_def Let_def)

lemma congestion_state_flight [simp]: "led_flight (snd (handle_congestion_state b q d r c)) = led_flight c"
  by (cases "led_state c")
    (simp_all add: handle_congestion_state_def start_slowdown_def handle_frozen_def handle_ramping_up_def complete_slowdown_def Let_def)

lemma avoidance_flight [simp]: "led_flight (congestion_avoidance b q d p c) = led_flight c"
  by (simp add: congestion_avoidance_def count_min_cwnd_def count_change_def Let_def)

lemma dispatch_flight [simp]: "led_flight (dispatch b q d p r c) = led_flight c"
  by (simp add: dispatch_def split_beta)

lemma note_ack_flight [simp]: "led_flight (note_ack rtt bytes r c) = led_flight c - bytes"
  by (simp add: note_ack_def)

lemma ack_flight: "led_flight (ledbat_on_ack rtt bytes clock c) = led_flight c - bytes"
  by (simp add: ledbat_on_ack_def Let_def)

interpretation lb: flight_accounting ledbat_step led_flight ledbat_sent ledbat_acked
proof
  show "led_flight (ledbat_step c e) = wrap_add (led_flight c) (ledbat_sent e) - ledbat_acked e" if "led_flight c \<le> u64_max" for c e
    using that
    by (cases e) (simp_all add: ack_flight ledbat_on_send_def ledbat_on_ack_without_rtt_def ledbat_on_loss_def ledbat_on_timeout_def Let_def)
qed

section \<open>The window stays between its bounds\<close>

text \<open>The windows a configuration allows: exact as doubles, and with room for one packet and the configured floor.\<close>

definition config_ok :: "ledbat_config \<Rightarrow> bool" where
  "config_ok conf \<longleftrightarrow>
     0 < conf_min_cwnd conf \<and> conf_min_cwnd conf \<le> conf_initial_cwnd conf \<and> conf_initial_cwnd conf \<le> conf_max_cwnd conf
     \<and> 0 \<le> conf_delay_exit_threshold conf \<and> conf_delay_exit_threshold conf \<le> 1
     \<and> conf_max_cwnd conf < 2 ^ 53 \<and> LEDBAT_MSS \<le> conf_max_cwnd conf
     \<and> (case conf_min_ssthresh conf of Some m \<Rightarrow> m \<le> 4 * conf_max_cwnd conf | None \<Rightarrow> True)"

definition ledbat_ok :: "ledbat_config \<Rightarrow> ledbat \<Rightarrow> bool" where
  "ledbat_ok conf c \<longleftrightarrow>
     led_min_cwnd c = conf_min_cwnd conf \<and> led_max_cwnd c = conf_max_cwnd conf \<and> min_ssthresh c = conf_min_ssthresh conf
     \<and> conf_min_cwnd conf \<le> led_cwnd c \<and> led_cwnd c \<le> conf_max_cwnd conf
     \<and> pre_slowdown_cwnd c \<le> conf_max_cwnd conf \<and> slow_start_exit_cwnd c \<le> conf_max_cwnd conf"

lemma config_range: "config_ok conf \<Longrightarrow> conf_min_cwnd conf \<le> conf_max_cwnd conf \<and> conf_max_cwnd conf < 2 ^ 53"
  by (simp add: config_ok_def)

lemma div_le_bound: "a \<le> b \<Longrightarrow> a div k \<le> (b :: nat)"
  by (rule le_trans [OF div_le_dividend])

lemma store_ok: "ledbat_ok conf c \<Longrightarrow> conf_min_cwnd conf \<le> w \<Longrightarrow> w \<le> conf_max_cwnd conf \<Longrightarrow> ledbat_ok conf (store_cwnd w c)"
  by (simp add: ledbat_ok_def store_cwnd_def)

lemma slow_start_ok:
  assumes "config_ok conf" "ledbat_ok conf c"
  shows "ledbat_ok conf (handle_slow_start b q d r c)"
proof -
  have "ledbat_ok conf (leave_slow_start d r c)"
    using assms(2) config_range [OF assms(1)] by (simp add: leave_slow_start_def ledbat_ok_def Let_def)
  moreover have "ledbat_ok conf (store_cwnd (min (led_cwnd c + b) (led_max_cwnd c)) c)"
    using assms(2) config_range [OF assms(1)] by (intro store_ok) (simp_all add: ledbat_ok_def)
  ultimately show ?thesis using assms(2) by (simp add: handle_slow_start_def)
qed

lemma start_slowdown_ok:
  assumes "config_ok conf" "ledbat_ok conf c"
  shows "ledbat_ok conf (snd (start_slowdown now d c))"
  using assms(2) config_range [OF assms(1)]
  by (simp add: div_le_bound start_slowdown_def ledbat_ok_def)

lemma frozen_ok:
  assumes "config_ok conf" "ledbat_ok conf c"
  shows "ledbat_ok conf (handle_frozen now d c)"
  using assms(2) config_range [OF assms(1)]
  by (simp add: div_le_bound handle_frozen_def ledbat_ok_def)

lemma ramping_up_ok:
  assumes "ledbat_ok conf c"
  shows "ledbat_ok conf (handle_ramping_up b q d now c)"
  using assms by (simp add: handle_ramping_up_def complete_slowdown_def store_cwnd_def ledbat_ok_def Let_def)

lemma congestion_state_ok:
  assumes "config_ok conf" "ledbat_ok conf c"
  shows "ledbat_ok conf (snd (handle_congestion_state b q d r c))"
proof (cases "led_state c")
  case WaitingForSlowdown
  then show ?thesis using start_slowdown_ok [OF assms, of "r - led_epoch_nanos c" d] assms(2)
    by (simp add: handle_congestion_state_def Let_def split_beta) (simp add: ledbat_ok_def)
next
  case InSlowdown
  then show ?thesis using assms(2) by (simp add: handle_congestion_state_def ledbat_ok_def)
qed (use assms in \<open>simp_all add: handle_congestion_state_def Let_def start_slowdown_ok frozen_ok ramping_up_ok\<close>)

lemma f64_to_u64_between:
  assumes "m \<le> M" "M < 2 ^ 53"
  shows "m \<le> f64_to_u64 (min (max x (f64_of_nat m)) (f64_of_nat M))" "f64_to_u64 (min (max x (f64_of_nat m)) (f64_of_nat M)) \<le> M"
proof -
  let ?y = "min (max x (f64_of_nat m)) (f64_of_nat M)"
  have y: "of_nat m \<le> ?y" "?y \<le> of_nat M" using assms by simp_all
  have "int m \<le> \<lfloor>?y\<rfloor>" using y(1) by (simp add: le_floor_iff)
  moreover have "\<lfloor>?y\<rfloor> \<le> int M" using floor_mono [OF y(2)] by simp
  moreover have "M \<le> u64_max" using assms(2) by (simp add: u64_max_def)
  ultimately show "m \<le> f64_to_u64 ?y" "f64_to_u64 ?y \<le> M" using assms(1) by (simp_all add: f64_to_u64_def)
qed

lemma avoidance_ok:
  assumes "config_ok conf" "ledbat_ok conf c"
  shows "ledbat_ok conf (congestion_avoidance b q d p c)"
proof -
  have w: "conf_min_cwnd conf \<le> avoidance_window ch p c" "avoidance_window ch p c \<le> conf_max_cwnd conf" for ch
    using f64_to_u64_between config_range [OF assms(1)] assms(2) by (simp_all add: avoidance_window_def ledbat_ok_def Let_def)
  have "ledbat_ok conf (count_min_cwnd n m (count_change ch c))" for n m ch
    using assms(2) by (simp add: count_min_cwnd_def count_change_def ledbat_ok_def)
  then show ?thesis unfolding congestion_avoidance_def Let_def by (rule store_ok) (rule w)+
qed

lemma dispatch_ok:
  assumes "config_ok conf" "ledbat_ok conf c"
  shows "ledbat_ok conf (dispatch b q d p r c)"
  using assms slow_start_ok congestion_state_ok avoidance_ok by (simp add: dispatch_def split_beta)

lemma ack_ok:
  assumes "config_ok conf" "ledbat_ok conf c"
  shows "ledbat_ok conf (ledbat_on_ack rtt bytes clock c)"
proof -
  have "ledbat_ok conf (note_ack rtt bytes r c)" for r using assms(2) by (simp add: note_ack_def ledbat_ok_def)
  moreover have "ledbat_ok conf (d\<lparr>queuing_delay_nanos := q\<rparr>)" "ledbat_ok conf (d\<lparr>last_update_nanos := t\<rparr>)"
    "ledbat_ok conf (d\<lparr>bytes_acked_since_update := n\<rparr>)" if "ledbat_ok conf d" for d q t n
    using that by (simp_all add: ledbat_ok_def)
  ultimately show ?thesis using dispatch_ok [OF assms(1)] unfolding ledbat_on_ack_def Let_def by (simp only: split: if_split) simp
qed

lemma adaptive_floor_le:
  assumes "config_ok conf" "ledbat_ok conf c"
  shows "calculate_adaptive_floor c \<le> 4 * conf_max_cwnd conf"
  using assms config_range [OF assms(1)]
  by (cases "conf_min_ssthresh conf") (auto simp: calculate_adaptive_floor_def config_ok_def ledbat_ok_def Let_def)

lemma timeout_ok:
  assumes "config_ok conf" "ledbat_ok conf c"
  shows "ledbat_ok conf (ledbat_on_timeout c)"
proof -
  let ?c = "c\<lparr>total_losses := wrap_add (total_losses c) 1, total_timeouts := wrap_add (total_timeouts c) 1\<rparr>"
  have "ledbat_ok conf ?c" using assms(2) by (simp add: ledbat_ok_def)
  from adaptive_floor_le [OF assms(1) this] have "calculate_adaptive_floor ?c div 4 \<le> conf_max_cwnd conf" by simp
  then show ?thesis using assms by (simp add: ledbat_on_timeout_def Let_def ledbat_ok_def config_ok_def)
qed

lemma ledbat_step_ok: "config_ok conf \<Longrightarrow> ledbat_ok conf c \<Longrightarrow> ledbat_ok conf (ledbat_step c e)"
proof (cases e)
  case Ledbat_Loss
  assume "config_ok conf" "ledbat_ok conf c"
  then show ?thesis
    by (simp add: div_le_bound Ledbat_Loss ledbat_on_loss_def Let_def ledbat_ok_def config_ok_def)
qed (simp_all add: ack_ok timeout_ok, simp_all add: ledbat_ok_def ledbat_on_send_def ledbat_on_ack_without_rtt_def)

lemma ledbat_run_ok: "config_ok conf \<Longrightarrow> ledbat_ok conf c \<Longrightarrow> ledbat_ok conf (foldl ledbat_step c es)"
  by (induction es arbitrary: c) (simp_all add: ledbat_step_ok)

lemma new_ledbat_ok: "config_ok conf \<Longrightarrow> \<exists>c. new_ledbat conf random_byte r1 r2 = Some c \<and> ledbat_ok conf c"
  by (simp add: new_ledbat_def config_ok_def ledbat_ok_def)

text \<open>
  C15: a controller made from a configuration in order keeps its window between the configured bounds for
  every sequence of sends, acknowledgements, losses and timeouts and whatever the clock reads.
\<close>

theorem ledbat_window_bounded:
  assumes "config_ok conf"
  shows "\<exists>c. new_ledbat conf random_byte r1 r2 = Some c
    \<and> conf_min_cwnd conf \<le> led_cwnd (foldl ledbat_step c es) \<and> led_cwnd (foldl ledbat_step c es) \<le> conf_max_cwnd conf"
proof -
  obtain c where "new_ledbat conf random_byte r1 r2 = Some c" "ledbat_ok conf c" using new_ledbat_ok [OF assms] by blast
  then show ?thesis using ledbat_run_ok [OF assms, of c es] by (auto simp: ledbat_ok_def)
qed

theorem ledbat_window_bounded_witness:
  "\<exists>c. new_ledbat default_ledbat_config 20 0 0 = Some c
    \<and> 2848 \<le> led_cwnd (foldl ledbat_step c [Ledbat_Send 1424, Ledbat_Loss, Ledbat_Timeout])
    \<and> led_cwnd (foldl ledbat_step c [Ledbat_Send 1424, Ledbat_Loss, Ledbat_Timeout]) \<le> 1000000000"
proof -
  have "config_ok default_ledbat_config"
    by (simp add: config_ok_def default_ledbat_config_def LEDBAT_MSS_def MAX_DATA_SIZE_def MAX_PACKET_SIZE_def)
  from ledbat_window_bounded [OF this, of 20 0 0 "[Ledbat_Send 1424, Ledbat_Loss, Ledbat_Timeout]"] show ?thesis by (simp add: default_ledbat_config_def)
qed

section \<open>No slowdown after a timeout\<close>

text \<open>
  A timeout cancels the scheduled slowdown, and the next one is scheduled only on leaving slow start for
  the first time.
\<close>

definition slowdowns_over :: "nat \<Rightarrow> ledbat \<Rightarrow> bool" where
  "slowdowns_over n c \<longleftrightarrow>
     initial_slow_start_completed c \<and> next_slowdown_time_nanos c = u64_max \<and> periodic_slowdowns c = n
     \<and> (led_state c = SlowStart \<or> led_state c = CongestionAvoidance)"

lemma dispatch_over:
  assumes "slowdowns_over n c"
  shows "slowdowns_over n (dispatch b q d p r c)"
proof (cases "led_state c = SlowStart")
  case True
  then show ?thesis using assms
    by (simp add: dispatch_def handle_slow_start_def leave_slow_start_def store_cwnd_def slowdowns_over_def Let_def)
next
  case False
  then have "led_state c = CongestionAvoidance" "next_slowdown_time_nanos c = u64_max" using assms by (auto simp: slowdowns_over_def)
  then have "dispatch b q d p r c = congestion_avoidance b q d p c"
    by (simp add: dispatch_def handle_congestion_state_def Let_def)
  then show ?thesis using assms
    by (simp add: congestion_avoidance_def store_cwnd_def count_min_cwnd_def count_change_def slowdowns_over_def Let_def)
qed

lemma ack_over:
  assumes "slowdowns_over n c"
  shows "slowdowns_over n (ledbat_on_ack rtt bytes clock c)"
proof -
  have "slowdowns_over n (note_ack rtt bytes r c)" for r using assms by (simp add: note_ack_def slowdowns_over_def)
  moreover have "slowdowns_over n (d\<lparr>queuing_delay_nanos := q\<rparr>)" "slowdowns_over n (d\<lparr>last_update_nanos := t\<rparr>)"
    "slowdowns_over n (d\<lparr>bytes_acked_since_update := k\<rparr>)" if "slowdowns_over n d" for d q t k
    using that by (simp_all add: slowdowns_over_def)
  ultimately show ?thesis using dispatch_over unfolding ledbat_on_ack_def Let_def by (simp only: split: if_split) simp
qed

lemma step_over: "slowdowns_over n c \<Longrightarrow> slowdowns_over n (ledbat_step c e)"
  by (cases e) (simp_all add: ack_over, auto simp: slowdowns_over_def ledbat_on_send_def ledbat_on_ack_without_rtt_def
      ledbat_on_loss_def ledbat_on_timeout_def Let_def)

interpretation lo: invariant_machine ledbat_step "slowdowns_over n" for n
  by unfold_locales (rule step_over)

text \<open>
  C24: once the first slow start is over, a timeout ends the periodic slowdowns for good: whatever events
  follow, none is started.
\<close>

theorem no_slowdown_after_timeout:
  assumes "initial_slow_start_completed c"
  shows "periodic_slowdowns (foldl ledbat_step (ledbat_on_timeout c) es) = periodic_slowdowns c"
proof -
  have "slowdowns_over (periodic_slowdowns c) (ledbat_on_timeout c)"
    using assms by (simp add: slowdowns_over_def ledbat_on_timeout_def Let_def)
  from lo.run_inv [OF this] show ?thesis by (simp add: slowdowns_over_def)
qed

definition sample_config :: ledbat_config where
  "sample_config = default_ledbat_config\<lparr>conf_ssthresh := 0, randomize_ssthresh := False\<rparr>"

definition sample_ledbat :: ledbat where
  "sample_ledbat = foldl ledbat_step (the (new_ledbat sample_config 0 0 0))
     [Ledbat_Send 2000, Ledbat_Ack 5 1000 \<lparr>at_history = 7, at_update = 7, at_phase = 7\<rparr>,
      Ledbat_Ack 5 1000 \<lparr>at_history = 9, at_update = 9, at_phase = 9\<rparr>]"

lemma sample_ledbat_completed: "initial_slow_start_completed sample_ledbat"
proof -
  have small: "n < u64_max" "n \<le> u64_max" "n \<noteq> u64_max" "u64_max \<noteq> n" if "n \<le> 100000" for n using that by (simp_all add: u64_max_def)
  have rep: "replicate 4 x = [x, x, x, x]" "replicate 10 x = [x, x, x, x, x, x, x, x, x, x]" for x :: nat by (simp_all add: numeral_eq_Suc)
  show ?thesis
    by (simp add: sample_ledbat_def sample_config_def default_ledbat_config_def new_ledbat_def ledbat_on_send_def ledbat_on_ack_def
        note_ack_def add_sample_def new_delay_filter_def new_base_delay_history_def update_history_def update_current_min_def
        filter_is_ready_def DELAY_FILTER_SIZE_def BASE_HISTORY_SIZE_def history_base_delay_def least_delay_def filtered_delay_def
        EMPTY_DELAY_NANOS_def dispatch_def handle_slow_start_def leave_slow_start_def jittered_ssthresh_def Let_def small rep)
qed

theorem no_slowdown_after_timeout_witness:
  "periodic_slowdowns (foldl ledbat_step (ledbat_on_timeout sample_ledbat) [Ledbat_Loss]) = periodic_slowdowns sample_ledbat"
  by (rule no_slowdown_after_timeout [OF sample_ledbat_completed])

end
