(* ===== verification/Congestion_Control.thy ===== *)
theory Congestion_Control
  imports Fixed_Rate Bbr Ledbat
begin

text \<open>
  The controller a connection holds: \<open>CongestionController\<close> and its configuration
  (\<open>transport/congestion_control.rs\<close>), which dispatches every call to the controller of the configured algorithm.
  A call carries the readings of the time source that the algorithm makes.

  Shown: whatever configuration is built, the bytes in flight are those sent and not acknowledged.
\<close>

section \<open>Configuration\<close>

datatype congestion_control_algorithm = Bbr_Algorithm | Ledbat_Algorithm | FixedRate_Algorithm

datatype algorithm_config =
    Bbr_Options nat
  | Ledbat_Options bool rat bool bool
  | FixedRate_Options nat

record congestion_control_config =
  algorithm :: congestion_control_algorithm
  cc_initial_cwnd :: nat
  cc_min_cwnd :: nat
  cc_max_cwnd :: nat
  cc_ssthresh :: nat
  cc_min_ssthresh :: "nat option"
  algorithm_config :: algorithm_config

definition from_fixed_rate_config :: "fixed_rate_config \<Rightarrow> congestion_control_config" where
  "from_fixed_rate_config conf =
     \<lparr>algorithm = FixedRate_Algorithm, cc_initial_cwnd = u64_max div 2, cc_min_cwnd = u64_max div 2, cc_max_cwnd = u64_max div 2,
      cc_ssthresh = rate_bytes_per_sec conf, cc_min_ssthresh = None, algorithm_config = FixedRate_Options (rate_bytes_per_sec conf)\<rparr>"

definition default_congestion_control_config :: congestion_control_config where
  "default_congestion_control_config =
     \<lparr>algorithm = FixedRate_Algorithm, cc_initial_cwnd = u64_max div 2, cc_min_cwnd = u64_max div 2, cc_max_cwnd = u64_max div 2,
      cc_ssthresh = DEFAULT_RATE_BYTES_PER_SEC, cc_min_ssthresh = None, algorithm_config = FixedRate_Options DEFAULT_RATE_BYTES_PER_SEC\<rparr>"

definition from_ledbat_config :: "ledbat_config \<Rightarrow> congestion_control_config" where
  "from_ledbat_config conf =
     \<lparr>algorithm = Ledbat_Algorithm, cc_initial_cwnd = conf_initial_cwnd conf, cc_min_cwnd = conf_min_cwnd conf,
      cc_max_cwnd = conf_max_cwnd conf, cc_ssthresh = conf_ssthresh conf, cc_min_ssthresh = conf_min_ssthresh conf,
      algorithm_config = Ledbat_Options (enable_slow_start conf) (conf_delay_exit_threshold conf)
        (conf_enable_periodic_slowdown conf) (randomize_ssthresh conf)\<rparr>"

definition from_bbr_config :: "bbr_config \<Rightarrow> congestion_control_config" where
  "from_bbr_config conf =
     \<lparr>algorithm = Bbr_Algorithm, cc_initial_cwnd = initial_cwnd conf, cc_min_cwnd = min_cwnd conf, cc_max_cwnd = max_cwnd conf,
      cc_ssthresh = 1000000, cc_min_ssthresh = None, algorithm_config = Bbr_Options (startup_min_pacing_rate conf)\<rparr>"

definition new_congestion_control_config :: "congestion_control_algorithm \<Rightarrow> congestion_control_config" where
  "new_congestion_control_config a =
     (case a of
        Bbr_Algorithm \<Rightarrow> from_bbr_config default_bbr_config
      | Ledbat_Algorithm \<Rightarrow> from_ledbat_config default_ledbat_config
      | FixedRate_Algorithm \<Rightarrow> default_congestion_control_config)"

definition with_startup_min_pacing_rate :: "nat \<Rightarrow> congestion_control_config \<Rightarrow> congestion_control_config" where
  "with_startup_min_pacing_rate rate conf =
     (case algorithm_config conf of Bbr_Options _ \<Rightarrow> conf\<lparr>algorithm_config := Bbr_Options rate\<rparr> | _ \<Rightarrow> conf)"

section \<open>The controller\<close>

datatype congestion_controller = Bbr_Controller bbr | Ledbat_Controller ledbat | FixedRate_Controller fixed_rate

text \<open>The random byte and the readings of the clock are those of the constructors; \<open>None\<close> is their panic.\<close>

definition build_bbr :: "congestion_control_config \<Rightarrow> nat \<Rightarrow> bbr" where
  "build_bbr conf reading =
     new_bbr (default_bbr_config\<lparr>initial_cwnd := cc_initial_cwnd conf, min_cwnd := cc_min_cwnd conf, max_cwnd := cc_max_cwnd conf,
       startup_min_pacing_rate := (case algorithm_config conf of Bbr_Options r \<Rightarrow> r | _ \<Rightarrow> startup_min_pacing_rate default_bbr_config)\<rparr>) reading"

definition build_ledbat_config :: "congestion_control_config \<Rightarrow> ledbat_config" where
  "build_ledbat_config conf =
     (let base = default_ledbat_config\<lparr>conf_initial_cwnd := cc_initial_cwnd conf, conf_min_cwnd := cc_min_cwnd conf,
            conf_max_cwnd := cc_max_cwnd conf, conf_ssthresh := cc_ssthresh conf, conf_min_ssthresh := cc_min_ssthresh conf\<rparr>
      in case algorithm_config conf of
           Ledbat_Options slow_start threshold slowdown randomize \<Rightarrow>
             base\<lparr>enable_slow_start := slow_start, conf_delay_exit_threshold := threshold,
                  conf_enable_periodic_slowdown := slowdown, randomize_ssthresh := randomize\<rparr>
         | _ \<Rightarrow> base)"

definition build_inner :: "congestion_control_config \<Rightarrow> nat \<Rightarrow> nat \<Rightarrow> nat \<Rightarrow> congestion_controller option" where
  "build_inner conf random_byte r1 r2 =
     (case algorithm conf of
        Bbr_Algorithm \<Rightarrow> Some (Bbr_Controller (build_bbr conf r1))
      | Ledbat_Algorithm \<Rightarrow> map_option Ledbat_Controller (new_ledbat (build_ledbat_config conf) random_byte r1 r2)
      | FixedRate_Algorithm \<Rightarrow>
          Some (FixedRate_Controller (new_fixed_rate
            \<lparr>rate_bytes_per_sec = (case algorithm_config conf of FixedRate_Options r \<Rightarrow> r | _ \<Rightarrow> DEFAULT_RATE_BYTES_PER_SEC)\<rparr>)))"

definition on_send_with_token :: "nat \<Rightarrow> nat \<Rightarrow> congestion_controller \<Rightarrow> delivery_rate_token option \<times> congestion_controller" where
  "on_send_with_token bytes reading cc =
     (case cc of
        Bbr_Controller c \<Rightarrow> (let (token, c) = bbr_on_send bytes reading c in (Some token, Bbr_Controller c))
      | Ledbat_Controller c \<Rightarrow> (None, Ledbat_Controller (ledbat_on_send bytes c))
      | FixedRate_Controller c \<Rightarrow> (None, FixedRate_Controller (fixed_on_send bytes c)))"

definition cc_on_ack_with_token ::
  "duration \<Rightarrow> nat \<Rightarrow> delivery_rate_token option \<Rightarrow> ack_clock \<Rightarrow> ledbat_clock \<Rightarrow> congestion_controller \<Rightarrow> congestion_controller" where
  "cc_on_ack_with_token rtt bytes token clock led_clock cc =
     (case cc of
        Bbr_Controller c \<Rightarrow> Bbr_Controller (bbr_on_ack_with_token rtt bytes token clock c)
      | Ledbat_Controller c \<Rightarrow> Ledbat_Controller (ledbat_on_ack rtt bytes led_clock c)
      | FixedRate_Controller c \<Rightarrow> FixedRate_Controller (fixed_on_ack rtt bytes c))"

definition cc_on_ack_without_rtt :: "nat \<Rightarrow> ack_clock \<Rightarrow> congestion_controller \<Rightarrow> congestion_controller" where
  "cc_on_ack_without_rtt bytes clock cc =
     (case cc of
        Bbr_Controller c \<Rightarrow> Bbr_Controller (bbr_on_ack_without_rtt bytes clock c)
      | Ledbat_Controller c \<Rightarrow> Ledbat_Controller (ledbat_on_ack_without_rtt bytes c)
      | FixedRate_Controller c \<Rightarrow> FixedRate_Controller (fixed_on_ack_without_rtt bytes c))"

definition cc_on_loss :: "nat \<Rightarrow> congestion_controller \<Rightarrow> congestion_controller" where
  "cc_on_loss reading cc =
     (case cc of
        Bbr_Controller c \<Rightarrow> Bbr_Controller (bbr_on_loss 0 reading c)
      | Ledbat_Controller c \<Rightarrow> Ledbat_Controller (ledbat_on_loss c)
      | FixedRate_Controller c \<Rightarrow> FixedRate_Controller (fixed_on_loss c))"

definition cc_on_timeout :: "congestion_controller \<Rightarrow> congestion_controller" where
  "cc_on_timeout cc =
     (case cc of
        Bbr_Controller c \<Rightarrow> Bbr_Controller (bbr_on_timeout c)
      | Ledbat_Controller c \<Rightarrow> Ledbat_Controller (ledbat_on_timeout c)
      | FixedRate_Controller c \<Rightarrow> FixedRate_Controller (fixed_on_timeout c))"

definition cc_current_cwnd :: "congestion_controller \<Rightarrow> nat" where
  "cc_current_cwnd cc =
     (case cc of Bbr_Controller c \<Rightarrow> bbr_cwnd c | Ledbat_Controller c \<Rightarrow> led_cwnd c | FixedRate_Controller c \<Rightarrow> fixed_current_cwnd c)"

definition cc_current_rate :: "duration \<Rightarrow> congestion_controller \<Rightarrow> nat" where
  "cc_current_rate rtt cc =
     (case cc of
        Bbr_Controller c \<Rightarrow> pacing_rate c
      | Ledbat_Controller c \<Rightarrow> ledbat_current_rate rtt c
      | FixedRate_Controller c \<Rightarrow> fixed_current_rate rtt c)"

definition cc_flightsize :: "congestion_controller \<Rightarrow> nat" where
  "cc_flightsize cc =
     (case cc of Bbr_Controller c \<Rightarrow> bbr_flight c | Ledbat_Controller c \<Rightarrow> led_flight c | FixedRate_Controller c \<Rightarrow> fixed_flight c)"

section \<open>Every sequence of calls\<close>

datatype congestion_event =
    CC_Send nat nat
  | CC_Ack duration nat "delivery_rate_token option" ack_clock ledbat_clock
  | CC_Ack_Without_Rtt nat ack_clock
  | CC_Loss nat
  | CC_Timeout

fun cc_step :: "congestion_controller \<Rightarrow> congestion_event \<Rightarrow> congestion_controller" where
  "cc_step cc (CC_Send bytes reading) = snd (on_send_with_token bytes reading cc)"
| "cc_step cc (CC_Ack rtt bytes token clock led_clock) = cc_on_ack_with_token rtt bytes token clock led_clock cc"
| "cc_step cc (CC_Ack_Without_Rtt bytes clock) = cc_on_ack_without_rtt bytes clock cc"
| "cc_step cc (CC_Loss reading) = cc_on_loss reading cc"
| "cc_step cc CC_Timeout = cc_on_timeout cc"

fun cc_sent :: "congestion_event \<Rightarrow> nat" where
  "cc_sent (CC_Send bytes _) = bytes"
| "cc_sent _ = 0"

fun cc_acked :: "congestion_event \<Rightarrow> nat" where
  "cc_acked (CC_Ack _ bytes _ _ _) = bytes"
| "cc_acked (CC_Ack_Without_Rtt bytes _) = bytes"
| "cc_acked _ = 0"

lemmas cc_ops = on_send_with_token_def cc_on_ack_with_token_def cc_on_ack_without_rtt_def cc_on_loss_def cc_on_timeout_def

text \<open>Each call is an event of the controller it is dispatched to.\<close>

fun bbr_event_of :: "congestion_event \<Rightarrow> bbr_event" where
  "bbr_event_of (CC_Send bytes reading) = Bbr_Send bytes reading"
| "bbr_event_of (CC_Ack rtt bytes token clock _) = Bbr_Ack rtt bytes token clock"
| "bbr_event_of (CC_Ack_Without_Rtt bytes clock) = Bbr_Ack_Without_Rtt bytes clock"
| "bbr_event_of (CC_Loss reading) = Bbr_Loss 0 reading"
| "bbr_event_of CC_Timeout = Bbr_Timeout"

fun ledbat_event_of :: "congestion_event \<Rightarrow> ledbat_event" where
  "ledbat_event_of (CC_Send bytes _) = Ledbat_Send bytes"
| "ledbat_event_of (CC_Ack rtt bytes _ _ clock) = Ledbat_Ack rtt bytes clock"
| "ledbat_event_of (CC_Ack_Without_Rtt bytes _) = Ledbat_Ack_Without_Rtt bytes"
| "ledbat_event_of (CC_Loss _) = Ledbat_Loss"
| "ledbat_event_of CC_Timeout = Ledbat_Timeout"

fun fixed_event_of :: "congestion_event \<Rightarrow> fixed_event" where
  "fixed_event_of (CC_Send bytes _) = Fixed_Send bytes"
| "fixed_event_of (CC_Ack rtt bytes _ _ _) = Fixed_Ack rtt bytes"
| "fixed_event_of (CC_Ack_Without_Rtt bytes _) = Fixed_Ack_Without_Rtt bytes"
| "fixed_event_of (CC_Loss _) = Fixed_Loss"
| "fixed_event_of CC_Timeout = Fixed_Timeout"

lemma cc_step_dispatch:
  "cc_step (Bbr_Controller c) e = Bbr_Controller (bbr_step c (bbr_event_of e))"
  "cc_step (Ledbat_Controller l) e = Ledbat_Controller (ledbat_step l (ledbat_event_of e))"
  "cc_step (FixedRate_Controller f) e = FixedRate_Controller (fixed_step f (fixed_event_of e))"
  by (cases e; simp add: cc_ops split_beta)+

lemma dispatched_bytes:
  "bbr_sent (bbr_event_of e) = cc_sent e" "bbr_acked (bbr_event_of e) = cc_acked e"
  "ledbat_sent (ledbat_event_of e) = cc_sent e" "ledbat_acked (ledbat_event_of e) = cc_acked e"
  "fixed_sent (fixed_event_of e) = cc_sent e" "fixed_acked (fixed_event_of e) = cc_acked e"
  by (cases e; simp)+

interpretation cg: flight_accounting cc_step cc_flightsize cc_sent cc_acked
proof
  show "cc_flightsize (cc_step cc e) = wrap_add (cc_flightsize cc) (cc_sent e) - cc_acked e" if "cc_flightsize cc \<le> u64_max" for cc e
    using that bb.flight_step [of _ "bbr_event_of e"] lb.flight_step [of _ "ledbat_event_of e"] fx.flight_step [of _ "fixed_event_of e"]
    by (cases cc) (simp_all add: cc_flightsize_def cc_step_dispatch dispatched_bytes)
qed

lemma built_idle: "build_inner conf random_byte r1 r2 = Some cc \<Longrightarrow> cc_flightsize cc = 0"
  by (auto simp: build_inner_def cc_flightsize_def new_bbr_def build_bbr_def new_ledbat_def new_fixed_rate_def
      split: congestion_control_algorithm.splits if_splits)

text \<open>
  C6: whichever controller a configuration builds, after any calls whose acknowledgements are for bytes in
  flight the controller counts as in flight exactly the bytes sent and not acknowledged.
\<close>

theorem controller_flight_exact:
  assumes "build_inner conf random_byte r1 r2 = Some cc" "acks_covered cc_sent cc_acked 0 es"
  shows "cc_flightsize (foldl cc_step cc es) + sum_list (map cc_acked es) = sum_list (map cc_sent es)"
  using cg.flight_exact [of cc es] assms(2) built_idle [OF assms(1)] by simp

theorem controller_flight_exact_witness:
  "cc_flightsize (foldl cc_step (Bbr_Controller (build_bbr (from_bbr_config default_bbr_config) 0))
     [CC_Send 1000 1, CC_Timeout, CC_Ack_Without_Rtt 400 \<lparr>at_ack = 2, at_state = 2, at_bdp = 2, at_rate = 2\<rparr>]) + 400 = 1000"
proof -
  let ?es = "[CC_Send 1000 1, CC_Timeout, CC_Ack_Without_Rtt 400 \<lparr>at_ack = 2, at_state = 2, at_bdp = 2, at_rate = 2\<rparr>]"
  have "build_inner (from_bbr_config default_bbr_config) 0 0 0 = Some (Bbr_Controller (build_bbr (from_bbr_config default_bbr_config) 0))"
    by (simp add: build_inner_def from_bbr_config_def)
  moreover have "acks_covered cc_sent cc_acked 0 ?es" by (simp add: u64_max_def)
  ultimately show ?thesis using controller_flight_exact [of "from_bbr_config default_bbr_config" 0 0 0 _ ?es] by simp
qed

end
