(* ===== verification/Spec2Isabelle.thy ===== *)
theory Spec2Isabelle
  imports Received_Packet_Tracker Fair_Queue Hosting_Cache Init_Tracker Packet_Data
    Stream_Buffer Buffer_Concurrency Inbound_Stream Outbound_Stream Streaming F64 Sent_Packet_Tracker Token_Bucket Backoff
    Hosting_Manager Hosting_Restart Interest_Manager Interest_Sync Ring_Location Small_World Peer_Health
    Connection_Evaluator Connection_Manager Router Visited_Peers Connect_Operation Connect_Network Connect_Routing Neighbor_Hosting Broadcast_Queue Access_Control Congestion_Control
begin

text \<open>
  Verification library of the Freenet core node (\<open>src/crates/core\<close>), a peer-to-peer store of contracts.

  \<^bold>\<open>The program.\<close>  A node keeps encrypted UDP connections to the peers of its \<^emph>\<open>ring\<close>, routes
  operations towards a location of the ring, hosts contract states and tells its neighbours which
  contracts it is interested in.  Bottom up: the \<^emph>\<open>transport\<close> (\<open>transport/\<close>) turns messages into packets,
  acknowledges and resends them, paces them and cuts large messages into streams; the \<^emph>\<open>ring\<close> (\<open>ring/\<close>,
  \<open>topology/\<close>, \<open>router/\<close>) decides whom to connect to and whom to ask; the \<^emph>\<open>operations\<close> (\<open>operations/\<close>) are
  state machines over messages, of which joining the ring (CONNECT) is modelled; \<^emph>\<open>hosting\<close>
  (\<open>ring/hosting\<close>, \<open>ring/interest.rs\<close>) keeps contracts and subscriptions; the \<^emph>\<open>contract queue\<close>
  (\<open>contract/\<close>) orders the work on contracts.

  \<^bold>\<open>Conventions\<close> (\<open>Freenet_Prelude\<close>).  A struct is a \<open>record\<close>, an enum a \<open>datatype\<close>, a method a function from
  the state to a result and the new state; \<open>None\<close> or a constructor of an error type stands for a panic or
  an error.  A \<open>HashMap\<close> or \<open>DashMap\<close> is an association list with distinct keys (\<open>hm_get\<close>, \<open>hm_put\<close>, \<open>hm_del\<close>), a
  \<open>BTreeMap\<close> a sorted one; unsigned integers are \<open>nat\<close> with the bound or the wrap-around written out where
  the code depends on it, and \<open>w word\<close> where it works on bits.  An \<open>Instant\<close> is an \<open>int\<close> and a \<open>Duration\<close> a
  \<open>nat\<close>, in nanoseconds; clock readings, random draws, the outcome of sends and third-party code are
  arguments.  Doubles are exact rationals rounded as IEEE-754 does (\<open>F64\<close>); the router, where infinities
  and NaN occur, uses \<open>f64x\<close>.  The locales of the prelude are \<open>invariant_machine\<close> and \<open>started_machine\<close> (an
  invariant kept by every step holds in every reachable state) and \<open>potential_machine\<close> (a potential that
  pays for every step, with the income of the events, bounds the cost of a run); the components interpret them on their own step functions.

  \<^bold>\<open>Transport.\<close>
  \<^item> \<open>Packet_Data\<close>: buffers, nonces, symmetric and intro packets of \<open>transport/packet_data.rs\<close> and the keys of
    \<open>transport/crypto.rs\<close>; the ciphers are parameters.  Round trips, distinct nonces, when decryption panics.
  \<^item> \<open>Received_Packet_Tracker\<close>, \<open>Sent_Packet_Tracker\<close>: \<open>transport/received_packet_tracker.rs\<close> and
    \<open>transport/sent_packet_tracker.rs\<close>.  Duplicates are recognised for the retention time; every
    unacknowledged packet stays queued, receipts acknowledge what they name, resends keep their time.
  \<^item> \<open>Stream_Buffer\<close>, \<open>Buffer_Concurrency\<close>: \<open>transport/peer_connection/streaming_buffer.rs\<close>, sequentially and as
    a step relation over the atomic accesses of concurrent threads.  Reassembly in any order; no
    interleaving loses a fragment or leaves the frontier behind.
  \<^item> \<open>Inbound_Stream\<close>, \<open>Outbound_Stream\<close>, \<open>Streaming\<close>: the files of these names in \<open>transport/peer_connection/\<close>.
    What is sent is what is received (this theory), packets fit, sending ends, a pipe is transparent,
    readers see a prefix of the stream.  \<open>stream_receiver\<close> is the contract of both receivers.
  \<^item> \<open>Token_Bucket\<close>: \<open>transport/token_bucket.rs\<close>, \<open>transport/global_bandwidth.rs\<close>.
  \<^item> \<open>Congestion_Interface\<close>, \<open>Fixed_Rate\<close>, \<open>Bbr_Estimators\<close>, \<open>Bbr\<close>, \<open>Ledbat\<close>, \<open>Congestion_Control\<close>: the three
    controllers of \<open>transport/fixed_rate/\<close>, \<open>transport/bbr/\<close> and \<open>transport/ledbat/\<close>, and the dispatch and
    configuration of \<open>transport/congestion_control.rs\<close>.  \<open>flight_accounting\<close> is the contract that the senders
    rely on, interpreted on all three and on the dispatch: the bytes in flight are those sent and not
    acknowledged.  Windows keep their bounds for every sequence of events, the filters are the extremes of
    the last samples, the pause after a loss is exact; BBR never enters ProbeRTT, and LEDBAT never slows
    down periodically after a timeout.

  \<^bold>\<open>Ring.\<close>
  \<^item> \<open>Ring_Location\<close>, \<open>Small_World\<close>: \<open>ring/location.rs\<close>, \<open>topology/small_world_rand.rs\<close>.  Locations and targets
    are on the ring for every input; the one-pass score is the distance to the nearest neighbour.
  \<^item> \<open>Backoff\<close>, \<open>Peer_Health\<close>, \<open>Connection_Evaluator\<close>: \<open>util/backoff.rs\<close> and its clients, the health and exclusion
    tables, the two windows of scores.
  \<^item> \<open>Connection_Manager\<close>: every operation of \<open>ring/connection_manager.rs\<close> that changes state and the two
    promotions of \<open>node/network_bridge/p2p_protoc.rs\<close>.  In every reachable state the tables agree and the
    limits hold.
  \<^item> \<open>Router\<close>: \<open>router.rs\<close>, \<open>router/isotonic_estimator.rs\<close>, \<open>ring/peer_key_location.rs\<close>; the regression is a
    parameter.  \<open>ranking\<close> is the contract of a comparison that sorting needs, for the three the router uses.

  \<^bold>\<open>Operations.\<close>
  \<^item> \<open>Visited_Peers\<close>: the Bloom filter of \<open>operations/visited_peers.rs\<close>.
  \<^item> \<open>Connect_Operation\<close>: all states and handlers of \<open>operations/connect.rs\<close>, from the choice of the next hop to
    the answer.  A handler returns its effects (messages to send, connections to expect) in order; the
    first failed send loses the operation, as the early return does in the code.
  \<^item> \<open>Connect_Network\<close>: all nodes of one transaction together, with a wire from which messages are delivered
    in any order, lost, or made up.  At most \<open>2 ^ ttl\<close> requests ever arrive, and every connection manager
    keeps its invariant.
  \<^item> \<open>Connect_Routing\<close>: the contract of the trait \<open>RelayContext\<close> (\<open>relay_routing\<close>), where requests may go.

  \<^bold>\<open>Hosting and contracts.\<close>
  \<^item> \<open>Hosting_Cache\<close>, \<open>Hosting_Manager\<close>, \<open>Hosting_Restart\<close>: \<open>ring/hosting/cache.rs\<close>, \<open>ring/hosting.rs\<close> and the rows of
    \<open>contract/storages/redb.rs\<close> they persist.  Evictions are justified, tables agree, a restart hosts again.
  \<^item> \<open>Interest_Manager\<close>, \<open>Interest_Sync\<close>: \<open>ring/interest.rs\<close> refines a relation between peers and contracts; the
    exchange of interests between neighbours.
  \<^item> \<open>Neighbor_Hosting\<close>: \<open>node/neighbor_hosting.rs\<close> and the exchange of two neighbours, which ends with each
    knowing what the other hosts, after a bounded number of messages.
  \<^item> \<open>Broadcast_Queue\<close>: \<open>node/network_bridge/broadcast_queue.rs\<close> with its worker, a bounded list of the newest
    state per contract and peer.
  \<^item> \<open>Fair_Queue\<close>, \<open>Init_Tracker\<close>: \<open>contract/fair_queue.rs\<close> (one FIFO per contract, served in turn, with the
    locale \<open>round_robin\<close>) and \<open>contract/executor/init_tracker.rs\<close>.

  \<^bold>\<open>Clients.\<close>
  \<^item> \<open>Access_Control\<close>: roles, API keys, the provider chain and the middleware of \<open>auth/\<close> and \<open>authz/\<close>; the
    encoding and the hash of secrets are parameters.  A permission is granted to exactly the holders of
    keys that have it and were not revoked.

  \<^bold>\<open>Bounds and fuel.\<close>  All functions are total.  Loops that the code ends by a condition on the data are
  structural or have a measure; the waiting loops of \<open>send_stream\<close> run over the list of clock readings they
  get, and \<open>send_stream_ends\<close> shows that readings past the timeout suffice.

  \<^bold>\<open>Not modelled.\<close>  The event loops and tasks (\<open>select!\<close> over sockets, timers and channels: \<open>peer_connection.rs\<close>,
  \<open>connection_handler.rs\<close>, \<open>p2p_protoc.rs\<close>, \<open>node.rs\<close>, \<open>ring.rs\<close>), whose state changes are calls of the components
  above; the operations GET, PUT, UPDATE and SUBSCRIBE, which interleave with the contract executor; the
  WebAssembly runtime, the databases, the HTTP server and the client API, which are calls of libraries;
  telemetry, configuration, simulation and test support.  The controllers and the estimators are sequences
  of calls: races between the relaxed atomics of one controller are not modelled.
\<close>

section \<open>Streams from sender to receiver\<close>

text \<open>
  C2: End to end.  When \<open>send_stream\<close> reports success, the packets it sent give the message
  back at the receiver: the lock-free buffer for every order of arrival and any duplicates, the
  inbound stream for every order in which each packet arrives once.
\<close>

theorem stream_end_to_end:
  assumes run: "send_stream sid d meta env = (ps, Sent)" and d: "d \<noteq> []" "length d \<le> u32_max"
    and qs: "set qs = snd ` set ps"
  shows "receive_buffered (sf_total_length_bytes (hd qs)) (arrivals qs) = Some d \<and>
         (distinct (map sf_fragment_number qs) \<longrightarrow>
            receive_inbound (sf_total_length_bytes (hd qs)) (arrivals qs) = Some d)"
proof -
  have "payload_split meta d \<noteq> []" using payload_split_ok [OF d] by (simp add: stream_split_def)
  then have "qs \<noteq> []" using all_numbers [OF run qs] by (cases qs) (auto simp: Suc_le_eq)
  then have len: "sf_total_length_bytes (hd qs) = length d"
    using send_stream_payloads(4) [OF run] qs d(2) hd_in_set [of qs] by auto
  have "receive_buffered (length d) (arrivals qs) = Some d"
    using receive_buffered_numbered [OF payload_split_ok [OF d]] arrivals_numbered [OF run] all_numbers [OF run qs] qs
    by simp
  moreover have "receive_inbound (length d) (arrivals qs) = Some d" if "distinct (map sf_fragment_number qs)"
    by (rule ri.delivers_sent [OF run d qs that])
  ultimately show ?thesis by (simp add: len)
qed

theorem stream_end_to_end_witness:
  "\<exists>ps. send_stream 9 [1, 2] (Some [3])
      [\<lparr>wait_start = 0, wait_reads = [(0, 5000, 1)], send_error = None :: nat option\<rparr>] = (ps, Sent) \<and>
     receive_buffered (sf_total_length_bytes (hd (map snd ps))) (arrivals (map snd ps)) = Some [1, 2]"
proof -
  let ?env = "[\<lparr>wait_start = 0, wait_reads = [(0, 5000, 1)], send_error = None :: nat option\<rparr>]"
  obtain ps where run: "send_stream 9 [1, 2] (Some [3]) ?env = (ps, Sent)"
    by (simp add: send_stream_def total_packets_def meta_overhead_def stream_max_data_size Let_def)
  show ?thesis
    using stream_end_to_end [OF run, of "map snd ps"] run by (auto simp: u32_max_def)
qed

end
